(* ===== verification/Prelude.thy ===== *)
theory Prelude
  imports Main "HOL-Library.Word"
begin

text \<open>
  Shared vocabulary of the development: the machine integers of the code, a small C string
  library (what the code uses of \<^verbatim>\<open>ctype.h\<close>, \<^verbatim>\<open>strings.h\<close> and \<^verbatim>\<open>printf\<close>), byte lanes of a 32-bit
  word, and the generic lemmas on words, lists and functions that the component theories share.

  Conventions.  \<^verbatim>\<open>unsigned\<close>, \<^verbatim>\<open>uint32_t\<close> and \<^verbatim>\<open>BUSW\<close> are 32-bit words, \<^verbatim>\<open>long\<close> is a 64-bit word (the
  host is LP64), an \<^verbatim>\<open>unsigned char\<close> or the eight bits of a \<^verbatim>\<open>char\<close> is an 8-bit word.  An \<^verbatim>\<open>int\<close> used
  as a counter that stays far from its bounds is an \<^typ>\<open>int\<close> or a \<^typ>\<open>nat\<close>.  A text is a list of
  bytes.  \<^verbatim>\<open>model_defs\<close> collects the definitions a proof unfolds to run the model.
\<close>

unbundle bit_operations_syntax

type_synonym u8 = "8 word"
type_synonym u16 = "16 word"
type_synonym u32 = "32 word"
type_synonym u64 = "64 word"

text \<open>How a simulated device stops the simulation: an assertion, an \<^verbatim>\<open>exit\<close>, or undefined behaviour.\<close>

datatype fault = Assertion | Exited | Undefined

named_theorems model_defs \<open>definitions of the model, unfolded to run it\<close>
named_theorems inv_intros \<open>preservation facts of component invariants\<close>

section \<open>Words\<close>

lemma word_lt_cases_8:
  "n < 8 \<longleftrightarrow> n = 0 \<or> n = 1 \<or> n = 2 \<or> n = 3 \<or> n = 4 \<or> n = 5 \<or> n = 6 \<or> n = (7::nat)"
  by arith

lemma word_eq_bits:
  fixes a b :: "'a::len word"
  assumes "\<And>n. n < LENGTH('a) \<Longrightarrow> bit a n = bit b n"
  shows "a = b"
  using assms by (intro bit_word_eqI) simp

lemma bit_numeral_mask_iff:
  "bit (mask m :: 'a::len word) n \<longleftrightarrow> n < min LENGTH('a) m"
  by (simp add: bit_mask_iff)

lemma word_and_mask_eq_take_bit: "w AND mask n = take_bit n (w :: 'a::len word)"
  by (simp add: take_bit_eq_mask)

lemma word_push_bit_1_minus_1:
  "(push_bit n 1 - 1 :: 'a::len word) = mask n"
  by (simp add: mask_eq_exp_minus_1 push_bit_eq_mult)

lemma bit_and_push_bit_1:
  "(w AND push_bit n 1 \<noteq> (0 :: 'a::len word)) \<longleftrightarrow> bit w n"
proof
  assume "w AND push_bit n 1 \<noteq> 0"
  then obtain k where "bit (w AND push_bit n 1) k"
    by (auto simp: bit_eq_iff)
  then show "bit w n"
    by (auto simp: bit_simps)
next
  assume "bit w n"
  then have "bit (w AND push_bit n 1) n"
    by (auto simp: bit_simps dest: bit_imp_le_length)
  then show "w AND push_bit n 1 \<noteq> 0"
    by auto
qed

lemma unat_ucast_u8_u32 [simp]: "unat (ucast (b :: u8) :: u32) = unat b"
proof -
  have "unat b < 2 ^ 8" using unsigned_less [of b] by simp
  then show ?thesis by (simp add: unsigned_ucast_eq take_bit_nat_eq_self_iff)
qed

lemma ucast_u8_u32_id [simp]: "ucast (ucast (b :: u8) :: u32) = b"
  by (rule bit_word_eqI) (auto simp: bit_simps)

lemma unat_bound_u32: "unat (w :: u32) < 2 ^ 32"
  using unsigned_less [of w] by simp

lemma unat_of_nat_u32: "n < 2 ^ 32 \<Longrightarrow> unat (of_nat n :: u32) = n"
  by (simp add: unsigned_of_nat take_bit_nat_eq_self_iff)

lemma unat_pow2_u32: "unat (2 ^ k :: u32) = (if k < 32 then 2 ^ k else 0)"
proof -
  have "(2 ^ k :: u32) = of_nat (2 ^ k)" by simp
  then show ?thesis by (simp only: unsigned_of_nat) (simp add: take_bit_of_exp)
qed

lemma unat_take_bit_u32: "unat (take_bit k (w :: u32)) = unat w mod 2 ^ k"
  unfolding unsigned_take_bit_eq by (rule take_bit_eq_mod)

lemma unat_and_not_mask_u32: "unat (w AND NOT (mask n) :: u32) = 2 ^ n * (unat w div 2 ^ n)"
proof -
  have "w AND NOT (mask n) = push_bit n (drop_bit n w)"
    by (rule bit_word_eqI) (auto simp: bit_simps not_less)
  then have "w AND NOT (mask n) = w - take_bit n w"
    using bits_ident [of n w] by (simp only: eq_diff_eq)
  moreover have "take_bit n w \<le> w"
    by (simp add: word_le_nat_alt unat_take_bit_u32)
  ultimately have "unat (w AND NOT (mask n)) = unat w - unat w mod 2 ^ n"
    by (simp add: unat_sub unat_take_bit_u32)
  then show ?thesis by (simp add: minus_mod_eq_mult_div)
qed

lemma sint_signed_take_bit:
  fixes w :: "'a::len word"
  assumes "n < LENGTH('a)"
  shows "sint (signed_take_bit n w) = signed_take_bit n (sint w)"
proof (rule bit_eqI)
  fix k
  have sint_bit: "bit (sint v) k = bit v (min (LENGTH('a) - 1) k)" for v :: "'a word" and k
    by (auto simp: bit_simps min_def)
  have "min (LENGTH('a) - 1) k < LENGTH('a)"
    by (rule min.strict_coboundedI1) simp
  then have "bit (sint (signed_take_bit n w)) k = bit w (min n (min (LENGTH('a) - 1) k))"
    unfolding sint_bit by (simp only: bit_signed_take_bit_iff possible_bit_word simp_thms)
  also have "\<dots> = bit (signed_take_bit n (sint w)) k"
    unfolding bit_signed_take_bit_iff sint_bit by (simp only: min.left_commute possible_bit_int simp_thms)
  finally show "bit (sint (signed_take_bit n w)) k = bit (signed_take_bit n (sint w)) k" .
qed

text \<open>A mask of ones, written as the code writes it, keeps the low bits.\<close>

lemma and_mask_take_bit:
  fixes w :: "'a::len word"
  shows "w AND 1 = take_bit 1 w" "w AND 3 = take_bit 2 w" "w AND 7 = take_bit 3 w"
    "w AND 15 = take_bit 4 w" "w AND 31 = take_bit 5 w" "w AND 63 = take_bit 6 w"
    "w AND 127 = take_bit 7 w" "w AND 255 = take_bit 8 w" "w AND 65535 = take_bit 16 w"
  by (simp_all add: take_bit_eq_mask mask_eq_exp_minus_1)

lemma take_bit_diff_word: "take_bit n (take_bit n a - take_bit n b) = take_bit n (a - b :: 'a::len word)"
  by transfer (simp add: take_bit_diff)

lemma take_bit_minus_left: "take_bit n (take_bit n a - b) = take_bit n (a - b :: 'a::len word)"
  using take_bit_diff_word [of n "take_bit n a" b] take_bit_diff_word [of n a b] by simp

lemma take_bit_add_word: "take_bit n (take_bit n a + take_bit n b) = take_bit n (a + b :: 'a::len word)"
  by transfer (simp add: take_bit_add)

lemma take_bit_diff_eq_iff:
  fixes x y z :: "'a::len word"
  shows "take_bit n (x - y) = take_bit n z \<longleftrightarrow> take_bit n x = take_bit n (y + z)"
proof
  assume "take_bit n (x - y) = take_bit n z"
  then have "take_bit n (take_bit n y + take_bit n (x - y)) = take_bit n (take_bit n y + take_bit n z)" by simp
  then show "take_bit n x = take_bit n (y + z)"
    unfolding take_bit_add_word by simp
next
  assume "take_bit n x = take_bit n (y + z)"
  then have "take_bit n (take_bit n x - y) = take_bit n (take_bit n (y + z) - y)" by simp
  then show "take_bit n (x - y) = take_bit n z" unfolding take_bit_minus_left by simp
qed

lemma unat_add_u32: "unat (a + b :: u32) = (unat a + unat b) mod 2 ^ 32"
  by (simp add: unat_word_ariths)

lemma nat_sint_u32: "0 \<le> sint w \<Longrightarrow> nat (sint (w :: u32)) = unat w"
proof -
  have s: "sint w = take_bit 32 (uint w) - 2 ^ 32 * of_bool (bit (uint w) 31)"
    by (simp add: sint_uint signed_take_bit_eq_take_bit_minus)
  have l: "uint w < 2 ^ LENGTH(32)" by (rule unsigned_less)
  then have t: "take_bit 32 (uint w) = uint w" by (simp add: take_bit_int_eq_self)
  assume "0 \<le> sint w"
  then have "\<not> bit (uint w) 31" using s t l by (cases "bit (uint w) 31") auto
  then show ?thesis using s t by (simp add: nat_uint_eq)
qed

lemma sint_small_u32:
  assumes "unat (w :: u32) < 2 ^ 31"
  shows "sint w = int (unat w)"
proof -
  have "nat (uint w) < 2 ^ 31" using assms by (simp only: nat_uint_eq)
  then have "uint w < 2 ^ 31" by (simp only: nat_less_iff [OF uint_ge_0] of_nat_power of_nat_numeral)
  then have t: "take_bit 31 (uint w) = uint w" by (simp add: take_bit_int_eq_self)
  have "\<not> bit (take_bit 31 (uint w)) 31" unfolding bit_take_bit_iff by simp
  then have "\<not> bit (uint w) 31" unfolding t .
  then show ?thesis by (simp add: sint_uint signed_take_bit_eq_if_positive t)
qed

lemma take_bit_diff_64: "take_bit 32 (take_bit 64 x - take_bit 64 y) = take_bit 32 (x - y :: int)"
proof -
  have "take_bit 32 (take_bit 64 x - take_bit 64 y) = take_bit 32 (take_bit 32 (take_bit 64 x) - take_bit 32 (take_bit 64 y))"
    by (simp only: take_bit_diff)
  also have "\<dots> = take_bit 32 (take_bit 32 x - take_bit 32 y)" by simp
  finally show ?thesis by (simp only: take_bit_diff)
qed

lemma ucast_diff_64: "(ucast (x - y :: u64) :: u32) = ucast x - ucast y"
  by transfer (use take_bit_diff_64 in simp)

lemma ucast_up_down: "ucast (ucast (v :: u32) :: u64) = v"
  by (rule bit_word_eqI) (simp add: bit_ucast_iff)

lemma unat_ucast_64: "unat (w :: u64) < 2 ^ 32 \<Longrightarrow> unat (ucast w :: u32) = unat w"
  by (simp add: unsigned_ucast_eq take_bit_nat_eq_self)

section \<open>Byte lanes\<close>

definition byte_at :: "nat \<Rightarrow> u32 \<Rightarrow> u8" where
  "byte_at k w = ucast (drop_bit (8 * k) w)"

lemma bit_byte_at: "bit (byte_at k w) n \<longleftrightarrow> n < 8 \<and> bit w (8 * k + n)"
  by (auto simp: byte_at_def bit_simps)

lemma byte_at_eqI:
  assumes "\<And>k. k < 4 \<Longrightarrow> byte_at k v = byte_at k w"
  shows "v = w"
proof (rule word_eq_bits)
  fix n assume "n < LENGTH(32)"
  then have k: "n div 8 < 4" by simp
  have "bit (byte_at (n div 8) v) (n mod 8) = bit (byte_at (n div 8) w) (n mod 8)"
    using assms [OF k] by simp
  then show "bit v n = bit w n"
    by (simp add: bit_byte_at)
qed

section \<open>C characters and hexadecimal text\<close>

text \<open>
  \<^verbatim>\<open>isspace\<close> and \<^verbatim>\<open>isdigit\<close> of the C locale on one byte, and the two hexadecimal conversions of
  \<^verbatim>\<open>sprintf\<close> the code uses: \<^verbatim>\<open>%x\<close> (no leading zeros) and \<^verbatim>\<open>%08x\<close>.
\<close>

definition isspace8 :: "u8 \<Rightarrow> bool" where
  "isspace8 c \<longleftrightarrow> c = 0x20 \<or> (0x09 \<le> c \<and> c \<le> 0x0d)"

definition isdigit8 :: "u8 \<Rightarrow> bool" where
  "isdigit8 c \<longleftrightarrow> 0x30 \<le> c \<and> c \<le> 0x39"

definition hex_digit :: "u32 \<Rightarrow> u8" where
  "hex_digit d = (if d < 10 then 0x30 + ucast d else 0x57 + ucast d)"

fun hex_digits :: "nat \<Rightarrow> u32 \<Rightarrow> u8 list" where
  "hex_digits 0 w = []"
| "hex_digits (Suc n) w = hex_digits n (drop_bit 4 w) @ [hex_digit (w AND 15)]"

lemma length_hex_digits [simp]: "length (hex_digits n w) = n"
  by (induction n arbitrary: w) auto

definition fmt_08x :: "u32 \<Rightarrow> u8 list" where
  "fmt_08x w = hex_digits 8 w"

fun hex_len :: "nat \<Rightarrow> u32 \<Rightarrow> nat" where
  "hex_len 0 w = 1"
| "hex_len (Suc n) w = (if drop_bit 4 w = 0 then 1 else Suc (hex_len n (drop_bit 4 w)))"

definition fmt_x :: "u32 \<Rightarrow> u8 list" where
  "fmt_x w = hex_digits (hex_len 7 w) w"

section \<open>Lists and functions\<close>

lemma map_sum_id_Inr [simp]: "map_sum id f x = Inr y \<longleftrightarrow> (\<exists>z. x = Inr z \<and> y = f z)"
  by (cases x) auto

lemma map_upt_id: "length xs = n \<Longrightarrow> map (\<lambda>i. xs ! i) [0..<n] = xs"
  by (auto intro: nth_equalityI)

lemma foldl_fun_upd_range:
  "foldl (\<lambda>m i. m(i := f i)) g is j = (if j \<in> set is then f j else g j)"
  by (induction "is" arbitrary: g) auto

end
