(* ===== verification/ByteOps.thy ===== *)
theory ByteOps
  imports Prelude
begin

text \<open>
  \<^verbatim>\<open>sw/host/byteswap.cpp\<close> (the bridge between the big-endian ZipCPU and a little-endian host) and
  \<^verbatim>\<open>sw/host/twoc.cpp\<close> (signed and unsigned bit fields of a \<^verbatim>\<open>long\<close>).  \<^verbatim>\<open>sim/byteswap.cpp\<close> and
  \<^verbatim>\<open>sim/twoc.cpp\<close> hold the same functions.  The lemmas state the byte permutation each routine
  performs, the round trips between them, and that \<^verbatim>\<open>sbits\<close> is two's complement sign extension.
\<close>

section \<open>byteswap.cpp\<close>

definition byteswap :: "u32 \<Rightarrow> u32" where
  "byteswap v =
     (let r = v AND 0x0ff;
          r = push_bit 8 r; v = drop_bit 8 v;
          r = r OR (v AND 0x0ff);
          r = push_bit 8 r; v = drop_bit 8 v;
          r = r OR (v AND 0x0ff);
          r = push_bit 8 r; v = drop_bit 8 v;
          r = r OR (v AND 0x0ff)
      in r)"

text \<open>The four bytes at the pointer are the arguments.\<close>

definition buildword :: "u8 \<Rightarrow> u8 \<Rightarrow> u8 \<Rightarrow> u8 \<Rightarrow> u32" where
  "buildword p0 p1 p2 p3 =
     (let r = ucast p0; r = push_bit 8 r;
          r = r OR ucast p1; r = push_bit 8 r;
          r = r OR ucast p2; r = push_bit 8 r;
          r = r OR ucast p3
      in r)"

definition buildswap :: "u8 \<Rightarrow> u8 \<Rightarrow> u8 \<Rightarrow> u8 \<Rightarrow> u32" where
  "buildswap p0 p1 p2 p3 =
     (let r = ucast p3; r = push_bit 8 r;
          r = r OR ucast p2; r = push_bit 8 r;
          r = r OR ucast p1; r = push_bit 8 r;
          r = r OR ucast p0
      in r)"

text \<open>The buffer is updated in place, one word after the other.\<close>

definition byteswapbuf :: "nat \<Rightarrow> u32 list \<Rightarrow> u32 list" where
  "byteswapbuf ln buf = foldl (\<lambda>b i. b[i := byteswap (b ! i)]) buf [0..<ln]"

lemma byte_at_byteswap:
  "byte_at 0 (byteswap v) = byte_at 3 v" "byte_at 1 (byteswap v) = byte_at 2 v"
  "byte_at 2 (byteswap v) = byte_at 1 v" "byte_at 3 (byteswap v) = byte_at 0 v"
  by (rule bit_word_eqI, auto simp: bit_byte_at byteswap_def Let_def and_mask_take_bit bit_simps)+

lemma byte_at_buildword:
  "byte_at 0 (buildword a b c d) = d" "byte_at 1 (buildword a b c d) = c"
  "byte_at 2 (buildword a b c d) = b" "byte_at 3 (buildword a b c d) = a"
  by (rule bit_word_eqI, auto simp: bit_byte_at buildword_def Let_def bit_simps dest: bit_imp_le_length)+

lemma buildswap_buildword: "buildswap a b c d = buildword d c b a"
  by (simp add: buildswap_def buildword_def)

lemma word32_byte_eqI:
  assumes "byte_at 0 v = byte_at 0 w" "byte_at 1 v = byte_at 1 w"
    "byte_at 2 v = byte_at 2 w" "byte_at 3 v = byte_at 3 w"
  shows "v = w"
proof (rule byte_at_eqI)
  fix k :: nat assume "k < 4"
  then have "k = 0 \<or> k = 1 \<or> k = 2 \<or> k = 3" by arith
  then show "byte_at k v = byte_at k w" using assms by auto
qed

lemmas byte_simps = byte_at_byteswap byte_at_byteswap [unfolded One_nat_def]
  byte_at_buildword byte_at_buildword [unfolded One_nat_def]

lemma byteswap_byteswap [simp]: "byteswap (byteswap v) = v"
  by (rule word32_byte_eqI) (simp_all add: byte_simps)

lemma byteswap_buildword: "byteswap (buildword a b c d) = buildswap a b c d"
  by (rule word32_byte_eqI) (simp_all add: byte_simps buildswap_buildword)

lemma buildword_byte_at [simp]:
  "buildword (byte_at 3 w) (byte_at 2 w) (byte_at 1 w) (byte_at 0 w) = w"
  by (rule word32_byte_eqI) (simp_all add: byte_simps)

lemma buildword_inject:
  "buildword a b c d = buildword a' b' c' d' \<longleftrightarrow> a = a' \<and> b = b' \<and> c = c' \<and> d = d'"
  by (metis byte_at_buildword)

lemma length_byteswapbuf [simp]: "length (byteswapbuf ln buf) = length buf"
proof -
  have "length (foldl (\<lambda>b i. b[i := byteswap (b ! i)]) buf is) = length buf" for "is"
    by (induction "is" arbitrary: buf) auto
  then show ?thesis by (simp add: byteswapbuf_def)
qed

lemma byteswapbuf_Suc:
  "byteswapbuf (Suc n) buf = (byteswapbuf n buf)[n := byteswap (byteswapbuf n buf ! n)]"
  by (simp add: byteswapbuf_def)

lemma byteswapbuf_nth:
  assumes "j < length buf"
  shows "byteswapbuf ln buf ! j = (if j < ln then byteswap (buf ! j) else buf ! j)"
proof (induction ln)
  case 0
  show ?case by (simp add: byteswapbuf_def)
next
  case (Suc n)
  show ?case
    using Suc assms by (auto simp: byteswapbuf_Suc nth_list_update less_Suc_eq)
qed

lemma byteswapbuf_map:
  assumes "ln \<le> length buf"
  shows "byteswapbuf ln buf = map byteswap (take ln buf) @ drop ln buf"
  using assms by (auto intro!: nth_equalityI simp: byteswapbuf_nth nth_append min_def)

text \<open>\<^verbatim>\<open>byteswapbuf\<close> is its own inverse on any prefix of a buffer, and what it does to the bytes in
  memory is exactly what \<^verbatim>\<open>buildword\<close> and \<^verbatim>\<open>buildswap\<close> disagree on: swapping the words read little
  endian gives the words read big endian.\<close>
lemma byteswapbuf_roundtrip:
  "byteswapbuf ln (byteswapbuf ln buf) = buf
   \<and> byteswapbuf (length bs) (map (\<lambda>(a, b, c, d). buildswap a b c d) bs)
     = map (\<lambda>(a, b, c, d). buildword a b c d) bs"
proof
  show "byteswapbuf ln (byteswapbuf ln buf) = buf"
    by (rule nth_equalityI) (simp_all add: byteswapbuf_nth)
  have "byteswap (buildswap a b c d) = buildword a b c d" for a b c d
    by (simp flip: byteswap_buildword)
  then show "byteswapbuf (length bs) (map (\<lambda>(a, b, c, d). buildswap a b c d) bs)
      = map (\<lambda>(a, b, c, d). buildword a b c d) bs"
    by (simp add: byteswapbuf_map split_def)
qed

section \<open>twoc.cpp\<close>

text \<open>\<^verbatim>\<open>long\<close> is 64 bits wide; the shifts are defined for \<^verbatim>\<open>0 < bits < 64\<close>.\<close>

definition sbits :: "u64 \<Rightarrow> nat \<Rightarrow> u64" where
  "sbits val bits =
     (let r = val AND (push_bit bits 1 - 1)
      in if r AND push_bit (bits - 1) 1 \<noteq> 0 then r OR push_bit bits (- 1) else r)"

definition ubits :: "u64 \<Rightarrow> nat \<Rightarrow> u64" where
  "ubits val bits = val AND (push_bit bits 1 - 1)"

lemma sbits_eq:
  "sbits val bits = (let r = take_bit bits val
     in if bit r (bits - 1) then r OR push_bit bits (- 1) else r)"
  unfolding sbits_def word_push_bit_1_minus_1 word_and_mask_eq_take_bit Let_def
    bit_and_push_bit_1 ..

lemma sbits_signed_take_bit:
  assumes "0 < bits"
  shows "sbits val bits = signed_take_bit (bits - 1) val"
proof (rule bit_word_eqI)
  fix n assume n: "n < LENGTH(64)"
  have "min (bits - 1) n = (if n < bits then n else bits - 1)"
    using assms by (auto simp: min_def)
  then show "bit (sbits val bits) n = bit (signed_take_bit (bits - 1) val) n"
    using n assms by (auto simp: sbits_eq Let_def bit_simps)
qed

lemma ubits_take_bit: "ubits val bits = take_bit bits val"
  unfolding ubits_def word_push_bit_1_minus_1 word_and_mask_eq_take_bit ..

text \<open>For a field of 1 to 63 bits, \<^verbatim>\<open>sbits\<close> reads the low bits of its argument as a two's complement
  number and \<^verbatim>\<open>ubits\<close> reads them as an unsigned one; both depend on those bits only.\<close>
lemma sbits_ubits_value:
  assumes "0 < bits" "bits < 64"
  shows "sint (sbits val bits) = signed_take_bit (bits - 1) (sint val)
    \<and> unat (ubits val bits) = unat val mod 2 ^ bits
    \<and> sbits (ubits val bits) bits = sbits val bits"
proof (intro conjI)
  show "sint (sbits val bits) = signed_take_bit (bits - 1) (sint val)"
    using assms by (simp add: sbits_signed_take_bit sint_signed_take_bit)
  show "unat (ubits val bits) = unat val mod 2 ^ bits"
    by (simp add: ubits_take_bit unsigned_take_bit_eq flip: take_bit_eq_mod)
  show "sbits (ubits val bits) bits = sbits val bits"
    by (simp add: sbits_eq ubits_take_bit)
qed

theorem sbits_ubits_value_witness:
  "sint (sbits 0x2f00d 18) = - 0x10ff3 \<and> unat (ubits 0x7f00d 18) = 0x3f00d"
  using sbits_ubits_value [of 18 "0x2f00d"] sbits_ubits_value [of 18 "0x7f00d"] by simp

end
