(* ===== verification/Comms.thy ===== *)
theory Comms
  imports Prelude
begin

text \<open>
  The low-level link of \<^verbatim>\<open>sw/host/llcomms.cpp\<close>: a descriptor that is written, read and polled, and
  the exceptions the bus code throws.

  The operating system's side of the descriptor is explicit.  \<open>ll_rx\<close> is the traffic the peer
  will send, as the bursts in which it arrives; an empty burst is a moment at which nothing is
  waiting.  \<^verbatim>\<open>poll\<close> answers true when a byte is waiting (or the peer has closed), and on an empty
  burst answers false and lets time pass.  A blocking \<^verbatim>\<open>read\<close> waits for the next byte, and
  returns 0 (which the code turns into an exception) when the peer has closed the connection, the
  end of the list.  \<open>ll_tx\<close> is what has been written.  Every statement holds for every such
  traffic.

  The descriptor is the socket of \<^verbatim>\<open>NETCOMMS\<close>, the one class that the host programs create
  (\<^verbatim>\<open>FPGAOPEN\<close> of \<^verbatim>\<open>port.h\<close>): it is blocking, and a \<^verbatim>\<open>write\<close> on it is taken to be complete while it is open.
  Two things are therefore outside the model.  A \<^verbatim>\<open>write\<close> that fails on an open descriptor or transfers a part
  of the buffer, at which the code throws \<^verbatim>\<open>"Write-Failure"\<close> or fails its \<^verbatim>\<open>assert(nw == len)\<close>, does not occur.
  And \<^verbatim>\<open>TTYCOMMS\<close>, which no program of the repository creates, opens its device with \<^verbatim>\<open>O_NONBLOCK\<close>
  (\<^verbatim>\<open>llcomms.cpp:114\<close>), so that a \<^verbatim>\<open>read\<close> with nothing waiting throws there where the one here waits.
\<close>

section \<open>Exceptions and sequencing\<close>

datatype exn =
    BUSERR u32        \<comment> \<open>the \<^verbatim>\<open>BUSERR\<close> class of \<^verbatim>\<open>devbus.h\<close>\<close>
  | Read_Failure      \<comment> \<open>\<^verbatim>\<open>throw "Read-Failure"\<close>\<close>
  | Write_Failure     \<comment> \<open>\<^verbatim>\<open>throw "Write-Failure"\<close>\<close>
  | Exit_Failure      \<comment> \<open>\<^verbatim>\<open>exit(EXIT_FAILURE)\<close> or \<^verbatim>\<open>exit(-1)\<close>\<close>
  | Assert_Failure
  | Client_Assert   \<comment> \<open>a failed \<^verbatim>\<open>assert\<close> in a client of the bus\<close>
  | Out_of_Fuel     \<comment> \<open>a loop of the code was cut off: it had not ended within its bound\<close>

type_synonym ('s, 'a) io = "'s \<Rightarrow> (exn + 'a) \<times> 's"

definition ret :: "'a \<Rightarrow> 's \<Rightarrow> ('e + 'a) \<times> 's" where
  "ret x = (\<lambda>s. (Inr x, s))"

definition throw :: "'e \<Rightarrow> 's \<Rightarrow> ('e + 'a) \<times> 's" where
  "throw e = (\<lambda>s. (Inl e, s))"

definition seq :: "('s \<Rightarrow> ('e + 'a) \<times> 's) \<Rightarrow> ('a \<Rightarrow> 's \<Rightarrow> ('e + 'b) \<times> 's) \<Rightarrow> 's \<Rightarrow> ('e + 'b) \<times> 's" where
  "seq m f = (\<lambda>s. case m s of (Inl e, s') \<Rightarrow> (Inl e, s') | (Inr x, s') \<Rightarrow> f x s')"

lemma seq_Inl: "m s = (Inl e, s') \<Longrightarrow> seq m f s = (Inl e, s')"
  by (simp add: seq_def)

lemma seq_Inr: "m s = (Inr x, s') \<Longrightarrow> seq m f s = f x s'"
  by (simp add: seq_def)

lemma seq_InrE:
  assumes "seq m f s = (Inr y, s'')"
  obtains x s' where "m s = (Inr x, s')" "f x s' = (Inr y, s'')"
  using assms by (auto simp: seq_def split: prod.splits sum.splits)

lemma ret_app [simp]: "ret x s = (Inr x, s)" and throw_app [simp]: "throw e s = (Inl e, s)"
  by (simp_all add: ret_def throw_def)

text \<open>A loop that runs its body for each element in turn.\<close>

fun iter :: "('a \<Rightarrow> 's \<Rightarrow> ('e + unit) \<times> 's) \<Rightarrow> 'a list \<Rightarrow> 's \<Rightarrow> ('e + unit) \<times> 's" where
  "iter f [] = ret ()"
| "iter f (x # xs) = seq (f x) (\<lambda>_. iter f xs)"

section \<open>LLCOMMSI\<close>

record llcomms =
  ll_open :: bool
  ll_rx :: "u8 list list"
  ll_tx :: "u8 list"
  ll_total_nread :: nat
  ll_total_nwrit :: nat

definition ll_write :: "u8 list \<Rightarrow> (llcomms, unit) io" where
  "ll_write buf l =
     (if \<not> ll_open l \<or> buf = [] then (Inl Write_Failure, l)
      else (Inr (), l\<lparr>ll_tx := ll_tx l @ buf, ll_total_nwrit := ll_total_nwrit l + length buf\<rparr>))"

text \<open>What a blocking \<^verbatim>\<open>read\<close> of up to \<open>len\<close> bytes takes from the traffic.\<close>

fun rx_take :: "nat \<Rightarrow> u8 list list \<Rightarrow> u8 list \<times> u8 list list" where
  "rx_take len [] = ([], [])"
| "rx_take len ([] # bs) = rx_take len bs"
| "rx_take len (b # bs) = (take len b, drop len b # bs)"

definition ll_read :: "nat \<Rightarrow> (llcomms, u8 list) io" where
  "ll_read len l =
     (case rx_take len (ll_rx l) of (got, rx) \<Rightarrow>
        let l = l\<lparr>ll_rx := rx\<rparr> in
        if \<not> ll_open l \<or> got = [] then (Inl Read_Failure, l)
        else (Inr got, l\<lparr>ll_total_nread := ll_total_nread l + length got\<rparr>))"

definition ll_close :: "llcomms \<Rightarrow> llcomms" where
  "ll_close l = l\<lparr>ll_open := False\<rparr>"

fun rx_poll :: "u8 list list \<Rightarrow> bool \<times> u8 list list" where
  "rx_poll [] = (True, [])"
| "rx_poll ([] # bs) = (False, bs)"
| "rx_poll (b # bs) = (True, b # bs)"

definition ll_poll :: "llcomms \<Rightarrow> bool \<times> llcomms" where
  "ll_poll l = (case rx_poll (ll_rx l) of (r, rx) \<Rightarrow> (r, l\<lparr>ll_rx := rx\<rparr>))"

definition ll_available :: "llcomms \<Rightarrow> bool \<times> llcomms" where
  "ll_available l = ll_poll l"

section \<open>Progress\<close>

text \<open>The traffic still to come; every poll that fails and every read that succeeds uses some up.\<close>

definition rx_size :: "llcomms \<Rightarrow> nat" where
  "rx_size l = sum_list (map (\<lambda>b. length b + 1) (ll_rx l))"

lemma rx_take_size:
  "rx_take len rx = (got, rx') \<Longrightarrow>
   sum_list (map (\<lambda>b. length b + 1) rx') + length got \<le> sum_list (map (\<lambda>b. length b + 1) rx)"
  by (induction len rx rule: rx_take.induct) auto

lemma ll_read_progress:
  "ll_read len l = (Inr got, l') \<Longrightarrow> rx_size l' < rx_size l \<and> got \<noteq> [] \<and> length got \<le> len"
proof -
  assume r: "ll_read len l = (Inr got, l')"
  have "rx_take len rx = (got', rx') \<Longrightarrow> length got' \<le> len" for got' rx rx'
    by (induction len rx rule: rx_take.induct) auto
  moreover obtain got' rx' where t: "rx_take len (ll_rx l) = (got', rx')" by force
  moreover note rx_take_size [OF t]
  ultimately show ?thesis
    using r by (cases got') (auto simp: ll_read_def rx_size_def Let_def split: if_splits)
qed

lemma ll_poll_False_progress: "ll_poll l = (False, l') \<Longrightarrow> rx_size l' < rx_size l"
  by (cases "ll_rx l" rule: rx_poll.cases) (auto simp: ll_poll_def rx_size_def)

lemma ll_poll_True: "ll_poll l = (True, l') \<Longrightarrow> l' = l"
  by (cases "ll_rx l" rule: rx_poll.cases) (auto simp: ll_poll_def)

section \<open>Reading one byte at a time\<close>

text \<open>The byte stream the bursts carry: what a sequence of blocking reads sees.\<close>

definition rx_stream :: "llcomms \<Rightarrow> u8 list" where
  "rx_stream l = concat (ll_rx l)"

lemma rx_take_1:
  "concat rx = c # cs \<Longrightarrow> \<exists>rx'. rx_take 1 rx = ([c], rx') \<and> concat rx' = cs"
  by (induction "1::nat" rx rule: rx_take.induct) auto

lemma ll_read_1_stream:
  assumes "rx_stream l = c # cs" "ll_open l"
  shows "\<exists>rx'. ll_read 1 l = (Inr [c], l\<lparr>ll_rx := rx', ll_total_nread := Suc (ll_total_nread l)\<rparr>)
    \<and> concat rx' = cs"
proof -
  obtain rx' where "rx_take 1 (ll_rx l) = ([c], rx')" "concat rx' = cs"
    using rx_take_1 assms(1) unfolding rx_stream_def by blast
  then show ?thesis using assms(2) by (auto simp: ll_read_def Let_def)
qed

end
