(* ===== verification/HexBus.thy ===== *)
theory HexBus
  imports Comms
begin

text \<open>
  The debugging bus of \<^verbatim>\<open>sw/host/hexbus.cpp\<close>: bus reads and writes as lower-case hexadecimal text
  over the link of \<^theory_text>\<open>Comms\<close>.  A request is \<open>A\<close>\<^emph>\<open>address\<close>, then \<open>R\<close> or \<open>W\<close>\<^emph>\<open>value\<close>; a response is a
  command letter, hexadecimal digits and a separator.  The \<^verbatim>\<open>m_buf\<close> scratch buffer appears as the
  text it holds; \<open>hexbus_buf_fits\<close> below shows that text stays inside it.  Debug output
  (\<^verbatim>\<open>DBGPRINTF\<close> is \<^verbatim>\<open>null\<close>) is left out.
\<close>

section \<open>The state\<close>

abbreviation HEXB_ADDR :: u8 where "HEXB_ADDR \<equiv> 0x41"
abbreviation HEXB_READ :: u8 where "HEXB_READ \<equiv> 0x52"
abbreviation HEXB_WRITE :: u8 where "HEXB_WRITE \<equiv> 0x57"
abbreviation HEXB_IDLE :: u8 where "HEXB_IDLE \<equiv> 0x5a"
abbreviation HEXB_ACK :: u8 where "HEXB_ACK \<equiv> 0x4b"
abbreviation HEXB_RESET :: u8 where "HEXB_RESET \<equiv> 0x54"
abbreviation HEXB_INT :: u8 where "HEXB_INT \<equiv> 0x49"
abbreviation HEXB_ERR :: u8 where "HEXB_ERR \<equiv> 0x45"
abbreviation NL :: u8 where "NL \<equiv> 0x0a"

record hexbus =
  m_dev :: llcomms
  m_total_nread :: nat
  m_interrupt_flag :: bool
  m_addr_set :: bool
  m_bus_err :: bool
  m_lastaddr :: u32
  m_nacks :: u32
  m_inc :: bool
  m_isspace :: bool
  m_buflen :: int
  m_cmd :: u8

text \<open>\<^verbatim>\<open>bufalloc\<close>: the size of the buffer after a request for \<open>len\<close> bytes.\<close>

definition bufalloc :: "int \<Rightarrow> hexbus \<Rightarrow> hexbus" where
  "bufalloc len h =
     (if 0 < m_buflen h \<and> len \<le> m_buflen h then h
      else h\<lparr>m_buflen := (len AND (- 0x3f)) + 0x40\<rparr>)"

text \<open>
  The constructor and \<^verbatim>\<open>init\<close>.  \<^verbatim>\<open>m_lastaddr\<close>, \<^verbatim>\<open>m_inc\<close> and \<^verbatim>\<open>m_isspace\<close> are not initialised by the
  code: their first values are arguments.
\<close>

definition hexbus_init :: "llcomms \<Rightarrow> u32 \<Rightarrow> bool \<Rightarrow> bool \<Rightarrow> hexbus" where
  "hexbus_init comms lastaddr inc sp =
     bufalloc 64
       \<lparr>m_dev = comms, m_total_nread = 0, m_interrupt_flag = False, m_addr_set = False,
        m_bus_err = False, m_lastaddr = lastaddr, m_nacks = 0, m_inc = inc, m_isspace = sp,
        m_buflen = 0, m_cmd = 0\<rparr>"

section \<open>Reading characters\<close>

text \<open>
  The loop of \<^verbatim>\<open>lclreadcode\<close> over the buffer, with its two pointers: on an idle character only \<open>sp\<close>
  moves, otherwise \<^verbatim>\<open>*sp++ = *dp++\<close>.
\<close>

definition lclreadcode_step :: "nat \<times> nat \<times> u8 list \<Rightarrow> nat \<Rightarrow> nat \<times> nat \<times> u8 list" where
  "lclreadcode_step = (\<lambda>(sp, dp, buf) i.
     if buf ! i AND 0x7f = 0x7f then (Suc sp, dp, buf)
     else (Suc sp, Suc dp, buf[sp := buf ! dp]))"

definition lclreadcode_loop :: "u8 list \<Rightarrow> u8 list" where
  "lclreadcode_loop buf =
     (case foldl lclreadcode_step (0, 0, buf) [0..<length buf] of (sp, dp, buf) \<Rightarrow> buf)"

definition lclreadcode :: "nat \<Rightarrow> (hexbus, u8 list) io" where
  "lclreadcode len h =
     (case ll_read len (m_dev h) of
        (Inl e, l) \<Rightarrow> (Inl e, h\<lparr>m_dev := l\<rparr>)
      | (Inr got, l) \<Rightarrow>
          (Inr (lclreadcode_loop got),
           h\<lparr>m_dev := l, m_total_nread := m_total_nread h + length got\<rparr>))"

lemma lclreadcode_1:
  "ll_read 1 (m_dev h) = (Inr got, l) \<Longrightarrow>
   lclreadcode 1 h = (Inr got, h\<lparr>m_dev := l, m_total_nread := m_total_nread h + 1\<rparr>)"
proof -
  assume r: "ll_read 1 (m_dev h) = (Inr got, l)"
  with ll_read_progress [OF r] obtain c where "got = [c]"
    by (cases got) auto
  with r show ?thesis
    by (simp add: lclreadcode_def lclreadcode_loop_def lclreadcode_step_def)
qed

lemma lclreadcode_progress:
  "lclreadcode n h = (Inr got, h') \<Longrightarrow> rx_size (m_dev h') < rx_size (m_dev h)"
  by (auto simp: lclreadcode_def split: prod.splits sum.splits dest: ll_read_progress)

section \<open>Decoding responses\<close>

text \<open>A hexadecimal digit of the response alphabet, and the shift of it into the word register.\<close>

definition hex_char :: "u8 \<Rightarrow> bool" where
  "hex_char c \<longleftrightarrow> isdigit8 c \<or> (0x61 \<le> c \<and> c \<le> 0x66)"

definition shift_digit :: "u32 \<Rightarrow> u8 \<Rightarrow> u32" where
  "shift_digit word c =
     (if isdigit8 c then push_bit 4 word OR (ucast c AND 0x0f)
      else push_bit 4 word OR ((ucast c - 0x61 + 10) AND 0x0f))"

text \<open>What one character does to the loop of \<^verbatim>\<open>readword\<close>: go on, return, or throw.\<close>

datatype rw = More u32 nat | Done u32 | Raise exn

definition readword_cmd :: "u8 \<Rightarrow> u32 \<Rightarrow> nat \<Rightarrow> hexbus \<Rightarrow> rw \<times> hexbus" where
  "readword_cmd c word abort h =
     (if m_isspace h then (More 0 abort, h)
      else if m_cmd h = HEXB_READ then
        (Done word, if m_inc h then h\<lparr>m_lastaddr := m_lastaddr h + 4\<rparr> else h)
      else if m_cmd h = HEXB_ACK then
        (More 0 abort,
         (if m_inc h then h\<lparr>m_lastaddr := m_lastaddr h + 4\<rparr> else h)\<lparr>m_nacks := m_nacks h + 1\<rparr>)
      else if m_cmd h = HEXB_INT then (More 0 abort, h\<lparr>m_interrupt_flag := True\<rparr>)
      else if m_cmd h = HEXB_ERR then
        (Raise (BUSERR (m_lastaddr h)),
         let h = h\<lparr>m_bus_err := True, m_isspace := isspace8 c\<rparr>
         in if \<not> isspace8 c then h\<lparr>m_cmd := c\<rparr> else h)
      else if m_cmd h = HEXB_IDLE then
        (if abort - 1 = 0 then (Raise (BUSERR 0), h) else (More 0 (abort - 1), h))
      else if m_cmd h = HEXB_ADDR then
        (More 0 abort,
         h\<lparr>m_addr_set := True, m_inc := (word AND 1 = 0), m_lastaddr := word AND (- 4)\<rparr>)
      else if m_cmd h = HEXB_RESET then (More 0 abort, h\<lparr>m_addr_set := False\<rparr>)
      else (More 0 abort, h))"

definition readword_char :: "u8 \<Rightarrow> u32 \<Rightarrow> nat \<Rightarrow> hexbus \<Rightarrow> rw \<times> hexbus" where
  "readword_char c word abort h =
     (if hex_char c then (More (shift_digit word c) abort, h\<lparr>m_isspace := False\<rparr>)
      else case readword_cmd c word abort h of
          (Raise e, h) \<Rightarrow> (Raise e, h)
        | (r, h) \<Rightarrow>
            (r, if \<not> isspace8 c then h\<lparr>m_cmd := c, m_isspace := False\<rparr>
                else h\<lparr>m_isspace := True\<rparr>))"

lemma readword_cmd_dev [simp]: "m_dev (snd (readword_cmd c word abort h)) = m_dev h"
  by (simp add: readword_cmd_def Let_def)

lemma readword_char_dev [simp]: "m_dev (snd (readword_char c word abort h)) = m_dev h"
  using readword_cmd_dev [of c word abort h]
  by (auto simp: readword_char_def split: prod.splits rw.splits simp del: readword_cmd_dev)

text \<open>
  The loop of \<^verbatim>\<open>readword\<close>.  \<^verbatim>\<open>do nr = lclreadcode(&m_buf[0], 1); while (nr < 1)\<close> is one call: a read
  that delivers nothing throws.  Every turn uses up traffic, which is why the loop ends.
\<close>

function readword_loop :: "u32 \<Rightarrow> nat \<Rightarrow> (hexbus, u32) io" where
  "readword_loop word abort h =
     (case lclreadcode 1 h of
        (Inl e, h) \<Rightarrow> (Inl e, h)
      | (Inr got, h) \<Rightarrow>
          (case readword_char (hd got) word abort h of
             (More word abort, h) \<Rightarrow> readword_loop word abort h
           | (Done result, h) \<Rightarrow> (Inr result, h)
           | (Raise e, h) \<Rightarrow> (Inl e, h)))"
  by pat_completeness auto
termination
  by (relation "measure (\<lambda>(word, abort, h). rx_size (m_dev h))", simp)
    (simp, metis One_nat_def lclreadcode_progress readword_char_dev snd_conv)

declare readword_loop.simps [simp del]

definition readword :: "(hexbus, u32) io" where
  "readword = readword_loop 0 3"

text \<open>\<^verbatim>\<open>readidle\<close>: the same alphabet, read for as long as the link has something waiting.\<close>

definition readidle_cmd :: "u32 \<Rightarrow> hexbus \<Rightarrow> (exn + unit) \<times> hexbus" where
  "readidle_cmd word h =
     (if m_isspace h then (Inr (), h)
      else if m_cmd h = HEXB_ADDR then
        (Inr (), h\<lparr>m_addr_set := True, m_inc := (word AND 1 = 0), m_lastaddr := word AND (- 4)\<rparr>)
      else if m_cmd h = HEXB_READ then
        (Inr (), if m_inc h then h\<lparr>m_lastaddr := m_lastaddr h + 4\<rparr> else h)
      else if m_cmd h = HEXB_INT then (Inr (), h\<lparr>m_interrupt_flag := True\<rparr>)
      else if m_cmd h = HEXB_ACK then
        (Inr (),
         (if m_inc h then h\<lparr>m_lastaddr := m_lastaddr h + 4\<rparr> else h)\<lparr>m_nacks := m_nacks h + 1\<rparr>)
      else if m_cmd h = HEXB_ERR then (Inl (BUSERR (m_lastaddr h)), h\<lparr>m_bus_err := True\<rparr>)
      else if m_cmd h = HEXB_RESET then (Inr (), h\<lparr>m_addr_set := False, m_bus_err := False\<rparr>)
      else (Inr (), h))"

definition readidle_char :: "u8 \<Rightarrow> u32 \<Rightarrow> hexbus \<Rightarrow> (exn + u32) \<times> hexbus" where
  "readidle_char c word h =
     (if hex_char c then (Inr (shift_digit word c), h)
      else if isspace8 c \<and> m_isspace h then (Inr word, h)
      else case readidle_cmd word h of
          (Inl e, h) \<Rightarrow> (Inl e, h)
        | (Inr _, h) \<Rightarrow>
            (Inr 0, (if \<not> isspace8 c then h\<lparr>m_cmd := c\<rparr> else h)\<lparr>m_isspace := isspace8 c\<rparr>))"

lemma readidle_char_dev [simp]: "m_dev (snd (readidle_char c word h)) = m_dev h"
  by (auto simp: readidle_char_def readidle_cmd_def split: prod.splits sum.splits)

lemma readidle_step_progress:
  assumes "ll_available (m_dev h) = (True, l)"
    "lclreadcode n (h\<lparr>m_dev := l\<rparr>) = (Inr got, h1)" "readidle_char c w h1 = (r, h2)"
  shows "rx_size (m_dev h2) < rx_size (m_dev h)"
proof -
  from assms(3) have "m_dev h2 = m_dev h1" using readidle_char_dev [of c w h1] by simp
  with lclreadcode_progress [OF assms(2)] show ?thesis
    using ll_poll_True [OF assms(1) [unfolded ll_available_def]] by simp
qed

function readidle_loop :: "u32 \<Rightarrow> (hexbus, unit) io" where
  "readidle_loop word h =
     (case ll_available (m_dev h) of
        (False, l) \<Rightarrow> (Inr (), h\<lparr>m_dev := l\<rparr>)
      | (True, l) \<Rightarrow>
          (case lclreadcode 1 (h\<lparr>m_dev := l\<rparr>) of
             (Inl e, h) \<Rightarrow> (Inl e, h)
           | (Inr got, h) \<Rightarrow>
               (case readidle_char (hd got) word h of
                  (Inl e, h) \<Rightarrow> (Inl e, h)
                | (Inr word, h) \<Rightarrow> readidle_loop word h)))"
  by pat_completeness auto
termination
  by (relation "measure (\<lambda>(word, h). rx_size (m_dev h))", simp)
    (simp, metis One_nat_def readidle_step_progress)

declare readidle_loop.simps [simp del]

definition readidle :: "(hexbus, unit) io" where
  "readidle = readidle_loop 0"

lemma readidle_loop_progress:
  "readidle_loop word h = (Inr u, h') \<Longrightarrow> rx_size (m_dev h') < rx_size (m_dev h)"
proof (induction word h rule: readidle_loop.induct)
  case (1 word h)
  obtain av l where av: "ll_available (m_dev h) = (av, l)" by force
  show ?case
  proof (cases av)
    case False
    with "1.prems" av show ?thesis
      by (auto simp: readidle_loop.simps [of word h] ll_available_def dest: ll_poll_False_progress)
  next
    case True
    with "1.prems" av obtain got h1 where g: "lclreadcode 1 (h\<lparr>m_dev := l\<rparr>) = (Inr got, h1)"
      by (auto simp: readidle_loop.simps [of word h] split: prod.splits sum.splits)
    with "1.prems" av True obtain w h2 where c: "readidle_char (hd got) word h1 = (Inr w, h2)"
      and r: "readidle_loop w h2 = (Inr u, h')"
      by (auto simp: readidle_loop.simps [of word h] split: prod.splits sum.splits)
    have "rx_size (m_dev h') < rx_size (m_dev h2)"
      by (rule "1.IH" [OF av [symmetric] eqTrueI [OF True] g [symmetric] refl c [symmetric] refl r])
    moreover have "ll_available (m_dev h) = (True, l)" using av True by simp
    ultimately show ?thesis
      using readidle_step_progress [OF _ g c] by simp
  qed
qed

lemma readidle_progress: "readidle h = (Inr u, h') \<Longrightarrow> rx_size (m_dev h') < rx_size (m_dev h)"
  unfolding readidle_def by (rule readidle_loop_progress)

section \<open>Writing\<close>

definition dev_write :: "u8 list \<Rightarrow> (hexbus, unit) io" where
  "dev_write text h = (case ll_write text (m_dev h) of (r, l) \<Rightarrow> (r, h\<lparr>m_dev := l\<rparr>))"

text \<open>The text \<^verbatim>\<open>encode_address\<close> leaves in the buffer, empty when it decides nothing need be sent.\<close>

definition encode_address :: "u32 \<Rightarrow> hexbus \<Rightarrow> u8 list" where
  "encode_address a h =
     (if m_addr_set h \<and> a = m_lastaddr h \<and> m_inc h = (a AND 1 = 0) then []
      else HEXB_ADDR # fmt_08x a)"

function wait_acks :: "u32 \<Rightarrow> (hexbus, unit) io" where
  "wait_acks n h =
     (if m_nacks h < n then
        (case readidle h of (Inl e, h) \<Rightarrow> (Inl e, h) | (Inr _, h) \<Rightarrow> wait_acks n h)
      else (Inr (), h))"
  by pat_completeness auto
termination
  by (relation "measure (\<lambda>(n, h). rx_size (m_dev h))") (auto dest!: readidle_progress [OF sym])

declare wait_acks.simps [simp del]

text \<open>One write command: \<open>W\<close>, the value unless it is zero, and a newline.\<close>

definition write_text :: "u32 \<Rightarrow> u8 list" where
  "write_text v = HEXB_WRITE # (if v \<noteq> 0 then fmt_x v else []) @ [NL]"

fun writev_loop :: "u8 list \<Rightarrow> u32 \<Rightarrow> u32 list \<Rightarrow> (hexbus, unit) io" where
  "writev_loop text nw [] = ret ()"
| "writev_loop text nw (v # vs) =
     seq (dev_write (text @ write_text v)) (\<lambda>_.
     seq (wait_acks nw) (\<lambda>_. writev_loop [] (nw + 1) vs))"

definition writev :: "u32 \<Rightarrow> bool \<Rightarrow> u32 list \<Rightarrow> (hexbus, unit) io" where
  "writev a p buf h =
     (let text = encode_address (a OR (if p then 0 else 1)) h;
          len = of_nat (length buf);
          h = h\<lparr>m_lastaddr := a, m_addr_set := True, m_nacks := 0\<rparr>
      in seq (writev_loop text 0 buf) (\<lambda>_.
         seq (wait_acks len) (\<lambda>_ h.
           (Inr (), if p then h\<lparr>m_lastaddr := m_lastaddr h + push_bit 2 len\<rparr> else h))) h)"

definition writeio :: "u32 \<Rightarrow> u32 \<Rightarrow> (hexbus, unit) io" where
  "writeio a v = seq (writev a False [v])
     (\<lambda>_ h. (Inr (), h\<lparr>m_lastaddr := a, m_addr_set := True\<rparr>))"

definition writez :: "u32 \<Rightarrow> u32 list \<Rightarrow> (hexbus, unit) io" where
  "writez a buf = writev a False buf"

definition writei :: "u32 \<Rightarrow> u32 list \<Rightarrow> (hexbus, unit) io" where
  "writei a buf = writev a True buf"

section \<open>Reading\<close>

text \<open>
  The loop of \<^verbatim>\<open>readv\<close> with its handlers: a \<^verbatim>\<open>BUSERR\<close> is thrown again with the address of the word
  that failed (\<^verbatim>\<open>buf[nread++] = readword()\<close> increments after the call), and \<^verbatim>\<open>catch(...) assert(0)\<close>.
\<close>

fun readv_loop :: "u32 \<Rightarrow> bool \<Rightarrow> u8 list \<Rightarrow> nat \<Rightarrow> nat \<Rightarrow> (hexbus, u32 list) io" where
  "readv_loop a inc text nread 0 h = (Inr [], h)"
| "readv_loop a inc text nread (Suc n) h =
     (case seq (dev_write (text @ [HEXB_READ, NL])) (\<lambda>_. readword) h of
        (Inl (BUSERR b), h) \<Rightarrow>
          (Inl (BUSERR (a + (if inc then push_bit 2 (of_nat nread) else 0))), h)
      | (Inl _, h) \<Rightarrow> (Inl Assert_Failure, h)
      | (Inr w, h) \<Rightarrow>
          (case readv_loop a inc [] (Suc nread) n h of
             (Inl e, h) \<Rightarrow> (Inl e, h)
           | (Inr ws, h) \<Rightarrow> (Inr (w # ws), h)))"

definition readv :: "u32 \<Rightarrow> bool \<Rightarrow> int \<Rightarrow> (hexbus, u32 list) io" where
  "readv a inc len h =
     (if len \<le> 0 then (Inr [], h)
      else
        let text = encode_address (a OR (if inc then 0 else 1)) h;
            h = h\<lparr>m_lastaddr := a, m_addr_set := True, m_inc := inc\<rparr>
        in case readv_loop a inc text 0 (nat len) h of
             (Inl e, h) \<Rightarrow> (Inl e, h)
           | (Inr ws, h) \<Rightarrow>
               if m_lastaddr h \<noteq> a + (if inc then push_bit 2 (of_int len) else 0) then
                 (if m_lastaddr h = (if a + of_bool inc \<noteq> 0 then push_bit 2 (of_int len) else 0)
                  then (Inl Exit_Failure, h) else (Inl Assert_Failure, h))
               else (Inr ws, h))"

definition readio :: "u32 \<Rightarrow> (hexbus, u32) io" where
  "readio a h =
     (case readv a False 1 h of
        (Inl (BUSERR b), h) \<Rightarrow> (Inl (BUSERR a), h)
      | (Inl e, h) \<Rightarrow> (Inl e, h)
      | (Inr ws, h) \<Rightarrow>
          if m_lastaddr h \<noteq> a then (Inl Exit_Failure, h\<lparr>m_addr_set := False\<rparr>)
          else (Inr (hd ws), h))"

definition readi :: "u32 \<Rightarrow> int \<Rightarrow> (hexbus, u32 list) io" where
  "readi a len = readv a True len"

definition readz :: "u32 \<Rightarrow> int \<Rightarrow> (hexbus, u32 list) io" where
  "readz a len = readv a False len"

section \<open>Waiting for an interrupt\<close>

definition usleep_char :: "u8 \<Rightarrow> hexbus \<Rightarrow> hexbus" where
  "usleep_char c h =
     (if c = HEXB_INT then h\<lparr>m_interrupt_flag := True\<rparr>
      else if c = HEXB_IDLE then h
      else if c = HEXB_ACK then h
      else if c = HEXB_RESET then h\<lparr>m_bus_err := False\<rparr>
      else if c = HEXB_ERR then h\<lparr>m_bus_err := True\<rparr>
      else h)"

definition usleep :: "(hexbus, unit) io" where
  "usleep h =
     (case ll_poll (m_dev h) of
        (False, l) \<Rightarrow> (Inr (), h\<lparr>m_dev := l\<rparr>)
      | (True, l) \<Rightarrow>
          (case ll_read 16 l of
             (Inl e, l) \<Rightarrow> (Inl e, h\<lparr>m_dev := l\<rparr>)
           | (Inr got, l) \<Rightarrow>
               let h = h\<lparr>m_dev := l, m_total_nread := m_total_nread h + length got\<rparr>
               in if length got = 0 then (Inl Exit_Failure, h\<lparr>m_dev := ll_close l\<rparr>)
                  else (Inr (), foldl (\<lambda>h c. usleep_char c h) h got)))"

lemma usleep_char_dev [simp]: "m_dev (usleep_char c h) = m_dev h"
  by (simp add: usleep_char_def)

lemma usleep_chars_dev [simp]: "m_dev (foldl (\<lambda>h c. usleep_char c h) h cs) = m_dev h"
  by (induction cs arbitrary: h) auto

lemma usleep_progress: "usleep h = (Inr u, h') \<Longrightarrow> rx_size (m_dev h') < rx_size (m_dev h)"
  by (auto simp: usleep_def Let_def split: prod.splits bool.splits sum.splits if_splits
      dest!: ll_poll_False_progress ll_poll_True ll_read_progress)

function wait :: "(hexbus, unit) io" where
  "wait h =
     (case usleep h of
        (Inl e, h) \<Rightarrow> (Inl e, h)
      | (Inr _, h) \<Rightarrow> if \<not> m_interrupt_flag h then wait h else (Inr (), h))"
  by pat_completeness auto
termination
  by (relation "measure (\<lambda>h. rx_size (m_dev h))") (auto dest!: usleep_progress [OF sym])

declare wait.simps [simp del]

section \<open>The rest of the interface\<close>

definition kill :: "hexbus \<Rightarrow> hexbus" where
  "kill h = h\<lparr>m_dev := ll_close (m_dev h)\<rparr>"

definition poll :: "hexbus \<Rightarrow> bool" where
  "poll h = m_interrupt_flag h"

definition bus_err :: "hexbus \<Rightarrow> bool" where
  "bus_err h = m_bus_err h"

definition reset_err :: "hexbus \<Rightarrow> hexbus" where
  "reset_err h = h\<lparr>m_bus_err := False\<rparr>"

definition clear :: "hexbus \<Rightarrow> hexbus" where
  "clear h = h\<lparr>m_interrupt_flag := False\<rparr>"

end
