(* ===== verification/HexBusSpec.thy ===== *)
theory HexBusSpec
  imports HexBus
begin

text \<open>
  What the debugging bus promises.  The responses of the device are a datatype, and \<open>await_data\<close>
  says on that level what waiting for a word means; \<^verbatim>\<open>readword\<close>, which works one character at a
  time, refines it.  The second half follows the address bookkeeping of reads and writes.
\<close>

section \<open>Hexadecimal text\<close>

definition hex_value :: "u8 list \<Rightarrow> u32" where
  "hex_value ds = foldl shift_digit 0 ds"

lemma nibble_cases:
  assumes "d < (16 :: u32)"
  shows "d \<in> {0, 1, 2, 3, 4, 5, 6, 7, 8, 9, 10, 11, 12, 13, 14, 15}"
proof -
  have "unat d < 16" using assms by (simp add: word_less_nat_alt)
  then have "unat d = 0 \<or> unat d = 1 \<or> unat d = 2 \<or> unat d = 3 \<or> unat d = 4 \<or> unat d = 5
      \<or> unat d = 6 \<or> unat d = 7 \<or> unat d = 8 \<or> unat d = 9 \<or> unat d = 10 \<or> unat d = 11
      \<or> unat d = 12 \<or> unat d = 13 \<or> unat d = 14 \<or> unat d = 15"
    by presburger
  moreover have "d = of_nat (unat d)" by simp
  ultimately show ?thesis by (elim disjE) (simp_all only: of_nat_numeral of_nat_0 of_nat_1 insert_iff, simp_all)
qed

lemma hex_digit_char:
  "d < 16 \<Longrightarrow> hex_char (hex_digit d) \<and> shift_digit w (hex_digit d) = push_bit 4 w OR d"
  by (drule nibble_cases)
    (auto simp: hex_digit_def hex_char_def isdigit8_def shift_digit_def)

lemma and_15_less_16: "(w :: u32) AND 15 < 16"
  by (rule order_le_less_trans [OF word_and_le1]) simp

lemma hex_char_digits: "c \<in> set (hex_digits n w) \<Longrightarrow> hex_char c"
  by (induction n arbitrary: w) (auto simp: hex_digit_char and_15_less_16)

lemma shift_hex_digits:
  "foldl shift_digit w (hex_digits n v) = push_bit (4 * n) w OR take_bit (4 * n) v"
proof (induction n arbitrary: v)
  case 0
  show ?case by simp
next
  case (Suc n)
  have "foldl shift_digit w (hex_digits (Suc n) v)
      = push_bit 4 (push_bit (4 * n) w OR take_bit (4 * n) (drop_bit 4 v)) OR (v AND 15)"
    by (simp add: Suc hex_digit_char and_15_less_16)
  also have "\<dots> = push_bit (4 * Suc n) w OR take_bit (4 * Suc n) v"
    by (rule bit_word_eqI) (auto simp: bit_simps and_mask_take_bit not_less)
  finally show ?case .
qed

lemma hex_len_drop_bit:
  "drop_bit (4 * Suc k) v = (0 :: u32) \<Longrightarrow> drop_bit (4 * hex_len k v) v = 0"
proof (induction k arbitrary: v)
  case (Suc k)
  then have "drop_bit (4 * hex_len k (drop_bit 4 v)) (drop_bit 4 v) = 0"
    by (intro Suc.IH) (simp add: drop_bit_drop_bit add.commute)
  then show ?case by (simp add: drop_bit_drop_bit add.commute)
qed simp

lemma hex_value_08x: "hex_value (fmt_08x w) = w"
  by (simp add: hex_value_def fmt_08x_def shift_hex_digits take_bit_word_eq_self)

lemma hex_value_x: "hex_value (fmt_x w) = w"
proof -
  have "drop_bit (4 * Suc 7) w = 0" by (rule bit_word_eqI) (simp add: bit_simps bit_word.rep_eq)
  from hex_len_drop_bit [OF this] have "take_bit (4 * hex_len 7 w) w = w"
    by (simp add: take_bit_eq_self_iff_drop_bit_eq_0)
  then show ?thesis
    by (simp add: hex_value_def fmt_x_def shift_hex_digits)
qed

section \<open>Responses\<close>

text \<open>What the device says, and the part of the driver's state a response changes.\<close>

datatype response = Addr u32 | Data u32 | Ack | Interrupt | Error | Reset | Idle | Other

record busview =
  v_addr_set :: bool
  v_inc :: bool
  v_lastaddr :: u32
  v_nacks :: u32
  v_interrupt :: bool
  v_bus_err :: bool

definition view :: "hexbus \<Rightarrow> busview" where
  "view h = \<lparr>v_addr_set = m_addr_set h, v_inc = m_inc h, v_lastaddr = m_lastaddr h,
     v_nacks = m_nacks h, v_interrupt = m_interrupt_flag h, v_bus_err = m_bus_err h\<rparr>"

definition v_advance :: "busview \<Rightarrow> busview" where
  "v_advance v = (if v_inc v then v\<lparr>v_lastaddr := v_lastaddr v + 4\<rparr> else v)"

text \<open>
  Waiting for a word: the first \<^const>\<open>Data\<close> is the answer, an \<^const>\<open>Error\<close> throws the address reached,
  the last permitted \<^const>\<open>Idle\<close> gives up with address 0, and everything else is noted in passing.
  \<open>None\<close>: the responses seen so far decide nothing.
\<close>

fun await_data :: "response list \<Rightarrow> nat \<Rightarrow> busview \<Rightarrow> ((exn + u32) \<times> busview \<times> response list) option" where
  "await_data [] n v = None"
| "await_data (Data w # rs) n v = Some (Inr w, v_advance v, rs)"
| "await_data (Error # rs) n v = Some (Inl (BUSERR (v_lastaddr v)), v\<lparr>v_bus_err := True\<rparr>, rs)"
| "await_data (Idle # rs) n v =
     (if n - 1 = 0 then Some (Inl (BUSERR 0), v, rs) else await_data rs (n - 1) v)"
| "await_data (Addr a # rs) n v =
     await_data rs n (v\<lparr>v_addr_set := True, v_inc := (a AND 1 = 0), v_lastaddr := a AND (- 4)\<rparr>)"
| "await_data (Ack # rs) n v = await_data rs n ((v_advance v)\<lparr>v_nacks := v_nacks v + 1\<rparr>)"
| "await_data (Interrupt # rs) n v = await_data rs n (v\<lparr>v_interrupt := True\<rparr>)"
| "await_data (Reset # rs) n v = await_data rs n (v\<lparr>v_addr_set := False\<rparr>)"
| "await_data (Other # rs) n v = await_data rs n v"

text \<open>A response on the wire: its letter, its digits, and the white space that ends it.\<close>

type_synonym packet = "u8 \<times> u8 list \<times> u8"

definition packet_ok :: "packet \<Rightarrow> bool" where
  "packet_ok = (\<lambda>(c, ds, sep).
     \<not> hex_char c \<and> \<not> isspace8 c \<and> list_all hex_char ds \<and> isspace8 sep)"

definition packet_bytes :: "packet \<Rightarrow> u8 list" where
  "packet_bytes = (\<lambda>(c, ds, sep). c # ds @ [sep])"

definition response_of :: "packet \<Rightarrow> response" where
  "response_of = (\<lambda>(c, ds, sep).
     if c = HEXB_ADDR then Addr (hex_value ds) else if c = HEXB_READ then Data (hex_value ds)
     else if c = HEXB_ACK then Ack else if c = HEXB_INT then Interrupt
     else if c = HEXB_ERR then Error else if c = HEXB_RESET then Reset
     else if c = HEXB_IDLE then Idle else Other)"

definition data_packet :: "u32 \<Rightarrow> packet" where
  "data_packet w = (HEXB_READ, fmt_08x w, NL)"

lemma data_packet_ok: "packet_ok (data_packet w)"
  by (auto simp: packet_ok_def data_packet_def list_all_iff fmt_08x_def hex_char_digits)
    (simp_all add: hex_char_def isdigit8_def isspace8_def)

lemma data_packet_response: "response_of (data_packet w) = Data w"
  by (simp add: data_packet_def response_of_def hex_value_08x)

section \<open>readword, one character and one packet at a time\<close>

text \<open>The device as it stands after some characters have been read: only the traffic left matters.\<close>

definition at_stream :: "hexbus \<Rightarrow> u8 list \<Rightarrow> u8 list \<Rightarrow> bool" where
  "at_stream h cs tx \<longleftrightarrow> ll_open (m_dev h) \<and> rx_stream (m_dev h) = cs \<and> ll_tx (m_dev h) = tx"

lemma lclreadcode_stream:
  assumes "at_stream h (c # cs) tx"
  shows "\<exists>l n. lclreadcode 1 h = (Inr [c], h\<lparr>m_dev := l, m_total_nread := n\<rparr>)
    \<and> at_stream (h\<lparr>m_dev := l, m_total_nread := n\<rparr>) cs tx"
proof -
  have "rx_stream (m_dev h) = c # cs" "ll_open (m_dev h)"
    using assms by (auto simp: at_stream_def)
  from ll_read_1_stream [OF this] obtain rx where
    "ll_read 1 (m_dev h) = (Inr [c], m_dev h\<lparr>ll_rx := rx, ll_total_nread := Suc (ll_total_nread (m_dev h))\<rparr>)"
    "concat rx = cs" by blast
  then show ?thesis
    using assms lclreadcode_1 [of h "[c]"] by (fastforce simp: at_stream_def rx_stream_def)
qed

text \<open>Two states that differ only in the link and its byte count behave alike.\<close>

definition relink :: "llcomms \<Rightarrow> nat \<Rightarrow> hexbus \<Rightarrow> hexbus" where
  "relink l n h = h\<lparr>m_dev := l, m_total_nread := n\<rparr>"

lemma relink_simps [simp]:
  "m_dev (relink l n h) = l" "m_cmd (relink l n h) = m_cmd h" "m_isspace (relink l n h) = m_isspace h"
  "m_inc (relink l n h) = m_inc h" "m_lastaddr (relink l n h) = m_lastaddr h"
  "m_nacks (relink l n h) = m_nacks h" "view (relink l n h) = view h"
  "relink l n (relink l' n' h) = relink l n h"
  by (simp_all add: relink_def view_def)

lemma readword_step:
  assumes "at_stream h (c # cs) tx"
  shows "\<exists>l n. at_stream (relink l n h) cs tx \<and>
    readword_loop word abort h =
      (case readword_char c word abort (relink l n h) of
         (More word abort, h) \<Rightarrow> readword_loop word abort h
       | (Done result, h) \<Rightarrow> (Inr result, h)
       | (Raise e, h) \<Rightarrow> (Inl e, h))"
proof -
  from lclreadcode_stream [OF assms] obtain l n where
    "lclreadcode 1 h = (Inr [c], relink l n h)" "at_stream (relink l n h) cs tx"
    unfolding relink_def by blast
  then show ?thesis
    by (intro exI [of _ l] exI [of _ n]) (simp add: readword_loop.simps [of word abort h] split: prod.splits rw.splits)
qed

lemma at_stream_cong:
  "m_dev h' = m_dev h \<Longrightarrow> at_stream h' cs tx = at_stream h cs tx"
  by (simp add: at_stream_def)

lemma readword_digits:
  assumes "list_all hex_char ds" "at_stream h (ds @ cs) tx" "\<not> m_isspace h"
  shows "\<exists>l n. at_stream (relink l n h) cs tx \<and>
    readword_loop word abort h = readword_loop (foldl shift_digit word ds) abort (relink l n h)"
  using assms
proof (induction ds arbitrary: word h)
  case Nil
  have "relink (m_dev h) (m_total_nread h) h = h" by (simp add: relink_def)
  with Nil show ?case by (metis append_Nil foldl_Nil)
next
  case (Cons d ds)
  from Cons.prems(2) have "at_stream h (d # (ds @ cs)) tx" by simp
  from readword_step [OF this, of word abort] obtain l n where
    1: "at_stream (relink l n h) (ds @ cs) tx"
    and 2: "readword_loop word abort h = readword_loop (shift_digit word d) abort ((relink l n h)\<lparr>m_isspace := False\<rparr>)"
    using Cons.prems(1) by (auto simp: readword_char_def)
  have 3: "(relink l n h)\<lparr>m_isspace := False\<rparr> = relink l n h"
    using Cons.prems(3) by (simp add: relink_def)
  from Cons.IH [of "relink l n h" "shift_digit word d"] 1 Cons.prems obtain l' n' where
    "at_stream (relink l' n' (relink l n h)) cs tx"
    "readword_loop (shift_digit word d) abort (relink l n h)
      = readword_loop (foldl shift_digit (shift_digit word d) ds) abort (relink l' n' (relink l n h))"
    by auto
  with 2 3 show ?case by auto
qed

lemma readword_packet:
  assumes st: "at_stream h (packet_bytes (c, ds, sep) @ cs) tx" and ok: "packet_ok (c, ds, sep)"
    and sp: "m_isspace h"
  shows "\<exists>l n. at_stream (relink l n h) cs tx \<and>
    readword_loop word abort h =
      (case readword_cmd sep (hex_value ds) abort ((relink l n h)\<lparr>m_cmd := c, m_isspace := False\<rparr>) of
         (More word abort, h) \<Rightarrow> readword_loop word abort (h\<lparr>m_isspace := True\<rparr>)
       | (Done result, h) \<Rightarrow> (Inr result, h\<lparr>m_isspace := True\<rparr>)
       | (Raise e, h) \<Rightarrow> (Inl e, h))"
proof -
  from ok have c: "\<not> hex_char c" "\<not> isspace8 c" and ds: "list_all hex_char ds"
    and sep: "isspace8 sep" "\<not> hex_char sep"
    by (auto simp: packet_ok_def isspace8_def hex_char_def isdigit8_def word_le_nat_alt)
  from st have "at_stream h (c # (ds @ sep # cs)) tx" by (simp add: packet_bytes_def)
  from readword_step [OF this, of word abort] obtain l n where
    1: "at_stream (relink l n h) (ds @ sep # cs) tx"
    and 2: "readword_loop word abort h = readword_loop 0 abort ((relink l n h)\<lparr>m_cmd := c, m_isspace := False\<rparr>)"
    using c sp by (auto simp: readword_char_def readword_cmd_def)
  let ?h = "(relink l n h)\<lparr>m_cmd := c, m_isspace := False\<rparr>"
  have "at_stream ?h (ds @ sep # cs) tx" using 1 by (simp add: at_stream_def)
  from readword_digits [OF ds this, of 0 abort] obtain l' n' where
    3: "at_stream (relink l' n' ?h) (sep # cs) tx"
    and 4: "readword_loop 0 abort ?h = readword_loop (hex_value ds) abort (relink l' n' ?h)"
    by (auto simp: hex_value_def)
  from readword_step [OF 3, of "hex_value ds" abort] obtain l'' n'' where
    5: "at_stream (relink l'' n'' ?h) cs tx"
    and 6: "readword_loop (hex_value ds) abort (relink l' n' ?h) =
      (case readword_char sep (hex_value ds) abort (relink l'' n'' ?h) of
         (More word abort, h) \<Rightarrow> readword_loop word abort h
       | (Done result, h) \<Rightarrow> (Inr result, h)
       | (Raise e, h) \<Rightarrow> (Inl e, h))"
    by auto
  have eq: "relink l'' n'' ?h = (relink l'' n'' h)\<lparr>m_cmd := c, m_isspace := False\<rparr>"
    by (simp add: relink_def)
  have "at_stream (relink l'' n'' h) cs tx" using 5 by (simp add: at_stream_def)
  then show ?thesis
    using 2 4 6 sep unfolding eq
    by (intro exI [of _ l''] exI [of _ n'']) (auto simp: readword_char_def split: prod.splits rw.splits)
qed

lemma view_simps:
  "view (h\<lparr>m_cmd := c\<rparr>) = view h" "view (h\<lparr>m_isspace := b\<rparr>) = view h"
  "view (h\<lparr>m_dev := l\<rparr>) = view h"
  "v_addr_set (view h) = m_addr_set h" "v_inc (view h) = m_inc h"
  "v_lastaddr (view h) = m_lastaddr h" "v_nacks (view h) = m_nacks h"
  by (simp_all add: view_def)

text \<open>What the end of one packet does, seen through \<^const>\<open>view\<close>.\<close>

lemma readword_cmd_view:
  assumes sp: "\<not> m_isspace h" and cmd: "packet_ok (m_cmd h, ds, sep)"
    and aw: "await_data (response_of (m_cmd h, ds, sep) # rs) n (view h) = Some (r, v, rs')"
  shows "case readword_cmd sep (hex_value ds) n h of
      (Done w, h') \<Rightarrow> r = Inr w \<and> view h' = v \<and> rs' = rs
    | (Raise e, h') \<Rightarrow> r = Inl e \<and> view h' = v \<and> rs' = rs
    | (More w' n', h') \<Rightarrow> w' = 0 \<and> await_data rs n' (view h') = Some (r, v, rs')"
  using sp aw cmd
  by (auto simp: readword_cmd_def response_of_def view_def v_advance_def Let_def split: if_splits)

lemma readword_loop_refines:
  assumes "at_stream h (concat (map packet_bytes ps) @ cs) tx" "list_all packet_ok ps" "m_isspace h"
    and "await_data (map response_of ps) n (view h) = Some (r, v, rs)"
  shows "\<exists>h' k. readword_loop word n h = (r, h') \<and> view h' = v \<and> rs = map response_of (drop k ps)
    \<and> at_stream h' (concat (map packet_bytes (drop k ps)) @ cs) tx \<and> (isl r \<or> m_isspace h')"
  using assms
proof (induction ps arbitrary: word n h)
  case Nil
  then show ?case by simp
next
  case (Cons p ps)
  obtain c ds sep where p: "p = (c, ds, sep)" by (cases p)
  have ok: "packet_ok (c, ds, sep)" and oks: "list_all packet_ok ps"
    using Cons.prems(2) p by auto
  have "at_stream h (packet_bytes (c, ds, sep) @ (concat (map packet_bytes ps) @ cs)) tx"
    using Cons.prems(1) p by simp
  from readword_packet [OF this ok Cons.prems(3), of word n] obtain l m where
    st: "at_stream (relink l m h) (concat (map packet_bytes ps) @ cs) tx"
    and eq: "readword_loop word n h =
      (case readword_cmd sep (hex_value ds) n ((relink l m h)\<lparr>m_cmd := c, m_isspace := False\<rparr>) of
         (More word abort, h) \<Rightarrow> readword_loop word abort (h\<lparr>m_isspace := True\<rparr>)
       | (Done result, h) \<Rightarrow> (Inr result, h\<lparr>m_isspace := True\<rparr>)
       | (Raise e, h) \<Rightarrow> (Inl e, h))"
    by blast
  let ?h = "(relink l m h)\<lparr>m_cmd := c, m_isspace := False\<rparr>"
  obtain out h' where out: "readword_cmd sep (hex_value ds) n ?h = (out, h')" by force
  have dev: "m_dev h' = l" using out readword_cmd_dev [of sep "hex_value ds" n ?h] by simp
  have v: "view ?h = view h" by (simp add: view_simps)
  have st': "at_stream h' (concat (map packet_bytes ps) @ cs) tx"
    using st dev by (simp add: at_stream_def)
  note cmd = readword_cmd_view [of ?h ds sep "map response_of ps" n r v rs]
  show ?case
  proof (cases out)
    case (More w n')
    have "await_data (map response_of ps) n' (view (h'\<lparr>m_isspace := True\<rparr>)) = Some (r, v, rs)" "w = 0"
      using cmd ok Cons.prems(4) v out More p by (auto simp: view_simps)
    moreover have "at_stream (h'\<lparr>m_isspace := True\<rparr>) (concat (map packet_bytes ps) @ cs) tx"
      using st' by (simp add: at_stream_def)
    ultimately obtain h'' k where
      "readword_loop w n' (h'\<lparr>m_isspace := True\<rparr>) = (r, h'')" "view h'' = v"
      "rs = map response_of (drop k ps)"
      "at_stream h'' (concat (map packet_bytes (drop k ps)) @ cs) tx" "isl r \<or> m_isspace h''"
      using Cons.IH [of "h'\<lparr>m_isspace := True\<rparr>" n' w] oks by auto
    then show ?thesis using eq out More
      by (intro exI [of _ h''] exI [of _ "Suc k"]) simp
  next
    case (Done w)
    then show ?thesis using cmd ok Cons.prems(4) v out p eq st'
      by (intro exI [of _ "h'\<lparr>m_isspace := True\<rparr>"] exI [of _ 1]) (auto simp: view_simps at_stream_def)
  next
    case (Raise e)
    then show ?thesis using cmd ok Cons.prems(4) v out p eq st'
      by (intro exI [of _ h'] exI [of _ 1]) (auto simp: view_simps)
  qed
qed

text \<open>C2: refinement of the response protocol.  Whatever packets are waiting, whatever bursts they
  come in, \<^verbatim>\<open>readword\<close> returns or throws exactly what \<^const>\<open>await_data\<close> says for the responses those
  packets carry, leaves the driver's bookkeeping in the state it says, consumes the packets up to the
  deciding one and no more, and sends nothing.\<close>
theorem readword_refines:
  assumes "at_stream h (concat (map packet_bytes ps) @ cs) tx" "list_all packet_ok ps" "m_isspace h"
    and "await_data (map response_of ps) 3 (view h) = Some (r, v, rs)"
  shows "\<exists>h' k. readword h = (r, h') \<and> view h' = v \<and> rs = map response_of (drop k ps)
    \<and> at_stream h' (concat (map packet_bytes (drop k ps)) @ cs) tx \<and> (isl r \<or> m_isspace h')"
  unfolding readword_def using assms by (rule readword_loop_refines)

definition demo_link :: "u8 list list \<Rightarrow> hexbus" where
  "demo_link rx = hexbus_init \<lparr>ll_open = True, ll_rx = rx, ll_tx = [], ll_total_nread = 0,
     ll_total_nwrit = 0\<rparr> 0 False True"

lemma int_packet_ok: "packet_ok (HEXB_INT, [], NL)"
  by (simp add: packet_ok_def hex_char_def isdigit8_def isspace8_def)

theorem readword_refines_witness:
  "\<exists>h' k. readword (demo_link [concat (map packet_bytes [(HEXB_INT, [], NL), data_packet 0xbeef])])
      = (Inr 0xbeef, h')
    \<and> view h' = (view (demo_link []))\<lparr>v_interrupt := True\<rparr> \<and> [] = map response_of (drop k [(HEXB_INT, [], NL), data_packet 0xbeef])
    \<and> at_stream h' (concat (map packet_bytes (drop k [(HEXB_INT, [], NL), data_packet 0xbeef])) @ []) []
    \<and> (isl (Inr 0xbeef :: exn + u32) \<or> m_isspace h')"
proof (rule readword_refines [where cs = "[]" and tx = "[]"])
  let ?ps = "[(HEXB_INT, [], NL), data_packet 0xbeef]" and ?h = "demo_link [concat (map packet_bytes [(HEXB_INT, [], NL), data_packet 0xbeef])]"
  have "map response_of ?ps = [Interrupt, Data 0xbeef]"
    by (simp add: data_packet_response) (simp add: response_of_def)
  then show "await_data (map response_of ?ps) 3 (view ?h)
      = Some (Inr 0xbeef, (view (demo_link []))\<lparr>v_interrupt := True\<rparr>, [])"
    by (simp add: demo_link_def hexbus_init_def bufalloc_def view_def v_advance_def)
qed (simp_all add: demo_link_def hexbus_init_def bufalloc_def at_stream_def rx_stream_def
    data_packet_ok int_packet_ok)

end
