(* ===== verification/HexBusProps.thy ===== *)
theory HexBusProps
  imports HexBusSpec
begin

text \<open>
  Whole bus operations: what block reads return and send, where a bus error is reported, what the
  writes leave in the driver's idea of the device's address, and that the command text fits its buffer.
\<close>

section \<open>Reading words\<close>

text \<open>Packets that may come between the words without disturbing a read.\<close>

definition quiet_packet :: "packet \<Rightarrow> bool" where
  "quiet_packet p \<longleftrightarrow> packet_ok p \<and> response_of p \<in> {Interrupt, Other}"

definition noted :: "packet list \<Rightarrow> busview \<Rightarrow> busview" where
  "noted ps v = (if Interrupt \<in> response_of ` set ps then v\<lparr>v_interrupt := True\<rparr> else v)"

lemma await_quiet:
  assumes "list_all quiet_packet ps"
  shows "await_data (map response_of ps @ rs) n v = await_data rs n (noted ps v)"
  using assms
proof (induction ps arbitrary: v)
  case (Cons p ps)
  then show ?case
    by (cases "response_of p = Interrupt") (auto simp: quiet_packet_def noted_def)
qed (simp add: noted_def)

lemma quiet_ok: "list_all quiet_packet ps \<Longrightarrow> list_all packet_ok ps"
  by (auto simp: list_all_iff quiet_packet_def)

lemma readword_after_quiet:
  assumes st: "at_stream h (concat (map packet_bytes (ps @ [p])) @ cs) tx"
    and q: "list_all quiet_packet ps" and p: "packet_ok p" and sp: "m_isspace h"
    and aw: "await_data [response_of p] 3 (noted ps (view h)) = Some (r, v, [])"
  shows "\<exists>h'. readword h = (r, h') \<and> view h' = v \<and> at_stream h' cs tx \<and> (isl r \<or> m_isspace h')"
proof -
  have "await_data (map response_of (ps @ [p])) 3 (view h) = Some (r, v, [])"
    using await_quiet [OF q, of "[response_of p]"] aw by simp
  moreover have "list_all packet_ok (ps @ [p])" using quiet_ok [OF q] p by simp
  ultimately obtain h' k where "readword h = (r, h')" "view h' = v" "[] = map response_of (drop k (ps @ [p]))"
    "at_stream h' (concat (map packet_bytes (drop k (ps @ [p]))) @ cs) tx" "isl r \<or> m_isspace h'"
    using readword_loop_refines [OF st _ sp] unfolding readword_def by blast
  then show ?thesis by (intro exI [of _ h']) auto
qed

text \<open>The words of a block read, each with the quiet packets before it, as the device sends them.\<close>

definition words_bytes :: "(packet list \<times> u32) list \<Rightarrow> u8 list" where
  "words_bytes ws = concat (map (\<lambda>(ps, w). concat (map packet_bytes (ps @ [data_packet w]))) ws)"

definition read_cmd :: "u8 list" where
  "read_cmd = [HEXB_READ, NL]"

lemma dev_write_stream:
  "at_stream h cs tx \<Longrightarrow> cmd \<noteq> [] \<Longrightarrow>
   \<exists>h'. dev_write cmd h = (Inr (), h') \<and> at_stream h' cs (tx @ cmd) \<and> view h' = view h \<and> m_isspace h' = m_isspace h"
  by (auto simp: dev_write_def ll_write_def at_stream_def rx_stream_def view_def)

lemma readv_loop_step:
  assumes "at_stream h (concat (map packet_bytes (ps @ [p])) @ cs) tx" "list_all quiet_packet ps"
    "packet_ok p" "m_isspace h" "await_data [response_of p] 3 (noted ps (view h)) = Some (r, v, [])"
  shows "\<exists>h'. seq (dev_write (cmd @ read_cmd)) (\<lambda>_. readword) h = (r, h') \<and> view h' = v
    \<and> at_stream h' cs (tx @ cmd @ read_cmd) \<and> (isl r \<or> m_isspace h')"
proof -
  obtain h1 where 1: "dev_write (cmd @ read_cmd) h = (Inr (), h1)"
    "at_stream h1 (concat (map packet_bytes (ps @ [p])) @ cs) (tx @ cmd @ read_cmd)" "view h1 = view h" "m_isspace h1 = m_isspace h"
    using dev_write_stream [OF assms(1), of "cmd @ read_cmd"] by (auto simp: read_cmd_def)
  then obtain h' where "readword h1 = (r, h')" "view h' = v" "at_stream h' cs (tx @ cmd @ read_cmd)" "isl r \<or> m_isspace h'"
    using readword_after_quiet [OF 1(2) assms(2,3)] assms(4,5) by auto
  then show ?thesis using 1 by (intro exI [of _ h']) (simp add: seq_Inr)
qed

definition advanced :: "nat \<Rightarrow> busview \<Rightarrow> busview" where
  "advanced n v = (if v_inc v then v\<lparr>v_lastaddr := v_lastaddr v + 4 * of_nat n\<rparr> else v)"

lemma advanced_Suc: "advanced n (noted ps (v_advance (noted qs v))) = advanced (Suc n) (noted (qs @ ps) v)"
  by (auto simp: advanced_def noted_def v_advance_def algebra_simps)

lemma readv_loop_words:
  assumes "at_stream h (words_bytes ws @ cs) tx" "m_isspace h" "\<forall>(ps, w)\<in>set ws. list_all quiet_packet ps"
  shows "\<exists>h'. readv_loop a inc cmd nread (length ws + m) h =
      (case readv_loop a inc (if ws = [] then cmd else []) (nread + length ws) m h' of
         (Inl e, h) \<Rightarrow> (Inl e, h) | (Inr vs, h) \<Rightarrow> (Inr (map snd ws @ vs), h))
    \<and> at_stream h' cs (tx @ (if ws = [] then [] else cmd) @ concat (replicate (length ws) read_cmd))
    \<and> view h' = advanced (length ws) (noted (concat (map fst ws)) (view h)) \<and> m_isspace h'"
  using assms
proof (induction ws arbitrary: h tx cmd nread)
  case Nil
  then show ?case
    by (intro exI [of _ h]) (auto simp: words_bytes_def advanced_def noted_def split: prod.splits sum.splits)
next
  case (Cons pw ws)
  obtain ps w where pw: "pw = (ps, w)" by force
  have st: "at_stream h (concat (map packet_bytes (ps @ [data_packet w])) @ (words_bytes ws @ cs)) tx"
    using Cons.prems(1) by (simp add: words_bytes_def pw)
  have q: "list_all quiet_packet ps" using Cons.prems(3) pw by auto
  have aw: "await_data [response_of (data_packet w)] 3 (noted ps (view h)) = Some (Inr w, v_advance (noted ps (view h)), [])"
    by (simp add: data_packet_response)
  from readv_loop_step [OF st q data_packet_ok Cons.prems(2) aw, of cmd] obtain h1 where
    1: "seq (dev_write (cmd @ read_cmd)) (\<lambda>_. readword) h = (Inr w, h1)" "view h1 = v_advance (noted ps (view h))"
    "at_stream h1 (words_bytes ws @ cs) (tx @ cmd @ read_cmd)" "m_isspace h1" by auto
  obtain h' where
    2: "readv_loop a inc [] (Suc nread) (length ws + m) h1 =
      (case readv_loop a inc (if ws = [] then [] else []) (Suc nread + length ws) m h' of
         (Inl e, h) \<Rightarrow> (Inl e, h) | (Inr vs, h) \<Rightarrow> (Inr (map snd ws @ vs), h))"
    "at_stream h' cs ((tx @ cmd @ read_cmd) @ (if ws = [] then [] else []) @ concat (replicate (length ws) read_cmd))"
    "view h' = advanced (length ws) (noted (concat (map fst ws)) (view h1))" "m_isspace h'"
    using Cons.IH [OF 1(3,4), of "[]" "Suc nread"] Cons.prems(3) by auto
  show ?case
    using 1 2 pw
    by (intro exI [of _ h']) (auto simp: read_cmd_def advanced_Suc split: prod.splits sum.splits)
qed

lemma view_sel:
  "m_lastaddr h = v_lastaddr (view h)" "m_inc h = v_inc (view h)" "m_bus_err h = v_bus_err (view h)"
  by (simp_all add: view_def)

lemma advanced_sel [simp]:
  "v_inc (noted ps v) = v_inc v" "v_lastaddr (noted ps v) = v_lastaddr v"
  "v_lastaddr (advanced n v) = (if v_inc v then v_lastaddr v + 4 * of_nat n else v_lastaddr v)"
  by (simp_all add: advanced_def noted_def)

lemma start_view:
  "view (h\<lparr>m_lastaddr := a, m_addr_set := b, m_inc := inc\<rparr>) = (view h)\<lparr>v_lastaddr := a, v_addr_set := b, v_inc := inc\<rparr>"
  by (simp add: view_def)

lemma readv_words:
  assumes "at_stream h (words_bytes ws @ cs) tx" "m_isspace h" "\<forall>(ps, w)\<in>set ws. list_all quiet_packet ps"
    and "ws \<noteq> []"
  shows "\<exists>h'. readv a inc (int (length ws)) h = (Inr (map snd ws), h')
    \<and> at_stream h' cs (tx @ encode_address (a OR (if inc then 0 else 1)) h @ concat (replicate (length ws) read_cmd))
    \<and> m_lastaddr h' = a + (if inc then 4 * of_nat (length ws) else 0)"
proof -
  let ?h = "h\<lparr>m_lastaddr := a, m_addr_set := True, m_inc := inc\<rparr>"
  let ?cmd = "encode_address (a OR (if inc then 0 else 1)) h"
  have "at_stream ?h (words_bytes ws @ cs) tx" "m_isspace ?h" using assms(1,2) by (simp_all add: at_stream_def)
  from readv_loop_words [OF this assms(3), of a inc ?cmd 0 0] obtain h' where
    r: "readv_loop a inc ?cmd 0 (length ws) ?h = (Inr (map snd ws), h')"
    and st: "at_stream h' cs (tx @ ?cmd @ concat (replicate (length ws) read_cmd))"
    and v: "view h' = advanced (length ws) (noted (concat (map fst ws)) (view ?h))"
    using assms(4) by auto
  have la: "m_lastaddr h' = a + (if inc then 4 * of_nat (length ws) else 0)"
    unfolding view_sel v advanced_sel start_view by simp
  moreover have "push_bit 2 (of_nat (length ws)) = (4 * of_nat (length ws) :: u32)"
    by (simp add: push_bit_eq_mult)
  ultimately have "readv a inc (int (length ws)) h = (Inr (map snd ws), h')"
    using r assms(4) by (auto simp: readv_def Let_def)
  then show ?thesis using st la by blast
qed



definition error_packet :: packet where
  "error_packet = (HEXB_ERR, [], NL)"

lemma error_packet: "packet_ok error_packet" "response_of error_packet = Error"
  by (simp_all add: error_packet_def packet_ok_def response_of_def hex_char_def isdigit8_def isspace8_def)



section \<open>Acknowledgements of writes\<close>

text \<open>\<^verbatim>\<open>readidle\<close> on the characters of one burst, without the link.\<close>

fun idle_chars :: "u8 list \<Rightarrow> u32 \<Rightarrow> hexbus \<Rightarrow> (exn + u32) \<times> hexbus" where
  "idle_chars [] w h = (Inr w, h)"
| "idle_chars (c # cs) w h =
     (case readidle_char c w h of (Inl e, h) \<Rightarrow> (Inl e, h) | (Inr w, h) \<Rightarrow> idle_chars cs w h)"

lemma idle_chars_append:
  "idle_chars (cs @ ds) w h = (case idle_chars cs w h of (Inl e, h) \<Rightarrow> (Inl e, h) | (Inr w, h) \<Rightarrow> idle_chars ds w h)"
  by (induction cs w h rule: idle_chars.induct) (auto split: prod.splits sum.splits)

lemma readidle_char_relink:
  "readidle_char c w (relink l n h) = map_prod id (relink l n) (readidle_char c w h)"
  by (auto simp: readidle_char_def readidle_cmd_def relink_def)

lemma idle_chars_relink: "idle_chars cs w (relink l n h) = map_prod id (relink l n) (idle_chars cs w h)"
  by (induction cs w h rule: idle_chars.induct)
    (auto simp: readidle_char_relink map_prod_def split: prod.splits sum.splits)

lemma readidle_burst:
  assumes "ll_rx (m_dev h) = cs # rest" "ll_open (m_dev h)" "idle_chars cs w h = (Inr w', h')"
  shows "\<exists>l n. readidle_loop w h = (Inr (), relink l n h') \<and> ll_rx l = rest \<and> ll_open l"
  using assms
proof (induction cs arbitrary: w h h')
  case Nil
  let ?l = "(m_dev h)\<lparr>ll_rx := rest\<rparr>"
  have h': "h' = h" using Nil(3) by simp
  have "readidle_loop w h = (Inr (), relink ?l (m_total_nread h) h')"
    using Nil(1) h' by (simp add: readidle_loop.simps [of w h] ll_available_def ll_poll_def relink_def)
  then show ?case using Nil.prems(2) by (intro exI [of _ ?l] exI [of _ "m_total_nread h"]) simp
next
  case (Cons c cs)
  obtain w1 h1 where c: "readidle_char c w h = (Inr w1, h1)" and rest: "idle_chars cs w1 h1 = (Inr w', h')"
    using Cons.prems(3) by (auto split: prod.splits sum.splits)
  let ?l = "(m_dev h)\<lparr>ll_rx := cs # rest, ll_total_nread := Suc (ll_total_nread (m_dev h))\<rparr>"
  let ?n = "m_total_nread h + 1"
  have "ll_available (m_dev h) = (True, m_dev h)" using Cons.prems(1) by (simp add: ll_available_def ll_poll_def)
  moreover have "ll_read 1 (m_dev h) = (Inr [c], ?l)" using Cons.prems(1,2) by (simp add: ll_read_def Let_def)
  then have "lclreadcode 1 h = (Inr [c], relink ?l ?n h)" by (simp add: lclreadcode_1 [unfolded One_nat_def] relink_def)
  ultimately have step: "readidle_loop w h = readidle_loop w1 (relink ?l ?n h1)"
    using c by (simp add: readidle_loop.simps [of w h] readidle_char_relink)
  have "idle_chars cs w1 (relink ?l ?n h1) = (Inr w', relink ?l ?n h')"
    using rest by (simp add: idle_chars_relink)
  from Cons.IH [OF _ _ this] obtain l n where
    "readidle_loop w1 (relink ?l ?n h1) = (Inr (), relink l n (relink ?l ?n h'))" "ll_rx l = rest" "ll_open l"
    using Cons.prems(2) by auto
  then show ?case using step by auto
qed

definition ack_packet :: "u8 list" where
  "ack_packet = [HEXB_ACK, NL]"

definition addr_packet :: "u32 \<Rightarrow> u8 list" where
  "addr_packet a = HEXB_ADDR # fmt_08x a @ [NL]"

lemma idle_digits:
  "list_all hex_char ds \<Longrightarrow> idle_chars ds w h = (Inr (foldl shift_digit w ds), h)"
  by (induction ds arbitrary: w) (auto simp: readidle_char_def)

text \<open>The device echoes the address it has been given, then acknowledges each write.\<close>

lemma idle_addr_packet:
  assumes "m_isspace h"
  shows "idle_chars (addr_packet a) w h = (Inr 0, h\<lparr>m_cmd := HEXB_ADDR, m_isspace := True, m_addr_set := True,
    m_inc := (a AND 1 = 0), m_lastaddr := a AND (- 4)\<rparr>)"
proof -
  have ds: "list_all hex_char (fmt_08x a)" by (auto simp: list_all_iff fmt_08x_def hex_char_digits)
  have "foldl shift_digit 0 (fmt_08x a) = a" using hex_value_08x [of a] by (simp add: hex_value_def)
  then show ?thesis
    using assms by (simp add: addr_packet_def idle_chars_append idle_digits [OF ds] readidle_char_def readidle_cmd_def
        hex_char_def isdigit8_def isspace8_def)
qed

lemma idle_acks:
  assumes "m_isspace h" "m_inc h"
  shows "\<exists>c. idle_chars (concat (replicate n ack_packet)) 0 h = (Inr 0, h\<lparr>m_cmd := c, m_isspace := True,
    m_lastaddr := m_lastaddr h + 4 * of_nat n, m_nacks := m_nacks h + of_nat n\<rparr>)"
  using assms
proof (induction n arbitrary: h)
  case 0
  then show ?case by (intro exI) (simp, rule hexbus.equality, simp_all)
next
  case (Suc n)
  let ?h = "h\<lparr>m_cmd := HEXB_ACK, m_isspace := True, m_lastaddr := m_lastaddr h + 4, m_nacks := m_nacks h + 1\<rparr>"
  have 1: "idle_chars ack_packet 0 h = (Inr 0, ?h)"
    using Suc.prems by (simp add: ack_packet_def readidle_char_def readidle_cmd_def hex_char_def isdigit8_def isspace8_def)
  obtain c where 2: "idle_chars (concat (replicate n ack_packet)) 0 ?h = (Inr 0, ?h\<lparr>m_cmd := c, m_isspace := True,
    m_lastaddr := m_lastaddr ?h + 4 * of_nat n, m_nacks := m_nacks ?h + of_nat n\<rparr>)"
    using Suc.IH [of ?h] Suc.prems by auto
  have "?h\<lparr>m_cmd := c, m_isspace := True, m_lastaddr := m_lastaddr ?h + 4 * of_nat n, m_nacks := m_nacks ?h + of_nat n\<rparr>
      = h\<lparr>m_cmd := c, m_isspace := True, m_lastaddr := m_lastaddr h + 4 * of_nat (Suc n), m_nacks := m_nacks h + of_nat (Suc n)\<rparr>"
    by (rule hexbus.equality) (simp_all add: algebra_simps)
  then show ?case
    using 1 2 by (intro exI [of _ c]) (simp only: replicate.simps concat.simps idle_chars_append prod.case sum.case)
qed

lemma wait_acks_done: "\<not> m_nacks h < n \<Longrightarrow> wait_acks n h = (Inr (), h)"
  by (simp add: wait_acks.simps [of n h])

text \<open>Once all acknowledgements are in, the remaining writes go out without waiting.\<close>

lemma writev_loop_acked:
  assumes "ll_open (m_dev h)" "unat (nw + of_nat (length vs)) = unat nw + length vs"
    "unat nw + length vs \<le> Suc (unat (m_nacks h))"
  shows "\<exists>l n. writev_loop [] nw vs h = (Inr (), relink l n h) \<and> ll_rx l = ll_rx (m_dev h) \<and> ll_open l"
  using assms
proof (induction vs arbitrary: nw h)
  case Nil
  have "h = relink (m_dev h) (m_total_nread h) h" by (simp add: relink_def)
  then show ?case using Nil by (metis prod.inject ret_app writev_loop.simps(1))
next
  case (Cons v vs)
  let ?l = "(m_dev h)\<lparr>ll_tx := ll_tx (m_dev h) @ write_text v, ll_total_nwrit := ll_total_nwrit (m_dev h) + length (write_text v)\<rparr>"
  let ?h = "relink ?l (m_total_nread h) h"
  have "write_text v \<noteq> []" by (simp add: write_text_def)
  then have "dev_write ([] @ write_text v) h = (Inr (), ?h)"
    using Cons.prems(1) by (simp add: dev_write_def ll_write_def relink_def)
  moreover have "\<not> m_nacks ?h < nw"
    using Cons.prems(3) by (simp add: word_less_nat_alt)
  then have "wait_acks nw ?h = (Inr (), ?h)" by (rule wait_acks_done)
  ultimately have step: "writev_loop [] nw (v # vs) h = writev_loop [] (nw + 1) vs ?h"
    by (simp add: seq_Inr)
  have "unat nw + Suc (length vs) < 2 ^ 32"
    using Cons.prems(2) unat_bound_u32 [of "nw + of_nat (length (v # vs))"] by simp
  then have "unat (nw + 1) = Suc (unat nw)"
    by (simp add: unat_word_ariths)
  moreover have "nw + 1 + of_nat (length vs) = nw + of_nat (length (v # vs))" by simp
  ultimately have "\<exists>l n. writev_loop [] (nw + 1) vs ?h = (Inr (), relink l n ?h) \<and> ll_rx l = ll_rx (m_dev ?h) \<and> ll_open l"
    using Cons.IH [of ?h "nw + 1"] Cons.prems by (simp only:) simp
  then show ?case using step by auto
qed

text \<open>The state once the echoed address and \<open>n\<close> acknowledgements have been read.\<close>

definition acked :: "u32 \<Rightarrow> nat \<Rightarrow> u8 \<Rightarrow> hexbus \<Rightarrow> hexbus" where
  "acked a n c h = h\<lparr>m_cmd := c, m_isspace := True, m_addr_set := True, m_inc := True,
     m_lastaddr := a + 4 * of_nat n, m_nacks := m_nacks h + of_nat n\<rparr>"

lemma wait_for_burst:
  assumes "ll_open (m_dev h)" "ll_rx (m_dev h) = [addr_packet a @ concat (replicate n ack_packet)]" "m_isspace h"
    and "a AND 3 = 0" "m_nacks h = 0" "0 < k" "k \<le> of_nat n"
  shows "\<exists>l m c. wait_acks k h = (Inr (), relink l m (acked a n c h)) \<and> ll_open l"
proof -
  have a: "a AND 1 = 0" "a AND (- 4) = a"
  proof -
    have "a AND 1 = (a AND 3) AND 1" by (simp add: and.assoc)
    then show "a AND 1 = 0" using assms(4) by simp
    have b: "\<not> bit a j" if "j < 2" for j
    proof -
      have "bit (take_bit 2 a) j = False" using assms(4) by (simp add: and_mask_take_bit)
      then show ?thesis using that by (simp add: bit_take_bit_iff)
    qed
    have m: "(- 4 :: u32) = NOT (mask 2)" by (simp add: mask_eq_exp_minus_1)
    show "a AND (- 4) = a"
      unfolding m by (rule bit_word_eqI) (auto simp: bit_and_iff bit_not_iff bit_mask_iff dest: b)
  qed
  let ?h = "h\<lparr>m_cmd := HEXB_ADDR, m_isspace := True, m_addr_set := True, m_inc := True, m_lastaddr := a\<rparr>"
  have 1: "idle_chars (addr_packet a) 0 h = (Inr 0, ?h)"
    unfolding idle_addr_packet [OF assms(3)] a by simp
  obtain c where 2: "idle_chars (concat (replicate n ack_packet)) 0 ?h = (Inr 0, ?h\<lparr>m_cmd := c, m_isspace := True,
    m_lastaddr := m_lastaddr ?h + 4 * of_nat n, m_nacks := m_nacks ?h + of_nat n\<rparr>)"
    using idle_acks [of ?h n] by auto
  have eq: "?h\<lparr>m_cmd := c, m_isspace := True, m_lastaddr := m_lastaddr ?h + 4 * of_nat n, m_nacks := m_nacks ?h + of_nat n\<rparr> = acked a n c h"
    unfolding acked_def by (rule hexbus.equality) simp_all
  have "idle_chars (addr_packet a @ concat (replicate n ack_packet)) 0 h = (Inr 0, acked a n c h)"
    using 1 2 unfolding eq by (simp only: idle_chars_append prod.case sum.case)
  from readidle_burst [OF assms(2,1) this] obtain l m where
    r: "readidle h = (Inr (), relink l m (acked a n c h))" "ll_open l"
    unfolding readidle_def by blast
  have "\<not> m_nacks (relink l m (acked a n c h)) < k" using assms(5,7) by (simp add: acked_def)
  then have "wait_acks k (relink l m (acked a n c h)) = (Inr (), relink l m (acked a n c h))" by (rule wait_acks_done)
  moreover have "m_nacks h < k" using assms(5,6) by simp
  ultimately have "wait_acks k h = (Inr (), relink l m (acked a n c h))"
    using r(1) by (simp add: wait_acks.simps [of k h])
  then show ?thesis using r(2) by blast
qed

text \<open>
  Block writes lose track of the device's address.  The device echoes the address and acknowledges
  every word, for each of which \<^verbatim>\<open>readidle\<close> advances \<^verbatim>\<open>m_lastaddr\<close>; then \<^verbatim>\<open>writev\<close> adds the length of the
  block once more.  The driver is left believing in an address twice as far on as the device is: an
  access just there goes out without an address, and one where the device really is gets one.
\<close>
lemma writei_counts_twice:
  assumes "ll_open (m_dev h)" "ll_rx (m_dev h) = [addr_packet a @ concat (replicate (length vs) ack_packet)]"
    and "m_isspace h" "a AND 3 = 0" "vs \<noteq> []" "length vs < 2 ^ 29"
  shows "\<exists>h'. writei a vs h = (Inr (), h') \<and> m_lastaddr h' = a + 8 * of_nat (length vs)
    \<and> encode_address (a + 8 * of_nat (length vs)) h' = [] \<and> encode_address (a + 4 * of_nat (length vs)) h' \<noteq> []"
proof -
  let ?n = "length vs"
  let ?cmd = "encode_address a h" and ?h0 = "h\<lparr>m_lastaddr := a, m_addr_set := True, m_nacks := 0\<rparr>"
  obtain v vs' where vs: "vs = v # vs'" using assms(5) by (cases vs) auto
  have un: "unat (of_nat ?n :: u32) = ?n" using assms(6) by (intro unat_of_nat_u32) simp
  have wt: "write_text v \<noteq> []" for v by (simp add: write_text_def)
  have dw: "\<exists>l. dev_write cmd k = (Inr (), relink l (m_total_nread k) k) \<and> ll_rx l = ll_rx (m_dev k) \<and> ll_open l"
    if "ll_open (m_dev k)" "cmd \<noteq> []" for k cmd
    using that by (intro exI [of _ "(m_dev k)\<lparr>ll_tx := ll_tx (m_dev k) @ cmd, ll_total_nwrit := ll_total_nwrit (m_dev k) + length cmd\<rparr>"])
      (simp add: dev_write_def ll_write_def relink_def)
  obtain l0 where d0: "dev_write (?cmd @ write_text v) ?h0 = (Inr (), relink l0 (m_total_nread ?h0) ?h0)"
    "ll_rx l0 = ll_rx (m_dev ?h0)" "ll_open l0"
    using dw [of ?h0 "?cmd @ write_text v"] assms(1) wt [of v] by auto
  let ?h1 = "relink l0 (m_total_nread ?h0) ?h0"
  have w0: "wait_acks 0 ?h1 = (Inr (), ?h1)" by (rule wait_acks_done) simp
  have ready: "ll_open (m_dev k)" "ll_rx (m_dev k) = [addr_packet a @ concat (replicate ?n ack_packet)]" "m_isspace k" "m_nacks k = 0"
    if "k = relink l m ?h0" "ll_rx l = ll_rx (m_dev ?h0)" "ll_open l" for k l m
    using that assms(2,3) by (simp_all add: relink_def)
  have "\<exists>l m c. seq (writev_loop ?cmd 0 vs) (\<lambda>_. wait_acks (of_nat ?n)) ?h0 = (Inr (), relink l m (acked a ?n c ?h0))"
  proof (cases vs')
    case Nil
    have "\<exists>l m c. wait_acks (of_nat ?n) ?h1 = (Inr (), relink l m (acked a ?n c ?h1)) \<and> ll_open l"
      using ready [OF refl d0(2,3)] assms(4) un
      by (intro wait_for_burst) (auto simp: word_less_nat_alt vs)
    then obtain l m c where "wait_acks (of_nat ?n) ?h1 = (Inr (), relink l m (acked a ?n c ?h1))" by blast
    moreover have "writev_loop ?cmd 0 vs ?h0 = (Inr (), ?h1)"
      using d0(1) w0 by (simp add: vs Nil seq_Inr)
    ultimately show ?thesis by (auto simp: seq_Inr acked_def relink_def)
  next
    case (Cons v2 vs2)
    obtain l1 where d1: "dev_write ([] @ write_text v2) ?h1 = (Inr (), relink l1 (m_total_nread ?h1) ?h1)"
      "ll_rx l1 = ll_rx (m_dev ?h0)" "ll_open l1"
      using dw [of ?h1 "[] @ write_text v2"] d0(2,3) wt [of v2] by auto
    let ?h2 = "relink l1 (m_total_nread ?h1) ?h0"
    have h2: "relink l1 (m_total_nread ?h1) ?h1 = ?h2" by simp
    have "\<exists>l m c. wait_acks 1 ?h2 = (Inr (), relink l m (acked a ?n c ?h2)) \<and> ll_open l"
      using ready [OF refl d1(2,3)] assms(4) un
      by (intro wait_for_burst) (auto simp: word_le_nat_alt vs)
    then obtain l m c where w1: "wait_acks 1 ?h2 = (Inr (), relink l m (acked a ?n c ?h2))" "ll_open l" by blast
    let ?h3 = "relink l m (acked a ?n c ?h2)"
    have n3: "m_nacks ?h3 = of_nat ?n" by (simp add: acked_def relink_def)
    have "unat (2 + of_nat (length vs2) :: u32) = 2 + length vs2"
      using unat_of_nat_u32 [of "2 + length vs2"] assms(6) by (simp add: vs Cons)
    then have "\<exists>l m. writev_loop [] 2 vs2 ?h3 = (Inr (), relink l m ?h3) \<and> ll_rx l = ll_rx (m_dev ?h3) \<and> ll_open l"
      using w1(2) n3 un by (intro writev_loop_acked) (simp_all add: vs Cons)
    then obtain l' m' where w2: "writev_loop [] 2 vs2 ?h3 = (Inr (), relink l' m' ?h3)" by blast
    have w3: "wait_acks (of_nat ?n) (relink l' m' ?h3) = (Inr (), relink l' m' ?h3)"
      by (rule wait_acks_done) (simp add: acked_def relink_def)
    have "writev_loop ?cmd 0 vs ?h0 = (Inr (), relink l' m' ?h3)"
      using d0(1) w0 d1(1) w1(1) w2 unfolding h2 by (simp add: vs Cons seq_Inr)
    then show ?thesis using w3 by (auto simp: seq_Inr acked_def relink_def)
  qed
  then obtain l m c where run: "seq (writev_loop ?cmd 0 vs) (\<lambda>_. wait_acks (of_nat ?n)) ?h0 = (Inr (), relink l m (acked a ?n c ?h0))"
    by blast
  let ?h' = "(relink l m (acked a ?n c ?h0))\<lparr>m_lastaddr := a + 4 * of_nat ?n + push_bit 2 (of_nat ?n)\<rparr>"
  have "writei a vs h = (Inr (), ?h')"
    using run unfolding writei_def writev_def Let_def by (auto simp: seq_def acked_def relink_def split: prod.splits sum.splits)
  moreover have la: "m_lastaddr ?h' = a + 8 * of_nat ?n" by (simp add: push_bit_eq_mult)
  moreover have "m_addr_set ?h'" "m_inc ?h'" by (simp_all add: acked_def relink_def)
  moreover have "(a + 8 * of_nat ?n) AND 1 = 0"
  proof -
    have "a AND 1 = (a AND 3) AND 1" by (simp add: and.assoc)
    then have "even a" using assms(4) by (simp add: and_one_eq even_iff_mod_2_eq_zero)
    then have "even (a + 8 * of_nat ?n)" by simp
    then show ?thesis by (simp add: and_one_eq even_iff_mod_2_eq_zero)
  qed
  moreover have "a + 4 * of_nat ?n \<noteq> a + 8 * of_nat ?n"
  proof
    assume "a + 4 * of_nat ?n = a + 8 * of_nat ?n"
    then have "4 * of_nat ?n = (8 * of_nat ?n :: u32)" by (simp only: add_left_cancel)
    then have "(of_nat (4 * ?n) :: u32) = of_nat (8 * ?n)" by (simp only: of_nat_mult of_nat_numeral)
    then have "unat (of_nat (4 * ?n) :: u32) = unat (of_nat (8 * ?n) :: u32)" by (simp only:)
    then have "4 * ?n = 8 * ?n"
      using assms(6) unat_of_nat_u32 [of "4 * ?n"] unat_of_nat_u32 [of "8 * ?n"] by simp
    then show False using assms(5) by simp
  qed
  ultimately show ?thesis by (intro exI [of _ ?h']) (simp add: encode_address_def)
qed

theorem writei_counts_twice_witness:
  "\<exists>h'. writei 0x00180000 [1, 2, 3] (demo_link [addr_packet 0x00180000 @ concat (replicate (length [1::u32, 2, 3]) ack_packet)])
      = (Inr (), h') \<and> m_lastaddr h' = 0x00180018"
proof -
  let ?h = "demo_link [addr_packet 0x00180000 @ concat (replicate (length [1::u32, 2, 3]) ack_packet)]"
  have "ll_open (m_dev ?h)" "ll_rx (m_dev ?h) = [addr_packet 0x00180000 @ concat (replicate (length [1::u32, 2, 3]) ack_packet)]"
    "m_isspace ?h"
    by (simp_all add: demo_link_def hexbus_init_def bufalloc_def)
  from writei_counts_twice [OF this] show ?thesis by auto
qed

section \<open>The command buffer\<close>

lemma hex_len_le: "hex_len n w \<le> Suc n"
  by (induction n arbitrary: w) auto

lemma int_and_split: "(a AND x) + (a AND NOT x) = (a :: int)"
proof -
  have "(a AND x) + (a AND NOT x) = (a AND x) OR (a AND NOT x)"
    by (rule disjunctive_add_eq_or, rule bit_eqI) (auto simp: bit_and_iff bit_not_iff)
  also have "\<dots> = a" by (rule bit_eqI) (auto simp: bit_or_iff bit_and_iff bit_not_iff)
  finally show ?thesis .
qed

text \<open>
  The command buffer is never overrun.  It is allocated once, with at least 64 bytes, and the longest
  text the driver writes into it, an address, a write of a full word, the newline and the
  terminating zero, takes 20.
\<close>
lemma hexbus_buf_fits:
  "length (encode_address a h @ write_text v) + 1 \<le> 20
   \<and> 64 \<le> m_buflen (hexbus_init comms la inc sp)
   \<and> length (encode_address a h @ [HEXB_READ, NL]) + 1 \<le> 20
   \<and> (0 < len \<longrightarrow> len \<le> 0x7fffff80 \<longrightarrow> len \<le> m_buflen (bufalloc len h))"
proof -
  have 1: "length (encode_address a h) \<le> 9"
    by (simp add: encode_address_def fmt_08x_def)
  have 2: "length (write_text v) \<le> 10"
    using hex_len_le [of 7 v] by (simp add: write_text_def fmt_x_def)
  have 3: "64 \<le> m_buflen (hexbus_init comms la inc sp)"
    by (simp add: hexbus_init_def bufalloc_def)
  have 4: "len \<le> (len AND (- 0x3f)) + 0x40" for len :: int
  proof -
    have "(len AND 0x3e) + (len AND (- 0x3f)) = len"
      using int_and_split [of len "0x3e"] by simp
    moreover have "len AND 0x3e \<le> 0x3e" by simp
    ultimately show ?thesis by linarith
  qed
  show ?thesis
    using 1 2 3 4 [of len] by (auto simp: bufalloc_def)
qed

theorem hexbus_buf_fits_witness:
  "100 \<le> m_buflen (bufalloc 100 (demo_link []))"
  using hexbus_buf_fits [where len = 100 and h = "demo_link []"] by simp

section \<open>Idle characters\<close>

text \<open>
  \<^verbatim>\<open>lclreadcode\<close> was meant to squeeze idle characters out of what it read.  It advances the
  wrong pointer on them: the same number of characters comes back, and on the lengths the code uses
  it hands over an idle character like any other.
\<close>
lemma lclreadcode_keeps_idles:
  "length (lclreadcode_loop buf) = length buf \<and> lclreadcode_loop [c] = [c]
   \<and> lclreadcode_loop [0x7f, 0x52] = [0x7f, 0x7f]"
proof -
  have "case foldl lclreadcode_step (sp, dp, b) is of (sp, dp, b') \<Rightarrow> length b' = length b" for sp dp b "is"
  proof (induction "is" arbitrary: sp dp b)
    case (Cons i "is")
    obtain sp' dp' b' where s: "lclreadcode_step (sp, dp, b) i = (sp', dp', b')" by (metis prod.collapse)
    then have "length b' = length b" by (auto simp: lclreadcode_step_def split: if_splits)
    then show ?case using Cons.IH [of b' sp' dp'] s by simp
  qed simp
  from this [of buf 0 0 "[0..<length buf]"] show ?thesis
    by (auto simp: lclreadcode_loop_def lclreadcode_step_def split: prod.splits)
qed

end
