(* ===== verification/DevBus.thy ===== *)
theory DevBus
  imports Comms
begin

text \<open>
  The abstract bus of \<^verbatim>\<open>sw/host/devbus.h\<close>: a record of its virtual methods for the clients to call,
  and the contract those clients rely on, as a locale.  \<^verbatim>\<open>readi\<close> and its relatives fill a buffer of
  \<open>len\<close> words; here they return it.
\<close>

record 'b devbus =
  dv_writeio :: "u32 \<Rightarrow> u32 \<Rightarrow> ('b, unit) io"
  dv_readio :: "u32 \<Rightarrow> ('b, u32) io"
  dv_readi :: "u32 \<Rightarrow> int \<Rightarrow> ('b, u32 list) io"
  dv_readz :: "u32 \<Rightarrow> int \<Rightarrow> ('b, u32 list) io"
  dv_writei :: "u32 \<Rightarrow> u32 list \<Rightarrow> ('b, unit) io"
  dv_writez :: "u32 \<Rightarrow> u32 list \<Rightarrow> ('b, unit) io"

text \<open>
  The contract.  A block read that returns fills its buffer.  Time passes: there is a measure of what
  the bus may still deliver that no operation increases and every completed read of a word uses up,
  so that a client that polls cannot poll for ever.  The bus itself neither runs out of fuel nor
  fails an assertion of its clients.  \<open>comes_back sure traffic N m\<close> says the second of an operation
  \<open>m\<close> started with at most \<open>N\<close> to come, and that no assertion fails when \<open>sure\<close> holds; the operations of the
  bus come back and are sure.
\<close>

definition comes_back :: "bool \<Rightarrow> ('b \<Rightarrow> nat) \<Rightarrow> nat \<Rightarrow> ('b, 'a) io \<Rightarrow> bool" where
  "comes_back sure traffic N m \<longleftrightarrow>
     (\<forall>s r s'. traffic s \<le> N \<longrightarrow> m s = (r, s') \<longrightarrow>
        traffic s' \<le> traffic s \<and> r \<noteq> Inl Out_of_Fuel \<and> (sure \<longrightarrow> r \<noteq> Inl Client_Assert))"

lemma comes_backD:
  "comes_back sure traffic N m \<Longrightarrow> m s = (r, s') \<Longrightarrow> traffic s \<le> N \<Longrightarrow>
   traffic s' \<le> traffic s \<and> r \<noteq> Inl Out_of_Fuel \<and> (sure \<longrightarrow> r \<noteq> Inl Client_Assert)"
  by (auto simp: comes_back_def)

lemma comes_back_ret: "comes_back sure traffic N (ret x)"
  by (simp add: comes_back_def)

lemma comes_back_assert: "\<not> sure \<Longrightarrow> comes_back sure traffic N (throw Client_Assert)"
  by (simp add: comes_back_def throw_def)

lemma comes_back_seq:
  assumes m: "comes_back sure traffic N m" and f: "\<And>x. comes_back sure traffic N (f x)"
  shows "comes_back sure traffic N (seq m f)"
  unfolding comes_back_def
proof (intro allI impI)
  fix s r s' assume s: "traffic s \<le> N" and run: "seq m f s = (r, s')"
  obtain r1 s1 where m1: "m s = (r1, s1)" by force
  note k = comes_backD [OF m m1 s]
  show "traffic s' \<le> traffic s \<and> r \<noteq> Inl Out_of_Fuel \<and> (sure \<longrightarrow> r \<noteq> Inl Client_Assert)"
  proof (cases r1)
    case (Inl e)
    then show ?thesis using run m1 k by (auto simp: seq_def)
  next
    case (Inr x)
    then have "f x s1 = (r, s')" using run m1 by (simp add: seq_def)
    then show ?thesis using comes_backD [OF f, of x s1 r s'] k s by auto
  qed
qed

lemma comes_back_iter: "(\<And>x. comes_back sure traffic N (f x)) \<Longrightarrow> comes_back sure traffic N (iter f xs)"
  by (induction xs) (auto intro: comes_back_seq comes_back_ret)

lemma comes_back_if:
  "(b \<Longrightarrow> comes_back sure traffic N m) \<Longrightarrow> (\<not> b \<Longrightarrow> comes_back sure traffic N m') \<Longrightarrow>
   comes_back sure traffic N (if b then m else m')"
  by simp

lemma comes_back_case_prod:
  "(\<And>a b. comes_back sure traffic N (f a b)) \<Longrightarrow> comes_back sure traffic N (case x of (a, b) \<Rightarrow> f a b)"
  by (cases x) simp

lemmas comes_back_intros = comes_back_seq comes_back_iter comes_back_if comes_back_case_prod comes_back_ret

definition keeps :: "('b \<Rightarrow> nat) \<Rightarrow> nat \<Rightarrow> ('b, 'a) io \<Rightarrow> bool" where
  keeps_sure: "keeps = comes_back True"

lemma keeps_def:
  "keeps traffic N m \<longleftrightarrow>
     (\<forall>s r s'. traffic s \<le> N \<longrightarrow> m s = (r, s') \<longrightarrow>
        traffic s' \<le> traffic s \<and> r \<noteq> Inl Out_of_Fuel \<and> r \<noteq> Inl Client_Assert)"
  by (simp add: keeps_sure comes_back_def)

lemma keeps_comes_back: "keeps traffic N m \<Longrightarrow> comes_back sure traffic N m"
  by (auto simp: keeps_def comes_back_def)

lemma keepsD:
  "keeps traffic N m \<Longrightarrow> m s = (r, s') \<Longrightarrow> traffic s \<le> N \<Longrightarrow>
   traffic s' \<le> traffic s \<and> r \<noteq> Inl Out_of_Fuel \<and> r \<noteq> Inl Client_Assert"
  by (auto simp: keeps_def)

lemma keeps_ret [intro, simp]: "keeps traffic N (ret x)"
  by (simp add: keeps_def)

lemma keeps_Pair [intro, simp]: "keeps traffic N (Pair (Inr x))"
  by (simp add: keeps_def)

lemma keeps_seq [intro]: "keeps traffic N m \<Longrightarrow> (\<And>x. keeps traffic N (f x)) \<Longrightarrow> keeps traffic N (seq m f)"
  unfolding keeps_sure by (rule comes_back_seq)

lemma keeps_iter [intro]: "(\<And>x. keeps traffic N (f x)) \<Longrightarrow> keeps traffic N (iter f xs)"
  by (induction xs) auto

lemma keeps_if [intro]: "(b \<Longrightarrow> keeps traffic N m) \<Longrightarrow> (\<not> b \<Longrightarrow> keeps traffic N m') \<Longrightarrow> keeps traffic N (if b then m else m')"
  by simp

lemma keeps_case_prod [intro]: "(\<And>a b. keeps traffic N (f a b)) \<Longrightarrow> keeps traffic N (case x of (a, b) \<Rightarrow> f a b)"
  by (cases x) simp

locale devbus_client =
  fixes bus :: "'b devbus" and traffic :: "'b \<Rightarrow> nat"
  assumes writeio_keeps: "keeps traffic N (dv_writeio bus a v)"
    and readio_keeps: "keeps traffic N (dv_readio bus a)"
    and readi_keeps: "keeps traffic N (dv_readi bus a n)"
    and readz_keeps: "keeps traffic N (dv_readz bus a n)"
    and writei_keeps: "keeps traffic N (dv_writei bus a vs)"
    and readio_uses: "dv_readio bus a s = (Inr w, s') \<Longrightarrow> traffic s' < traffic s"
    and readi_fills: "dv_readi bus a n s = (Inr ws, s') \<Longrightarrow> length ws = nat n"
    and readz_fills: "dv_readz bus a n s = (Inr ws, s') \<Longrightarrow> length ws = nat n"
begin

lemmas bus_keeps = writeio_keeps readio_keeps readi_keeps readz_keeps writei_keeps

end

end
