(* ===== verification/HexBusDev.thy ===== *)
theory HexBusDev
  imports HexBusSpec DevBus
begin

text \<open>
  The debugging bus as a provider of the abstract one: \<^verbatim>\<open>typedef HEXBUS FPGA\<close>, whose methods override
  those of \<^verbatim>\<open>DEVBUS\<close>.  The traffic still to come on the link is the measure of the contract.
\<close>

definition hexbus_dev :: "hexbus devbus" where
  "hexbus_dev =
     \<lparr>dv_writeio = writeio, dv_readio = readio, dv_readi = readi, dv_readz = readz,
      dv_writei = writei, dv_writez = writez\<rparr>"

definition hex_traffic :: "hexbus \<Rightarrow> nat" where
  "hex_traffic h = rx_size (m_dev h)"

section \<open>Every operation keeps the contract\<close>

lemma hex_traffic_simps [simp]:
  "hex_traffic (h\<lparr>m_dev := l\<rparr>) = rx_size l"
  "hex_traffic (h\<lparr>m_total_nread := n\<rparr>) = hex_traffic h"
  "hex_traffic (h\<lparr>m_lastaddr := a\<rparr>) = hex_traffic h" "hex_traffic (h\<lparr>m_addr_set := b\<rparr>) = hex_traffic h"
  "hex_traffic (h\<lparr>m_inc := b\<rparr>) = hex_traffic h" "hex_traffic (h\<lparr>m_nacks := a\<rparr>) = hex_traffic h"
  by (simp_all add: hex_traffic_def)

lemma ll_read_traffic: "ll_read n l = (r, l') \<Longrightarrow> rx_size l' \<le> rx_size l \<and> (\<forall>e. r = Inl e \<longrightarrow> e = Read_Failure)"
proof -
  assume r: "ll_read n l = (r, l')"
  obtain got rx where t: "rx_take n (ll_rx l) = (got, rx)" by force
  from rx_take_size [OF t] r t show ?thesis
    by (auto simp: ll_read_def rx_size_def Let_def split: if_splits)
qed

lemma lclreadcode_traffic:
  "lclreadcode n h = (r, h') \<Longrightarrow> hex_traffic h' \<le> hex_traffic h \<and> (\<forall>e. r = Inl e \<longrightarrow> e = Read_Failure)"
  by (auto simp: lclreadcode_def hex_traffic_def dest!: ll_read_traffic split: prod.splits sum.splits)

lemma readword_char_errors:
  "readword_char c w n h = (Raise e, h') \<Longrightarrow> \<exists>a. e = BUSERR a"
  by (auto simp: readword_char_def readword_cmd_def Let_def split: if_splits prod.splits rw.splits)

lemma readword_loop_traffic:
  "readword_loop w n h = (r, h') \<Longrightarrow>
      hex_traffic h' \<le> hex_traffic h \<and> r \<noteq> Inl Out_of_Fuel \<and> r \<noteq> Inl Client_Assert
      \<and> (\<forall>x. r = Inr x \<longrightarrow> hex_traffic h' < hex_traffic h)"
proof (induction w n h arbitrary: r h' rule: readword_loop.induct)
  case (1 w n h)
  obtain r1 h1 where l: "lclreadcode 1 h = (r1, h1)" by force
  show ?case
  proof (cases r1)
    case (Inl e)
    then show ?thesis
      using "1.prems" l lclreadcode_traffic [OF l] by (simp add: readword_loop.simps [of w n h]) auto
  next
    case (Inr got)
    then have lt: "hex_traffic h1 < hex_traffic h"
      using lclreadcode_progress l by (simp add: hex_traffic_def)
    obtain s h2 where c: "readword_char (hd got) w n h1 = (s, h2)" by force
    have d: "hex_traffic h2 = hex_traffic h1"
      using readword_char_dev [of "hd got" w n h1] c by (simp add: hex_traffic_def)
    show ?thesis
    proof (cases s)
      case (More w' n')
      then have "readword_loop w' n' h2 = (r, h')"
        using "1.prems" l Inr c by (simp add: readword_loop.simps [of w n h])
      with "1.IH" [OF l [symmetric] Inr c [symmetric] More] show ?thesis using lt d by fastforce
    next
      case (Done x)
      then show ?thesis using "1.prems" l Inr c lt d by (auto simp: readword_loop.simps [of w n h])
    next
      case (Raise e)
      then show ?thesis
        using "1.prems" l Inr c lt d readword_char_errors [of "hd got" w n h1 e h2]
        by (auto simp: readword_loop.simps [of w n h])
    qed
  qed
qed

lemma readword_loop_keeps: "keeps hex_traffic N (readword_loop w n)"
  using readword_loop_traffic by (fastforce simp: keeps_def)

lemma readidle_char_errors: "readidle_char c w h = (Inl e, h') \<Longrightarrow> \<exists>a. e = BUSERR a"
  by (auto simp: readidle_char_def readidle_cmd_def split: if_splits prod.splits sum.splits)

lemma ll_available_traffic: "ll_available l = (b, l') \<Longrightarrow> rx_size l' \<le> rx_size l"
  by (cases b) (auto simp: ll_available_def dest: ll_poll_False_progress ll_poll_True)

lemma readidle_loop_keeps: "keeps hex_traffic N (readidle_loop w)"
proof -
  have "readidle_loop w h = (r, h') \<Longrightarrow>
      hex_traffic h' \<le> hex_traffic h \<and> r \<noteq> Inl Out_of_Fuel \<and> r \<noteq> Inl Client_Assert" for h r h'
  proof (induction w h arbitrary: r h' rule: readidle_loop.induct)
    case (1 w h)
    obtain b l where av: "ll_available (m_dev h) = (b, l)" by force
    note ltr = ll_available_traffic [OF av]
    show ?case
    proof (cases b)
      case False
      then show ?thesis using "1.prems" av ltr by (auto simp: readidle_loop.simps [of w h] hex_traffic_def)
    next
      case True
      obtain r1 h1 where l: "lclreadcode 1 (h\<lparr>m_dev := l\<rparr>) = (r1, h1)" by force
      have t1: "hex_traffic h1 \<le> hex_traffic h" "\<And>e. r1 = Inl e \<Longrightarrow> e = Read_Failure"
        using lclreadcode_traffic [OF l] ltr by (auto simp: hex_traffic_def)
      show ?thesis
      proof (cases r1)
        case (Inl e)
        then show ?thesis using "1.prems" av True l t1 by (auto simp: readidle_loop.simps [of w h])
      next
        case (Inr got)
        obtain s h2 where c: "readidle_char (hd got) w h1 = (s, h2)" by force
        have d: "hex_traffic h2 = hex_traffic h1"
          using readidle_char_dev [of "hd got" w h1] c by (simp add: hex_traffic_def)
        show ?thesis
        proof (cases s)
          case (Inl e)
          then show ?thesis
            using "1.prems" av True l Inr c t1 d readidle_char_errors [of "hd got" w h1 e h2]
            by (auto simp: readidle_loop.simps [of w h])
        next
          case (Inr w')
          then have "readidle_loop w' h2 = (r, h')"
            using "1.prems" av True l \<open>r1 = Inr got\<close> c by (simp add: readidle_loop.simps [of w h])
          with "1.IH" [OF av [symmetric] eqTrueI [OF True] l [symmetric] \<open>r1 = Inr got\<close> c [symmetric] Inr]
          show ?thesis using t1 d by fastforce
        qed
      qed
    qed
  qed
  then show ?thesis by (auto simp: keeps_def)
qed

lemma wait_acks_keeps: "keeps hex_traffic N (wait_acks n)"
proof -
  have "wait_acks n h = (r, h') \<Longrightarrow>
      hex_traffic h' \<le> hex_traffic h \<and> r \<noteq> Inl Out_of_Fuel \<and> r \<noteq> Inl Client_Assert" for h r h'
  proof (induction n h arbitrary: r h' rule: wait_acks.induct)
    case (1 n h)
    obtain r1 h1 where i: "readidle h = (r1, h1)" by force
    have t: "hex_traffic h1 \<le> hex_traffic h \<and> r1 \<noteq> Inl Out_of_Fuel \<and> r1 \<noteq> Inl Client_Assert"
      using keepsD [OF readidle_loop_keeps, of 0 h r1 h1 "hex_traffic h"] i by (simp add: readidle_def)
    show ?case
    proof (cases "m_nacks h < n")
      case False
      then show ?thesis using "1.prems" by (auto simp: wait_acks.simps [of n h])
    next
      case True
      show ?thesis
      proof (cases r1)
        case (Inl e)
        then show ?thesis using "1.prems" True i t by (auto simp: wait_acks.simps [of n h])
      next
        case (Inr u)
        then have "wait_acks n h1 = (r, h')" using "1.prems" True i by (simp add: wait_acks.simps [of n h])
        with "1.IH" [OF True i [symmetric] Inr] show ?thesis using t by fastforce
      qed
    qed
  qed
  then show ?thesis by (auto simp: keeps_def)
qed

lemma dev_write_keeps: "keeps hex_traffic N (dev_write text)"
  by (auto simp: keeps_def dev_write_def ll_write_def rx_size_def hex_traffic_def split: if_splits)

lemma keeps_upd: "(\<And>s. traffic (g s) = traffic s) \<Longrightarrow> keeps traffic N (\<lambda>s. (Inr x, g s))"
  by (simp add: keeps_def)

lemma writev_loop_keeps: "keeps hex_traffic N (writev_loop text nw vs)"
  by (induction vs arbitrary: "text" nw) (auto intro!: keeps_seq dev_write_keeps wait_acks_keeps)

lemma writev_keeps: "keeps hex_traffic N (writev a p vs)"
proof -
  have k: "keeps hex_traffic N (seq (writev_loop cmd 0 vs) (\<lambda>_.
         seq (wait_acks (of_nat (length vs))) (\<lambda>_ h.
           (Inr (), if p then h\<lparr>m_lastaddr := m_lastaddr h + push_bit 2 (of_nat (length vs))\<rparr> else h))))" for cmd
    by (intro keeps_seq writev_loop_keeps wait_acks_keeps keeps_upd) (simp add: hex_traffic_def)
  show ?thesis
    unfolding keeps_def writev_def Let_def
  proof (intro allI impI)
    fix h r h'
    assume h: "hex_traffic h \<le> N" and run: "seq (writev_loop (encode_address (a OR (if p then 0 else 1)) h) 0 vs)
        (\<lambda>_. seq (wait_acks (of_nat (length vs))) (\<lambda>_ h.
           (Inr (), if p then h\<lparr>m_lastaddr := m_lastaddr h + push_bit 2 (of_nat (length vs))\<rparr> else h)))
        (h\<lparr>m_lastaddr := a, m_addr_set := True, m_nacks := 0\<rparr>) = (r, h')"
    show "hex_traffic h' \<le> hex_traffic h \<and> r \<noteq> Inl Out_of_Fuel \<and> r \<noteq> Inl Client_Assert"
      using keepsD [OF k run] h by simp
  qed
qed

lemma writeio_keeps: "keeps hex_traffic N (writeio a v)"
  unfolding writeio_def by (intro keeps_seq writev_keeps keeps_upd) (simp add: hex_traffic_def)

lemma readv_loop_length:
  "readv_loop a inc text nread n h = (Inr ws, h') \<Longrightarrow> length ws = n"
proof (induction n arbitrary: "text" nread h ws)
  case (Suc n)
  then show ?case by (auto split: prod.splits sum.splits exn.splits)
qed simp

lemma readv_loop_keeps: "keeps hex_traffic N (readv_loop a inc text nread n)"
proof (induction n arbitrary: "text" nread)
  case (Suc n)
  have k: "keeps hex_traffic N (seq (dev_write (text @ [HEXB_READ, NL])) (\<lambda>_. readword))"
    unfolding readword_def by (intro keeps_seq dev_write_keeps readword_loop_keeps)
  show ?case
    unfolding keeps_def
  proof (intro allI impI)
    fix h r h' assume h: "hex_traffic h \<le> N" and run: "readv_loop a inc text nread (Suc n) h = (r, h')"
    obtain r1 h1 where 1: "seq (dev_write (text @ [HEXB_READ, NL])) (\<lambda>_. readword) h = (r1, h1)" by force
    note k1 = keepsD [OF k 1 h]
    obtain r2 h2 where 2: "readv_loop a inc [] (Suc nread) n h1 = (r2, h2)" by force
    have k2: "hex_traffic h2 \<le> hex_traffic h1 \<and> r2 \<noteq> Inl Out_of_Fuel \<and> r2 \<noteq> Inl Client_Assert"
      using keepsD [OF Suc 2] k1 h by simp
    show "hex_traffic h' \<le> hex_traffic h \<and> r \<noteq> Inl Out_of_Fuel \<and> r \<noteq> Inl Client_Assert"
      using run 1 2 k1 k2 by (cases r1; cases r2) (auto split: exn.splits)
  qed
qed (simp add: keeps_def)

lemma readv_keeps: "keeps hex_traffic N (readv a inc n)"
  unfolding keeps_def
proof (intro allI impI)
  fix h r h' assume h: "hex_traffic h \<le> N" and run: "readv a inc n h = (r, h')"
  let ?h = "h\<lparr>m_lastaddr := a, m_addr_set := True, m_inc := inc\<rparr>"
  obtain r1 h1 where 1: "readv_loop a inc (encode_address (a OR (if inc then 0 else 1)) h) 0 (nat n) ?h = (r1, h1)" by force
  have "hex_traffic ?h \<le> N" using h by simp
  note k1 = keepsD [OF readv_loop_keeps 1 this]
  show "hex_traffic h' \<le> hex_traffic h \<and> r \<noteq> Inl Out_of_Fuel \<and> r \<noteq> Inl Client_Assert"
    using run 1 k1 by (cases r1) (auto simp: readv_def Let_def split: if_splits)
qed

lemma readv_fills: "readv a inc n h = (Inr ws, h') \<Longrightarrow> length ws = nat n"
  by (auto simp: readv_def Let_def dest: readv_loop_length split: if_splits prod.splits sum.splits)

lemma readio_keeps: "keeps hex_traffic N (readio a)"
  unfolding keeps_def
proof (intro allI impI)
  fix h r h' assume h: "hex_traffic h \<le> N" and run: "readio a h = (r, h')"
  obtain r1 h1 where 1: "readv a False 1 h = (r1, h1)" by force
  note k1 = keepsD [OF readv_keeps 1 h]
  show "hex_traffic h' \<le> hex_traffic h \<and> r \<noteq> Inl Out_of_Fuel \<and> r \<noteq> Inl Client_Assert"
    using run 1 k1 by (cases r1) (auto simp: readio_def split: exn.splits if_splits)
qed

lemma readio_uses: "readio a h = (Inr w, h') \<Longrightarrow> hex_traffic h' < hex_traffic h"
proof -
  assume run: "readio a h = (Inr w, h')"
  then obtain ws where v: "readv a False 1 h = (Inr ws, h')"
    by (auto simp: readio_def split: prod.splits sum.splits exn.splits if_splits)
  let ?h = "h\<lparr>m_lastaddr := a, m_addr_set := True, m_inc := False\<rparr>"
  obtain ws' where "readv_loop a False (encode_address (a OR 1) h) 0 1 ?h = (Inr ws', h')"
    using v by (auto simp: readv_def Let_def split: prod.splits sum.splits if_splits)
  then obtain w' where "seq (dev_write (encode_address (a OR 1) h @ [HEXB_READ, NL])) (\<lambda>_. readword) ?h = (Inr w', h')"
    by (auto simp: numeral_nat split: prod.splits sum.splits exn.splits)
  then obtain u h1 where d: "dev_write (encode_address (a OR 1) h @ [HEXB_READ, NL]) ?h = (Inr u, h1)"
    and r: "readword_loop 0 3 h1 = (Inr w', h')"
    unfolding readword_def by (elim seq_InrE)
  have "hex_traffic h1 \<le> hex_traffic ?h"
    using keepsD [OF dev_write_keeps d, of "hex_traffic ?h"] by simp
  then show ?thesis using readword_loop_traffic [OF r] by simp
qed

interpretation hexdev: devbus_client hexbus_dev hex_traffic
  by unfold_locales
    (simp_all add: hexbus_dev_def writeio_keeps readio_keeps readi_def readz_def writei_def
      readv_keeps writev_keeps readio_uses readv_fills)

end
