(* ===== verification/RegDefs.thy ===== *)
theory RegDefs
  imports Prelude
begin

text \<open>
  The register map of \<^verbatim>\<open>sw/host/regdefs.h\<close> and the table and look-ups of \<^verbatim>\<open>sw/host/regdefs.cpp\<close>.
  A C string is a \<^typ>\<open>string\<close>.  \<^verbatim>\<open>strcasecmp\<close>, \<^verbatim>\<open>isalpha\<close> and \<^verbatim>\<open>strtoul\<close> with base 0 are written out for
  the C locale.
\<close>

section \<open>Addresses\<close>

abbreviation R_FLASHCFG :: u32 where "R_FLASHCFG \<equiv> 0x00040000"
abbreviation R_BUSTIMER :: u32 where "R_BUSTIMER \<equiv> 0x00080000"
abbreviation R_WATCHDOG :: u32 where "R_WATCHDOG \<equiv> 0x00080004"
abbreviation R_CONSOLE_FIFO :: u32 where "R_CONSOLE_FIFO \<equiv> 0x000c0004"
abbreviation R_CONSOLE_UARTRX :: u32 where "R_CONSOLE_UARTRX \<equiv> 0x000c0008"
abbreviation R_CONSOLE_UARTTX :: u32 where "R_CONSOLE_UARTTX \<equiv> 0x000c000c"
abbreviation R_SDSPI_CTRL :: u32 where "R_SDSPI_CTRL \<equiv> 0x00100000"
abbreviation R_SDSPI_DATA :: u32 where "R_SDSPI_DATA \<equiv> 0x00100004"
abbreviation R_SDSPI_FIFOA :: u32 where "R_SDSPI_FIFOA \<equiv> 0x00100008"
abbreviation R_SDSPI_FIFOB :: u32 where "R_SDSPI_FIFOB \<equiv> 0x0010000c"
abbreviation R_BUILDTIME :: u32 where "R_BUILDTIME \<equiv> 0x00140000"
abbreviation R_BUSERR :: u32 where "R_BUSERR \<equiv> 0x00140004"
abbreviation R_PIC :: u32 where "R_PIC \<equiv> 0x00140008"
abbreviation R_PWRCOUNT :: u32 where "R_PWRCOUNT \<equiv> 0x0014000c"
abbreviation R_SPIO :: u32 where "R_SPIO \<equiv> 0x00140010"
abbreviation R_VERSION :: u32 where "R_VERSION \<equiv> 0x00140014"
abbreviation R_BKRAM :: u32 where "R_BKRAM \<equiv> 0x00180000"
abbreviation R_FLASH :: u32 where "R_FLASH \<equiv> 0x00200000"
abbreviation R_SDRAM :: u32 where "R_SDRAM \<equiv> 0x00400000"
abbreviation R_ZIPCTRL :: u32 where "R_ZIPCTRL \<equiv> 0x00800000"
abbreviation R_ZIPDATA :: u32 where "R_ZIPDATA \<equiv> 0x00800004"

text \<open>The memory regions, the commands of the CPU's control register and the address it starts from.\<close>

definition BKRAMBASE :: u32 where "BKRAMBASE = 0x00180000"
definition BKRAMLEN :: u32 where "BKRAMLEN = 0x00001000"
definition SDRAMBASE :: u32 where "SDRAMBASE = 0x00400000"
definition SDRAMLEN :: u32 where "SDRAMLEN = 0x00200000"
definition FLASHBASE :: u32 where "FLASHBASE = 0x00200000"
definition FLASHLEN :: u32 where "FLASHLEN = 0x00080000"
definition CPU_GO :: u32 where "CPU_GO = 0x0000"
definition CPU_RESET :: u32 where "CPU_RESET = 0x0040"
definition CPU_INT :: u32 where "CPU_INT = 0x0080"
definition CPU_STEP :: u32 where "CPU_STEP = 0x0100"
definition CPU_STALL :: u32 where "CPU_STALL = 0x0200"
definition CPU_HALT :: u32 where "CPU_HALT = 0x0400"
definition CPU_CLRCACHE :: u32 where "CPU_CLRCACHE = 0x0800"
definition CPU_sPC :: u32 where "CPU_sPC = 0x000f"
definition RESET_ADDRESS :: u32 where "RESET_ADDRESS = 0x00200000"

section \<open>Flash geometry\<close>

definition SZPAGEB :: u32 where "SZPAGEB = 256"
definition PGLENB :: u32 where "PGLENB = 256"
definition SZPAGEW :: nat where "SZPAGEW = 64"
definition NPAGES :: nat where "NPAGES = 256"
definition SECTORSZB :: u32 where "SECTORSZB = 256 * 256"
definition SECTOROF :: "u32 \<Rightarrow> u32" where "SECTOROF a = a AND (- 0x10000)"
definition PAGEOF :: "u32 \<Rightarrow> u32" where "PAGEOF a = a AND (- 0x100)"

section \<open>The table of registers\<close>

definition raw_bregs :: "(u32 \<times> string) list" where
  "raw_bregs =
     [(R_FLASHCFG, ''FLASHCFG''), (R_BUSTIMER, ''BUSTIMER''), (R_BUSTIMER, ''BUSTIMER''),
      (R_WATCHDOG, ''WATCHDOG''), (R_WATCHDOG, ''WATCHDOG''), (R_CONSOLE_FIFO, ''UFIFO''),
      (R_CONSOLE_UARTRX, ''RX''), (R_CONSOLE_UARTTX, ''TX''), (R_SDSPI_CTRL, ''SDCARD''),
      (R_SDSPI_DATA, ''SDDATA''), (R_SDSPI_FIFOA, ''SDFIFOA''), (R_SDSPI_FIFOA, ''SDFIF0''),
      (R_SDSPI_FIFOA, ''SDFIFA''), (R_SDSPI_FIFOB, ''SDFIFOB''), (R_SDSPI_FIFOB, ''SDFIF1''),
      (R_SDSPI_FIFOB, ''SDFIFB''), (R_BUILDTIME, ''BUILDTIME''), (R_BUILDTIME, ''BUILDTIME''),
      (R_BUSERR, ''BUSERR''), (R_BUSERR, ''BUSERR''), (R_PIC, ''PIC''), (R_PIC, ''PIC''),
      (R_PWRCOUNT, ''PWRCOUNT''), (R_PWRCOUNT, ''PWRCOUNT''), (R_SPIO, ''SPIO''), (R_SPIO, ''SPIO''),
      (R_VERSION, ''VERSION''), (R_VERSION, ''VERSION''), (R_BKRAM, ''RAM''), (R_FLASH, ''FLASH''),
      (R_SDRAM, ''SDRAM''), (R_ZIPCTRL, ''CPU''), (R_ZIPDATA, ''CPUD'')]"

section \<open>C library\<close>

definition chr_code :: "char \<Rightarrow> nat" where
  "chr_code c = of_char c"

definition isalpha_c :: "char \<Rightarrow> bool" where
  "isalpha_c c \<longleftrightarrow> (let n = chr_code c in 0x41 \<le> n \<and> n \<le> 0x5a \<or> 0x61 \<le> n \<and> n \<le> 0x7a)"

definition isspace_c :: "char \<Rightarrow> bool" where
  "isspace_c c \<longleftrightarrow> (let n = chr_code c in n = 0x20 \<or> 0x09 \<le> n \<and> n \<le> 0x0d)"

text \<open>The value \<^verbatim>\<open>tolower\<close> gives a character, by which \<^verbatim>\<open>strcasecmp\<close> compares.\<close>

definition fold_case :: "char \<Rightarrow> nat" where
  "fold_case c = (let n = chr_code c in if 0x41 \<le> n \<and> n \<le> 0x5a then n + 0x20 else n)"

definition strcaseeq :: "string \<Rightarrow> string \<Rightarrow> bool" where
  "strcaseeq s t \<longleftrightarrow> map fold_case s = map fold_case t"

text \<open>\<^verbatim>\<open>strtoul(v, NULL, 0)\<close>: white space, a sign, a prefix that chooses the base, digits; it saturates.\<close>

definition digit_val :: "char \<Rightarrow> nat" where
  "digit_val c =
     (let n = chr_code c in
      if 0x30 \<le> n \<and> n \<le> 0x39 then n - 0x30
      else if 0x41 \<le> n \<and> n \<le> 0x5a then n - 0x41 + 10
      else if 0x61 \<le> n \<and> n \<le> 0x7a then n - 0x61 + 10 else 255)"

fun digits_val :: "nat \<Rightarrow> nat \<Rightarrow> string \<Rightarrow> nat" where
  "digits_val base acc [] = acc"
| "digits_val base acc (c # cs) =
     (if digit_val c < base then digits_val base (acc * base + digit_val c) cs else acc)"

fun strtoul_abs :: "string \<Rightarrow> nat" where
  "strtoul_abs (z # x # d # cs) =
     (if z = CHR ''0'' \<and> fold_case x = 0x78 \<and> digit_val d < 16 then digits_val 16 0 (d # cs)
      else if z = CHR ''0'' then digits_val 8 0 (z # x # d # cs)
      else digits_val 10 0 (z # x # d # cs))"
| "strtoul_abs (z # cs) = digits_val (if z = CHR ''0'' then 8 else 10) 0 (z # cs)"
| "strtoul_abs [] = 0"

definition strtoul :: "string \<Rightarrow> u64" where
  "strtoul v =
     (let v = dropWhile isspace_c v;
          neg = (v \<noteq> [] \<and> hd v = CHR ''-'');
          v = (if v \<noteq> [] \<and> (hd v = CHR ''-'' \<or> hd v = CHR ''+'') then tl v else v);
          n = strtoul_abs v
      in if n \<ge> 2 ^ 64 then - 1 else if neg then - of_nat n else of_nat n)"

section \<open>Look-ups\<close>

text \<open>
  \<^verbatim>\<open>addrdecode\<close>.  A string beginning with no letter skips the table; the \<^verbatim>\<open>fprintf\<close> and \<^verbatim>\<open>exit(-2)\<close> stand
  after a \<^verbatim>\<open>return\<close> in the same block.
\<close>

definition addrdecode :: "string \<Rightarrow> u32" where
  "addrdecode v =
     (case (if v \<noteq> [] \<and> isalpha_c (hd v) then find (\<lambda>r. strcaseeq v (snd r)) raw_bregs else None) of
        Some r \<Rightarrow> fst r
      | None \<Rightarrow>
          if strcaseeq v ''CPU'' then R_ZIPCTRL
          else if strcaseeq v ''CPUD'' then R_ZIPDATA
          else ucast (strtoul v))"

definition addrname :: "u32 \<Rightarrow> string option" where
  "addrname v = map_option snd (find (\<lambda>r. fst r = v) raw_bregs)"

section \<open>Properties\<close>

lemma strcaseeq_refl [simp]: "strcaseeq s s" by (simp add: strcaseeq_def)

lemma strcaseeq_trans: "strcaseeq s t \<Longrightarrow> strcaseeq s u = strcaseeq t u"
  by (auto simp: strcaseeq_def)

lemma isalpha_fold: "isalpha_c c = (0x61 \<le> fold_case c \<and> fold_case c \<le> 0x7a)"
  by (auto simp: isalpha_c_def fold_case_def Let_def)

lemma strcaseeq_hd:
  assumes "strcaseeq v n" "n \<noteq> []"
  shows "v \<noteq> [] \<and> isalpha_c (hd v) = isalpha_c (hd n)"
  using assms by (cases v; cases n) (auto simp: strcaseeq_def isalpha_fold)

text \<open>The names of the table have no lower-case letters, so that on them only equal names are equal.\<close>

definition canonical :: "string \<Rightarrow> bool" where
  "canonical s \<longleftrightarrow> list_all (\<lambda>c. chr_code c < 0x61) s"

lemma canonical_table: "list_all (\<lambda>r. canonical (snd r)) raw_bregs"
  by code_simp

lemma fold_case_inj: "chr_code c < 0x61 \<Longrightarrow> chr_code d < 0x61 \<Longrightarrow> fold_case c = fold_case d \<Longrightarrow> c = d"
  by (auto simp: fold_case_def Let_def chr_code_def split: if_splits)

lemma canonical_eq: "canonical s \<Longrightarrow> canonical t \<Longrightarrow> strcaseeq s t = (s = t)"
  unfolding strcaseeq_def canonical_def
proof (induction s arbitrary: t)
  case (Cons c s)
  then show ?case by (cases t) (auto dest: fold_case_inj)
qed auto

lemma find_canonical:
  "canonical n \<Longrightarrow> list_all (\<lambda>r. canonical (snd r)) rs \<Longrightarrow>
   find (\<lambda>r. strcaseeq n (snd r)) rs = find (\<lambda>r. n = snd r) rs"
  by (induction rs) (auto simp: canonical_eq)

lemma table_names: "list_all (\<lambda>r. snd r \<noteq> [] \<and> isalpha_c (hd (snd r))) raw_bregs"
  by code_simp

lemma table_find: "list_all (\<lambda>(a, n). map_option fst (find (\<lambda>r. n = snd r) raw_bregs) = Some a) raw_bregs"
  by (simp add: raw_bregs_def)

lemma table_check:
  assumes "(a, n) \<in> set raw_bregs"
  shows "n \<noteq> [] \<and> isalpha_c (hd n) \<and> map_option fst (find (\<lambda>r. strcaseeq n (snd r)) raw_bregs) = Some a"
proof -
  have "canonical n" using assms canonical_table by (auto simp: list_all_iff)
  then show ?thesis
    using assms table_names table_find find_canonical [OF _ canonical_table, of n] by (auto simp: list_all_iff)
qed

lemma addrname_table: "(a, n) \<in> set raw_bregs \<Longrightarrow> \<exists>m. addrname a = Some m \<and> (a, m) \<in> set raw_bregs"
proof -
  assume "(a, n) \<in> set raw_bregs"
  then obtain r where r: "find (\<lambda>r. fst r = a) raw_bregs = Some r"
    by (cases "find (\<lambda>r. fst r = a) raw_bregs") (auto simp: find_None_iff)
  then have "fst r = a" "r \<in> set raw_bregs" by (auto simp: find_Some_iff)
  then show ?thesis using r by (cases r) (auto simp: addrname_def)
qed

lemma register_names:
  assumes "(a, n) \<in> set raw_bregs" "strcaseeq v n"
  shows "addrdecode v = a \<and> (\<exists>m. addrname a = Some m \<and> addrdecode m = a)"

proof -
  have find_cong: "find (\<lambda>r. strcaseeq v (snd r)) xs = find (\<lambda>r. strcaseeq n (snd r)) xs" for xs :: "(u32 \<times> string) list"
    using strcaseeq_trans [OF assms(2)] by simp
  have decode: "addrdecode w = b" if "w \<noteq> []" "isalpha_c (hd w)"
      "map_option fst (find (\<lambda>r. strcaseeq w (snd r)) raw_bregs) = Some b" for w b
    using that by (auto simp: addrdecode_def)
  note n = table_check [OF assms(1)]
  have "addrdecode v = a"
    using decode [of v a] strcaseeq_hd [OF assms(2)] n find_cong by simp
  moreover obtain m where m: "addrname a = Some m" "(a, m) \<in> set raw_bregs"
    using addrname_table [OF assms(1)] by blast
  ultimately show ?thesis
    using decode table_check [OF m(2)] by blast
qed

text \<open>
  C32: the names and the addresses of the table agree.  Every name decodes to its own address in either
  case, and the name printed for an address decodes to that address.
\<close>
theorem register_names_roundtrip:
  assumes "(a, n) \<in> set raw_bregs" "strcaseeq v n"
  shows "addrdecode v = a \<and> (\<exists>m. addrname a = Some m \<and> addrdecode m = a)"
  by (rule register_names [OF assms])

theorem register_names_roundtrip_witness:
  "addrdecode ''sdCard'' = R_SDSPI_CTRL \<and> (\<exists>m. addrname R_SDSPI_CTRL = Some m \<and> addrdecode m = R_SDSPI_CTRL)"
proof (rule register_names_roundtrip)
  show "strcaseeq ''sdCard'' ''SDCARD''" by code_simp
  show "(R_SDSPI_CTRL, ''SDCARD'') \<in> set raw_bregs" by (simp add: raw_bregs_def)
qed

text \<open>
  A name that is not in the table is not reported.  The error exit of \<^verbatim>\<open>addrdecode\<close> cannot be
  reached; a word beginning with a letter falls through to \<^verbatim>\<open>strtoul\<close> and decodes to address 0.
\<close>
lemma unknown_register_is_zero:
  assumes "v \<noteq> []" "isalpha_c (hd v)" "\<forall>r\<in>set raw_bregs. \<not> strcaseeq v (snd r)"
  shows "addrdecode v = 0"
proof -
  obtain c cs where v: "v = c # cs" using assms(1) by (cases v) auto
  have c: "0x41 \<le> chr_code c" using assms(2) v by (auto simp: isalpha_c_def Let_def)
  have none: "find (\<lambda>r. strcaseeq v (snd r)) raw_bregs = None"
    using assms(3) by (auto simp: find_None_iff)
  have "\<not> strcaseeq v ''CPU''" "\<not> strcaseeq v ''CPUD''"
    using assms(3) by (auto simp: raw_bregs_def)
  have ns: "\<not> isspace_c c" using c by (auto simp: isspace_c_def Let_def)
  have nc: "c \<noteq> CHR ''0''" "c \<noteq> CHR ''-''" "c \<noteq> CHR ''+''"
    using c by (auto simp: chr_code_def)
  have "\<not> digit_val c < 10" using c by (auto simp: digit_val_def Let_def)
  then have "strtoul_abs v = 0"
    using nc by (cases "(c # cs)" rule: strtoul_abs.cases) (auto simp: v)
  then have "strtoul v = 0"
    using ns nc by (simp add: strtoul_def v Let_def)
  then show ?thesis
    using none \<open>\<not> strcaseeq v ''CPU''\<close> \<open>\<not> strcaseeq v ''CPUD''\<close> by (simp add: addrdecode_def)
qed

theorem unknown_register_is_zero_witness: "addrdecode ''FLASHCNTRL'' = 0"
proof (rule unknown_register_is_zero)
  show "isalpha_c (hd ''FLASHCNTRL'')" by code_simp
  have "list_all (\<lambda>r. \<not> strcaseeq ''FLASHCNTRL'' (snd r)) raw_bregs" by code_simp
  then show "\<forall>r\<in>set raw_bregs. \<not> strcaseeq ''FLASHCNTRL'' (snd r)" by (simp add: list_all_iff)
qed simp

end
