(* ===== verification/FlashDrvr.thy ===== *)
theory FlashDrvr
  imports DevBus RegDefs ByteOps
begin

text \<open>
  The flash programmer of \<^verbatim>\<open>sw/host/flashdrvr.cpp\<close>, a client of the abstract bus.  The data to write is
  a function from offsets, the memory at the caller's pointer.  What \<^verbatim>\<open>write\<close> reads without having set it is an
  argument \<open>junk\<close>, of which nothing is known: the bytes of \<^verbatim>\<open>new char[SECTORSZB]\<close>, and the variable \<^verbatim>\<open>len\<close> of
  its last loop, which hides the parameter of that name and is read in its own initialiser,
  \<^verbatim>\<open>unsigned start = p, len = addr+len-start\<close>.  Loops that poll or that count addresses take fuel;
  \<open>Out_of_Fuel\<close> never comes out of \<open>write\<close> on a bus that keeps the contract, given as much fuel as the bus has
  traffic.  The assertion of \<^verbatim>\<open>page_program\<close> holds if the inner \<^verbatim>\<open>len\<close> happens to hold the outer one, and may
  fail otherwise.
\<close>

abbreviation F_EMPTY :: u32 where "F_EMPTY \<equiv> 0"
abbreviation F_PP :: u32 where "F_PP \<equiv> 0x002"
abbreviation F_WRDI :: u32 where "F_WRDI \<equiv> 0x004"
abbreviation F_RDSR1 :: u32 where "F_RDSR1 \<equiv> 0x005"
abbreviation F_WREN :: u32 where "F_WREN \<equiv> 0x006"
abbreviation F_SE :: u32 where "F_SE \<equiv> 0x0d8"
abbreviation F_END :: u32 where "F_END \<equiv> 0x100"

definition cfg :: "'b devbus \<Rightarrow> u32 \<Rightarrow> ('b, unit) io" where
  "cfg bus v = dv_writeio bus R_FLASHCFG v"

section \<open>Waiting\<close>

primrec flwait_loop :: "'b devbus \<Rightarrow> nat \<Rightarrow> ('b, unit) io" where
  "flwait_loop bus 0 = throw Out_of_Fuel"
| "flwait_loop bus (Suc fuel) =
     seq (cfg bus F_EMPTY) (\<lambda>_.
     seq (dv_readio bus R_FLASHCFG) (\<lambda>sr.
       if sr AND 1 \<noteq> 0 then flwait_loop bus fuel else ret ()))"

definition flwait :: "'b devbus \<Rightarrow> nat \<Rightarrow> ('b, unit) io" where
  "flwait bus fuel =
     seq (cfg bus F_END) (\<lambda>_. seq (cfg bus F_RDSR1) (\<lambda>_.
     seq (flwait_loop bus fuel) (\<lambda>_. cfg bus F_END)))"

section \<open>Erasing\<close>

primrec verify_erased :: "'b devbus \<Rightarrow> u32 \<Rightarrow> nat list \<Rightarrow> ('b, bool) io" where
  "verify_erased bus flashaddr [] = ret True"
| "verify_erased bus flashaddr (i # is) =
     seq (dv_readi bus (R_FLASH + flashaddr + of_nat i * SZPAGEB) (int SZPAGEW)) (\<lambda>page.
       if \<exists>w\<in>set page. w \<noteq> 0xffffffff then ret False else verify_erased bus flashaddr is)"

definition erase_sector :: "'b devbus \<Rightarrow> nat \<Rightarrow> u32 \<Rightarrow> bool \<Rightarrow> ('b, bool) io" where
  "erase_sector bus fuel sector verify_erase =
     (let flashaddr = sector AND 0x0ffffff in
      seq (iter (cfg bus)
             [F_END, F_WREN, F_END,
              F_SE, drop_bit 16 flashaddr AND 0x0ff, drop_bit 8 flashaddr AND 0x0ff, flashaddr AND 0x0ff,
              F_END]) (\<lambda>_.
      seq (flwait bus fuel) (\<lambda>_.
        if verify_erase then verify_erased bus flashaddr [0..<NPAGES] else ret True)))"

section \<open>Programming a page\<close>

definition page_words :: "(nat \<Rightarrow> u8) \<Rightarrow> u32 \<Rightarrow> u32 list" where
  "page_words data len =
     map (\<lambda>k. buildword (data (4 * k)) (data (4 * k + 1)) (data (4 * k + 2)) (data (4 * k + 3)))
       [0..<(unat len + 3) div 4]"

definition page_program :: "'b devbus \<Rightarrow> nat \<Rightarrow> u32 \<Rightarrow> u32 \<Rightarrow> (nat \<Rightarrow> u8) \<Rightarrow> bool \<Rightarrow> ('b, bool) io" where
  "page_program bus fuel addr len data verify_write =
     (let flashaddr = addr AND 0x0ffffff; bswapd = page_words data len in
      if \<not> (len > 0 \<and> len \<le> PGLENB \<and> PAGEOF addr = PAGEOF (addr + len - 1)) then throw Client_Assert
      else
        seq (if \<exists>v\<in>set bswapd. v \<noteq> 0xffffffff then
               seq (iter (cfg bus)
                      ([F_END, F_WREN, F_END, F_END, F_PP,
                        drop_bit 16 flashaddr AND 0x0ff, drop_bit 8 flashaddr AND 0x0ff, flashaddr AND 0x0ff]
                       @ map (\<lambda>i. ucast (data i)) [0..<unat len] @ [F_END])) (\<lambda>_.
               flwait bus fuel)
             else ret ()) (\<lambda>_.
        if verify_write then
          seq (dv_readi bus addr (uint (drop_bit 2 len))) (\<lambda>buf.
            ret (\<forall>(b, w)\<in>set (zip buf bswapd). b = w))
        else ret True))"

section \<open>Writing a region\<close>

text \<open>
  The scan of one sector's part of the region, byte by byte: does it need erasing, and from which
  word-aligned address on does it need programming (0: nowhere).
\<close>

fun scan_sector :: "u32 \<Rightarrow> (nat \<Rightarrow> u8) \<Rightarrow> (nat \<Rightarrow> u8) \<Rightarrow> nat \<Rightarrow> nat \<Rightarrow> u32 \<Rightarrow> bool \<times> u32" where
  "scan_sector base sbuf dp i 0 newv = (False, newv)"
| "scan_sector base sbuf dp i (Suc n) newv =
     (if sbuf i AND dp i \<noteq> dp i then (True, (of_nat i AND (- 4)) + base)
      else scan_sector base sbuf dp (Suc i) n
             (if sbuf i \<noteq> dp i \<and> newv = 0 then (of_nat i AND (- 4)) + base else newv))"

text \<open>The bytes of the host's sector buffer: the swapped words, little endian, then what was there.\<close>

definition host_bytes :: "u32 list \<Rightarrow> u8 list" where
  "host_bytes ws = concat (map (\<lambda>w. [byte_at 0 w, byte_at 1 w, byte_at 2 w, byte_at 3 w]) ws)"

definition sector_buffer :: "(nat \<Rightarrow> u8) \<Rightarrow> u32 list \<Rightarrow> nat \<Rightarrow> u8" where
  "sector_buffer junk ws i =
     (let bs = host_bytes (byteswapbuf (length ws) ws) in if i < length bs then bs ! i else junk i)"

text \<open>
  The indeterminate values \<^verbatim>\<open>write\<close> reads: those of the buffer it allocates for a sector, and that of the
  inner \<^verbatim>\<open>len\<close> for a page of a call with some outer \<^verbatim>\<open>len\<close>.
\<close>

record indeterminate =
  heap_bytes :: "u32 \<Rightarrow> nat \<Rightarrow> u8"
  inner_len :: "u32 \<Rightarrow> u32 \<Rightarrow> u32"

text \<open>An example for the witnesses: the inner \<^verbatim>\<open>len\<close> happens to hold the outer one.\<close>

definition demo_junk :: indeterminate where
  "demo_junk = \<lparr>heap_bytes = (\<lambda>_ _. 0xa5), inner_len = (\<lambda>l _. l)\<rparr>"

primrec write_pages :: "'b devbus \<Rightarrow> nat \<Rightarrow> indeterminate \<Rightarrow> u32 \<Rightarrow> u32 \<Rightarrow> (nat \<Rightarrow> u8) \<Rightarrow> bool \<Rightarrow> u32 \<Rightarrow> nat \<Rightarrow> u32 \<Rightarrow> ('b, bool) io" where
  "write_pages bus wait junk addr len data verify s 0 p = throw Out_of_Fuel"
| "write_pages bus wait junk addr len data verify s (Suc fuel) p =
     (if p < s + SECTORSZB \<and> p < addr + len then
        let start = p; ln = addr + inner_len junk len p - start;
            ln = (if PAGEOF (start + ln - 1) \<noteq> PAGEOF start then PAGEOF (start + PGLENB) - start else ln)
        in seq (page_program bus wait start ln (\<lambda>i. data (unat (p - addr) + i)) verify) (\<lambda>ok.
             if \<not> ok then ret False
             else write_pages bus wait junk addr len data verify s fuel (PAGEOF (p + PGLENB)))
      else ret True)"

definition write_sector :: "'b devbus \<Rightarrow> nat \<Rightarrow> indeterminate \<Rightarrow> u32 \<Rightarrow> u32 \<Rightarrow> (nat \<Rightarrow> u8) \<Rightarrow> bool \<Rightarrow> u32 \<Rightarrow> ('b, bool) io" where
  "write_sector bus wait junk addr len data verify s =
     (let base = (if addr > s then addr else s);
          ln = (if addr + len > s + SECTORSZB then s + SECTORSZB else addr + len) - base
      in seq (dv_readi bus base (uint (drop_bit 2 ln))) (\<lambda>ws.
           case scan_sector base (sector_buffer (heap_bytes junk s) ws) (\<lambda>i. data (unat (base - addr) + i)) 0 (unat ln) 0 of
             (need_erase, newv) \<Rightarrow>
               if newv = 0 then ret True
               else
                 seq (if need_erase then erase_sector bus wait s verify else ret True) (\<lambda>ok.
                   if \<not> ok then ret False
                   else write_pages bus wait junk addr len data verify s 16777217
                          (if need_erase then (if s < addr then addr else s) else newv))))"

primrec write_sectors :: "'b devbus \<Rightarrow> nat \<Rightarrow> indeterminate \<Rightarrow> u32 \<Rightarrow> u32 \<Rightarrow> (nat \<Rightarrow> u8) \<Rightarrow> bool \<Rightarrow> nat \<Rightarrow> u32 \<Rightarrow> ('b, bool) io" where
  "write_sectors bus wait junk addr len data verify 0 s = throw Out_of_Fuel"
| "write_sectors bus wait junk addr len data verify (Suc fuel) s =
     (if s < SECTOROF (addr + len + SECTORSZB - 1) then
        seq (write_sector bus wait junk addr len data verify s) (\<lambda>ok.
          if \<not> ok then ret False
          else write_sectors bus wait junk addr len data verify fuel (s + SECTORSZB))
      else seq (iter (cfg bus) [F_WRDI, F_END]) (\<lambda>_. ret True))"

definition flash_write :: "'b devbus \<Rightarrow> nat \<Rightarrow> indeterminate \<Rightarrow> u32 \<Rightarrow> u32 \<Rightarrow> (nat \<Rightarrow> u8) \<Rightarrow> bool \<Rightarrow> ('b, bool) io" where
  "flash_write bus wait junk addr len data verify =
     write_sectors bus wait junk addr len data verify 65537 (SECTOROF addr)"

section \<open>Page and sector arithmetic\<close>

lemma page_nat: "((x :: nat) div 256 = q) = (256 * q \<le> x \<and> x < 256 * q + 256)"
  by (auto intro: div_nat_eqI)

lemma split_nat: "256 * ((p :: nat) div 256) + p mod 256 = p" "p mod 256 < 256"
  by simp_all

lemma same_page_nat:
  assumes "p < (l :: nat)"
  shows "(p div 256 = (l - 1) div 256) = (l - p \<le> 256 - p mod 256)"
proof -
  have "(p div 256 = (l - 1) div 256) = (256 * (p div 256) \<le> l - 1 \<and> l - 1 < 256 * (p div 256) + 256)"
    using page_nat [of "l - 1" "p div 256"] by (metis (no_types))
  then show ?thesis using assms split_nat [of p] by linarith
qed

lemma PAGEOF_nat: "unat (PAGEOF a) = 256 * (unat a div 256)"
  using unat_and_not_mask_u32 [of a 8] by (simp add: PAGEOF_def mask_eq_exp_minus_1)

lemma SECTOROF_nat: "unat (SECTOROF a) = 65536 * (unat a div 65536)"
  using unat_and_not_mask_u32 [of a 16] by (simp add: SECTOROF_def mask_eq_exp_minus_1)

lemma PAGEOF_eq: "(PAGEOF a = PAGEOF b) = (unat a div 256 = unat b div 256)"
  by (simp add: word_unat_eq_iff PAGEOF_nat)

definition aligned :: "u32 \<Rightarrow> bool" where
  "aligned s \<longleftrightarrow> unat s mod 65536 = 0"

lemma aligned_SECTOROF: "aligned (SECTOROF a)"
  by (simp add: aligned_def SECTOROF_nat)

lemma sector_step:
  assumes "unat s = 65536 * k"
  shows "unat (s + SECTORSZB) = (65536 * (k + 1)) mod (65536 * 65536)"
proof -
  have "unat SECTORSZB = 65536" by (simp add: SECTORSZB_def)
  moreover have "(2 :: nat) ^ 32 = 65536 * 65536" by simp
  moreover have "65536 * k + 65536 = 65536 * (k + 1)" by simp
  ultimately show ?thesis unfolding unat_add_u32 assms by (simp only:)
qed

lemma aligned_next: "aligned s \<Longrightarrow> aligned (s + SECTORSZB)"
proof -
  assume "aligned s"
  then obtain k where k: "unat s = 65536 * k" unfolding aligned_def mod_eq_0_iff_dvd by (elim dvdE)
  have "unat (s + SECTORSZB) = (65536 * (k + 1)) mod (65536 * 65536)"
    by (rule sector_step [OF k])
  then have "unat (s + SECTORSZB) = 65536 * ((k + 1) mod 65536)" by (simp only: mod_mult_mult1)
  then show ?thesis unfolding aligned_def by (simp only: mod_mult_self1_is_0)
qed

text \<open>A sector that has an end below the top of the address space, and a page in it.\<close>

lemma sector_end:
  assumes "aligned s" "p < s + SECTORSZB"
  shows "unat (s + SECTORSZB) = unat s + 65536" "unat s + 65536 \<le> 2 ^ 32 - 65536" "unat p < unat s + 65536"
proof -
  obtain k where k: "unat s = 65536 * k" using assms(1) unfolding aligned_def mod_eq_0_iff_dvd by (elim dvdE)
  have kl: "k < 65536" using unat_bound_u32 [of s] k by simp
  have e: "unat (s + SECTORSZB) = (65536 * (k + 1)) mod (65536 * 65536)"
    by (rule sector_step [OF k])
  have "unat (s + SECTORSZB) \<noteq> 0" using assms(2) by (simp add: word_less_nat_alt)
  then have "k + 1 \<noteq> 65536" using e by auto
  then have k1: "k + 1 < 65536" using kl by simp
  then show "unat (s + SECTORSZB) = unat s + 65536" using e k by simp
  then show "unat p < unat s + 65536" using assms(2) by (simp add: word_less_nat_alt)
  show "unat s + 65536 \<le> 2 ^ 32 - 65536" using k1 k by simp
qed

lemma next_page:
  assumes "unat p < 2 ^ 32 - 65536"
  shows "unat (PAGEOF (p + PGLENB)) = 256 * (unat p div 256) + 256"
proof -
  have "unat (p + PGLENB) = unat p + 256"
    unfolding unat_add_u32 using assms by (simp add: PGLENB_def)
  moreover have "(unat p + 256) div 256 = unat p div 256 + 1" by simp
  ultimately show ?thesis by (simp add: PAGEOF_nat)
qed

text \<open>The chunk \<^verbatim>\<open>write\<close> cuts at \<open>p\<close>, which is what \<^verbatim>\<open>page_program\<close> asserts of its arguments.\<close>

definition chunk_len :: "u32 \<Rightarrow> u32 \<Rightarrow> u32" where
  "chunk_len limit p =
     (let ln = limit - p in if PAGEOF (p + ln - 1) \<noteq> PAGEOF p then PAGEOF (p + PGLENB) - p else ln)"

lemma chunk_len_nat:
  assumes "p < limit" "unat p < 2 ^ 32 - 65536"
  shows "unat (chunk_len limit p) = min (256 - unat p mod 256) (unat limit - unat p)"
proof -
  have lt: "unat p < unat limit" using assms(1) by (simp add: word_less_nat_alt)
  have "p + (limit - p) - 1 = limit - 1" by simp
  have l1: "unat (limit - 1) = unat limit - 1"
    using lt by (metis One_nat_def less_nat_zero_code unat_0 unat_minus_one)
  have ln: "unat (limit - p) = unat limit - unat p"
    using assms(1) by (simp add: unat_sub less_imp_le)
  show ?thesis
  proof (cases "unat p div 256 = (unat limit - 1) div 256")
    case True
    then have "chunk_len limit p = limit - p"
      by (simp add: chunk_len_def Let_def PAGEOF_eq l1)
    moreover have "unat limit - unat p \<le> 256 - unat p mod 256" using True same_page_nat [OF lt] by simp
    ultimately show ?thesis using ln by simp
  next
    case False
    then have "chunk_len limit p = PAGEOF (p + PGLENB) - p"
      by (simp add: chunk_len_def Let_def PAGEOF_eq l1)
    moreover have "p \<le> PAGEOF (p + PGLENB)"
      unfolding word_le_nat_alt next_page [OF assms(2)] using split_nat [of "unat p"] by linarith
    then have "unat (PAGEOF (p + PGLENB) - p) = 256 * (unat p div 256) + 256 - unat p"
      by (simp add: unat_sub next_page [OF assms(2)])
    moreover have "256 - unat p mod 256 \<le> unat limit - unat p" using False same_page_nat [OF lt] by simp
    moreover have "256 * (unat p div 256) + 256 - unat p = 256 - unat p mod 256"
      using split_nat [of "unat p"] by linarith
    ultimately show ?thesis by simp
  qed
qed

lemma chunk_ok:
  assumes "p < limit" "unat p < 2 ^ 32 - 65536"
  shows "chunk_len limit p > 0" "chunk_len limit p \<le> PGLENB" "PAGEOF p = PAGEOF (p + chunk_len limit p - 1)"
proof -
  let ?n = "unat (chunk_len limit p)"
  have lt: "unat p < unat limit" using assms(1) by (simp add: word_less_nat_alt)
  have m: "?n = min (256 - unat p mod 256) (unat limit - unat p)" by (rule chunk_len_nat [OF assms])
  have n: "0 < ?n" "?n \<le> 256 - unat p mod 256" using m lt by auto
  then show "chunk_len limit p > 0" "chunk_len limit p \<le> PGLENB"
    by (simp_all add: word_less_nat_alt word_le_nat_alt PGLENB_def)
  have sum: "unat (p + chunk_len limit p) = unat p + ?n"
    unfolding unat_add_u32 using n assms(2) by simp
  have "p + chunk_len limit p \<noteq> 0" using sum n by (metis add_gr_0 unat_eq_0 less_irrefl)
  then have "unat (p + chunk_len limit p - 1) = unat p + ?n - 1" using sum by (simp add: unat_minus_one)
  moreover have "unat p div 256 = (unat p + ?n - 1) div 256"
    using same_page_nat [of "unat p" "unat p + ?n"] n by simp
  ultimately show "PAGEOF p = PAGEOF (p + chunk_len limit p - 1)" by (simp add: PAGEOF_eq)
qed

section \<open>Every loop ends, no assertion fails\<close>

context devbus_client
begin

lemma cfg_keeps: "keeps traffic N (cfg bus v)"
  unfolding cfg_def by (rule writeio_keeps)

lemma flwait_loop_keeps: "N < fuel \<Longrightarrow> keeps traffic N (flwait_loop bus fuel)"
proof (induction fuel arbitrary: N)
  case (Suc fuel)
  show ?case
    unfolding keeps_def
  proof (intro allI impI)
    fix s r s' assume s: "traffic s \<le> N" and run: "flwait_loop bus (Suc fuel) s = (r, s')"
    obtain r1 s1 where 1: "cfg bus F_EMPTY s = (r1, s1)" by force
    note k1 = keepsD [OF cfg_keeps 1 s]
    obtain r2 s2 where 2: "dv_readio bus R_FLASHCFG s1 = (r2, s2)" by force
    have k2: "traffic s2 \<le> traffic s1 \<and> r2 \<noteq> Inl Out_of_Fuel \<and> r2 \<noteq> Inl Client_Assert"
      using keepsD [OF readio_keeps 2, of "traffic s1"] by simp
    show "traffic s' \<le> traffic s \<and> r \<noteq> Inl Out_of_Fuel \<and> r \<noteq> Inl Client_Assert"
    proof (cases r1; cases r2)
      fix u sr assume r: "r1 = Inr u" "r2 = Inr sr"
      have "traffic s2 < traffic s1" using readio_uses 2 r by simp
      then have "keeps traffic (traffic s2) (flwait_loop bus fuel)"
        using Suc.IH [of "traffic s2"] Suc.prems s k1 by simp
      then show ?thesis
        using run 1 2 r k1 k2 keepsD [of traffic "traffic s2" "flwait_loop bus fuel" s2]
        by (auto simp: seq_def split: if_splits)
    qed (use run 1 2 k1 k2 in \<open>auto simp: seq_def\<close>)
  qed
qed simp

lemma flwait_keeps: "N < fuel \<Longrightarrow> keeps traffic N (flwait bus fuel)"
  unfolding flwait_def by (intro keeps_seq cfg_keeps flwait_loop_keeps)

lemma verify_erased_keeps: "keeps traffic N (verify_erased bus a is)"
  by (induction "is") (auto intro!: readi_keeps)

lemma erase_sector_keeps: "N < fuel \<Longrightarrow> keeps traffic N (erase_sector bus fuel sector v)"
  unfolding erase_sector_def Let_def
  by (intro keeps_seq keeps_iter keeps_if keeps_ret cfg_keeps flwait_keeps verify_erased_keeps)

lemma page_program_comes_back:
  assumes "N < fuel" "sure \<Longrightarrow> 0 < len \<and> len \<le> PGLENB \<and> PAGEOF addr = PAGEOF (addr + len - 1)"
  shows "comes_back sure traffic N (page_program bus fuel addr len data v)"
  using assms(2) unfolding page_program_def Let_def
  by (intro comes_back_intros comes_back_assert keeps_comes_back [OF cfg_keeps] keeps_comes_back [OF readi_keeps]
      keeps_comes_back [OF flwait_keeps [OF assms(1)]]) auto

text \<open>
  Each page program \<^verbatim>\<open>write\<close> asks for is within one page if the inner \<^verbatim>\<open>len\<close> is the outer one, and there are at
  most \<open>2 ^ 24\<close> pages in any case.
\<close>

lemma write_pages_Suc:
  "write_pages bus wait junk addr len data v s (Suc fuel) p =
     (if p < s + SECTORSZB \<and> p < addr + len then
        seq (page_program bus wait p (chunk_len (addr + inner_len junk len p) p) (\<lambda>i. data (unat (p - addr) + i)) v) (\<lambda>ok.
          if \<not> ok then ret False
          else write_pages bus wait junk addr len data v s fuel (PAGEOF (p + PGLENB)))
      else ret True)"
  unfolding write_pages.simps chunk_len_def Let_def ..

lemma write_pages_comes_back:
  assumes "N < wait" "aligned s" "sure \<Longrightarrow> \<forall>l p. inner_len junk l p = l" "2 ^ 24 - unat p div 256 < fuel"
  shows "comes_back sure traffic N (write_pages bus wait junk addr len data v s fuel p)"
  using assms(4)
proof (induction fuel arbitrary: p)
  case (Suc fuel)
  show ?case
  proof (cases "p < s + SECTORSZB \<and> p < addr + len")
    case True
    have p: "unat p < 2 ^ 32 - 65536" using sector_end [OF assms(2)] True by fastforce
    let ?q = "PAGEOF (p + PGLENB)"
    have "unat ?q div 256 = unat p div 256 + 1" using next_page [OF p] by simp
    moreover have "unat p div 256 < 2 ^ 24" using p by (simp add: less_mult_imp_div_less)
    ultimately have "comes_back sure traffic N (write_pages bus wait junk addr len data v s fuel ?q)"
      using Suc.IH [of ?q] Suc.prems by simp
    then show ?thesis
      unfolding write_pages_Suc if_P [OF True]
      using chunk_ok [OF conjunct2 [OF True] p] assms(3)
      by (intro comes_back_seq comes_back_if comes_back_ret page_program_comes_back [OF assms(1)]) auto
  next
    case False
    show ?thesis unfolding write_pages_Suc if_not_P [OF False] by (rule comes_back_ret)
  qed
qed simp

lemma write_sector_comes_back:
  assumes "N < wait" "aligned s" "sure \<Longrightarrow> \<forall>l p. inner_len junk l p = l"
  shows "comes_back sure traffic N (write_sector bus wait junk addr len data v s)"
proof -
  have "comes_back sure traffic N (write_pages bus wait junk addr len data v s 16777217 p)" for p
    by (rule write_pages_comes_back [OF assms]) simp_all
  then show ?thesis
    unfolding write_sector_def Let_def
    by (intro comes_back_seq comes_back_case_prod comes_back_if comes_back_ret
        keeps_comes_back [OF readi_keeps] keeps_comes_back [OF erase_sector_keeps] assms(1))
qed

lemma write_sectors_comes_back:
  assumes "N < wait" "aligned s" "2 ^ 16 - unat s div 65536 < fuel"
    "sure \<Longrightarrow> \<forall>l p. inner_len junk l p = l"
  shows "comes_back sure traffic N (write_sectors bus wait junk addr len data v fuel s)"
  using assms(2,3)
proof (induction fuel arbitrary: s)
  case (Suc fuel)
  let ?bound = "SECTOROF (addr + len + SECTORSZB - 1)"
  show ?case
  proof (cases "s < ?bound")
    case True
    obtain k where k: "unat s = 65536 * k" using Suc.prems(1) unfolding aligned_def mod_eq_0_iff_dvd by (elim dvdE)
    have "unat s < 65536 * (unat (addr + len + SECTORSZB - 1) div 65536)"
      using True by (simp add: word_less_nat_alt SECTOROF_nat)
    moreover have "unat (addr + len + SECTORSZB - 1) div 65536 < 65536"
      using unat_bound_u32 [of "addr + len + SECTORSZB - 1"] by (intro less_mult_imp_div_less) simp
    ultimately have k1: "k + 1 < 65536" using k by linarith
    then have "unat (s + SECTORSZB) = 65536 * (k + 1)" unfolding sector_step [OF k] by simp
    then have "unat (s + SECTORSZB) div 65536 = unat s div 65536 + 1" using k by simp
    then have "comes_back sure traffic N (write_sectors bus wait junk addr len data v fuel (s + SECTORSZB))"
      using Suc.IH [OF aligned_next [OF Suc.prems(1)]] Suc.prems(2) k k1 by simp
    then show ?thesis
      unfolding write_sectors.simps if_P [OF True]
      using assms(4)
      by (intro comes_back_seq comes_back_if comes_back_ret write_sector_comes_back assms(1) Suc.prems(1)) auto
  next
    case False
    show ?thesis
      unfolding write_sectors.simps if_not_P [OF False] 
      by (intro comes_back_seq comes_back_iter comes_back_ret keeps_comes_back [OF cfg_keeps])
  qed
qed simp

lemma flash_write_comes_back:
  "N < wait \<Longrightarrow> (sure \<Longrightarrow> \<forall>l p. inner_len junk l p = l) \<Longrightarrow>
   comes_back sure traffic N (flash_write bus wait junk addr len data v)"
  unfolding flash_write_def by (intro write_sectors_comes_back aligned_SECTOROF) auto

text \<open>
  Without that luck the assertion can fail: writing to an address inside a page, with an inner \<^verbatim>\<open>len\<close> that
  holds zero, asks \<^verbatim>\<open>page_program\<close> for a page of no bytes.
\<close>

lemma write_pages_assertion_fails:
  assumes "p < s + SECTORSZB" "p < p + len" "PAGEOF (p - 1) = PAGEOF p" "inner_len junk len p = 0"
  shows "write_pages bus wait junk p len data v s (Suc fuel) p h = (Inl Client_Assert, h)"
  using assms by (simp add: write_pages_Suc chunk_len_def page_program_def seq_def throw_def)

end

section \<open>Where the erase is verified\<close>

text \<open>A bus that refuses block reads outside a set of addresses.\<close>

definition restrict_reads :: "(u32 \<Rightarrow> bool) \<Rightarrow> 'b devbus \<Rightarrow> 'b devbus" where
  "restrict_reads ok bus = bus\<lparr>dv_readi := (\<lambda>a n. if ok a then dv_readi bus a n else throw Exit_Failure)\<rparr>"

lemma restrict_simps [simp]:
  "dv_writeio (restrict_reads ok bus) = dv_writeio bus" "dv_readio (restrict_reads ok bus) = dv_readio bus"
  "dv_readi (restrict_reads ok bus) a n = (if ok a then dv_readi bus a n else throw Exit_Failure)"
  by (simp_all add: restrict_reads_def)

lemma restrict_cfg [simp]: "cfg (restrict_reads ok bus) v = cfg bus v"
  by (simp add: cfg_def)

lemma restrict_flwait [simp]: "flwait (restrict_reads ok bus) fuel = flwait bus fuel"
proof -
  have "flwait_loop (restrict_reads ok bus) fuel = flwait_loop bus fuel" by (induction fuel) (simp_all cong: if_cong)
  then show ?thesis by (simp add: flwait_def)
qed

lemma restrict_verify_erased:
  "(\<And>i. i \<in> set is \<Longrightarrow> ok (R_FLASH + a + of_nat i * SZPAGEB)) \<Longrightarrow>
   verify_erased (restrict_reads ok bus) a is = verify_erased bus a is"
  by (induction "is") (simp_all cong: if_cong)

lemma restrict_iter [simp]: "iter (cfg (restrict_reads ok bus)) = iter (cfg bus)"
proof -
  have "cfg (restrict_reads ok bus) = cfg bus" by (rule ext) simp
  then show ?thesis by simp
qed

text \<open>
  The erase check looks in the wrong place.  For a sector of the flash window, whose address has the
  base of the flash in it, \<^verbatim>\<open>erase_sector\<close> adds that base again: forbidding it every block read outside
  the half megabyte that starts at the SDRAM makes no difference to what it does.
\<close>
lemma erase_verify_reads_sdram:
  assumes "R_FLASH \<le> sector" "sector < R_FLASH + 0x80000" "aligned sector"
  shows "erase_sector (restrict_reads (\<lambda>a. R_SDRAM \<le> a \<and> a < R_SDRAM + 0x80000) bus) fuel sector v
    = erase_sector bus fuel sector v"
proof -
  have s: "2097152 \<le> unat sector" "unat sector < 2621440"
    using assms(1,2) by (simp_all add: word_le_nat_alt word_less_nat_alt)
  have m: "(0xffffff :: u32) = mask 24" by (simp add: mask_eq_exp_minus_1)
  have "sector AND 0x0ffffff = sector"
    using s by (simp add: m word_and_mask_eq_take_bit word_unat_eq_iff unat_take_bit_u32)
  moreover have "unat (R_FLASH + sector + of_nat i * SZPAGEB) = 2097152 + unat sector + i * 256" if "i < 256" for i
  proof -
    have "unat (of_nat i * SZPAGEB) = i * 256"
      using that unat_of_nat_u32 [of "i * 256"] by (simp add: SZPAGEB_def)
    then show ?thesis using s that by (simp add: unat_add_u32)
  qed
  moreover have "unat sector + 65536 \<le> 2621440"
  proof -
    obtain k where "unat sector = 65536 * k" using assms(3) unfolding aligned_def mod_eq_0_iff_dvd by (elim dvdE)
    then show ?thesis using s(2) by simp
  qed
  ultimately have "verify_erased (restrict_reads (\<lambda>a. R_SDRAM \<le> a \<and> a < R_SDRAM + 0x80000) bus) (sector AND 0x0ffffff) [0..<NPAGES]
      = verify_erased bus (sector AND 0x0ffffff) [0..<NPAGES]"
    using s by (intro restrict_verify_erased) (auto simp: NPAGES_def word_le_nat_alt word_less_nat_alt)
  then show ?thesis
    unfolding erase_sector_def Let_def restrict_iter restrict_flwait by (simp only:)
qed

theorem erase_verify_reads_sdram_witness:
  "\<forall>(bus :: nat devbus) v. erase_sector (restrict_reads (\<lambda>a. R_SDRAM \<le> a \<and> a < R_SDRAM + 0x80000) bus) 5 0x210000 v
    = erase_sector bus 5 0x210000 v"
  by (intro allI erase_verify_reads_sdram) (simp_all add: aligned_def)

end
