(* ===== verification/TbClock.thy ===== *)
theory TbClock
  imports Prelude
begin

text \<open>
  The clock generator of \<^verbatim>\<open>sim/tbclock.h\<close>.  Times are \<^verbatim>\<open>unsigned long\<close> picoseconds, 64-bit words that
  wrap.  The constructors' \<^verbatim>\<open>assert(m_increment_ps > 0)\<close> is the \<open>None\<close> of \<open>set_interval_ps\<close>.
\<close>

section \<open>The class\<close>

record tbclock =
  m_increment_ps :: u64
  m_now_ps :: u64
  m_last_edge_ps :: u64

definition tbclock_default :: tbclock where
  "tbclock_default = \<lparr>m_increment_ps = 10000, m_now_ps = 10000 + 1, m_last_edge_ps = 10000\<rparr>"

definition set_interval_ps :: "u64 \<Rightarrow> tbclock \<Rightarrow> tbclock option" where
  "set_interval_ps interval_ps c =
     (let c = c\<lparr>m_increment_ps := drop_bit 1 interval_ps AND (- 2)\<rparr>
      in if 0 < m_increment_ps c then Some c else None)"

definition tbclock_init :: "u64 \<Rightarrow> tbclock \<Rightarrow> tbclock option" where
  "tbclock_init increment_ps c =
     map_option (\<lambda>c. c\<lparr>m_now_ps := m_increment_ps c + 1, m_last_edge_ps := m_increment_ps c\<rparr>)
       (set_interval_ps increment_ps c)"

definition time_to_tick :: "tbclock \<Rightarrow> u64" where
  "time_to_tick c =
     (if m_last_edge_ps c > m_now_ps c then
        m_now_ps c + (m_last_edge_ps c - m_now_ps c) div m_increment_ps c * m_increment_ps c
      else if m_last_edge_ps c = m_now_ps c then m_increment_ps c
      else if m_last_edge_ps c + m_increment_ps c = m_now_ps c then m_increment_ps c
      else if m_last_edge_ps c + m_increment_ps c > m_now_ps c then
        m_last_edge_ps c + m_increment_ps c - m_now_ps c
      else m_last_edge_ps c + 2 * m_increment_ps c - m_now_ps c)"

definition advance :: "u64 \<Rightarrow> tbclock \<Rightarrow> bool \<times> tbclock" where
  "advance itime c =
     (let c = c\<lparr>m_now_ps := m_now_ps c + itime\<rparr>
      in if m_now_ps c \<ge> m_last_edge_ps c + 2 * m_increment_ps c then
           (True, c\<lparr>m_last_edge_ps := m_last_edge_ps c + 2 * m_increment_ps c\<rparr>)
         else if m_now_ps c \<ge> m_last_edge_ps c + m_increment_ps c then (False, c)
         else (True, c))"

definition rising_edge :: "tbclock \<Rightarrow> bool" where
  "rising_edge c \<longleftrightarrow> m_now_ps c = m_last_edge_ps c"

definition falling_edge :: "tbclock \<Rightarrow> bool" where
  "falling_edge c \<longleftrightarrow> m_now_ps c = m_last_edge_ps c + m_increment_ps c"

section \<open>Phase\<close>

text \<open>
  The abstract clock: a half period \<open>inc\<close> and a phase below \<open>2 * inc\<close>, high in the first half.  A
  state has it when the present lies in the period that began at the last rising edge, and there
  is room for one more period before the 64-bit time wraps (about 213 days of simulated time).
\<close>

definition clock_ok :: "tbclock \<Rightarrow> bool" where
  "clock_ok c \<longleftrightarrow> 0 < m_increment_ps c \<and> m_last_edge_ps c \<le> m_now_ps c
     \<and> unat (m_now_ps c) < unat (m_last_edge_ps c) + 2 * unat (m_increment_ps c)
     \<and> unat (m_last_edge_ps c) + 4 * unat (m_increment_ps c) < 2 ^ 64"

definition phase :: "tbclock \<Rightarrow> nat" where
  "phase c = unat (m_now_ps c) - unat (m_last_edge_ps c)"

definition half :: "tbclock \<Rightarrow> nat" where
  "half c = unat (m_increment_ps c)"

lemma unat_plus_no_wrap: "unat a + unat b < 2 ^ 64 \<Longrightarrow> unat (a + b :: u64) = unat a + unat b"
  by (rule unat_add_lem [THEN iffD1]) simp

lemma unat_double_no_wrap: "2 * unat a < 2 ^ 64 \<Longrightarrow> unat (2 * a :: u64) = 2 * unat a"
  unfolding mult_2 by (rule unat_plus_no_wrap)

lemma period_arith:
  assumes "clock_ok c"
  shows "unat (m_last_edge_ps c + m_increment_ps c) = unat (m_last_edge_ps c) + half c"
    and "unat (2 * m_increment_ps c) = 2 * half c"
    and "unat (m_last_edge_ps c + 2 * m_increment_ps c) = unat (m_last_edge_ps c) + 2 * half c"
    and "unat (m_now_ps c) = unat (m_last_edge_ps c) + phase c"
    and "phase c < 2 * half c" "0 < half c"
proof -
  have l: "unat (m_last_edge_ps c) + 4 * unat (m_increment_ps c) < 2 ^ 64"
    using assms by (simp add: clock_ok_def)
  show "unat (m_last_edge_ps c + m_increment_ps c) = unat (m_last_edge_ps c) + half c"
    unfolding half_def by (rule unat_plus_no_wrap) (use l in simp)
  show d: "unat (2 * m_increment_ps c) = 2 * half c"
    unfolding half_def by (rule unat_double_no_wrap) (use l in simp)
  show "unat (m_last_edge_ps c + 2 * m_increment_ps c) = unat (m_last_edge_ps c) + 2 * half c"
    unfolding d [symmetric] by (rule unat_plus_no_wrap) (use l d in \<open>simp add: half_def\<close>)
  show "unat (m_now_ps c) = unat (m_last_edge_ps c) + phase c" "phase c < 2 * half c" "0 < half c"
    using assms by (auto simp: clock_ok_def phase_def half_def word_le_nat_alt word_less_nat_alt)
qed

lemma time_to_tick_phase:
  assumes "clock_ok c"
  shows "unat (time_to_tick c) = (if phase c < half c then half c - phase c else 2 * half c - phase c)"
proof -
  note p = period_arith [OF assms]
  have "\<not> m_last_edge_ps c > m_now_ps c"
    using assms by (simp add: clock_ok_def not_less)
  moreover have "(m_last_edge_ps c = m_now_ps c) = (phase c = 0)"
    "(m_last_edge_ps c + m_increment_ps c = m_now_ps c) = (phase c = half c)"
    using p by (simp_all only: word_unat_eq_iff) auto
  moreover have le: "(m_last_edge_ps c + m_increment_ps c > m_now_ps c) = (phase c < half c)"
    unfolding word_less_nat_alt p by simp
  moreover have "unat (m_last_edge_ps c + m_increment_ps c - m_now_ps c) = half c - phase c"
    if "phase c < half c"
    using that le by (subst unat_sub) (auto simp: p)
  moreover have "unat (m_last_edge_ps c + 2 * m_increment_ps c - m_now_ps c) = 2 * half c - phase c"
    by (subst unat_sub) (simp_all add: p word_le_nat_alt less_imp_le [OF p(5)])
  ultimately show ?thesis
    using p(5,6) by (auto simp: time_to_tick_def half_def)
qed

lemma advance_phase:
  assumes ok: "clock_ok c" and t: "unat t \<le> unat (time_to_tick c)"
    and room: "unat (m_last_edge_ps c) + 6 * half c < 2 ^ 64"
    and adv: "advance t c = (clk, c')"
  shows "clock_ok c' \<and> half c' = half c \<and> phase c' = (phase c + unat t) mod (2 * half c)
    \<and> clk = (phase c' < half c')"
proof -
  note p = period_arith [OF ok]
  have tt: "phase c + unat t \<le> 2 * half c"
    using t p(5) unfolding time_to_tick_phase [OF ok] by (auto split: if_splits)
  have n: "unat (m_now_ps c + t) = unat (m_last_edge_ps c) + (phase c + unat t)"
    using p(4) tt room by (subst unat_plus_no_wrap) auto
  have ge: "(m_now_ps c + t \<ge> m_last_edge_ps c + 2 * m_increment_ps c) = (phase c + unat t = 2 * half c)"
    "(m_now_ps c + t \<ge> m_last_edge_ps c + m_increment_ps c) = (half c \<le> phase c + unat t)"
    unfolding word_le_nat_alt p n using tt by auto
  have inc: "0 < m_increment_ps c"
    using ok by (simp add: clock_ok_def)
  show ?thesis
  proof (cases "phase c + unat t = 2 * half c")
    case True
    then have "clk" and c': "c' = c\<lparr>m_now_ps := m_now_ps c + t, m_last_edge_ps := m_last_edge_ps c + 2 * m_increment_ps c\<rparr>"
      using adv by (simp_all add: advance_def ge)
    moreover have "phase c' = 0"
      unfolding phase_def c' using True by (simp add: p n)
    moreover have "half c' = half c" "unat (m_last_edge_ps c') = unat (m_last_edge_ps c) + 2 * half c"
      "unat (m_now_ps c') = unat (m_last_edge_ps c')"
      unfolding half_def c' using True by (simp_all add: p n half_def)
    ultimately show ?thesis
      using p(6) inc True room by (simp add: clock_ok_def word_le_nat_alt half_def)
  next
    case False
    then have "clk = (phase c + unat t < half c)" and c': "c' = c\<lparr>m_now_ps := m_now_ps c + t\<rparr>"
      using adv by (auto simp: advance_def ge Let_def split: if_splits)
    moreover have "phase c' = phase c + unat t"
      unfolding c' by (simp add: n phase_def [of "c\<lparr>m_now_ps := m_now_ps c + t\<rparr>"])
    moreover have "half c' = half c" "m_last_edge_ps c' = m_last_edge_ps c" "m_increment_ps c' = m_increment_ps c"
      "unat (m_now_ps c') = unat (m_last_edge_ps c) + (phase c + unat t)"
      unfolding half_def c' by (simp_all add: n)
    ultimately show ?thesis
      using p(6) inc False tt room by (simp add: clock_ok_def word_le_nat_alt half_def)
  qed
qed

lemma edge_phase:
  assumes "clock_ok c"
  shows "rising_edge c = (phase c = 0)" "falling_edge c = (phase c = half c)"
  using period_arith [OF assms]
  by (auto simp: rising_edge_def falling_edge_def word_unat_eq_iff)


text \<open>
  C31: a step no longer than \<^verbatim>\<open>time_to_tick\<close>, which is how the bench steps all its clocks together,
  moves the phase by exactly that much and reports the level of the new phase; an edge is seen if
  and only if the step was \<^verbatim>\<open>time_to_tick\<close> itself (or the clock did not move from an edge), so no
  edge is ever skipped, and the level changes only there.
\<close>
theorem advance_meets_edges:
  assumes "clock_ok c" "unat t \<le> unat (time_to_tick c)" "unat (m_last_edge_ps c) + 6 * half c < 2 ^ 64"
    "advance t c = (clk, c')" "0 < t"
  shows "clock_ok c' \<and> half c' = half c \<and> phase c' = (phase c + unat t) mod (2 * half c)
    \<and> clk = (phase c' < half c)
    \<and> (rising_edge c' \<longleftrightarrow> t = time_to_tick c \<and> half c \<le> phase c)
    \<and> (falling_edge c' \<longleftrightarrow> t = time_to_tick c \<and> phase c < half c)"
proof -
  note p = period_arith [OF assms(1)]
  have a: "clock_ok c'" "half c' = half c" "phase c' = (phase c + unat t) mod (2 * half c)"
    "clk = (phase c' < half c)"
    using advance_phase [OF assms(1-4)] by simp_all
  have t: "0 < unat t" "(t = time_to_tick c) = (unat t = unat (time_to_tick c))"
    using assms(5) by (simp_all add: word_less_nat_alt word_unat_eq_iff)
  have tt: "phase c + unat t \<le> 2 * half c" "phase c < half c \<Longrightarrow> phase c + unat t \<le> half c"
    using assms(2) p(5) unfolding time_to_tick_phase [OF assms(1)] by (auto split: if_splits)
  show ?thesis
    using a t tt p(5,6) unfolding edge_phase [OF a(1)] time_to_tick_phase [OF assms(1)] a(2,3)
    by (cases "phase c + unat t = 2 * half c") auto
qed

theorem advance_meets_edges_witness:
  "clock_ok (snd (advance 9999 tbclock_default)) \<and> falling_edge (snd (advance 9999 tbclock_default))"
proof -
  have c: "clock_ok tbclock_default" by (simp add: clock_ok_def tbclock_default_def word_less_nat_alt)
  have t: "time_to_tick tbclock_default = 9999"
    by (simp add: time_to_tick_def tbclock_default_def)
  show ?thesis
    using advance_meets_edges [OF c, of 9999 "fst (advance 9999 tbclock_default)" "snd (advance 9999 tbclock_default)"]
    by (simp add: t) (simp add: tbclock_default_def half_def phase_def)
qed

lemma half_interval: "unat (drop_bit 1 p AND (- 2) :: u64) = 2 * (unat p div 4)"
proof -
  have "drop_bit 1 p AND (- 2) = push_bit 1 (drop_bit 2 p)"
    by (rule bit_word_eqI)
      (auto simp only: bit_and_iff bit_push_bit_iff bit_drop_bit_eq bit_minus_2_iff possible_bit_word
        o_def le_add_diff_inverse Suc_1 [symmetric] add_Suc plus_1_eq_Suc One_nat_def Suc_le_eq diff_Suc_1
        Suc_pred add_0 Suc_le_mono)
  moreover have "unat (push_bit 1 (drop_bit 2 p)) = 2 * (unat p div 4)"
  proof -
    have "unat p < 2 ^ 64" using unsigned_less [of p] by simp
    then have "2 * (unat p div 4) < 2 ^ 64" by simp
    then show ?thesis
      by (simp add: push_bit_eq_mult unat_drop_bit_eq drop_bit_eq_div unat_word_ariths)
  qed
  ultimately show ?thesis by simp
qed

text \<open>
  A clock of interval \<open>p\<close> is accepted exactly when a quarter of it is at least one picosecond.  It
  starts high, one picosecond after a rising edge, so that the first edge it meets is a falling one.
\<close>
lemma tbclock_init_starts_high:
  assumes "unat p < 2 ^ 60"
  shows "(tbclock_init p c = None) = (p < 4) \<and>
   (case tbclock_init p c of None \<Rightarrow> True
    | Some c' \<Rightarrow> clock_ok c' \<and> half c' = 2 * (unat p div 4) \<and> phase c' = 1 \<and> \<not> rising_edge c'
        \<and> fst (advance 0 c') \<and> falling_edge (snd (advance (time_to_tick c') c')))"
proof (cases "p < 4")
  case True
  then have "unat p div 4 = 0" by (simp add: word_less_nat_alt)
  then have "drop_bit 1 p AND (- 2) = 0"
    using half_interval [of p] by (simp add: unat_eq_0)
  with True show ?thesis by (simp add: tbclock_init_def set_interval_ps_def)
next
  case False
  define i where "i = drop_bit 1 p AND (- 2)"
  have i: "unat i = 2 * (unat p div 4)" unfolding i_def by (rule half_interval)
  have p4: "4 \<le> unat p" using False by (simp add: word_less_nat_alt not_less)
  then have pos: "0 < unat i" and even: "2 \<le> unat i" using i by auto
  have small: "unat i < 2 ^ 60" using i assms by simp
  define c' where "c' = c\<lparr>m_increment_ps := i, m_now_ps := i + 1, m_last_edge_ps := i\<rparr>"
  have c': "tbclock_init p c = Some c'"
    using pos unfolding tbclock_init_def set_interval_ps_def i_def [symmetric] c'_def Let_def
    by (simp add: word_less_nat_alt)
  have f: "m_increment_ps c' = i" "m_now_ps c' = i + 1" "m_last_edge_ps c' = i"
    by (simp_all add: c'_def)
  have now: "unat (i + 1) = unat i + 1"
    using unat_plus_no_wrap [of i 1] small by simp
  have ph: "phase c' = 1" and h: "half c' = unat i"
    by (simp_all add: phase_def half_def f now)
  have ok: "clock_ok c'"
    using small pos even by (simp add: clock_ok_def f now word_less_nat_alt word_le_nat_alt)
  have tt: "unat (time_to_tick c') = half c' - 1"
    using time_to_tick_phase [OF ok] ph h even by simp
  have room: "unat (m_last_edge_ps c') + 6 * half c' < 2 ^ 64"
    using small by (simp add: f h)
  obtain k0 c0 where a0: "advance 0 c' = (k0, c0)" by force
  obtain k1 c1 where a1: "advance (time_to_tick c') c' = (k1, c1)" by force
  have "k0"
    using advance_phase [OF ok _ room a0] ph h even by simp
  moreover have "falling_edge c1"
    using advance_phase [OF ok _ room a1] edge_phase [of c1] ph h even tt by simp
  ultimately show ?thesis
    using False c' ok ph h i a0 a1 edge_phase [OF ok] by simp
qed

theorem tbclock_init_starts_high_witness:
  "tbclock_init 3 tbclock_default = None \<and> half (the (tbclock_init 10007 tbclock_default)) = 5002"
  using tbclock_init_starts_high [of 3 tbclock_default] tbclock_init_starts_high [of 10007 tbclock_default]
  by (simp split: option.splits)

end
