(* ===== verification/MemSim.thy ===== *)
theory MemSim
  imports Prelude
begin

text \<open>
  The bus memory of \<^verbatim>\<open>sim/memsim.cpp\<close>: a word array of a power-of-two size and two rings, of the
  acknowledgements and of the data, through which every request travels for \<open>m_delay\<close> calls.  Arrays
  are functions from the 32-bit index; \<open>memsim_wf\<close> says that the rings' indices stay inside them.
\<close>

section \<open>Construction\<close>

record memsim =
  m_mem :: "u32 \<Rightarrow> u32"
  m_len :: u32
  m_mask :: u32
  m_head :: u32
  m_tail :: u32
  m_delay_mask :: u32
  m_delay :: u32
  m_fifo_ack :: "u32 \<Rightarrow> bool"
  m_fifo_data :: "u32 \<Rightarrow> u32"

text \<open>
  \<^verbatim>\<open>for (nxt=1; nxt < n; nxt <<= 1);\<close> with a bound on its turns: after 32 of them \<open>nxt\<close> is zero and
  stays so, and the loop of the code never ends (\<open>None\<close>).
\<close>

fun pow2_loop :: "nat \<Rightarrow> u32 \<Rightarrow> u32 \<Rightarrow> u32 option" where
  "pow2_loop 0 nxt n = None"
| "pow2_loop (Suc fuel) nxt n = (if nxt < n then pow2_loop fuel (push_bit 1 nxt) n else Some nxt)"

definition pow2_from :: "u32 \<Rightarrow> u32 option" where
  "pow2_from n = pow2_loop 33 1 n"

text \<open>The arrays come from \<^verbatim>\<open>new\<close> and hold anything: \<open>mem\<close> and \<open>data\<close>.  Only the acks are cleared.\<close>

definition memsim_init :: "(u32 \<Rightarrow> u32) \<Rightarrow> (u32 \<Rightarrow> u32) \<Rightarrow> u32 \<Rightarrow> u32 \<Rightarrow> memsim option" where
  "memsim_init mem data nwords delay =
     (case pow2_from nwords of
        None \<Rightarrow> None
      | Some nxt \<Rightarrow>
          (case pow2_from delay of
             None \<Rightarrow> None
           | Some dm \<Rightarrow>
               Some \<lparr>m_mem = mem, m_len = nxt, m_mask = nxt - 1, m_head = 0,
                 m_tail = (0 - delay) AND (dm - 1), m_delay_mask = dm - 1, m_delay = delay,
                 m_fifo_ack = (\<lambda>i. False), m_fifo_data = data\<rparr>))"

section \<open>Loading\<close>

definition le_word :: "u8 list \<Rightarrow> u32" where
  "le_word bs = foldr (\<lambda>b w. push_bit 8 w OR ucast b) (take 4 bs) 0"

text \<open>
  \<^verbatim>\<open>load(fname)\<close>: the words of the file (\<open>None\<close>: it cannot be opened) that fit, then zeros.
\<close>

definition load_file :: "u8 list option \<Rightarrow> memsim \<Rightarrow> memsim" where
  "load_file file s =
     (let bytes = (case file of None \<Rightarrow> [] | Some bs \<Rightarrow> bs);
          nr = min (length bytes div 4) (unat (m_len s))
      in s\<lparr>m_mem := (\<lambda>a. if unat a < nr then le_word (drop (4 * unat a) bytes)
                        else if a < m_len s then 0 else m_mem s a)\<rparr>)"

text \<open>
  \<^verbatim>\<open>load(addr, buf, len)\<close> copies bytes to the word array from word \<open>addr\<close> on (little endian host);
  a copy past the end of the array is undefined, \<open>None\<close>.
\<close>

definition load_bytes :: "u32 \<Rightarrow> u8 list \<Rightarrow> memsim \<Rightarrow> memsim option" where
  "load_bytes addr buf s =
     (if 4 * unat addr + length buf \<le> 4 * unat (m_len s) then
        Some (s\<lparr>m_mem := (\<lambda>a.
          let lane = (\<lambda>k. if addr \<le> a \<and> 4 * unat (a - addr) + k < length buf
                          then buf ! (4 * unat (a - addr) + k) else byte_at k (m_mem s a))
          in le_word [lane 0, lane 1, lane 2, lane 3])\<rparr>)
      else None)"

section \<open>One bus cycle\<close>

record mreq =
  wb_cyc :: bool
  wb_stb :: bool
  wb_we :: bool
  wb_addr :: u32
  wb_data :: u32
  wb_sel :: u8

definition sel_mask :: "u8 \<Rightarrow> u32" where
  "sel_mask wsel =
     (if wsel AND 0x8 \<noteq> 0 then 0xff000000 else 0) OR (if wsel AND 0x4 \<noteq> 0 then 0x00ff0000 else 0)
     OR (if wsel AND 0x2 \<noteq> 0 then 0x0000ff00 else 0) OR (if wsel AND 0x1 \<noteq> 0 then 0x000000ff else 0)"

text \<open>\<^verbatim>\<open>apply\<close>; the outputs are \<open>o_ack\<close>, \<open>o_stall\<close> and \<open>o_data\<close>.\<close>

definition mem_apply :: "mreq \<Rightarrow> memsim \<Rightarrow> (bool \<times> bool \<times> u32) \<times> memsim" where
  "mem_apply r s =
     (let sel = sel_mask (wb_sel r);
          s = s\<lparr>m_head := m_head s + 1\<rparr>;
          s = s\<lparr>m_tail := (m_head s - m_delay s) AND m_delay_mask s\<rparr>;
          s = s\<lparr>m_head := m_head s AND m_delay_mask s\<rparr>;
          o_ack = m_fifo_ack s (m_tail s);
          o_data = m_fifo_data s (m_tail s);
          s = s\<lparr>m_fifo_ack := (m_fifo_ack s)(m_head s := False),
                m_fifo_data := (m_fifo_data s)(m_head s := 0)\<rparr>;
          s = (if wb_cyc r \<and> wb_stb r then
                 let i = wb_addr r AND m_mask s;
                     s = (if wb_we r then
                            if sel = 0xffffffff then s\<lparr>m_mem := (m_mem s)(i := wb_data r)\<rparr>
                            else let memv = m_mem s i; memv = memv AND NOT sel;
                                     memv = memv OR (wb_data r AND sel)
                                 in s\<lparr>m_mem := (m_mem s)(i := memv)\<rparr>
                          else s)
                 in s\<lparr>m_fifo_ack := (m_fifo_ack s)(m_head s := True),
                      m_fifo_data := (m_fifo_data s)(m_head s := m_mem s i)\<rparr>
               else s)
      in ((o_ack, False, o_data), s))"

definition mem_index :: "u32 \<Rightarrow> memsim \<Rightarrow> u32" where
  "mem_index addr s = m_mem s (addr AND m_mask s)"

section \<open>Powers of two\<close>

lemma pow2_loop_diverges:
  "2 ^ 31 < unat n \<Longrightarrow> pow2_loop fuel (2 ^ k) n = None"
proof (induction fuel arbitrary: k)
  case (Suc fuel)
  have "(2 :: nat) ^ k \<le> 2 ^ 31" if "k < 32"
    by (rule power_increasing) (use that in simp_all)
  then have "unat (2 ^ k :: u32) \<le> 2 ^ 31" by (simp add: unat_pow2_u32)
  then have "(2 ^ k :: u32) < n" using Suc.prems by (simp only: word_less_nat_alt)
  moreover have "push_bit 1 (2 ^ k :: u32) = 2 ^ Suc k" by (simp add: push_bit_eq_mult)
  ultimately show ?case using Suc by (simp only: pow2_loop.simps if_True)
qed simp

lemma pow2_loop_result:
  assumes "unat n \<le> 2 ^ 31" "k \<le> 31" "32 - k \<le> fuel" "k = 0 \<or> 2 ^ (k - 1) < unat n"
  shows "\<exists>j\<le>31. pow2_loop fuel (2 ^ k) n = Some (2 ^ j) \<and> unat n \<le> 2 ^ j \<and> (j = 0 \<or> 2 ^ (j - 1) < unat n)"
  using assms
proof (induction fuel arbitrary: k)
  case (Suc fuel)
  show ?case
  proof (cases "(2 ^ k :: u32) < n")
    case True
    then have lt: "2 ^ k < unat n" using Suc.prems(2) by (simp add: word_less_nat_alt unat_pow2_u32)
    moreover have "push_bit 1 (2 ^ k :: u32) = 2 ^ Suc k" by (simp add: push_bit_eq_mult)
    moreover have "k \<noteq> 31" using lt Suc.prems(1) by auto
    moreover have "Suc k = 0 \<or> 2 ^ (Suc k - 1) < unat n" using lt by simp
    ultimately show ?thesis
      using Suc.IH [of "Suc k"] Suc.prems True by (simp only: pow2_loop.simps if_True)
  next
    case False
    then have "unat n \<le> 2 ^ k" using Suc.prems(2) by (simp add: word_less_nat_alt unat_pow2_u32)
    then show ?thesis using False Suc.prems(2,4) by auto
  qed
qed simp


lemma pow2_from_cases:
  "(pow2_from n = None \<and> 2 ^ 31 < unat n) \<or>
   (\<exists>j\<le>31. pow2_from n = Some (2 ^ j) \<and> unat n \<le> 2 ^ j \<and> (j = 0 \<or> 2 ^ (j - 1) < unat n))"
  using pow2_loop_diverges [of n 33 0] pow2_loop_result [of n 0 33]
  unfolding pow2_from_def by fastforce

lemma pow2_from_Some:
  assumes "pow2_from n = Some m"
  shows "\<exists>j\<le>31. m = 2 ^ j \<and> unat n \<le> 2 ^ j \<and> (j = 0 \<or> 2 ^ (j - 1) < unat n) \<and> unat n \<le> 2 ^ 31"
proof -
  from pow2_from_cases [of n] assms obtain j where "j \<le> 31" "m = 2 ^ j" "unat n \<le> 2 ^ j" "j = 0 \<or> 2 ^ (j - 1) < unat n"
    by auto
  moreover have "unat n \<le> 2 ^ 31"
    using \<open>unat n \<le> 2 ^ j\<close> power_increasing [OF \<open>j \<le> 31\<close>, of "2 :: nat"] by simp
  ultimately show ?thesis by blast
qed

section \<open>The rings\<close>

text \<open>
  What the rings hold: slot \<open>head - k\<close> is the entry made \<open>k\<close> calls ago.  \<open>hist\<close> lists the entries, the
  latest first.
\<close>

definition ring :: "nat \<Rightarrow> memsim \<Rightarrow> (bool \<times> u32) list \<Rightarrow> bool" where
  "ring j s hist \<longleftrightarrow> j \<le> 31 \<and> m_delay_mask s = mask j \<and> unat (m_delay s) \<le> 2 ^ j \<and> (m_delay s = 0 \<longrightarrow> j = 0)
     \<and> (\<forall>k<2 ^ j. let i = take_bit j (m_head s - of_nat k) in
          m_fifo_ack s i = (k < length hist \<and> fst (hist ! k))
          \<and> (k < length hist \<longrightarrow> m_fifo_data s i = snd (hist ! k)))"

definition pushed :: "mreq \<Rightarrow> memsim \<Rightarrow> bool \<times> u32" where
  "pushed r s = (if wb_cyc r \<and> wb_stb r then (True, mem_index (wb_addr r) (snd (mem_apply r s))) else (False, 0))"

definition latency :: "memsim \<Rightarrow> nat" where
  "latency s = max 1 (unat (m_delay s))"

lemma take_bit_back:
  assumes "take_bit j (a - of_nat k) = take_bit j (a :: u32)" "k < 2 ^ j" "j \<le> 31"
  shows "k = 0"
proof -
  have "take_bit j (a - (a - of_nat k)) = take_bit j (take_bit j a - take_bit j (a - of_nat k))"
    by (simp only: take_bit_diff_word)
  then have "take_bit j (of_nat k :: u32) = 0" using assms(1) by simp
  then have 1: "(of_nat (take_bit j k) :: u32) = 0" by (simp only: take_bit_of_nat)
  have "take_bit j k = k" using assms(2) by (simp add: take_bit_nat_eq_self_iff)
  with 1 have "(of_nat k :: u32) = 0" by simp
  moreover have "(2 :: nat) ^ j \<le> 2 ^ 31" using assms(3) by (rule power_increasing) simp
  then have "k < 2 ^ 32" using assms(2) by simp
  ultimately show ?thesis
    by (simp add: word_of_nat_eq_0_iff) (metis gr_zeroI nat_dvd_not_less)
qed

text \<open>One call, written as an update of the head, of the slot under it, and of the memory.\<close>

lemma mem_apply_eq:
  "mem_apply r s = ((a, st, d), s') \<Longrightarrow>
     a = m_fifo_ack s ((m_head s + 1 - m_delay s) AND m_delay_mask s)
   \<and> d = m_fifo_data s ((m_head s + 1 - m_delay s) AND m_delay_mask s) \<and> \<not> st
   \<and> m_head s' = (m_head s + 1) AND m_delay_mask s \<and> m_delay s' = m_delay s
   \<and> m_tail s' = (m_head s + 1 - m_delay s) AND m_delay_mask s
   \<and> m_delay_mask s' = m_delay_mask s \<and> m_mask s' = m_mask s \<and> m_len s' = m_len s
   \<and> m_fifo_ack s' = (m_fifo_ack s)(m_head s' := fst (pushed r s))
   \<and> m_fifo_data s' = (m_fifo_data s)(m_head s' := snd (pushed r s))"
  by (auto simp: mem_apply_def Let_def pushed_def mem_index_def split: if_splits)

lemma ring_step:
  assumes ring: "ring j s hist" and ap: "mem_apply r s = ((a, st, d), s')"
  shows "a = (latency s \<le> length hist \<and> fst (hist ! (latency s - 1)))
    \<and> (latency s \<le> length hist \<longrightarrow> d = snd (hist ! (latency s - 1)))
    \<and> ring j s' (pushed r s # hist) \<and> latency s' = latency s"
proof -
  note e = mem_apply_eq [OF ap]
  have j: "j \<le> 31" and m: "m_delay_mask s = mask j" and dl: "unat (m_delay s) \<le> 2 ^ j" "m_delay s = 0 \<Longrightarrow> j = 0"
    and slots: "\<And>k. k < 2 ^ j \<Longrightarrow> m_fifo_ack s (take_bit j (m_head s - of_nat k)) = (k < length hist \<and> fst (hist ! k))
       \<and> (k < length hist \<longrightarrow> m_fifo_data s (take_bit j (m_head s - of_nat k)) = snd (hist ! k))"
    using ring by (auto simp: ring_def Let_def)
  let ?k = "latency s - 1"
  have k: "?k < 2 ^ j" using dl(1) by (auto simp: latency_def max_def)
  have "take_bit j (m_head s + 1 - m_delay s) = take_bit j (m_head s - of_nat ?k)"
  proof (cases "m_delay s = 0")
    case True
    then show ?thesis using dl(2) by simp
  next
    case False
    then have "unat (m_delay s) \<noteq> 0" by (simp add: unat_eq_0)
    then have "of_nat ?k = m_delay s - 1" by (simp add: latency_def max_def of_nat_diff)
    then have "m_head s + 1 - m_delay s = m_head s - of_nat ?k" by (simp only: diff_diff_eq2 diff_add_eq)
    then show ?thesis by (simp only:)
  qed
  then have tail: "(m_head s + 1 - m_delay s) AND m_delay_mask s = take_bit j (m_head s - of_nat ?k)"
    by (simp add: m word_and_mask_eq_take_bit)
  have head: "m_head s' = take_bit j (m_head s + 1)"
    using e by (simp add: m word_and_mask_eq_take_bit)
  have "ring j s' (pushed r s # hist)"
    unfolding ring_def Let_def
  proof (intro conjI allI impI)
    fix k :: nat assume k: "k < 2 ^ j"
    let ?i = "take_bit j (m_head s' - of_nat k)"
    have i: "?i = take_bit j (m_head s + 1 - of_nat k)"
      unfolding head by (rule take_bit_minus_left)
    have new: "(?i = m_head s') = (k = 0)"
    proof
      assume "?i = m_head s'"
      then have "take_bit j (m_head s + 1 - of_nat k) = take_bit j (m_head s + 1)" using i head by simp
      then show "k = 0" using take_bit_back k j by blast
    qed (simp add: head)
    have old: "?i = take_bit j (m_head s - of_nat (k - 1))" if "k \<noteq> 0"
      using that unfolding i by (cases k) (simp_all add: algebra_simps)
    show "m_fifo_ack s' ?i = (k < length (pushed r s # hist) \<and> fst ((pushed r s # hist) ! k))"
      using e new old slots [of "k - 1"] k by (cases "k = 0") auto
    assume "k < length (pushed r s # hist)"
    then show "m_fifo_data s' ?i = snd ((pushed r s # hist) ! k)"
      using e new old slots [of "k - 1"] k by (cases "k = 0") auto
  qed (use e j m dl in auto)
  then show ?thesis
    using e slots [OF k] unfolding tail by (auto simp: latency_def)
qed


section \<open>Runs\<close>

primrec mem_run :: "mreq list \<Rightarrow> memsim \<Rightarrow> (bool \<times> bool \<times> u32) list \<times> memsim" where
  "mem_run [] s = ([], s)"
| "mem_run (r # rs) s =
     (case mem_apply r s of (out, s') \<Rightarrow>
      case mem_run rs s' of (outs, s'') \<Rightarrow> (out # outs, s''))"

primrec entries :: "mreq list \<Rightarrow> memsim \<Rightarrow> (bool \<times> u32) list" where
  "entries [] s = []"
| "entries (r # rs) s = pushed r s # entries rs (snd (mem_apply r s))"

lemma mem_run_snd: "snd (mem_run (r # rs) s) = snd (mem_run rs (snd (mem_apply r s)))"
  by (simp split: prod.splits)

lemma entries_nth:
  "i < length rs \<Longrightarrow> entries rs s ! i = pushed (rs ! i) (snd (mem_run (take i rs) s))"
proof (induction rs arbitrary: i s)
  case (Cons r rs)
  then show ?case by (cases i) (simp_all add: mem_run_snd del: mem_run.simps(2))
qed simp

lemma mem_run_take_Suc:
  "i < length rs \<Longrightarrow> snd (mem_run (take (Suc i) rs) s) = snd (mem_apply (rs ! i) (snd (mem_run (take i rs) s)))"
proof (induction rs arbitrary: i s)
  case (Cons r rs)
  then show ?case by (cases i) (simp_all add: mem_run_snd del: mem_run.simps(2))
qed simp

lemma length_mem_run: "length (fst (mem_run rs s)) = length rs"
  by (induction rs arbitrary: s) (simp_all split: prod.splits, metis fst_conv)

lemma run_outputs:
  assumes "ring j s hist" "n < length rs" "fst (mem_run rs s) ! n = (a, st, d)"
  shows "\<not> st \<and> a = (latency s \<le> length hist + n \<and> fst ((rev hist @ entries rs s) ! (length hist + n - latency s)))
    \<and> (latency s \<le> length hist + n \<longrightarrow> d = snd ((rev hist @ entries rs s) ! (length hist + n - latency s)))"
  using assms
proof (induction rs arbitrary: s hist n)
  case (Cons r rs)
  obtain a1 st1 d1 s' where ap: "mem_apply r s = ((a1, st1, d1), s')" by (metis prod.collapse)
  note step = ring_step [OF Cons.prems(1) ap]
  have lat: "0 < latency s" by (simp add: latency_def)
  show ?case
  proof (cases n)
    case 0
    then have "(a, st, d) = (a1, st1, d1)"
      using Cons.prems(3) ap by (simp split: prod.splits)
    moreover have "(rev hist @ entries (r # rs) s) ! (length hist - latency s) = hist ! (latency s - 1)"
      if "latency s \<le> length hist"
    proof -
      have "length hist - latency s < length hist" using that lat by arith
      then show ?thesis using that lat by (simp add: nth_append rev_nth)
    qed
    ultimately show ?thesis
      using step mem_apply_eq [OF ap] 0 by auto
  next
    case (Suc m)
    have "fst (mem_run rs s') ! m = (a, st, d)"
      using Cons.prems(3) ap Suc by (simp split: prod.splits)
    moreover have "rev (pushed r s # hist) @ entries rs s' = rev hist @ entries (r # rs) s"
      by (simp add: ap)
    ultimately show ?thesis
      using Cons.IH [of s' "pushed r s # hist" m] step Cons.prems(2) Suc by (simp only: list.size) simp
  qed
qed simp

lemma memsim_init_ring:
  assumes "memsim_init mem data nwords delay = Some s"
  shows "\<exists>j. ring j s [] \<and> latency s = max 1 (unat delay)"
proof -
  from assms obtain dm where dm: "pow2_from delay = Some dm" and s: "m_delay_mask s = dm - 1" "m_delay s = delay"
    "m_fifo_ack s = (\<lambda>i. False)"
    by (auto simp: memsim_init_def split: option.splits)
  from pow2_from_cases [of delay] dm obtain j where j: "j \<le> 31" "dm = 2 ^ j" "unat delay \<le> 2 ^ j"
    "j = 0 \<or> 2 ^ (j - 1) < unat delay" by auto
  then have "ring j s []"
    using s by (auto simp: ring_def mask_eq_exp_minus_1)
  then show ?thesis using s by (auto simp: latency_def)
qed

section \<open>Properties\<close>

text \<open>
  Every strobe is acknowledged once, exactly \<open>m_delay\<close> calls later (one call later when the delay
  is 0 or 1), with the word its address held right after it was made; nothing else is acknowledged,
  and the memory never stalls.
\<close>
lemma memsim_latency:
  assumes init: "memsim_init mem data nwords delay = Some s"
    and n: "n < length rs" and out: "fst (mem_run rs s) ! n = (ack, stall, d)"
  shows "\<not> stall \<and>
    (let t = n - max 1 (unat delay) in
      ack = (max 1 (unat delay) \<le> n \<and> wb_cyc (rs ! t) \<and> wb_stb (rs ! t))
      \<and> (ack \<longrightarrow> d = mem_index (wb_addr (rs ! t)) (snd (mem_run (take (Suc t) rs) s))))"
proof -
  from memsim_init_ring [OF init] obtain j where r: "ring j s []" and l: "latency s = max 1 (unat delay)" by blast
  define t where "t = n - max 1 (unat delay)"
  have t: "t < length rs" using n by (simp add: t_def)
  have e: "entries rs s ! t = pushed (rs ! t) (snd (mem_run (take t rs) s))"
    by (rule entries_nth [OF t])
  have "\<not> stall" "ack = (max 1 (unat delay) \<le> n \<and> fst (entries rs s ! t))"
    "max 1 (unat delay) \<le> n \<longrightarrow> d = snd (entries rs s ! t)"
    using run_outputs [OF r n out] unfolding l t_def by simp_all
  then show ?thesis
    unfolding Let_def t_def [symmetric] e
    by (simp only: pushed_def mem_run_take_Suc [OF t] fst_conv split: if_splits) auto
qed

definition demo_write :: mreq where
  "demo_write = \<lparr>wb_cyc = True, wb_stb = True, wb_we = True, wb_addr = 1, wb_data = 0x11223344, wb_sel = 0xf\<rparr>"

theorem memsim_latency_witness:
  "\<exists>s. memsim_init (\<lambda>_. 0) (\<lambda>_. 0) 4 2 = Some s
    \<and> fst (mem_run [demo_write, demo_write\<lparr>wb_stb := False\<rparr>, demo_write\<lparr>wb_we := False\<rparr>] s) ! 2
      = (True, False, 0x11223344)"
proof -
  have "pow2_from 4 = Some 4" "pow2_from 2 = Some 2" by code_simp+
  then obtain s where s: "memsim_init (\<lambda>_. 0) (\<lambda>_. 0) 4 2 = Some s"
    by (simp add: memsim_init_def)
  let ?rs = "[demo_write, demo_write\<lparr>wb_stb := False\<rparr>, demo_write\<lparr>wb_we := False\<rparr>]"
  obtain a st d where o: "fst (mem_run ?rs s) ! 2 = (a, st, d)" by (metis prod.collapse)
  have "mem_index 1 (snd (mem_apply demo_write s)) = 0x11223344"
    by (simp add: mem_apply_def Let_def mem_index_def demo_write_def sel_mask_def)
  then show ?thesis
    using s o memsim_latency [OF s _ o] by (simp add: demo_write_def split: prod.splits)
qed

lemma sel_mask_bit:
  "n < 32 \<Longrightarrow> bit (sel_mask s) n = bit s (n div 8)"
proof -
  have m: "(0xff000000 :: u32) = push_bit 24 (mask 8)" "(0x00ff0000 :: u32) = push_bit 16 (mask 8)"
    "(0x0000ff00 :: u32) = push_bit 8 (mask 8)" "(0x000000ff :: u32) = push_bit 0 (mask 8)"
    by (simp_all add: mask_eq_exp_minus_1 push_bit_eq_mult)
  have b: "(s AND 0x8 \<noteq> 0) = bit s 3" "(s AND 0x4 \<noteq> 0) = bit s 2" "(s AND 0x2 \<noteq> 0) = bit s 1" "(s AND 0x1 \<noteq> 0) = bit s 0"
    using bit_and_push_bit_1 [of s 3] bit_and_push_bit_1 [of s 2] bit_and_push_bit_1 [of s 1] bit_and_push_bit_1 [of s 0]
    by (simp_all add: push_bit_eq_mult)
  assume n: "n < 32"
  then have "n div 8 = 0 \<or> n div 8 = 1 \<or> n div 8 = 2 \<or> n div 8 = 3" by presburger
  moreover have "n = 8 * (n div 8) + n mod 8" "n mod 8 < 8" by simp_all
  ultimately show ?thesis
    unfolding sel_mask_def m b by (elim disjE) (auto simp: bit_simps)
qed

text \<open>
  A write through \<^verbatim>\<open>apply\<close> changes, of the one word its masked address names, the bytes its byte
  enables select and no others; any other cycle leaves the memory alone.
\<close>
lemma memsim_write_lanes:
  "let s' = snd (mem_apply r s); i = wb_addr r AND m_mask s in
     (\<forall>a. a \<noteq> i \<or> \<not> (wb_cyc r \<and> wb_stb r \<and> wb_we r) \<longrightarrow> m_mem s' a = m_mem s a)
     \<and> (wb_cyc r \<and> wb_stb r \<and> wb_we r \<longrightarrow> (\<forall>k<4. byte_at k (m_mem s' i) =
          (if bit (wb_sel r) k then byte_at k (wb_data r) else byte_at k (m_mem s i))))"
proof -
  let ?s = "snd (mem_apply r s)" and ?i = "wb_addr r AND m_mask s" and ?w = "wb_cyc r \<and> wb_stb r \<and> wb_we r"
  have merged: "m_mem ?s = (if ?w then (m_mem s)(?i := (m_mem s ?i AND NOT (sel_mask (wb_sel r))) OR (wb_data r AND sel_mask (wb_sel r))) else m_mem s)"
  proof -
    have "(0xffffffff :: u32) = - 1" by simp
    then have "(m AND NOT (sel_mask (wb_sel r))) OR (w AND sel_mask (wb_sel r)) = w"
      if "sel_mask (wb_sel r) = 0xffffffff" for m w
      unfolding that by (simp only: bit.compl_one bit.conj_zero_right bit.conj_one_right or.left_neutral)
    then show ?thesis
      by (cases "sel_mask (wb_sel r) = 0xffffffff") (simp_all add: mem_apply_def Let_def)
  qed
  have lane: "byte_at k ((m AND NOT (sel_mask e)) OR (w AND sel_mask e)) = (if bit e k then byte_at k w else byte_at k m)"
    if "k < 4" for k m w e
  proof (rule word_eq_bits)
    fix n assume "n < LENGTH(8)"
    with that have b: "8 * k + n < 32" "(8 * k + n) div 8 = k" by auto
    then show "bit (byte_at k ((m AND NOT (sel_mask e)) OR (w AND sel_mask e))) n = bit (if bit e k then byte_at k w else byte_at k m) n"
      using sel_mask_bit [OF b(1), of e] by (simp add: bit_byte_at bit_simps)
  qed
  show ?thesis
    unfolding Let_def merged by (auto simp: lane)
qed

theorem memsim_write_lanes_witness:
  "byte_at 2 (m_mem (snd (mem_apply (demo_write\<lparr>wb_sel := 4\<rparr>) (the (memsim_init (\<lambda>_. 0) (\<lambda>_. 0) 4 2)))) 1) = 0x22"
proof -
  let ?r = "demo_write\<lparr>wb_sel := 4\<rparr>" and ?s = "the (memsim_init (\<lambda>_. 0) (\<lambda>_. 0) 4 2)"
  have p: "pow2_from 4 = Some 4" "pow2_from 2 = Some 2" by code_simp+
  have "wb_cyc ?r \<and> wb_stb ?r \<and> wb_we ?r" "wb_addr ?r AND m_mask ?s = 1" "bit (wb_sel ?r) 2"
    by (simp_all add: demo_write_def memsim_init_def p)
  then have "byte_at 2 (m_mem (snd (mem_apply ?r ?s)) 1) = byte_at 2 (wb_data ?r)"
    using memsim_write_lanes [of ?r ?s, unfolded Let_def, THEN conjunct2] by simp
  then show ?thesis by (simp add: demo_write_def byte_at_def)
qed

text \<open>
  Construction ends exactly for sizes and delays up to \<open>2 ^ 31\<close>; the memory then has the least
  power of two of words that is enough, the mask keeps every address inside it, and both ring
  indices stay inside the rings through any run.
\<close>
lemma memsim_init_sizes:
  "(memsim_init mem data nwords delay = None) = (2 ^ 31 < unat nwords \<or> 2 ^ 31 < unat delay)
   \<and> (case memsim_init mem data nwords delay of None \<Rightarrow> True
      | Some s \<Rightarrow> (\<exists>j\<le>31. unat (m_len s) = 2 ^ j \<and> unat nwords \<le> 2 ^ j \<and> (j = 0 \<or> 2 ^ (j - 1) < unat nwords))
          \<and> unat (a AND m_mask s) < unat (m_len s)
          \<and> unat (m_head (snd (mem_run rs s))) \<le> unat (m_delay_mask s)
          \<and> unat (m_tail (snd (mem_run rs s))) \<le> unat (m_delay_mask s))"
proof -
  have run: "m_head s \<le> m_delay_mask s \<and> m_tail s \<le> m_delay_mask s \<Longrightarrow>
      m_head (snd (mem_run rs s)) \<le> m_delay_mask s \<and> m_tail (snd (mem_run rs s)) \<le> m_delay_mask s" for s
  proof (induction rs arbitrary: s)
    case (Cons r rs)
    obtain a st d s' where ap: "mem_apply r s = ((a, st, d), s')" by (metis prod.collapse)
    have "m_head s' \<le> m_delay_mask s'" "m_tail s' \<le> m_delay_mask s'" "m_delay_mask s' = m_delay_mask s"
      using mem_apply_eq [OF ap] by (simp_all add: word_and_le1)
    then show ?case using Cons.IH [of s'] ap by (simp only: mem_run_snd snd_conv)
  qed simp
  show ?thesis
  proof (cases "memsim_init mem data nwords delay")
    case None
    then show ?thesis
      using pow2_from_cases [of nwords] pow2_from_cases [of delay]
      by (auto simp: memsim_init_def split: option.splits)
  next
    case (Some s)
    then obtain nxt dm where p: "pow2_from nwords = Some nxt" "pow2_from delay = Some dm"
      and s: "m_len s = nxt" "m_mask s = nxt - 1" "m_head s = 0" "m_tail s = (0 - delay) AND (dm - 1)" "m_delay_mask s = dm - 1"
      by (auto simp: memsim_init_def split: option.splits)
    obtain j where j: "j \<le> 31" "nxt = 2 ^ j" "unat nwords \<le> 2 ^ j" "j = 0 \<or> 2 ^ (j - 1) < unat nwords"
      using pow2_from_Some [OF p(1)] by blast
    have "\<not> 2 ^ 31 < unat delay" using pow2_from_Some [OF p(2)] by auto
    moreover have u: "unat (2 ^ j :: u32) = 2 ^ j" using j(1) by (simp add: unat_pow2_u32)
    moreover have "\<not> 2 ^ 31 < unat nwords"
      using pow2_from_Some [OF p(1)] by auto
    moreover have "a AND m_mask s < m_len s"
    proof -
      have "unat nxt \<noteq> 0" using u j(2) by simp
      then have "nxt \<noteq> 0" by (simp only: unat_eq_0 not_False_eq_True)
      then have "nxt - 1 < nxt" using \<open>unat nxt \<noteq> 0\<close> by (simp add: word_less_nat_alt unat_minus_one)
      then show ?thesis unfolding s using word_and_le1 [of a "nxt - 1"] by (rule le_less_trans [rotated])
    qed
    moreover have "m_head (snd (mem_run rs s)) \<le> m_delay_mask s \<and> m_tail (snd (mem_run rs s)) \<le> m_delay_mask s"
      by (rule run) (simp add: s word_and_le1)
    ultimately show ?thesis
      using Some j s by (auto simp: word_less_nat_alt word_le_nat_alt)
  qed
qed

theorem memsim_init_sizes_witness:
  "memsim_init (\<lambda>_. 0) (\<lambda>_. 0) 0x80000001 27 = None
   \<and> (\<exists>s j. memsim_init (\<lambda>_. 0) (\<lambda>_. 0) 5 27 = Some s \<and> unat (m_len s) = 2 ^ j \<and> 5 \<le> (2 :: nat) ^ j)"
  using memsim_init_sizes [where mem = "\<lambda>_. 0" and data = "\<lambda>_. 0" and nwords = "0x80000001" and delay = 27 and a = 0 and rs = "[]"]
    memsim_init_sizes [where mem = "\<lambda>_. 0" and data = "\<lambda>_. 0" and nwords = 5 and delay = 27 and a = 0 and rs = "[]"]
  by (auto split: option.splits)

end
