(* ===== verification/FlashSim.thy ===== *)
theory FlashSim
  imports Prelude
begin

text \<open>
  The SPI flash of \<^verbatim>\<open>sim/flashsim.cpp\<close>, a device driven one tick at a time by chip select, clock and
  four data lines.  \<open>flash_tick\<close> is \<^verbatim>\<open>FLASHSIM::operator()\<close>, cut where the code is: the busy timer,
  the deselected branch in which programs and erases take effect, the shift register, the command
  byte and the bytes after it.  \<open>flash_simtick\<close> is the clock generator in front of it.  Assertions,
  \<^verbatim>\<open>exit\<close> and accesses outside the arrays are faults; debug output is left out.
\<close>

section \<open>The state\<close>

datatype qspif_state =
    QSPIF_IDLE | QSPIF_QUAD_READ_IDLE | QSPIF_RDSR | QSPIF_RDCR | QSPIF_WRSR | QSPIF_CLSR | QSPIF_RDID
  | QSPIF_RELEASE | QSPIF_SLOW_READ | QSPIF_FAST_READ | QSPIF_QUAD_READ_CMD | QSPIF_QUAD_READ
  | QSPIF_SECTOR_ERASE | QSPIF_PP | QSPIF_QPP | QSPIF_BULK_ERASE | QSPIF_DEEP_POWER_DOWN
  | QSPIF_DUAL_READ_IDLE | QSPIF_DUAL_READ_CMD | QSPIF_DUAL_READ | QSPIF_INVALID

datatype flash_mode = FM_SPI | FM_DSPI | FM_QSPI

abbreviation QSPIF_WIP_FLAG :: u32 where "QSPIF_WIP_FLAG \<equiv> 0x0001"
abbreviation QSPIF_WEL_FLAG :: u32 where "QSPIF_WEL_FLAG \<equiv> 0x0002"
abbreviation QSPIF_DEEP_POWER_DOWN_FLAG :: u32 where "QSPIF_DEEP_POWER_DOWN_FLAG \<equiv> 0x0200"

record flashsim =
  m_state :: qspif_state
  m_mem :: "u32 \<Rightarrow> u8"
  m_pmem :: "u32 \<Rightarrow> u8"
  m_last_sck :: bool
  m_write_count :: u32
  m_ireg :: u32
  m_oreg :: u32
  m_sreg :: u32
  m_addr :: u32
  m_count :: u32
  m_mode_byte :: u32
  m_creg :: u32
  m_membytes :: u32
  m_memmask :: u32
  m_idle_throttle :: bool
  m_mode :: flash_mode
  m_ckdelay :: "u32 list option"

text \<open>\<^verbatim>\<open>CKDELAY\<close>, \<^verbatim>\<open>RDDELAY\<close> and \<^verbatim>\<open>NDUMMY\<close> are constants of the constructor, the times static constants
  for the default \<^verbatim>\<open>CLKRATE_HZ\<close>.\<close>

definition CKDELAY :: nat where "CKDELAY = 1"
definition NDUMMY :: u32 where "NDUMMY = 6"
definition DEVID :: u32 where "DEVID = 0x0115"
definition DEVESD :: u32 where "DEVESD = 0x014"
definition MICROSECONDS :: u32 where "MICROSECONDS = (50000000 + 1) div 1000000"
definition MILLISECONDS :: u32 where "MILLISECONDS = (50000000 + 1) div 1000"
definition SECONDS :: u32 where "SECONDS = 50000000"
definition tW :: u32 where "tW = 20 * MICROSECONDS"
definition tBE :: u32 where "tBE = 2 * SECONDS"
definition tDP :: u32 where "tDP = 10 * SECONDS"
definition tRES :: u32 where "tRES = 30 * SECONDS"
definition tPP :: u32 where "tPP = 12 * MICROSECONDS"
definition tSE :: u32 where "tSE = 15 * MILLISECONDS"

text \<open>
  The constructor.  The page buffer, \<^verbatim>\<open>m_addr\<close>, \<^verbatim>\<open>m_count\<close> and \<^verbatim>\<open>m_ckdelay\<close> are not initialised:
  arguments.
\<close>

definition flashsim_init :: "nat \<Rightarrow> (u32 \<Rightarrow> u8) \<Rightarrow> u32 \<Rightarrow> u32 \<Rightarrow> u32 list option \<Rightarrow> flashsim" where
  "flashsim_init lglen pmem addr cnt ckdelay =
     \<lparr>m_state = QSPIF_IDLE, m_mem = (\<lambda>a. 0xff), m_pmem = pmem, m_last_sck = True,
      m_write_count = 0, m_ireg = 0, m_oreg = 0, m_sreg = 0x01c, m_addr = addr, m_count = cnt,
      m_mode_byte = 0, m_creg = 0x001, m_membytes = push_bit lglen 1,
      m_memmask = push_bit lglen 1 - 1, m_idle_throttle = False, m_mode = FM_SPI,
      m_ckdelay = ckdelay\<rparr>"

section \<open>Small operations\<close>

definition write_protect :: "flashsim \<Rightarrow> bool" where
  "write_protect s \<longleftrightarrow> m_sreg s AND QSPIF_WEL_FLAG = 0"

definition write_in_progress :: "flashsim \<Rightarrow> bool" where
  "write_in_progress s \<longleftrightarrow> m_sreg s OR QSPIF_WIP_FLAG \<noteq> 0"

definition xip_mode :: "flashsim \<Rightarrow> bool" where
  "xip_mode s \<longleftrightarrow> m_state s = QSPIF_QUAD_READ_IDLE"

definition deep_sleep :: "flashsim \<Rightarrow> bool" where
  "deep_sleep s \<longleftrightarrow> m_sreg s AND QSPIF_DEEP_POWER_DOWN_FLAG \<noteq> 0"

definition set_deep_sleep :: "bool \<Rightarrow> flashsim \<Rightarrow> bool \<times> flashsim" where
  "set_deep_sleep newval s =
     (let s = (if newval then s\<lparr>m_sreg := m_sreg s OR QSPIF_DEEP_POWER_DOWN_FLAG\<rparr>
               else s\<lparr>m_sreg := m_sreg s AND NOT QSPIF_DEEP_POWER_DOWN_FLAG\<rparr>)
      in (deep_sleep s, s))"

definition dual_mode :: "flashsim \<Rightarrow> bool" where
  "dual_mode s \<longleftrightarrow> m_mode s = FM_DSPI"

definition quad_mode :: "flashsim \<Rightarrow> bool" where
  "quad_mode s \<longleftrightarrow> m_mode s = FM_QSPI"

text \<open>\<^verbatim>\<open>operator[]\<close> and \<^verbatim>\<open>set\<close>: a big-endian word.\<close>

definition flash_word :: "flashsim \<Rightarrow> u32 \<Rightarrow> u32 option" where
  "flash_word s index =
     (let p = push_bit 2 index in
      if unat p + 4 \<le> unat (m_membytes s) then
        let v = ucast (m_mem s p);
            v = push_bit 8 v OR ucast (m_mem s (p + 1));
            v = push_bit 8 v OR ucast (m_mem s (p + 2))
        in Some (push_bit 8 v OR ucast (m_mem s (p + 3)))
      else None)"

definition flash_set :: "u32 \<Rightarrow> u32 \<Rightarrow> flashsim \<Rightarrow> flashsim option" where
  "flash_set addr val s =
     (let p = push_bit 2 addr in
      if unat p + 4 \<le> unat (m_membytes s) then
        Some (s\<lparr>m_mem := (m_mem s)(p := ucast (drop_bit 24 val), p + 1 := ucast (drop_bit 16 val),
                    p + 2 := ucast (drop_bit 8 val), p + 3 := ucast val)\<rparr>)
      else None)"

text \<open>
  \<^verbatim>\<open>load(addr, fname)\<close>: the file (\<open>None\<close>: not opened) goes to \<open>addr\<close> on; the loop after it then sets
  every byte from \<open>nr\<close>, the count of bytes read, to the end.
\<close>

definition load_file :: "u32 \<Rightarrow> u8 list option \<Rightarrow> flashsim \<Rightarrow> flashsim" where
  "load_file addr file s =
     (if addr \<ge> m_membytes s then s
      else
        let len = unat (m_membytes s - addr);
            bytes = (case file of None \<Rightarrow> [] | Some bs \<Rightarrow> take len bs);
            nr = length bytes;
            mem = (\<lambda>a. if addr \<le> a \<and> unat (a - addr) < nr then bytes ! unat (a - addr) else m_mem s a)
        in s\<lparr>m_mem := (\<lambda>a. if of_nat nr \<le> a \<and> a < m_membytes s then 0xff else mem a)\<rparr>)"

definition load_data :: "u32 \<Rightarrow> u8 list \<Rightarrow> flashsim \<Rightarrow> flashsim option" where
  "load_data offset data s =
     (let moff = offset AND m_memmask s
      in if unat moff + length data \<le> unat (m_membytes s) then
           Some (s\<lparr>m_mem := (\<lambda>a. if moff \<le> a \<and> unat (a - moff) < length data
                               then data ! unat (a - moff) else m_mem s a)\<rparr>)
         else None)"

definition qoreg :: "u32 \<Rightarrow> flashsim \<Rightarrow> flashsim" where
  "qoreg a s = s\<lparr>m_oreg := (m_oreg s AND NOT 0x0ff) OR (a AND 0x0ff)\<rparr>"

text \<open>\<^verbatim>\<open>QOREG(m_mem[m_addr++])\<close>, and \<^verbatim>\<open>m_addr = m_ireg & m_memmask\<close> with the assertion after it.\<close>

definition read_next :: "flashsim \<Rightarrow> fault + flashsim" where
  "read_next s =
     (if m_addr s < m_membytes s then
        Inr (qoreg (ucast (m_mem s (m_addr s))) (s\<lparr>m_addr := m_addr s + 1\<rparr>))
      else Inl Undefined)"

definition set_addr :: "flashsim \<Rightarrow> fault + flashsim" where
  "set_addr s =
     (let s = s\<lparr>m_addr := m_ireg s AND m_memmask s\<rparr>
      in if m_addr s AND NOT (m_memmask s) = 0 then Inr s else Inl Assertion)"

section \<open>The timer and the deselected chip\<close>

definition flash_timer :: "flashsim \<Rightarrow> flashsim" where
  "flash_timer s =
     (if m_write_count s > 0 then
        let s = s\<lparr>m_write_count := m_write_count s - 1\<rparr>
        in if m_write_count s = 0 then s\<lparr>m_sreg := m_sreg s AND 0x0fc\<rparr> else s
      else s)"

definition begin_write :: "u32 \<Rightarrow> flashsim \<Rightarrow> flashsim" where
  "begin_write t s =
     s\<lparr>m_write_count := t, m_state := QSPIF_IDLE,
       m_sreg := (m_sreg s AND NOT QSPIF_WEL_FLAG) OR QSPIF_WIP_FLAG\<rparr>"

definition xip_or_spi :: "qspif_state \<Rightarrow> flashsim \<Rightarrow> flashsim" where
  "xip_or_spi idle s =
     (if m_mode_byte s AND 0x0f0 \<noteq> 0x0a0 then s\<lparr>m_mode := FM_SPI\<rparr> else s\<lparr>m_state := idle\<rparr>)"

definition program_page :: "flashsim \<Rightarrow> fault + flashsim" where
  "program_page s =
     (let s = begin_write tPP s; page = m_addr s AND NOT 0x0ff
      in if unat page + 256 \<le> unat (m_membytes s) then
           Inr (s\<lparr>m_mem := (\<lambda>a. if a AND NOT 0x0ff = page then m_mem s a AND m_pmem s (a AND 0x0ff) else m_mem s a),
                  m_mode := FM_SPI\<rparr>)
         else Inl Undefined)"

definition flash_deselect :: "flashsim \<Rightarrow> fault + flashsim" where
  "flash_deselect s =
     (let s = s\<lparr>m_last_sck := True, m_ireg := 0, m_oreg := 0, m_count := 0\<rparr>;
          r = (case m_state s of
                 QSPIF_PP \<Rightarrow> program_page s
               | QSPIF_QPP \<Rightarrow> program_page s
               | QSPIF_SECTOR_ERASE \<Rightarrow>
                   let s = begin_write tSE s; s = s\<lparr>m_addr := m_addr s AND (- 0x10000)\<rparr>
                   in if unat (m_addr s) + 0x10000 \<le> unat (m_membytes s) then
                        Inr (s\<lparr>m_mem := (\<lambda>a. if a AND (- 0x10000) = m_addr s then 0xff else m_mem s a)\<rparr>)
                      else Inl Undefined
               | QSPIF_WRSR \<Rightarrow> Inr (begin_write tW s)
               | QSPIF_CLSR \<Rightarrow> Inr (s\<lparr>m_state := QSPIF_IDLE, m_sreg := m_sreg s AND 0x09f\<rparr>)
               | QSPIF_BULK_ERASE \<Rightarrow>
                   let s = begin_write tBE s
                   in Inr (s\<lparr>m_mem := (\<lambda>a. if a < m_membytes s then 0xff else m_mem s a)\<rparr>)
               | QSPIF_DEEP_POWER_DOWN \<Rightarrow> Inr (s\<lparr>m_write_count := tDP, m_state := QSPIF_IDLE\<rparr>)
               | QSPIF_RELEASE \<Rightarrow> Inr (s\<lparr>m_write_count := tRES, m_state := QSPIF_IDLE\<rparr>)
               | QSPIF_QUAD_READ_CMD \<Rightarrow> Inr (xip_or_spi QSPIF_QUAD_READ_IDLE s)
               | QSPIF_DUAL_READ_CMD \<Rightarrow> Inr (xip_or_spi QSPIF_DUAL_READ_IDLE s)
               | QSPIF_QUAD_READ \<Rightarrow> Inr (xip_or_spi QSPIF_QUAD_READ_IDLE s)
               | QSPIF_DUAL_READ \<Rightarrow> Inr (xip_or_spi QSPIF_DUAL_READ_IDLE s)
               | _ \<Rightarrow> Inr s)
      in map_sum id (\<lambda>s. s\<lparr>m_oreg := 0x0fe\<rparr>) r)"

section \<open>The shift register\<close>

definition flash_out :: "u32 \<Rightarrow> flashsim \<Rightarrow> u32" where
  "flash_out dat s =
     (case m_mode s of
        FM_QSPI \<Rightarrow> drop_bit 8 (m_oreg s) AND 0x0f
      | FM_DSPI \<Rightarrow> (drop_bit 8 (m_oreg s) AND 0x03) OR (dat AND 0x0c)
      | FM_SPI \<Rightarrow> (if m_oreg s AND 0x0100 \<noteq> 0 then 2 else 0) OR (dat AND 0x0d))"

definition flash_shift :: "u32 \<Rightarrow> flashsim \<Rightarrow> flashsim" where
  "flash_shift dat s =
     (case m_mode s of
        FM_QSPI \<Rightarrow> s\<lparr>m_ireg := push_bit 4 (m_ireg s) OR (dat AND 0x0f), m_count := m_count s + 4,
                     m_oreg := push_bit 4 (m_oreg s)\<rparr>
      | FM_DSPI \<Rightarrow> s\<lparr>m_ireg := push_bit 2 (m_ireg s) OR (dat AND 0x03), m_count := m_count s + 2,
                     m_oreg := push_bit 2 (m_oreg s)\<rparr>
      | FM_SPI \<Rightarrow> s\<lparr>m_ireg := push_bit 1 (m_ireg s) OR (dat AND 1), m_count := m_count s + 1,
                    m_oreg := push_bit 1 (m_oreg s)\<rparr>)"

text \<open>Continuing a quad or dual read without a command byte.\<close>

definition flash_xip :: "bool \<Rightarrow> qspif_state \<Rightarrow> flashsim \<Rightarrow> fault + flashsim" where
  "flash_xip in_mode reading s =
     (if m_sreg s AND QSPIF_DEEP_POWER_DOWN_FLAG \<noteq> 0 \<or> \<not> in_mode then Inl Assertion
      else if m_count s = 24 then
        map_sum id (\<lambda>s. s\<lparr>m_state := reading, m_oreg := 0\<rparr>) (set_addr s)
      else Inr (s\<lparr>m_oreg := 0\<rparr>))"

section \<open>The command byte\<close>

definition flash_command :: "flashsim \<Rightarrow> fault + flashsim" where
  "flash_command s =
     (let s = qoreg 0x0a5 s;
          cmd = m_ireg s AND 0x0ff;
          if_wel = (\<lambda>st. if m_sreg s AND 0x203 \<noteq> 2 then s\<lparr>m_state := QSPIF_INVALID\<rparr> else s\<lparr>m_state := st\<rparr>)
      in if m_sreg s AND QSPIF_DEEP_POWER_DOWN_FLAG \<noteq> 0 \<and> cmd \<noteq> 0xab then Inr s
         else if cmd = 0x01 then Inr (if_wel QSPIF_WRSR)
         else if cmd = 0x02 then Inr (if_wel QSPIF_PP)
         else if cmd = 0x03 then Inr (s\<lparr>m_state := QSPIF_SLOW_READ\<rparr>)
         else if cmd = 0x04 then
           Inr (s\<lparr>m_state := QSPIF_IDLE, m_sreg := m_sreg s AND NOT QSPIF_WEL_FLAG\<rparr>)
         else if cmd = 0x05 then Inr (qoreg (m_sreg s) (s\<lparr>m_state := QSPIF_RDSR\<rparr>))
         else if cmd = 0x06 then Inr (s\<lparr>m_state := QSPIF_IDLE, m_sreg := m_sreg s OR QSPIF_WEL_FLAG\<rparr>)
         else if cmd = 0x0b then Inr (s\<lparr>m_state := QSPIF_FAST_READ\<rparr>)
         else if cmd = 0x30 then Inr (s\<lparr>m_state := QSPIF_CLSR\<rparr>)
         else if cmd = 0x32 then Inr (if_wel QSPIF_QPP)
         else if cmd = 0x35 then Inr (qoreg (m_creg s) (s\<lparr>m_state := QSPIF_RDCR\<rparr>))
         else if cmd = 0x50 then Inr (qoreg 0 (s\<lparr>m_state := QSPIF_IDLE\<rparr>))
         else if cmd = 0x70 then Inr (qoreg 0 (s\<lparr>m_state := QSPIF_IDLE\<rparr>))
         else if cmd = 0x81 then Inr (qoreg 0 s)
         else if cmd = 0x9f then
           Inr (qoreg (drop_bit 24 DEVID AND 0x0ff) (s\<lparr>m_state := QSPIF_RDID\<rparr>))
         else if cmd = 0xab then
           Inr ((if m_sreg s AND QSPIF_DEEP_POWER_DOWN_FLAG \<noteq> 0 then
                   s\<lparr>m_sreg := m_sreg s AND NOT QSPIF_DEEP_POWER_DOWN_FLAG, m_write_count := tRES\<rparr>
                 else s)\<lparr>m_state := QSPIF_RELEASE\<rparr>)
         else if cmd = 0xb9 then
           Inr (if m_sreg s AND 0x01 \<noteq> 0 then s\<lparr>m_state := QSPIF_INVALID\<rparr>
                else s\<lparr>m_sreg := m_sreg s OR QSPIF_DEEP_POWER_DOWN_FLAG, m_state := QSPIF_IDLE\<rparr>)
         else if cmd = 0xbb then Inr (s\<lparr>m_state := QSPIF_DUAL_READ_CMD, m_mode := FM_DSPI\<rparr>)
         else if cmd = 0xc7 then Inr (if_wel QSPIF_BULK_ERASE)
         else if cmd = 0xd8 then Inr (if_wel QSPIF_SECTOR_ERASE)
         else if cmd = 0xeb then Inr (s\<lparr>m_state := QSPIF_QUAD_READ_CMD, m_mode := FM_QSPI\<rparr>)
         else if cmd = 0x00 \<or> cmd = 0xff then Inr (s\<lparr>m_state := QSPIF_IDLE, m_mode := FM_SPI\<rparr>)
         else Inl Assertion)"

section \<open>The bytes after it\<close>

text \<open>Page programming: the address, then bytes into the page buffer, wrapping in the page.\<close>

definition page_byte :: "flash_mode \<Rightarrow> flashsim \<Rightarrow> fault + flashsim" where
  "page_byte mode s =
     (if m_count s = 32 then
        map_sum id (\<lambda>s. s\<lparr>m_pmem := (\<lambda>i. if i < 256 then 0xff else m_pmem s i), m_mode := mode\<rparr>) (set_addr s)
      else if m_count s \<ge> 40 then
        Inr (s\<lparr>m_pmem := (m_pmem s)(m_addr s AND 0x0ff := ucast (m_ireg s AND 0x0ff)),
               m_addr := (m_addr s AND NOT 0x0ff) OR ((m_addr s + 1) AND 0x0ff)\<rparr>)
      else Inr s)"

definition read_byte :: "flashsim \<Rightarrow> fault + flashsim" where
  "read_byte s =
     (let ready = m_sreg s AND 0x01 = 0; quiet = s\<lparr>m_oreg := 0\<rparr>; ireg8 = m_ireg s AND 0x0ff in
      case m_state s of
        QSPIF_SLOW_READ \<Rightarrow>
          if m_count s = 32 then (case set_addr s of Inl e \<Rightarrow> Inl e | Inr s \<Rightarrow> read_next s)
          else if m_count s \<ge> 40 \<and> ready then read_next s else Inr quiet
      | QSPIF_FAST_READ \<Rightarrow>
          if m_count s = 32 then set_addr (qoreg 0x0c3 s)
          else if m_count s \<ge> 40 \<and> ready then read_next s else Inr quiet
      | QSPIF_DUAL_READ_CMD \<Rightarrow>
          if m_count s = 32 then set_addr s
          else if m_count s = 32 + 8 \<and> ready then read_next (s\<lparr>m_mode_byte := ireg8\<rparr>)
          else if m_count s > 32 + 8 \<and> ready then read_next s else Inr quiet
      | QSPIF_QUAD_READ_CMD \<Rightarrow>
          if m_count s = 32 then set_addr s
          else if m_count s = 32 + 8 then Inr (s\<lparr>m_mode_byte := ireg8\<rparr>)
          else if m_count s > 32 + 8 + NDUMMY \<and> ready then read_next s else Inr quiet
      | QSPIF_DUAL_READ \<Rightarrow>
          read_next (if m_count s = 32 then s\<lparr>m_mode_byte := ireg8\<rparr> else s)
      | QSPIF_QUAD_READ \<Rightarrow>
          if m_count s = 24 + 4 * 2 then Inr (s\<lparr>m_mode_byte := ireg8\<rparr>)
          else if m_count s \<ge> 24 + 4 * NDUMMY \<and> ready then read_next s else Inr quiet
      | _ \<Rightarrow> Inr s)"

definition flash_data :: "flashsim \<Rightarrow> fault + flashsim" where
  "flash_data s =
     (let s = qoreg 0 s;
          s = (if m_idle_throttle s \<and> m_state s \<noteq> QSPIF_IDLE then s\<lparr>m_idle_throttle := False\<rparr> else s)
      in case m_state s of
           QSPIF_IDLE \<Rightarrow> Inr (s\<lparr>m_idle_throttle := True\<rparr>)
         | QSPIF_WRSR \<Rightarrow>
             if m_count s = 16 then Inr (s\<lparr>m_sreg := (m_sreg s AND 0x061) OR (m_ireg s AND 0x09c)\<rparr>)
             else if m_count s = 24 then Inr (s\<lparr>m_creg := (m_creg s AND 0x0fd) OR (m_ireg s AND 0x02)\<rparr>)
             else Inl Exited
         | QSPIF_CLSR \<Rightarrow> Inl Assertion
         | QSPIF_RDID \<Rightarrow>
             if m_count s \<le> 32 then Inr (qoreg (drop_bit (32 - unat (m_count s)) DEVID) s)
             else Inl Undefined
         | QSPIF_RDSR \<Rightarrow> Inr (qoreg (m_sreg s) s)
         | QSPIF_RDCR \<Rightarrow> Inr (qoreg (m_creg s) s)
         | QSPIF_PP \<Rightarrow> page_byte (m_mode s) s
         | QSPIF_QPP \<Rightarrow> page_byte FM_QSPI s
         | QSPIF_SECTOR_ERASE \<Rightarrow>
             if m_count s = 32 then
               let s = s\<lparr>m_addr := m_ireg s AND 0x0ffc000\<rparr>
               in if m_addr s AND 0xfc00000 = 0 then Inr s else Inl Assertion
             else Inr s
         | QSPIF_RELEASE \<Rightarrow> Inr (if m_count s \<ge> 32 then qoreg DEVESD s else s)
         | _ \<Rightarrow> read_byte s)"

section \<open>One tick\<close>

definition flash_byte :: "flashsim \<Rightarrow> fault + flashsim" where
  "flash_byte s =
     (if m_state s = QSPIF_QUAD_READ_IDLE then flash_xip (quad_mode s) QSPIF_QUAD_READ s
      else if m_state s = QSPIF_DUAL_READ_IDLE then flash_xip (dual_mode s) QSPIF_DUAL_READ s
      else if m_count s = 8 then flash_command s
      else if m_count s AND 0x07 = 0 \<and> m_count s \<noteq> 0 then flash_data s
      else Inr s)"

definition flash_tick :: "bool \<Rightarrow> bool \<Rightarrow> u32 \<Rightarrow> flashsim \<Rightarrow> fault + (u32 \<times> flashsim)" where
  "flash_tick csn sck dat s =
     (let s = flash_timer s in
      if csn then map_sum id (\<lambda>s. (dat, s)) (flash_deselect s)
      else if \<not> m_last_sck s \<or> sck = m_last_sck s then
        let s = s\<lparr>m_last_sck := sck\<rparr> in Inr (flash_out dat s, s)
      else
        map_sum id (\<lambda>s. let s = s\<lparr>m_last_sck := sck\<rparr> in (flash_out dat s, s))
          (flash_byte (flash_shift dat s)))"

text \<open>
  \<^verbatim>\<open>simtick\<close>: the clock delayed by \<^verbatim>\<open>CKDELAY\<close>, doubled, and the data lines as the bus mode leaves
  them (\<^verbatim>\<open>RDDELAY\<close> is 0).  The delay line is allocated on first use.
\<close>

definition ck_delay :: "u32 \<Rightarrow> u32 list \<Rightarrow> u32 list" where
  "ck_delay sck ck =
     (foldl (\<lambda>ck i. ck[i := ck ! (i + 1) AND 1]) ck [0..<CKDELAY - 1])[CKDELAY - 1 := sck AND 1]"

definition line_mode :: "nat \<Rightarrow> u32 \<Rightarrow> u32 \<Rightarrow> u32" where
  "line_mode lines dat r =
     (if lines = 0 \<or> lines = 1 then (r AND 2) OR (dat AND 1) OR 0x0c
      else if lines = 2 then dat
      else if lines = 3 then r
      else if lines = 4 then (dat AND 3) OR 0x0c
      else if lines = 5 then (r AND 3) OR 0x0c
      else r)"

definition flash_simtick :: "bool \<Rightarrow> u32 \<Rightarrow> u32 \<Rightarrow> nat \<Rightarrow> flashsim \<Rightarrow> fault + (u32 \<times> flashsim)" where
  "flash_simtick csn sck dat lines s =
     (let ck = (case m_ckdelay s of None \<Rightarrow> replicate (CKDELAY + 8) 0 | Some ck \<Rightarrow> ck);
          lclsck = ck ! 0;
          s = s\<lparr>m_ckdelay := Some (ck_delay sck ck)\<rparr>
      in case flash_tick csn (lclsck = 0) dat s of
           Inl e \<Rightarrow> Inl e
         | Inr (r, s) \<Rightarrow>
             (case flash_tick csn True dat s of
                Inl e \<Rightarrow> Inl e
              | Inr (r, s) \<Rightarrow> Inr (line_mode lines dat r, s)))"

section \<open>Runs of ticks\<close>

type_synonym pins = "bool \<times> bool \<times> u32"

fun flash_run :: "pins list \<Rightarrow> flashsim \<Rightarrow> fault + flashsim" where
  "flash_run [] s = Inr s"
| "flash_run ((csn, sck, dat) # ts) s =
     (case flash_tick csn sck dat s of Inl e \<Rightarrow> Inl e | Inr (r, s') \<Rightarrow> flash_run ts s')"

lemma flash_run_append:
  "flash_run (ts @ us) s = (case flash_run ts s of Inl e \<Rightarrow> Inl e | Inr s' \<Rightarrow> flash_run us s')"
  by (induction ts s rule: flash_run.induct) (auto split: sum.splits prod.splits)

section \<open>Write protection\<close>

lemma wel_bit: "write_protect s = (\<not> bit (m_sreg s) 1)"
  using bit_and_push_bit_1 [of "m_sreg s" 1] by (auto simp: write_protect_def push_bit_eq_mult)

lemma wel_needed: "\<not> bit w 1 \<Longrightarrow> w AND 0x203 \<noteq> (2 :: u32)"
proof
  assume "\<not> bit w 1" "w AND 0x203 = 2"
  then have "bit (2 :: u32) 1 = (bit w 1 \<and> bit (0x203 :: u32) 1)" by (metis bit_and_iff)
  then show False using \<open>\<not> bit w 1\<close> by (simp add: bit_numeral_rec)
qed

definition writing :: "flashsim \<Rightarrow> bool" where
  "writing s \<longleftrightarrow> m_state s \<in> {QSPIF_PP, QSPIF_QPP, QSPIF_SECTOR_ERASE, QSPIF_BULK_ERASE}"

text \<open>The tick that takes in the last bit of the write enable command.\<close>

definition wren_tick :: "pins \<Rightarrow> flashsim \<Rightarrow> bool" where
  "wren_tick t s = (case t of (csn, sck, dat) \<Rightarrow>
     \<not> csn \<and> m_last_sck s \<and> \<not> sck \<and> m_state s \<notin> {QSPIF_QUAD_READ_IDLE, QSPIF_DUAL_READ_IDLE}
     \<and> m_count (flash_shift dat s) = 8 \<and> m_ireg (flash_shift dat s) AND 0x0ff = 0x06)"

text \<open>\<open>guarded s s'\<close>: the memory is as it was, and still protected.\<close>

definition guarded :: "flashsim \<Rightarrow> flashsim \<Rightarrow> bool" where
  "guarded s s' \<longleftrightarrow> m_mem s' = m_mem s \<and> write_protect s' \<and> \<not> writing s'"

lemma guarded_timer: "write_protect s \<Longrightarrow> \<not> writing s \<Longrightarrow> guarded s (flash_timer s)"
  by (auto simp: guarded_def flash_timer_def wel_bit writing_def Let_def bit_simps)

lemma guarded_shift: "write_protect s \<Longrightarrow> \<not> writing s \<Longrightarrow> guarded s (flash_shift dat s)"
  by (auto simp: guarded_def flash_shift_def wel_bit writing_def split: flash_mode.splits)

lemma guarded_qoreg [simp]:
  "guarded s (qoreg a s') = guarded s s'" "m_state (qoreg a s) = m_state s" "m_sreg (qoreg a s) = m_sreg s"
  "m_mem (qoreg a s) = m_mem s" "m_ireg (qoreg a s) = m_ireg s" "m_count (qoreg a s) = m_count s"
  by (auto simp: guarded_def qoreg_def wel_bit writing_def)

lemma guarded_deselect:
  "write_protect s \<Longrightarrow> \<not> writing s \<Longrightarrow> flash_deselect s = Inr s' \<Longrightarrow> guarded s s'"
  by (cases "m_state s")
    (auto simp: flash_deselect_def Let_def guarded_def writing_def wel_bit begin_write_def xip_or_spi_def
      bit_simps split: if_splits)

lemma guarded_command:
  assumes "write_protect s" "\<not> writing s" "m_ireg s AND 0x0ff \<noteq> 0x06" "flash_command s = Inr s'"
  shows "guarded s s'"
proof -
  have "m_sreg s AND 0x203 \<noteq> 2" using assms(1) wel_needed by (simp add: wel_bit)
  then show ?thesis
    using assms
    by (auto simp: flash_command_def Let_def guarded_def writing_def wel_bit bit_simps split: if_splits)
qed

lemma guarded_read_next: "read_next s' = Inr s'' \<Longrightarrow> guarded s s' \<Longrightarrow> guarded s s''"
  by (auto simp: read_next_def guarded_def qoreg_def wel_bit writing_def split: if_splits)

lemma guarded_set_addr: "set_addr s' = Inr s'' \<Longrightarrow> guarded s s' \<Longrightarrow> guarded s s''"
  by (auto simp: set_addr_def guarded_def wel_bit writing_def Let_def split: if_splits)

lemma guarded_keep [simp]:
  "guarded s (s'\<lparr>m_oreg := x\<rparr>) = guarded s s'" "guarded s (s'\<lparr>m_mode_byte := x\<rparr>) = guarded s s'"
  "guarded s (s'\<lparr>m_idle_throttle := b\<rparr>) = guarded s s'" "guarded s (s'\<lparr>m_creg := x\<rparr>) = guarded s s'"
  "guarded s (s'\<lparr>m_last_sck := b\<rparr>) = guarded s s'" "guarded s (s'\<lparr>m_addr := x\<rparr>) = guarded s s'"
  by (auto simp: guarded_def wel_bit writing_def)

lemma guarded_state: "guarded s s' \<Longrightarrow> m_state s' \<notin> {QSPIF_PP, QSPIF_QPP, QSPIF_SECTOR_ERASE, QSPIF_BULK_ERASE}"
  by (auto simp: guarded_def writing_def)

lemma guarded_read_byte:
  assumes "guarded s s'" "read_byte s' = Inr s''"
  shows "guarded s s''"
  using assms
  by (cases "m_state s'")
    (auto simp: read_byte_def Let_def split: if_splits sum.splits
      dest!: guarded_read_next guarded_set_addr)

lemma guarded_data:
  assumes "guarded s s'" "flash_data s' = Inr s''"
  shows "guarded s s''"
proof (cases "m_state s' = QSPIF_WRSR")
  case True
  then show ?thesis
    using assms
    by (auto simp: flash_data_def Let_def guarded_def qoreg_def wel_bit writing_def bit_simps split: if_splits)
next
  case False
  then show ?thesis
    using assms guarded_state [OF assms(1)]
    by (cases "m_state s'") (auto simp: flash_data_def Let_def split: if_splits intro: guarded_read_byte [of s "qoreg 0 s'"] guarded_read_byte [of s "qoreg 0 s'\<lparr>m_idle_throttle := False\<rparr>"])
qed

lemma guarded_xip: "flash_xip b st s' = Inr s'' \<Longrightarrow> guarded s s' \<Longrightarrow>
    st \<in> {QSPIF_QUAD_READ, QSPIF_DUAL_READ} \<Longrightarrow> guarded s s''"
  by (auto simp: flash_xip_def set_addr_def Let_def guarded_def wel_bit writing_def split: if_splits)

lemma guarded_tick:
  assumes "write_protect s" "\<not> writing s" "\<not> wren_tick (csn, sck, dat) s" "flash_tick csn sck dat s = Inr (r, s')"
  shows "guarded s s'"
proof -
  let ?t = "flash_timer s"
  have t: "write_protect ?t" "\<not> writing ?t" "m_mem ?t = m_mem s" using guarded_timer [OF assms(1,2)] by (auto simp: guarded_def)
  have same: "m_state ?t = m_state s" "m_last_sck ?t = m_last_sck s" "m_mode ?t = m_mode s" "m_ireg ?t = m_ireg s" "m_count ?t = m_count s"
    by (simp_all add: flash_timer_def Let_def)
  have sh: "m_count (flash_shift dat ?t) = m_count (flash_shift dat s)" "m_ireg (flash_shift dat ?t) = m_ireg (flash_shift dat s)"
    "m_state (flash_shift dat ?t) = m_state s"
    by (auto simp: flash_shift_def same split: flash_mode.splits)
  let ?h = "flash_shift dat ?t"
  have h: "guarded s ?h" "write_protect ?h" "\<not> writing ?h"
    using guarded_shift [OF t(1,2), of dat] t(3) by (auto simp: guarded_def)
  show ?thesis
  proof (cases csn)
    case True
    then show ?thesis
      using assms(4) guarded_deselect [OF t(1,2)] t(3) by (auto simp: flash_tick_def Let_def guarded_def map_sum_def split: sum.splits)
  next
    case False
    show ?thesis
    proof (cases "\<not> m_last_sck ?t \<or> sck = m_last_sck ?t")
      case True
      then show ?thesis
        using False assms(4) t by (auto simp: flash_tick_def Let_def guarded_def wel_bit writing_def)
    next
      case edge: False
      then obtain s2 where s2: "flash_byte ?h = Inr s2" "s' = s2\<lparr>m_last_sck := sck\<rparr>"
        using False assms(4) by (auto simp: flash_tick_def Let_def map_sum_def split: sum.splits)
      have "guarded s s2"
        using s2(1) h assms(3) False edge same sh guarded_xip [OF _ h(1)] guarded_data [OF h(1)] guarded_command [OF h(2,3)]
        by (auto simp: flash_byte_def wren_tick_def guarded_def split: if_splits)
      then show ?thesis using s2(2) by simp
    qed
  qed
qed

end
