(* ===== verification/FlashSpec.thy ===== *)
theory FlashSpec
  imports FlashSim
begin

text \<open>
  What the flash promises, over whole transactions: chip select goes low, bytes are shifted in one
  clock at a time, chip select goes high.  Writes need a write enable, programming clears bits inside
  one page, erasing fills exactly one sector, and a busy device refuses both.
\<close>

section \<open>Write protection\<close>

text \<open>
  C6: the memory of a write-protected flash never changes before a write enable command.  If a run of
  the pins leaves any byte different, then somewhere along it a tick completed command 06.
\<close>
theorem write_needs_wren:
  assumes "write_protect s" "\<not> writing s" "flash_run ts s = Inr s'" "m_mem s' \<noteq> m_mem s"
  shows "\<exists>i s1. i < length ts \<and> flash_run (take i ts) s = Inr s1 \<and> wren_tick (ts ! i) s1"
  using assms
proof (induction ts arbitrary: s)
  case (Cons t ts)
  obtain csn sck dat where t: "t = (csn, sck, dat)" by (cases t)
  with Cons.prems obtain r s1 where tick: "flash_tick csn sck dat s = Inr (r, s1)" and run: "flash_run ts s1 = Inr s'"
    by (auto split: sum.splits prod.splits)
  show ?case
  proof (cases "wren_tick t s")
    case True
    then show ?thesis by (intro exI [of _ 0]) simp
  next
    case False
    then have g: "guarded s s1" using guarded_tick tick t Cons.prems by blast
    then obtain i s2 where "i < length ts" "flash_run (take i ts) s1 = Inr s2" "wren_tick (ts ! i) s2"
      using Cons.IH [of s1] run Cons.prems by (auto simp: guarded_def)
    then show ?thesis by (intro exI [of _ "Suc i"]) (simp add: t tick)
  qed
qed simp

section \<open>Shifting a byte in\<close>

text \<open>One bit of the serial mode is a falling and a rising clock edge with the data line steady.\<close>

definition spi_bit :: "bool \<Rightarrow> pins list" where
  "spi_bit d = [(False, False, of_bool d), (False, True, of_bool d)]"

definition byte_bits :: "u8 \<Rightarrow> bool list" where
  "byte_bits b = map (bit b) [7, 6, 5, 4, 3, 2, 1, 0]"

definition spi_byte :: "u8 \<Rightarrow> pins list" where
  "spi_byte b = concat (map spi_bit (byte_bits b))"

definition deselect :: "pins list" where
  "deselect = [(True, True, 0)]"

definition transaction :: "u8 list \<Rightarrow> pins list" where
  "transaction bs = concat (map spi_byte bs) @ deselect"

text \<open>A serial transfer under way with nothing else going on: no timer, no resumed read.\<close>

definition spi_quiet :: "flashsim \<Rightarrow> bool" where
  "spi_quiet s \<longleftrightarrow> m_mode s = FM_SPI \<and> m_last_sck s \<and> m_write_count s = 0
     \<and> m_state s \<notin> {QSPIF_QUAD_READ_IDLE, QSPIF_DUAL_READ_IDLE}"

definition shift_in :: "bool \<Rightarrow> u32 \<Rightarrow> u32" where
  "shift_in d w = push_bit 1 w OR of_bool d"

definition shifted :: "bool list \<Rightarrow> flashsim \<Rightarrow> flashsim" where
  "shifted ds s = s\<lparr>m_ireg := fold shift_in ds (m_ireg s), m_count := m_count s + of_nat (length ds),
     m_oreg := push_bit (length ds) (m_oreg s)\<rparr>"

lemma shifted_Nil [simp]: "shifted [] s = s"
  by (simp add: shifted_def)

lemma shifted_Cons: "shifted (d # ds) s = shifted ds (shifted [d] s)"
  by (simp add: shifted_def add.assoc push_bit_push_bit del: push_bit_Suc)

lemma flash_shift_bit: "m_mode s = FM_SPI \<Longrightarrow> flash_shift (of_bool d) s = shifted [d] s"
  by (cases d) (simp_all add: flash_shift_def shifted_def shift_in_def)

lemma quiet_timer: "spi_quiet s \<Longrightarrow> flash_timer s = s"
  by (simp add: spi_quiet_def flash_timer_def)

lemma spi_bit_run:
  assumes "spi_quiet s"
  shows "flash_run (spi_bit d) s =
    (case flash_byte (shifted [d] s) of Inl e \<Rightarrow> Inl e
     | Inr s' \<Rightarrow> Inr (flash_timer (s'\<lparr>m_last_sck := False\<rparr>)\<lparr>m_last_sck := True\<rparr>))"
proof -
  have "m_mode s = FM_SPI" "m_last_sck s" using assms by (simp_all add: spi_quiet_def)
  then show ?thesis
    by (simp add: spi_bit_def flash_tick_def quiet_timer [OF assms] flash_shift_bit Let_def
        split: sum.splits)
qed

lemma spi_bits_run:
  assumes "spi_quiet s" "m_count s = of_nat n" "n mod 8 + length ds < 8" "n + length ds < 2 ^ 32"
  shows "flash_run (concat (map spi_bit ds)) s = Inr (shifted ds s)"
  using assms
proof (induction ds arbitrary: s n)
  case (Cons d ds)
  let ?s = "shifted [d] s"
  have c: "m_count ?s = of_nat (Suc n)" using Cons.prems(2) by (simp add: shifted_def)
  have q: "spi_quiet ?s" using Cons.prems(1) by (simp add: spi_quiet_def shifted_def)
  have n: "Suc n mod 8 = Suc (n mod 8)" "Suc n < 2 ^ 32" using Cons.prems(3,4) by (simp_all add: mod_Suc)
  have u: "unat (m_count ?s) = Suc n" unfolding c by (rule unat_of_nat_u32 [OF n(2)])
  have "m_count ?s AND 7 \<noteq> 0"
  proof
    assume "m_count ?s AND 7 = 0"
    then have "take_bit 3 (m_count ?s) = 0" by (simp add: and_mask_take_bit)
    then have "unat (m_count ?s) mod 8 = 0" using unat_take_bit_u32 [of 3 "m_count ?s"] by simp
    then show False using u n(1) by simp
  qed
  moreover have "m_count ?s \<noteq> 8" using u n(1) by auto
  moreover have "m_state ?s \<notin> {QSPIF_QUAD_READ_IDLE, QSPIF_DUAL_READ_IDLE}" using q by (simp add: spi_quiet_def)
  ultimately have "flash_byte ?s = Inr ?s" by (simp add: flash_byte_def)
  moreover have "?s\<lparr>m_last_sck := False, m_last_sck := True\<rparr> = ?s" using q by (simp add: spi_quiet_def)
  ultimately have "flash_run (spi_bit d) s = Inr ?s"
    unfolding spi_bit_run [OF Cons.prems(1)] using q by (simp add: flash_timer_def spi_quiet_def)
  then show ?case
    using Cons.IH [OF q c] n Cons.prems(3,4) by (simp add: flash_run_append shifted_Cons [of d ds])
qed simp

definition byte_in :: "u8 \<Rightarrow> flashsim \<Rightarrow> flashsim" where
  "byte_in b s = s\<lparr>m_ireg := push_bit 8 (m_ireg s) OR ucast b, m_count := m_count s + 8,
     m_oreg := push_bit 8 (m_oreg s)\<rparr>"

lemma shift_in_byte: "fold shift_in (byte_bits b) w = push_bit 8 w OR ucast b"
proof (rule bit_word_eqI)
  fix n :: nat assume n: "n < LENGTH(32)"
  have step: "bit (shift_in d v) n = (if n = 0 then d else n < 32 \<and> bit v (n - 1))" for d v n
    unfolding shift_in_def bit_or_iff bit_push_bit_iff bit_of_bool_iff possible_bit_word by auto
  have eight: "n - Suc (Suc (Suc (Suc (Suc (Suc (Suc (Suc 0))))))) = n - 8" by (simp add: eval_nat_numeral)
  have "n < 8 \<Longrightarrow> n \<in> {0, 1, 2, 3, 4, 5, 6, 7}" by auto
  then show "bit (fold shift_in (byte_bits b) w) n = bit (push_bit 8 w OR ucast b) n"
    using n by (cases "n < 8") (auto simp: byte_bits_def step eight bit_or_iff bit_push_bit_iff bit_ucast_iff dest: bit_imp_le_length)
qed

lemma shifted_byte: "shifted (byte_bits b) s = byte_in b s"
proof -
  have "length (byte_bits b) = 8" by (simp add: byte_bits_def)
  then show ?thesis unfolding shifted_def byte_in_def shift_in_byte by simp
qed

definition after_edge :: "flashsim \<Rightarrow> flashsim" where
  "after_edge s = flash_timer (s\<lparr>m_last_sck := False\<rparr>)\<lparr>m_last_sck := True\<rparr>"

lemma spi_byte_run:
  assumes "spi_quiet s" "m_count s = of_nat (8 * k)" "8 * k + 8 < 2 ^ 32"
  shows "flash_run (spi_byte b) s = map_sum id after_edge (flash_byte (byte_in b s))"
proof -
  let ?ds = "map (bit b) [7, 6, 5, 4, 3, 2, 1]"
  have split: "byte_bits b = ?ds @ [bit b 0]" by (simp add: byte_bits_def)
  let ?s = "shifted ?ds s"
  have "flash_run (concat (map spi_bit ?ds)) s = Inr ?s"
    by (rule spi_bits_run [OF assms(1,2)]) (use assms(3) in simp_all)
  moreover have "spi_quiet ?s" using assms(1) by (simp add: spi_quiet_def shifted_def)
  moreover have "shifted [bit b 0] ?s = byte_in b s"
    unfolding shifted_byte [symmetric] split by (simp add: shifted_def add.assoc push_bit_push_bit del: push_bit_Suc)
  ultimately show ?thesis
    unfolding spi_byte_def split map_append concat_append flash_run_append
    by (simp add: spi_bit_run after_edge_def map_sum_def split: sum.splits)
qed

section \<open>Programming a page\<close>

text \<open>A page program under way: what it changes of the state \<open>s\<close> it started from.\<close>

definition pp :: "flashsim \<Rightarrow> nat \<Rightarrow> u32 \<Rightarrow> (u32 \<Rightarrow> u8) \<Rightarrow> u32 \<Rightarrow> u32 \<Rightarrow> bool \<Rightarrow> flashsim" where
  "pp s k ir pm ad x th = s\<lparr>m_state := QSPIF_PP, m_count := of_nat (8 * k), m_ireg := ir, m_pmem := pm,
     m_addr := ad, m_oreg := x, m_idle_throttle := th\<rparr>"

lemma pp_quiet: "spi_quiet s \<Longrightarrow> spi_quiet (pp s k ir pm ad x th)"
  by (simp add: pp_def spi_quiet_def)

lemma pp_fields:
  "m_count (pp s k ir pm ad x th) = of_nat (8 * k)" "m_ireg (pp s k ir pm ad x th) = ir"
  "m_memmask (pp s k ir pm ad x th) = m_memmask s" "m_addr (pp s k ir pm ad x th) = ad"
  "m_pmem (pp s k ir pm ad x th) = pm" "m_mem (pp s k ir pm ad x th) = m_mem s"
  by (simp_all add: pp_def)

lemma pp_after_edge: "spi_quiet s \<Longrightarrow> after_edge (pp s k ir pm ad x th) = pp s k ir pm ad x th"
  by (simp add: after_edge_def flash_timer_def pp_def spi_quiet_def)

lemma ireg_low_byte: "(push_bit 8 w OR ucast (b :: u8)) AND (0xff :: u32) = ucast b"
  by (rule bit_word_eqI) (auto simp: and_mask_take_bit bit_simps dest: bit_imp_le_length)

definition next_ad :: "u32 \<Rightarrow> u32" where
  "next_ad ad = (ad AND NOT 0x0ff) OR ((ad + 1) AND 0x0ff)"

lemma pp_byte:
  assumes q: "spi_quiet s" and k: "0 < k" "8 * k + 8 < 2 ^ 32"
  shows "\<exists>x' th'. flash_run (spi_byte b) (pp s k ir pm ad x th) =
    Inr (let ir' = push_bit 8 ir OR ucast b in
         if Suc k = 4 then pp s (Suc k) ir' (\<lambda>i. if i < 256 then 0xff else pm i) (ir' AND m_memmask s) x' th'
         else if 4 < Suc k then pp s (Suc k) ir' (pm(ad AND 0xff := b)) (next_ad ad) x' th'
         else pp s (Suc k) ir' pm ad x' th')"
proof -
  let ?c = "of_nat (8 * Suc k) :: u32"
  have u: "unat ?c = 8 * Suc k" using k(2) by (intro unat_of_nat_u32) simp
  have c8: "?c \<noteq> 8" using u k(1) by auto
  have c0: "?c AND 7 = 0"
    using unat_take_bit_u32 [of 3 ?c] u by (simp only: and_mask_take_bit) (simp add: unat_eq_0 [symmetric])
  have c32: "(?c = 32) = (Suc k = 4)" "(40 \<le> ?c) = (4 < Suc k)"
    using u by (auto simp: word_unat_eq_iff word_le_nat_alt)
  have nz: "?c \<noteq> 0" using u by auto
  obtain x1 where bi: "byte_in b (pp s k ir pm ad x th) = pp s (Suc k) (push_bit 8 ir OR ucast b) pm ad x1 th"
    by (rule that [of "push_bit 8 x"], rule flashsim.equality) (simp_all add: byte_in_def pp_def)
  let ?p = "pp s (Suc k) (push_bit 8 ir OR ucast b) pm ad x1 th"
  have cnt: "m_count ?p = ?c" and st: "m_state ?p = QSPIF_PP" by (simp_all add: pp_def)
  have mode: "m_mode s = FM_SPI" using q by (simp add: spi_quiet_def)
  let ?x = "(x1 AND NOT 0x0ff) OR (0 AND 0x0ff)"
  have "flash_byte ?p = flash_data ?p"
    using c8 c0 nz unfolding flash_byte_def cnt st by simp
  also have "\<dots> = page_byte FM_SPI (if m_idle_throttle (qoreg 0 ?p) then (qoreg 0 ?p)\<lparr>m_idle_throttle := False\<rparr> else qoreg 0 ?p)"
    using mode by (simp add: flash_data_def Let_def st) (simp add: pp_def qoreg_def)
  also have "(if m_idle_throttle (qoreg 0 ?p) then (qoreg 0 ?p)\<lparr>m_idle_throttle := False\<rparr> else qoreg 0 ?p)
      = pp s (Suc k) (push_bit 8 ir OR ucast b) pm ad ?x False"
    by (rule flashsim.equality) (simp_all add: pp_def qoreg_def)
  finally have "flash_byte ?p = page_byte FM_SPI (pp s (Suc k) (push_bit 8 ir OR ucast b) pm ad ?x False)" .
  moreover define R where "R = (\<lambda>x' th'. let ir' = push_bit 8 ir OR ucast b in
         if Suc k = 4 then pp s (Suc k) ir' (\<lambda>i. if i < 256 then 0xff else pm i) (ir' AND m_memmask s) x' th'
         else if 4 < Suc k then pp s (Suc k) ir' (pm(ad AND 0xff := b)) (next_ad ad) x' th'
         else pp s (Suc k) ir' pm ad x' th')"
  moreover have "page_byte FM_SPI (pp s (Suc k) (push_bit 8 ir OR ucast b) pm ad x2 th2) = Inr (R x2 th2)" for x2 th2
  proof -
    have "(ir' AND m_memmask s) AND NOT (m_memmask s) = 0" for ir' by (simp add: and.assoc)
    then show ?thesis
      unfolding R_def using c32 mode
      by (cases "Suc k = 4"; cases "4 < Suc k")
        (simp_all add: page_byte_def set_addr_def Let_def next_ad_def pp_fields,
         (rule flashsim.equality; simp add: pp_def ireg_low_byte fun_eq_iff cong: if_cong)+)
  qed
  ultimately have "flash_byte ?p = Inr (R ?x False)" by simp
  moreover have "after_edge (R ?x False) = R ?x False"
    by (simp add: R_def Let_def pp_after_edge [OF q])
  moreover have "m_count (pp s k ir pm ad x th) = of_nat (8 * k)" by (rule pp_fields)
  ultimately have "flash_run (spi_byte b) (pp s k ir pm ad x th) = Inr (R ?x False)"
    using spi_byte_run [OF pp_quiet [OF q], of k ir pm ad x th k b] k(2) bi by simp
  then show ?thesis unfolding R_def by blast
qed

text \<open>The bytes in the page buffer after some data: offset \<open>o\<close> of the page got byte number \<open>o - a\<close>.\<close>

definition page_image :: "u32 \<Rightarrow> u8 list \<Rightarrow> u32 \<Rightarrow> u8" where
  "page_image a data i =
     (let j = unat ((i - a) AND 0xff) in if j < length data then data ! j else 0xff)"

definition ad_after :: "u32 \<Rightarrow> nat \<Rightarrow> u32" where
  "ad_after a n = (a AND NOT 0xff) OR ((a + of_nat n) AND 0xff)"

lemma ad_after_low: "ad_after a n AND 0xff = (a + of_nat n) AND 0xff"
  and ad_after_page: "ad_after a n AND NOT 0xff = a AND NOT 0xff"
proof -
  have m: "(0xff :: u32) = mask 8" by (simp add: mask_eq_exp_minus_1)
  show "ad_after a n AND 0xff = (a + of_nat n) AND 0xff" "ad_after a n AND NOT 0xff = a AND NOT 0xff"
    unfolding ad_after_def m by (rule bit_word_eqI, auto simp: bit_simps)+
qed

lemma next_ad_after: "next_ad (ad_after a n) = ad_after a (Suc n)"
proof -
  have "take_bit 8 (take_bit 8 (ad_after a n) + take_bit 8 1) = take_bit 8 (take_bit 8 (a + of_nat n) + take_bit 8 1)"
    using ad_after_low [of a n] by (simp only: and_mask_take_bit)
  then have "take_bit 8 (ad_after a n + 1) = take_bit 8 (a + of_nat n + 1)"
    by (simp only: take_bit_add_word)
  then have "(ad_after a n + 1) AND 0xff = (a + of_nat (Suc n)) AND 0xff"
    unfolding and_mask_take_bit of_nat_Suc by (simp only: add.assoc add.commute [of 1])
  then show ?thesis
    unfolding next_ad_def ad_after_page ad_after_def [of a "Suc n"] by (simp only:)
qed

lemma page_image_snoc:
  assumes "length data < 256"
  shows "page_image a (data @ [b]) i =
    (if i AND 0xff = (a + of_nat (length data)) AND 0xff then b else page_image a data i)"
proof -
  let ?j = "unat ((i - a) AND 0xff)"
  have "(i AND 0xff = (a + of_nat (length data)) AND 0xff) = ((i - a) AND 0xff = (of_nat (length data)) AND 0xff)"
    unfolding and_mask_take_bit by (rule take_bit_diff_eq_iff [symmetric])
  also have "\<dots> = (?j = length data)"
  proof -
    have "unat ((of_nat (length data) :: u32) AND 0xff) = length data"
      using assms unat_take_bit_u32 [of 8 "of_nat (length data)"] unat_of_nat_u32 [of "length data"]
      by (simp add: and_mask_take_bit)
    then show ?thesis by (metis word_unat_eq_iff)
  qed
  finally show ?thesis by (auto simp: page_image_def Let_def nth_append)
qed

lemma pp_data:
  assumes q: "spi_quiet s" and ad: "4 \<le> k" "length data + length done \<le> 256" "8 * (k + length data) + 8 < 2 ^ 32"
    and pm: "\<And>i. i < 256 \<Longrightarrow> pm i = page_image a done i"
  shows "\<exists>ir' x' th' pm'. flash_run (concat (map spi_byte data)) (pp s k ir pm (ad_after a (length done)) x th)
      = Inr (pp s (k + length data) ir' pm' (ad_after a (length (done @ data))) x' th')
      \<and> (\<forall>i<256. pm' i = page_image a (done @ data) i)"
  using ad pm
proof (induction data arbitrary: k "done" ir pm x th)
  case Nil
  then show ?case by auto
next
  case (Cons b data)
  let ?ad = "ad_after a (length done)"
  let ?pm = "pm(?ad AND 0xff := b)"
  from pp_byte [OF q, of k b ir pm ?ad x th] Cons.prems obtain x1 th1 where
    r: "flash_run (spi_byte b) (pp s k ir pm ?ad x th)
      = Inr (pp s (Suc k) (push_bit 8 ir OR ucast b) ?pm (ad_after a (length (done @ [b]))) x1 th1)"
    by (auto simp: Let_def next_ad_after)
  have "?pm i = page_image a (done @ [b]) i" if "i < 256" for i
  proof -
    have "i AND 0xff = i"
      using that unfolding and_mask_take_bit
      by (simp add: word_unat_eq_iff unat_take_bit_u32 word_less_nat_alt)
    then show ?thesis
      using Cons.prems(2,4) that by (simp add: page_image_snoc ad_after_low)
  qed
  moreover have "4 \<le> Suc k" "length data + length (done @ [b]) \<le> 256" "8 * (Suc k + length data) + 8 < 2 ^ 32"
    using Cons.prems(1-3) by simp_all
  ultimately obtain ir' x' th' pm' where
    "flash_run (concat (map spi_byte data)) (pp s (Suc k) (push_bit 8 ir OR ucast b) ?pm (ad_after a (length (done @ [b]))) x1 th1)
      = Inr (pp s (Suc k + length data) ir' pm' (ad_after a (length ((done @ [b]) @ data))) x' th')"
    "\<forall>i<256. pm' i = page_image a ((done @ [b]) @ data) i"
    using Cons.IH [of "Suc k" "done @ [b]" ?pm "push_bit 8 ir OR ucast b" x1 th1] by blast
  then show ?case
    using r by (intro exI [of _ ir'] exI [of _ x'] exI [of _ th'] exI [of _ pm']) (simp add: flash_run_append)
qed

lemma pp_address:
  assumes q: "spi_quiet s" and m: "m_memmask s = mask lg" "lg \<le> 24" and a: "a < push_bit lg 1"
  shows "\<exists>ir' x' th' pm'. flash_run (concat (map spi_byte [byte_at 2 a, byte_at 1 a, byte_at 0 a])) (pp s 1 ir pm ad x th)
    = Inr (pp s 4 ir' pm' (ad_after a 0) x' th') \<and> (\<forall>i<256. pm' i = 0xff)"
proof -
  have s3: "Suc 2 = 3" and s4: "Suc 3 = 4" by simp_all
  obtain x1 th1 where 1: "flash_run (spi_byte (byte_at 2 a)) (pp s 1 ir pm ad x th)
      = Inr (pp s 2 (push_bit 8 ir OR ucast (byte_at 2 a)) pm ad x1 th1)"
    using pp_byte [OF q, of 1 "byte_at 2 a" ir pm ad x th] unfolding Suc_1 by auto
  let ?ir1 = "push_bit 8 ir OR ucast (byte_at 2 a)"
  obtain x2 th2 where 2: "flash_run (spi_byte (byte_at 1 a)) (pp s 2 ?ir1 pm ad x1 th1)
      = Inr (pp s 3 (push_bit 8 ?ir1 OR ucast (byte_at 1 a)) pm ad x2 th2)"
    using pp_byte [OF q, of 2 "byte_at 1 a" ?ir1 pm ad x1 th1] unfolding s3 by auto
  let ?ir2 = "push_bit 8 ?ir1 OR ucast (byte_at 1 a)" and ?pm = "\<lambda>i. if i < 256 then 0xff else pm i"
  let ?ir3 = "push_bit 8 ?ir2 OR ucast (byte_at 0 a)"
  obtain x3 th3 where 3: "flash_run (spi_byte (byte_at 0 a)) (pp s 3 ?ir2 pm ad x2 th2)
      = Inr (pp s 4 ?ir3 ?pm (?ir3 AND m_memmask s) x3 th3)"
    using pp_byte [OF q, of 3 "byte_at 0 a" ?ir2 pm ad x2 th2] unfolding s4 by (auto simp: Let_def)
  have "?ir3 AND mask lg = a"
  proof (rule bit_word_eqI)
    fix n :: nat assume n: "n < LENGTH(32)"
    have "take_bit lg a = a"
    proof -
      have "unat a < 2 ^ lg" using a m(2) by (simp add: word_less_nat_alt unat_pow2_u32)
      then show ?thesis by (simp add: word_unat_eq_iff unat_take_bit_u32)
    qed
    then have "bit a n \<Longrightarrow> n < lg" by (metis bit_take_bit_iff)
    moreover have "n < 24 \<Longrightarrow> bit ?ir3 n = bit a n"
      by (cases "n < 8"; cases "n < 16")
        (auto simp: bit_or_iff bit_push_bit_iff bit_ucast_iff bit_byte_at not_less)
    ultimately show "bit (?ir3 AND mask lg) n = bit a n"
      using m(2) n by (auto simp: bit_and_iff bit_mask_iff)
  qed
  moreover have "ad_after a 0 = a"
    by (rule bit_word_eqI) (auto simp: ad_after_def bit_simps)
  ultimately show ?thesis
    using 1 2 3 m(1) by (intro exI [of _ ?ir3] exI [of _ x3] exI [of _ th3] exI [of _ ?pm]) (simp add: flash_run_append)
qed

lemma start_command:
  assumes q: "spi_quiet s" and c: "m_count s = 0" and d: "m_sreg s AND QSPIF_DEEP_POWER_DOWN_FLAG = 0"
  shows "flash_run (spi_byte b) s = map_sum id after_edge (flash_command (byte_in b s))"
    and "m_ireg (byte_in b s) AND 0xff = ucast b" "m_sreg (byte_in b s) = m_sreg s"
proof -
  have "flash_byte (byte_in b s) = flash_command (byte_in b s)"
    using q c by (simp add: flash_byte_def byte_in_def spi_quiet_def)
  then show "flash_run (spi_byte b) s = map_sum id after_edge (flash_command (byte_in b s))"
    using spi_byte_run [OF q, of 0 b] c by simp
  show "m_ireg (byte_in b s) AND 0xff = ucast b" by (simp add: byte_in_def ireg_low_byte [simplified])
  show "m_sreg (byte_in b s) = m_sreg s" by (simp add: byte_in_def)
qed

lemma deep_sleep_clear: "w AND 0x203 = (2 :: u32) \<Longrightarrow> w AND QSPIF_DEEP_POWER_DOWN_FLAG = 0"
proof -
  assume "w AND 0x203 = 2"
  moreover have "w AND QSPIF_DEEP_POWER_DOWN_FLAG = (w AND 0x203) AND QSPIF_DEEP_POWER_DOWN_FLAG"
    by (simp add: and.assoc)
  ultimately show ?thesis by simp
qed

text \<open>The write enable transaction.\<close>

lemma write_enable_run:
  assumes q: "spi_quiet s" and c: "m_count s = 0" and d: "m_sreg s AND QSPIF_DEEP_POWER_DOWN_FLAG = 0"
  shows "flash_run (transaction [0x06]) s = Inr (s\<lparr>m_state := QSPIF_IDLE, m_sreg := m_sreg s OR QSPIF_WEL_FLAG,
    m_ireg := 0, m_oreg := 0xfe\<rparr>)"
proof -
  note sc = start_command [OF q c d, of 6]
  have "flash_command (byte_in 6 s) = Inr ((qoreg 0x0a5 (byte_in 6 s))\<lparr>m_state := QSPIF_IDLE, m_sreg := m_sreg s OR QSPIF_WEL_FLAG\<rparr>)"
    using d sc(2,3) by (simp add: flash_command_def Let_def)
  moreover define s1 where "s1 = (qoreg 0x0a5 (byte_in 6 s))\<lparr>m_state := QSPIF_IDLE, m_sreg := m_sreg s OR QSPIF_WEL_FLAG\<rparr>"
  moreover have "m_write_count s1 = 0" "m_last_sck s1"
    using q by (simp_all add: s1_def qoreg_def byte_in_def spi_quiet_def)
  then have "after_edge s1 = s1" by (simp add: after_edge_def flash_timer_def)
  ultimately have r: "flash_run (spi_byte 6) s = Inr s1" using sc(1) by simp
  have "flash_run deselect s1 = Inr (s\<lparr>m_state := QSPIF_IDLE, m_sreg := m_sreg s OR QSPIF_WEL_FLAG, m_ireg := 0, m_oreg := 0xfe\<rparr>)"
    using q c by (simp add: deselect_def flash_tick_def flash_deselect_def flash_timer_def s1_def qoreg_def byte_in_def
        spi_quiet_def Let_def)
  then show ?thesis using r by (simp add: transaction_def flash_run_append)
qed

text \<open>The aligned block of \<open>2 ^ k\<close> bytes around an address of the memory, and the status once a write has begun.\<close>

lemma block_room:
  assumes "k \<le> lg" "unat (a :: u32) < 2 ^ lg"
  shows "unat (a AND NOT (mask k)) + 2 ^ k \<le> 2 ^ lg"
proof -
  have lg: "(2 :: nat) ^ lg = 2 ^ k * 2 ^ (lg - k)"
    using assms(1) by (simp only: power_add [symmetric] le_add_diff_inverse)
  have "unat a < 2 ^ k * 2 ^ (lg - k)" using assms(2) lg by simp
  then have "unat a div 2 ^ k < 2 ^ (lg - k)" by (simp only: less_mult_imp_div_less mult.commute)
  then have "2 ^ k * Suc (unat a div 2 ^ k) \<le> 2 ^ k * 2 ^ (lg - k)" by (intro mult_le_mono2) simp
  then show ?thesis unfolding unat_and_not_mask_u32 lg by simp
qed

lemma write_begun:
  assumes "m_sreg s' = (w AND NOT QSPIF_WEL_FLAG) OR QSPIF_WIP_FLAG"
  shows "write_protect s'" "m_sreg s' AND QSPIF_WIP_FLAG \<noteq> 0"
  using bit_and_push_bit_1 [of "m_sreg s'" 0] unfolding wel_bit assms by (simp_all add: bit_simps)

lemma pp_command:
  assumes q: "spi_quiet s" and start: "m_count s = 0" "m_sreg s AND 0x203 = 2"
  shows "\<exists>ir x. flash_run (spi_byte 2) s = Inr (pp s 1 ir (m_pmem s) (m_addr s) x (m_idle_throttle s))"
proof -
  note d = deep_sleep_clear [OF start(2)]
  note sc = start_command [OF q start(1) d, of 2]
  have "flash_command (byte_in 2 s) = Inr ((qoreg 0x0a5 (byte_in 2 s))\<lparr>m_state := QSPIF_PP\<rparr>)"
    using d start(2) sc(2,3) by (simp add: flash_command_def Let_def)
  also have "\<dots> = Inr (pp s 1 (m_ireg (byte_in 2 s)) (m_pmem s) (m_addr s) (m_oreg (qoreg 0x0a5 (byte_in 2 s))) (m_idle_throttle s))"
    using start(1) by (simp, intro flashsim.equality) (simp_all add: pp_def qoreg_def byte_in_def)
  finally show ?thesis using sc(1) pp_after_edge [OF q] by auto
qed

lemma page_image_low: "page_image a data (i AND 0xff) = page_image a data i"
  by (simp add: page_image_def and_mask_take_bit take_bit_minus_left)

lemma pp_deselect:
  assumes q: "spi_quiet s" and page: "unat (a AND NOT 0xff) + 256 \<le> unat (m_membytes s)" and pm: "\<forall>i<256. pm i = page_image a data i"
  shows "\<exists>s'. flash_run deselect (pp s k ir pm (ad_after a n) x th) = Inr s'
    \<and> (\<forall>i. m_mem s' i = (if i AND NOT 0xff = a AND NOT 0xff then m_mem s i AND page_image a data i else m_mem s i))
    \<and> write_protect s' \<and> m_sreg s' AND QSPIF_WIP_FLAG \<noteq> 0 \<and> m_write_count s' = tPP \<and> m_state s' = QSPIF_IDLE"
proof -
  obtain s' where s': "flash_run deselect (pp s k ir pm (ad_after a n) x th) = Inr s'"
    and mem: "m_mem s' = (\<lambda>i. if i AND NOT 0xff = a AND NOT 0xff then m_mem s i AND pm (i AND 0xff) else m_mem s i)"
    and rest: "m_sreg s' = (m_sreg s AND NOT QSPIF_WEL_FLAG) OR QSPIF_WIP_FLAG" "m_write_count s' = tPP" "m_state s' = QSPIF_IDLE"
    using page q by (simp add: deselect_def flash_tick_def flash_deselect_def Let_def program_page_def begin_write_def
        flash_timer_def pp_def spi_quiet_def ad_after_page [simplified] cong: if_cong)
  have "i AND 0xff < (256 :: u32)" for i by (simp add: and_mask_take_bit word_less_nat_alt unat_take_bit_u32)
  then have "\<forall>i. m_mem s' i = (if i AND NOT 0xff = a AND NOT 0xff then m_mem s i AND page_image a data i else m_mem s i)"
    using mem pm page_image_low by simp
  then show ?thesis using s' rest(2,3) write_begun [OF rest(1)] by blast
qed

lemma page_program_run:
  assumes q: "spi_quiet s" and start: "m_count s = 0" "m_sreg s AND 0x203 = 2"
    and size: "m_membytes s = push_bit lg 1" "m_memmask s = mask lg" "8 \<le> lg" "lg \<le> 24"
    and a: "a < m_membytes s" and len: "length data \<le> 256"
  shows "\<exists>s'. flash_run (transaction (0x02 # byte_at 2 a # byte_at 1 a # byte_at 0 a # data)) s = Inr s'
    \<and> (\<forall>i. m_mem s' i =
          (if i AND NOT 0xff = a AND NOT 0xff then m_mem s i AND page_image a data i else m_mem s i))
    \<and> write_protect s' \<and> m_sreg s' AND QSPIF_WIP_FLAG \<noteq> 0 \<and> m_write_count s' = tPP
    \<and> m_state s' = QSPIF_IDLE"
proof -
  have size_nat: "unat (m_membytes s) = 2 ^ lg" using size(1,4) by (simp add: unat_pow2_u32)
  obtain ir x where r1: "flash_run (spi_byte 2) s = Inr (pp s 1 ir (m_pmem s) (m_addr s) x (m_idle_throttle s))"
    using pp_command [OF q start] by blast
  obtain ir2 x2 th2 pm2 where r2: "flash_run (concat (map spi_byte [byte_at 2 a, byte_at 1 a, byte_at 0 a]))
      (pp s 1 ir (m_pmem s) (m_addr s) x (m_idle_throttle s)) = Inr (pp s 4 ir2 pm2 (ad_after a 0) x2 th2)"
    and pm2: "\<forall>i<256. pm2 i = 0xff"
    using pp_address [OF q size(2,4)] a size(1) by metis
  have "pm2 i = page_image a [] i" if "i < 256" for i using pm2 that by (simp add: page_image_def Let_def)
  then obtain ir3 x3 th3 pm3 where r3: "flash_run (concat (map spi_byte data)) (pp s 4 ir2 pm2 (ad_after a 0) x2 th2)
      = Inr (pp s (4 + length data) ir3 pm3 (ad_after a (length data)) x3 th3)"
    and pm3: "\<forall>i<256. pm3 i = page_image a data i"
    using pp_data [OF q, of 4 data "[]" pm2 a ir2 x2 th2] len by auto
  have "unat (a AND NOT 0xff) + 256 \<le> unat (m_membytes s)"
    using block_room [OF size(3), of a] a unfolding size_nat by (simp add: word_less_nat_alt size_nat mask_eq_exp_minus_1)
  note d = pp_deselect [OF q this pm3, of "4 + length data" ir3 "length data" x3 th3]
  have "transaction (2 # byte_at 2 a # byte_at 1 a # byte_at 0 a # data) =
      spi_byte 2 @ concat (map spi_byte [byte_at 2 a, byte_at 1 a, byte_at 0 a]) @ concat (map spi_byte data) @ deselect"
    by (simp add: transaction_def)
  then have "flash_run (transaction (2 # byte_at 2 a # byte_at 1 a # byte_at 0 a # data)) s
      = flash_run deselect (pp s (4 + length data) ir3 pm3 (ad_after a (length data)) x3 th3)"
    by (simp only: flash_run_append r1 r2 r3 sum.case)
  then show ?thesis using d by simp
qed

text \<open>
  C5: page program over the wire.  Write enabled and idle, the flash takes command 02, a three-byte
  address and up to 256 data bytes; when chip select rises, the bytes land in the addressed page,
  starting at the address and wrapping inside the page, each ANDed into what was there.  Every other
  byte of the memory is as before, the write enable is spent and the device is busy for \<^verbatim>\<open>tPP\<close> ticks.
\<close>
theorem page_program_transaction:
  assumes q: "spi_quiet s" and start: "m_count s = 0" "m_sreg s AND 0x203 = 2"
    and size: "m_membytes s = push_bit lg 1" "m_memmask s = mask lg" "8 \<le> lg" "lg \<le> 24"
    and a: "a < m_membytes s" and len: "length data \<le> 256"
  shows "\<exists>s'. flash_run (transaction (0x02 # byte_at 2 a # byte_at 1 a # byte_at 0 a # data)) s = Inr s'
    \<and> (\<forall>i. m_mem s' i =
          (if i AND NOT 0xff = a AND NOT 0xff then m_mem s i AND page_image a data i else m_mem s i))
    \<and> write_protect s' \<and> m_sreg s' AND QSPIF_WIP_FLAG \<noteq> 0 \<and> m_write_count s' = tPP
    \<and> m_state s' = QSPIF_IDLE"
  using assms by (rule page_program_run)

text \<open>A 16 MB flash as constructed, deselected; and after a write enable.\<close>

definition demo_flash :: flashsim where
  "demo_flash = flashsim_init 24 (\<lambda>i. 0) 0 0 None"

theorem page_program_transaction_witness:
  "\<exists>s'. flash_run (transaction (0x02 # byte_at 2 0x1234 # byte_at 1 0x1234 # byte_at 0 0x1234 # [0x5a]))
      (demo_flash\<lparr>m_sreg := 0x1e\<rparr>) = Inr s' \<and> m_mem s' 0x1234 = 0x5a"
proof -
  have m: "(0xffffff :: u32) = mask 24" by (simp add: mask_eq_exp_minus_1)
  obtain s' where "flash_run (transaction (0x02 # byte_at 2 0x1234 # byte_at 1 0x1234 # byte_at 0 0x1234 # [0x5a]))
      (demo_flash\<lparr>m_sreg := 0x1e\<rparr>) = Inr s'"
    "\<forall>i. m_mem s' i = (if i AND NOT 0xff = 0x1234 AND NOT 0xff then m_mem (demo_flash\<lparr>m_sreg := 0x1e\<rparr>) i AND page_image 0x1234 [0x5a] i
      else m_mem (demo_flash\<lparr>m_sreg := 0x1e\<rparr>) i)"
    using page_program_transaction [of "demo_flash\<lparr>m_sreg := 0x1e\<rparr>" 24 "0x1234" "[0x5a]"]
    by (auto simp: demo_flash_def flashsim_init_def spi_quiet_def m [simplified])
  then show ?thesis
    by (intro exI [of _ s']) (simp add: demo_flash_def flashsim_init_def page_image_def)
qed

theorem write_needs_wren_witness:
  "let ts = transaction [0x06] @ transaction (0x02 # byte_at 2 0x1234 # byte_at 1 0x1234 # byte_at 0 0x1234 # [0x5a])
   in \<exists>i s1. i < length ts \<and> flash_run (take i ts) demo_flash = Inr s1 \<and> wren_tick (ts ! i) s1"
proof -
  let ?s = "demo_flash\<lparr>m_state := QSPIF_IDLE, m_sreg := m_sreg demo_flash OR QSPIF_WEL_FLAG, m_ireg := 0, m_oreg := 0xfe\<rparr>"
  have m: "(0xffffff :: u32) = mask 24" by (simp add: mask_eq_exp_minus_1)
  have 1: "flash_run (transaction [0x06]) demo_flash = Inr ?s"
    by (rule write_enable_run) (simp_all add: demo_flash_def flashsim_init_def spi_quiet_def)
  obtain s' where 2: "flash_run (transaction (0x02 # byte_at 2 0x1234 # byte_at 1 0x1234 # byte_at 0 0x1234 # [0x5a])) ?s = Inr s'"
    and mem: "\<forall>i. m_mem s' i = (if i AND NOT 0xff = 0x1234 AND NOT 0xff then m_mem ?s i AND page_image 0x1234 [0x5a] i else m_mem ?s i)"
    using page_program_run [of ?s 24 "0x1234" "[0x5a]"]
    by (auto simp: demo_flash_def flashsim_init_def spi_quiet_def m [simplified])
  have "m_mem s' 0x1234 = 0x5a" "m_mem demo_flash 0x1234 = 0xff"
    using mem by (simp_all add: demo_flash_def flashsim_init_def page_image_def)
  then have "m_mem s' \<noteq> m_mem demo_flash" by auto
  moreover have "write_protect demo_flash" "\<not> writing demo_flash"
    by (simp_all add: demo_flash_def flashsim_init_def write_protect_def writing_def)
  moreover have "flash_run (transaction [0x06] @ transaction (0x02 # byte_at 2 0x1234 # byte_at 1 0x1234 # byte_at 0 0x1234 # [0x5a])) demo_flash = Inr s'"
    by (simp only: flash_run_append 1 2 sum.case)
  ultimately show ?thesis
    unfolding Let_def by (intro write_needs_wren)
qed

section \<open>Erasing a sector\<close>

definition se :: "flashsim \<Rightarrow> nat \<Rightarrow> u32 \<Rightarrow> u32 \<Rightarrow> u32 \<Rightarrow> bool \<Rightarrow> flashsim" where
  "se s k ir ad x th = s\<lparr>m_state := QSPIF_SECTOR_ERASE, m_count := of_nat (8 * k), m_ireg := ir,
     m_addr := ad, m_oreg := x, m_idle_throttle := th\<rparr>"

lemma se_byte:
  assumes q: "spi_quiet s" and k: "0 < k" "8 * k + 8 < 2 ^ 32"
  shows "\<exists>x'. flash_run (spi_byte b) (se s k ir ad x th) =
    (let ir' = push_bit 8 ir OR ucast b in
     if Suc k \<noteq> 4 then Inr (se s (Suc k) ir' ad x' False)
     else if (ir' AND 0x0ffc000) AND 0xfc00000 = 0 then Inr (se s 4 ir' (ir' AND 0x0ffc000) x' False)
     else Inl Assertion)"
proof -
  let ?c = "of_nat (8 * Suc k) :: u32" and ?ir = "push_bit 8 ir OR ucast b"
  let ?x = "(push_bit 8 x AND NOT 0x0ff) OR (0 AND 0x0ff)"
  have u: "unat ?c = 8 * Suc k" using k(2) by (intro unat_of_nat_u32) simp
  have c8: "?c \<noteq> 8" "?c \<noteq> 0" "(?c = 32) = (Suc k = 4)" using u k(1) by (auto simp: word_unat_eq_iff)
  have c0: "?c AND 7 = 0"
    using unat_take_bit_u32 [of 3 ?c] u by (simp only: and_mask_take_bit) (simp add: unat_eq_0 [symmetric])
  have bi: "byte_in b (se s k ir ad x th) = se s (Suc k) ?ir ad (push_bit 8 x) th"
    by (rule flashsim.equality) (simp_all add: byte_in_def se_def)
  let ?p = "se s (Suc k) ?ir ad (push_bit 8 x) th"
  have st: "m_state (se s k ir ad x th) = QSPIF_SECTOR_ERASE" "m_count (se s k ir ad x th) = of_nat (8 * k)"
    "m_ireg (se s k ir ad x th) = ir" for k ir ad x th by (simp_all add: se_def)
  have quiet: "spi_quiet (se s k ir ad x th)" using q by (simp add: se_def spi_quiet_def)
  have ae: "after_edge (se s k ir ad x th) = se s k ir ad x th" for k ir ad x th
    using q by (simp add: after_edge_def flash_timer_def se_def spi_quiet_def)
  have "flash_byte ?p = flash_data ?p"
    using c8 c0 unfolding flash_byte_def st by simp
  also have "\<dots> = (if Suc k = 4 then
        let s = (se s (Suc k) ?ir ad ?x False)\<lparr>m_addr := ?ir AND 0x0ffc000\<rparr>
        in if m_addr s AND 0xfc00000 = 0 then Inr s else Inl Assertion
      else Inr (se s (Suc k) ?ir ad ?x False))"
  proof -
    have e: "(if m_idle_throttle (qoreg 0 ?p) then (qoreg 0 ?p)\<lparr>m_idle_throttle := False\<rparr> else qoreg 0 ?p)
        = se s (Suc k) ?ir ad ?x False"
      by (rule flashsim.equality) (simp_all add: se_def qoreg_def)
    show ?thesis
      using c8(3) unfolding flash_data_def Let_def by (simp only: guarded_qoreg st qspif_state.simps not_False_eq_True simp_thms e if_True)
  qed
  also have "(se s (Suc k) ?ir ad ?x False)\<lparr>m_addr := ?ir AND 0x0ffc000\<rparr> = se s (Suc k) ?ir (?ir AND 0x0ffc000) ?x False"
    by (rule flashsim.equality) (simp_all add: se_def)
  finally have fb: "flash_byte ?p = (if Suc k = 4 then
        let s = se s (Suc k) ?ir (?ir AND 0x0ffc000) ?x False
        in if m_addr s AND 0xfc00000 = 0 then Inr s else Inl Assertion
      else Inr (se s (Suc k) ?ir ad ?x False))" .
  have m: "m_addr (se s k ir ad x th) = ad" for k ir ad x th by (simp add: se_def)
  show ?thesis
    using spi_byte_run [OF quiet, of k b] k(2)
    unfolding bi fb by (intro exI [of _ ?x]) (auto simp: st ae m Let_def)
qed

text \<open>The shift register after three address bytes, whatever came before them.\<close>

definition ireg_addr :: "u32 \<Rightarrow> u32 \<Rightarrow> u32" where
  "ireg_addr ir a = push_bit 8 (push_bit 8 (push_bit 8 ir OR ucast (byte_at 2 a)) OR ucast (byte_at 1 a))
     OR ucast (byte_at 0 a)"

lemma take_bit_ireg_addr: "take_bit 24 (ireg_addr ir a) = take_bit 24 a"
proof (rule bit_word_eqI)
  fix n :: nat assume "n < LENGTH(32)"
  have "n < 24 \<Longrightarrow> bit (ireg_addr ir a) n = bit a n"
    unfolding ireg_addr_def
    by (cases "n < 8"; cases "n < 16")
      (auto simp: bit_or_iff bit_push_bit_iff bit_ucast_iff bit_byte_at not_less)
  then show "bit (take_bit 24 (ireg_addr ir a)) n = bit (take_bit 24 a) n"
    by (auto simp: bit_take_bit_iff)
qed

lemma and_ireg_addr:
  assumes "0xffffff AND c = (c :: u32)"
  shows "ireg_addr ir a AND c = a AND c"
proof -
  have m: "(0xffffff :: u32) = mask 24" by (simp add: mask_eq_exp_minus_1)
  have "x AND c = take_bit 24 x AND c" for x
    by (metis assms and.assoc m word_and_mask_eq_take_bit)
  then show ?thesis by (metis take_bit_ireg_addr)
qed

text \<open>The shift register takes the three address bytes; the last one stores the address, below 4 MB only.\<close>

lemma se_command:
  assumes q: "spi_quiet s" and start: "m_count s = 0" "m_sreg s AND 0x203 = 2"
  shows "\<exists>ir x. flash_run (spi_byte 0xd8) s = Inr (se s 1 ir (m_addr s) x (m_idle_throttle s))"
proof -
  note d = deep_sleep_clear [OF start(2)]
  note sc = start_command [OF q start(1) d, of "0xd8"]
  let ?ir = "m_ireg (byte_in 0xd8 s)" and ?x = "m_oreg (qoreg 0x0a5 (byte_in 0xd8 s))"
  have "flash_command (byte_in 0xd8 s) = Inr ((qoreg 0x0a5 (byte_in 0xd8 s))\<lparr>m_state := QSPIF_SECTOR_ERASE\<rparr>)"
    using d start(2) sc(2,3) by (simp add: flash_command_def Let_def)
  also have "\<dots> = Inr (se s 1 ?ir (m_addr s) ?x (m_idle_throttle s))"
    using start(1) by (simp, intro flashsim.equality) (simp_all add: se_def qoreg_def byte_in_def)
  finally have "flash_run (spi_byte 0xd8) s = Inr (se s 1 ?ir (m_addr s) ?x (m_idle_throttle s))"
    using sc(1) q by (simp add: after_edge_def flash_timer_def se_def spi_quiet_def)
  then show ?thesis by blast
qed

lemma se_first_bytes:
  assumes q: "spi_quiet s" and k: "1 \<le> k" "k < 3"
  shows "\<exists>x'. flash_run (spi_byte b) (se s k ir (m_addr s) x th) = Inr (se s (Suc k) (push_bit 8 ir OR ucast b) (m_addr s) x' False)"
  using se_byte [OF q, of k b ir "m_addr s" x th] k by (auto simp: Let_def)

lemma se_address:
  assumes q: "spi_quiet s"
  shows "\<exists>x'. flash_run (spi_byte (byte_at 2 a) @ spi_byte (byte_at 1 a) @ spi_byte (byte_at 0 a)) (se s 1 ir (m_addr s) x th)
    = (if a AND 0xc00000 = 0 then Inr (se s 4 (ireg_addr ir a) (ireg_addr ir a AND 0x0ffc000) x' False) else Inl Assertion)"
proof -
  have n: "Suc 1 = 2" "Suc 2 = 3" "Suc 3 = 4" by simp_all
  obtain x2 where r2: "flash_run (spi_byte (byte_at 2 a)) (se s 1 ir (m_addr s) x th)
      = Inr (se s 2 (push_bit 8 ir OR ucast (byte_at 2 a)) (m_addr s) x2 False)"
    using se_first_bytes [OF q, of 1 "byte_at 2 a" ir x th] unfolding n by auto
  obtain x3 where r3: "flash_run (spi_byte (byte_at 1 a)) (se s 2 (push_bit 8 ir OR ucast (byte_at 2 a)) (m_addr s) x2 False)
      = Inr (se s 3 (push_bit 8 (push_bit 8 ir OR ucast (byte_at 2 a)) OR ucast (byte_at 1 a)) (m_addr s) x3 False)"
    using se_first_bytes [OF q, of 2 "byte_at 1 a" "push_bit 8 ir OR ucast (byte_at 2 a)" x2 False] unfolding n by auto
  have "(ireg_addr ir a AND 0x0ffc000) AND 0xfc00000 = a AND 0xc00000"
    using and_ireg_addr [of "0x0ffc000" ir a] by (simp add: and.assoc)
  then show ?thesis
    using se_byte [OF q, of 3 "byte_at 0 a" "push_bit 8 (push_bit 8 ir OR ucast (byte_at 2 a)) OR ucast (byte_at 1 a)" "m_addr s" x3 False]
    unfolding flash_run_append r2 r3 sum.case n ireg_addr_def [symmetric] Let_def by auto
qed

lemma se_deselect:
  assumes q: "spi_quiet s" and ad: "ad AND (- 0x10000) = base" "unat base + 0x10000 \<le> unat (m_membytes s)"
  shows "\<exists>s'. flash_run deselect (se s 4 ir ad x False) = Inr s'
    \<and> m_mem s' = (\<lambda>i. if i AND NOT 0xffff = base then 0xff else m_mem s i)
    \<and> write_protect s' \<and> m_sreg s' AND QSPIF_WIP_FLAG \<noteq> 0 \<and> m_write_count s' = tSE"
proof -
  obtain s' where s': "flash_run deselect (se s 4 ir ad x False) = Inr s'"
    and mem: "m_mem s' = (\<lambda>i. if i AND (- 0x10000) = base then 0xff else m_mem s i)"
    and rest: "m_sreg s' = (m_sreg s AND NOT QSPIF_WEL_FLAG) OR QSPIF_WIP_FLAG" "m_write_count s' = tSE"
    using q ad by (simp add: deselect_def flash_tick_def flash_deselect_def Let_def begin_write_def
        flash_timer_def se_def spi_quiet_def cong: if_cong)
  then show ?thesis using write_begun [OF rest(1)] by simp
qed

text \<open>The 4 MB bound, for the addresses of a flash of at most 16 MB.\<close>

lemma low_address:
  assumes "(a :: u32) AND 0xffffff = a"
  shows "a AND 0xc00000 = 0 \<longleftrightarrow> a < 0x400000"
proof -
  have "a AND 0xc00000 = a AND NOT (mask 22)"
    by (subst (2) assms [symmetric]) (simp add: and.assoc mask_eq_exp_minus_1)
  then have "unat (a AND 0xc00000) = 2 ^ 22 * (unat a div 2 ^ 22)" by (simp only: unat_and_not_mask_u32)
  moreover have "(unat a div 2 ^ 22 = 0) = (unat a < 2 ^ 22)" by (simp add: div_eq_0_iff)
  ultimately show ?thesis by (simp add: word_unat_eq_iff word_less_nat_alt)
qed

text \<open>
  C7: sector erase over the wire.  Write enabled and idle, the flash takes command D8 and a three-byte
  address.  Below 4 MB, when chip select rises exactly the 64 kB sector of the address reads FF, the
  rest of the memory is as before, the write enable is spent and the device is busy for \<^verbatim>\<open>tSE\<close> ticks.
  From 4 MB on the model stops with a failed assertion, whatever the size of the flash.
\<close>
theorem sector_erase_transaction:
  assumes q: "spi_quiet s" and start: "m_count s = 0" "m_sreg s AND 0x203 = 2"
    and size: "m_membytes s = push_bit lg 1" "16 \<le> lg" "lg \<le> 24" and a: "a < m_membytes s"
  shows "let r = flash_run (transaction [0xd8, byte_at 2 a, byte_at 1 a, byte_at 0 a]) s in
    (a < 0x400000 \<longrightarrow> (\<exists>s'. r = Inr s'
       \<and> (\<forall>i. m_mem s' i = (if i AND NOT 0xffff = a AND NOT 0xffff then 0xff else m_mem s i))
       \<and> write_protect s' \<and> m_sreg s' AND QSPIF_WIP_FLAG \<noteq> 0 \<and> m_write_count s' = tSE))
    \<and> (0x400000 \<le> a \<longrightarrow> r = Inl Assertion)"
proof -
  have nat_size: "unat (m_membytes s) = 2 ^ lg" using size by (simp add: unat_pow2_u32)
  then have al: "unat a < 2 ^ lg" using a by (simp add: word_less_nat_alt)
  then have "unat a < 2 ^ 24" using power_increasing [OF size(3), of "2 :: nat"] by simp
  then have a24: "a AND 0xffffff = a"
    using word_and_mask_eq_take_bit [of a 24] by (simp add: mask_eq_exp_minus_1 word_unat_eq_iff unat_take_bit_u32)
  obtain ir x where r1: "flash_run (spi_byte 0xd8) s = Inr (se s 1 ir (m_addr s) x (m_idle_throttle s))"
    using se_command [OF q start] by blast
  obtain x4 where r4: "flash_run (spi_byte (byte_at 2 a) @ spi_byte (byte_at 1 a) @ spi_byte (byte_at 0 a))
      (se s 1 ir (m_addr s) x (m_idle_throttle s))
    = (if a < 0x400000 then Inr (se s 4 (ireg_addr ir a) (ireg_addr ir a AND 0x0ffc000) x4 False) else Inl Assertion)"
    using se_address [OF q, of a ir x] unfolding low_address [OF a24] by blast
  have "a AND NOT 0xffff = a AND 0xff0000" by (subst (1) a24 [symmetric]) (simp add: and.assoc)
  then have sector: "(ireg_addr ir a AND 0x0ffc000) AND (- 0x10000) = a AND NOT 0xffff"
    using and_ireg_addr [of "0x0ffc000" ir a] by (simp add: and.assoc)
  have room: "unat (a AND NOT 0xffff) + 0x10000 \<le> unat (m_membytes s)"
    using block_room [OF size(2) al] unfolding nat_size by (simp add: mask_eq_exp_minus_1)
  note d = se_deselect [OF q sector room, of "ireg_addr ir a" x4]
  have tr: "transaction [0xd8, byte_at 2 a, byte_at 1 a, byte_at 0 a]
      = spi_byte 0xd8 @ (spi_byte (byte_at 2 a) @ spi_byte (byte_at 1 a) @ spi_byte (byte_at 0 a)) @ deselect"
    by (simp add: transaction_def)
  have "flash_run (transaction [0xd8, byte_at 2 a, byte_at 1 a, byte_at 0 a]) s
    = (if a < 0x400000 then flash_run deselect (se s 4 (ireg_addr ir a) (ireg_addr ir a AND 0x0ffc000) x4 False) else Inl Assertion)"
    unfolding tr flash_run_append [of "spi_byte 0xd8"] r1 sum.case
      flash_run_append [of "spi_byte (byte_at 2 a) @ spi_byte (byte_at 1 a) @ spi_byte (byte_at 0 a)" deselect] r4
    by (cases "a < 0x400000") (simp_all only: if_True if_False sum.case)
  then show ?thesis using d by (auto simp: Let_def not_le [symmetric])
qed

theorem sector_erase_transaction_witness:
  "(\<exists>s'. flash_run (transaction [0xd8, byte_at 2 0x12345, byte_at 1 0x12345, byte_at 0 0x12345])
        (demo_flash\<lparr>m_sreg := 0x1e, m_mem := (\<lambda>i. 0)\<rparr>) = Inr s' \<and> m_mem s' 0x1ffff = 0xff \<and> m_mem s' 0x20000 = 0)
   \<and> flash_run (transaction [0xd8, byte_at 2 0x400000, byte_at 1 0x400000, byte_at 0 0x400000])
        (demo_flash\<lparr>m_sreg := 0x1e, m_mem := (\<lambda>i. 0)\<rparr>) = Inl Assertion"
proof -
  let ?s = "demo_flash\<lparr>m_sreg := 0x1e, m_mem := (\<lambda>i. 0)\<rparr>"
  have s: "spi_quiet ?s" "m_count ?s = 0" "m_sreg ?s AND 0x203 = 2" "m_membytes ?s = push_bit 24 1"
    "0x12345 < m_membytes ?s" "0x400000 < m_membytes ?s"
    by (simp_all add: demo_flash_def flashsim_init_def spi_quiet_def)
  show ?thesis
    using sector_erase_transaction [OF s(1-4) _ _ s(5)] sector_erase_transaction [OF s(1-4) _ _ s(6)]
    by (auto simp: Let_def)
qed

section \<open>Where the model of the flash departs from a flash\<close>

text \<open>
  \<^verbatim>\<open>write_in_progress\<close> tests the busy flag with \<^verbatim>\<open>|\<close> where its neighbour uses \<^verbatim>\<open>&\<close>: it answers true in
  every state, also in that of a flash that has just been constructed and is not busy.
\<close>
lemma write_in_progress_always: "write_in_progress s"
proof -
  have "bit (m_sreg s OR QSPIF_WIP_FLAG) 0" by (simp add: bit_or_iff)
  then show ?thesis unfolding write_in_progress_def by (metis bit_0_eq bot_apply bot_bool_def)
qed

text \<open>
  Loading a file at \<open>addr\<close>.  At address 0 the flash holds the file and then ones.  At an address
  not below the length of the file, the loop that fills the rest starts at the number of bytes read
  instead of after them, and the whole region from \<open>addr\<close> on reads FF: nothing of the file is left.
\<close>
lemma load_file_clobbers:
  assumes "unat addr < unat (m_membytes s)" "i < m_membytes s" "length bs \<le> unat (m_membytes s) - unat addr"
  shows "(addr = 0 \<longrightarrow> m_mem (load_file addr (Some bs) s) i = (if unat i < length bs then bs ! unat i else 0xff))
    \<and> (length bs \<le> unat addr \<and> addr \<le> i \<longrightarrow> m_mem (load_file addr (Some bs) s) i = 0xff)"
proof -
  have lt: "length bs < 2 ^ 32"
  proof -
    have "unat (m_membytes s) < 2 ^ 32" using unsigned_less [of "m_membytes s"] by simp
    then show ?thesis using assms(3) by simp
  qed
  have n: "(of_nat (length bs) \<le> i) = (length bs \<le> unat i)"
    unfolding word_le_nat_alt unat_of_nat_u32 [OF lt] ..
  have le: "length bs \<le> unat (m_membytes s - addr)"
    using assms(1,3) by (simp add: unat_sub word_le_nat_alt)
  have "\<not> addr \<ge> m_membytes s" using assms(1) by (simp add: word_le_nat_alt)
  then show ?thesis
    using assms(2) le by (auto simp: load_file_def Let_def unat_of_nat_u32 [OF lt] word_le_nat_alt word_less_nat_alt)
qed

theorem load_file_clobbers_witness:
  "m_mem (load_file 0x10000 (Some [1, 2, 3]) demo_flash) 0x10000 = 0xff
   \<and> m_mem (load_file 0 (Some [1, 2, 3]) demo_flash) 1 = 2"
  using load_file_clobbers [of "0x10000" demo_flash "0x10000" "[1, 2, 3]"] load_file_clobbers [of 0 demo_flash 1 "[1, 2, 3]"]
  by (simp add: demo_flash_def flashsim_init_def)

end
