(* ===== verification/SdramSim.thy ===== *)
theory SdramSim
  imports Prelude
begin

text \<open>
  The SDRAM of \<^verbatim>\<open>sim/sdramsim.cpp\<close>, one call per clock: the power-up sequence, the ageing of the
  banks, the second half of a write burst, the output queue and the commands.  A \<^verbatim>\<open>short\<close> is a 16-bit
  word; assertions, \<^verbatim>\<open>exit\<close> and accesses outside the arrays are faults.  The two \<^verbatim>\<open>static\<close> variables of
  the power-up code are part of the state.
\<close>

section \<open>The state\<close>

definition POWERED_UP_STATE :: nat where "POWERED_UP_STATE = 6"
definition PWRUP_WAIT_CKS :: nat where "PWRUP_WAIT_CKS = 20000"
definition MAX_BANKOPEN_TIME :: int where "MAX_BANKOPEN_TIME = 10000"
definition MAX_REFRESH_TIME :: u32 where "MAX_REFRESH_TIME = 6400000"
definition SDRAMSZB :: nat where "SDRAMSZB = 2 ^ 24"

record sdramsim =
  m_pwrup :: nat
  m_mem :: "u32 \<Rightarrow> u16"
  m_last_value :: u16
  m_bank_status :: "u32 \<Rightarrow> u32"
  m_bank_row :: "u32 \<Rightarrow> u32"
  m_bank_open_time :: "u32 \<Rightarrow> int"
  m_refresh_time :: "nat \<Rightarrow> u32"
  m_refresh_loc :: nat
  m_nrefresh :: nat
  m_qloc :: u32
  m_qdata :: "u32 \<Rightarrow> u16"
  m_qmask :: u32
  m_wr_addr :: u32
  m_clocks_till_idle :: nat
  m_next_wr :: bool
  m_fail :: nat
  mode_is_set :: bool
  refresh_cycles :: nat

text \<open>
  The constructor.  The memory, the banks, the queue and \<^verbatim>\<open>m_nrefresh\<close> are not initialised: the argument
  \<open>raw\<close> holds what they are.  A count beyond the array of refresh times overruns it.
\<close>

definition sdramsim_init :: "sdramsim \<Rightarrow> sdramsim option" where
  "sdramsim_init raw =
     (if m_nrefresh raw > 2 ^ 13 then None
      else Some (raw\<lparr>m_refresh_time := (\<lambda>i. if i < m_nrefresh raw then 0 else m_refresh_time raw i),
             m_refresh_loc := 0, m_pwrup := 0, m_last_value := 0, m_clocks_till_idle := PWRUP_WAIT_CKS,
             m_wr_addr := 0, m_qloc := 0, m_qmask := 15, m_next_wr := True, m_fail := 0,
             mode_is_set := False, refresh_cycles := 0\<rparr>))"

text \<open>\<^verbatim>\<open>load\<close>: big-endian half words, with its assertions.\<close>

definition sdram_load :: "u32 \<Rightarrow> u8 list \<Rightarrow> sdramsim \<Rightarrow> fault + sdramsim" where
  "sdram_load addr data s =
     (let base = addr AND 0xffffff; len = length data in
      if addr AND 1 \<noteq> 0 \<or> odd len \<or> \<not> unat addr + len < SDRAMSZB then Inl Assertion
      else Inr (s\<lparr>m_mem := (\<lambda>i.
             let k = unat i - unat (drop_bit 1 base) in
             if drop_bit 1 base \<le> i \<and> 2 * k + 1 < len
             then push_bit 8 (ucast (data ! (2 * k))) OR ucast (data ! (2 * k + 1)) else m_mem s i)\<rparr>))"

section \<open>Inputs\<close>

record sdpins =
  p_clk :: bool
  cke :: bool
  cs_n :: bool
  ras_n :: bool
  cas_n :: bool
  we_n :: bool
  bs :: u32
  p_addr :: u32
  driv :: bool
  p_data :: u16
  dqm :: u16

definition is_mode_set :: "sdpins \<Rightarrow> bool" where
  "is_mode_set p \<longleftrightarrow> \<not> cs_n p \<and> \<not> ras_n p \<and> \<not> cas_n p \<and> \<not> we_n p"

definition is_refresh :: "sdpins \<Rightarrow> bool" where
  "is_refresh p \<longleftrightarrow> \<not> cs_n p \<and> \<not> ras_n p \<and> \<not> cas_n p \<and> we_n p"

definition is_precharge :: "sdpins \<Rightarrow> bool" where
  "is_precharge p \<longleftrightarrow> \<not> cs_n p \<and> \<not> ras_n p \<and> cas_n p \<and> \<not> we_n p"

definition is_activate :: "sdpins \<Rightarrow> bool" where
  "is_activate p \<longleftrightarrow> \<not> cs_n p \<and> \<not> ras_n p \<and> cas_n p \<and> we_n p"

definition is_write :: "sdpins \<Rightarrow> bool" where
  "is_write p \<longleftrightarrow> \<not> cs_n p \<and> ras_n p \<and> \<not> cas_n p \<and> \<not> we_n p"

definition is_read :: "sdpins \<Rightarrow> bool" where
  "is_read p \<longleftrightarrow> \<not> cs_n p \<and> ras_n p \<and> \<not> cas_n p \<and> we_n p"

definition is_noop :: "sdpins \<Rightarrow> bool" where
  "is_noop p \<longleftrightarrow> cs_n p \<or> (ras_n p \<and> cas_n p \<and> we_n p)"

definition all_banks :: "sdpins \<Rightarrow> bool" where
  "all_banks p \<longleftrightarrow> p_addr p AND 0x0400 \<noteq> 0"

section \<open>Power up\<close>

definition fresh_refresh :: "sdramsim \<Rightarrow> sdramsim" where
  "fresh_refresh s = s\<lparr>m_refresh_time := (\<lambda>i. if i < m_nrefresh s then MAX_REFRESH_TIME else m_refresh_time s i)\<rparr>"

definition sdram_pwrup :: "sdpins \<Rightarrow> sdramsim \<Rightarrow> fault + sdramsim" where
  "sdram_pwrup p s =
     (if dqm p \<noteq> 3 then Inl Assertion
      else
        let s = (if m_clocks_till_idle s > 0 then s\<lparr>m_clocks_till_idle := m_clocks_till_idle s - 1\<rparr> else s);
            r = (if m_pwrup s = 0 then
                   if \<not> (cs_n p \<and> ras_n p \<and> cas_n p \<and> we_n p \<and> dqm p = 3) then Inl Assertion
                   else Inr (if m_clocks_till_idle s = 0 then s\<lparr>m_pwrup := m_pwrup s + 1\<rparr> else s)
                 else if m_pwrup s = 1 then
                   Inr (if is_precharge p \<and> all_banks p then s\<lparr>m_pwrup := m_pwrup s + 1, m_clocks_till_idle := 8\<rparr> else s)
                 else if m_pwrup s = 2 then
                   if is_mode_set p \<and> (mode_is_set s \<or> \<not> (refresh_cycles s = 0 \<or> refresh_cycles s = 8) \<or> p_addr p \<noteq> 0x021)
                   then Inl Assertion
                   else
                     let s = (if is_mode_set p then s\<lparr>mode_is_set := True\<rparr> else s);
                         s = (if is_refresh p then s\<lparr>refresh_cycles := refresh_cycles s + 1\<rparr> else s)
                     in if is_refresh p \<and> refresh_cycles s > 8 then Inl Assertion
                        else Inr (if mode_is_set s \<and> refresh_cycles s \<ge> 8
                                  then (fresh_refresh (s\<lparr>m_pwrup := m_pwrup s + 1\<rparr>))\<lparr>m_clocks_till_idle := 2\<rparr> else s)
                 else if m_pwrup s = 3 then
                   if \<not> cs_n p then Inl Assertion
                   else if m_clocks_till_idle s = 0 then Inr (s\<lparr>m_pwrup := POWERED_UP_STATE, m_clocks_till_idle := 0\<rparr>)
                   else if m_clocks_till_idle s = 1 then Inr s
                   else Inl Assertion
                 else if m_pwrup s = 4 then
                   if is_refresh p then
                     Inr (if m_clocks_till_idle s = 0
                          then fresh_refresh (s\<lparr>m_pwrup := POWERED_UP_STATE, m_clocks_till_idle := 0\<rparr>) else s)
                   else Inl Assertion
                 else Inr s)
        in map_sum id (\<lambda>s. s\<lparr>m_next_wr := False\<rparr>) r)"

section \<open>In operation\<close>

text \<open>
  The refresh times are unsigned: the test for one below zero, under which the code asserts, is false.
  An open bank has bit 0 of its status set.
\<close>

definition bank_shift :: "u32 \<Rightarrow> u32" where
  "bank_shift st = (let st = drop_bit 1 st in if st AND 2 \<noteq> 0 then st OR 4 else st)"

definition age_refresh :: "sdramsim \<Rightarrow> sdramsim" where
  "age_refresh s = s\<lparr>m_refresh_time := (\<lambda>i. if i < m_nrefresh s then m_refresh_time s i - 1 else m_refresh_time s i)\<rparr>"

definition age_banks :: "sdramsim \<Rightarrow> sdramsim" where
  "age_banks s =
     (let s = s\<lparr>m_bank_status := (\<lambda>i. if i < 4 then bank_shift (m_bank_status s i) else m_bank_status s i)\<rparr>
      in s\<lparr>m_bank_open_time := (\<lambda>i. if i < 4 \<and> m_bank_status s i AND 1 \<noteq> 0
                                then m_bank_open_time s i - 1 else m_bank_open_time s i)\<rparr>)"

definition age_timers :: "sdramsim \<Rightarrow> fault + sdramsim" where
  "age_timers s =
     (let s = (if m_clocks_till_idle s \<noteq> 0 then s\<lparr>m_clocks_till_idle := m_clocks_till_idle s - 1\<rparr> else s)
      in if m_fail s > 0 then
           let s = s\<lparr>m_fail := m_fail s - 1\<rparr> in if m_fail s = 0 then Inl Exited else Inr s
         else Inr s)"

definition sdram_age :: "sdramsim \<Rightarrow> fault + sdramsim" where
  "sdram_age s =
     (let s = age_refresh s in
      if m_refresh_time s (m_refresh_loc s) < 0 then Inl Assertion
      else
        let s = age_banks s in
        if \<exists>i\<in>{0, 1, 2, 3}. m_bank_status s i AND 1 \<noteq> 0 \<and> m_bank_open_time s i < 0 then Inl Assertion
        else age_timers s)"

definition in_mem :: "u32 \<Rightarrow> bool" where
  "in_mem a \<longleftrightarrow> unat a < SDRAMSZB div 2"

definition merge_dqm :: "u16 \<Rightarrow> u16 \<Rightarrow> u16 \<Rightarrow> u16" where
  "merge_dqm q memval data =
     (if q AND 3 = 0 then data else if q AND 3 = 3 then memval
      else if q AND 2 = 0 then (memval AND 0x00ff) OR (data AND 0xff00)
      else (memval AND 0xff00) OR (data AND 0x00ff))"

definition sdram_second_write :: "sdpins \<Rightarrow> sdramsim \<Rightarrow> fault + sdramsim" where
  "sdram_second_write p s =
     (if m_clocks_till_idle s > 0 \<and> m_next_wr s then
        let waddr = m_wr_addr s; s = s\<lparr>m_wr_addr := m_wr_addr s + 1\<rparr> in
        if \<not> in_mem waddr then Inl Undefined
        else Inr (s\<lparr>m_mem := (m_mem s)(waddr := merge_dqm (dqm p) (m_mem s waddr) (p_data p)), m_next_wr := False\<rparr>)
      else Inr s)"

definition sdram_output :: "sdpins \<Rightarrow> sdramsim \<Rightarrow> u16 \<times> sdramsim" where
  "sdram_output p s =
     (let s = s\<lparr>m_qloc := (m_qloc s + 1) AND m_qmask s\<rparr>;
          q = m_qloc s AND m_qmask s;
          result = (if driv p then p_data p else m_qdata s q)
      in (result, s\<lparr>m_qdata := (m_qdata s)(q := 0)\<rparr>))"

definition set_bank :: "u32 \<Rightarrow> u32 \<Rightarrow> sdramsim \<Rightarrow> sdramsim" where
  "set_bank b st s = s\<lparr>m_bank_status := (m_bank_status s)(b := st)\<rparr>"

definition auto_precharge :: "sdpins \<Rightarrow> sdramsim \<Rightarrow> sdramsim" where
  "auto_precharge p s =
     (if all_banks p then
        (set_bank (bs p) (m_bank_status s (bs p) AND 3) s)
          \<lparr>m_bank_open_time := (m_bank_open_time s)(bs p := MAX_BANKOPEN_TIME)\<rparr>
      else s)"

definition cell :: "u32 \<Rightarrow> u32 \<Rightarrow> u32 \<Rightarrow> u32" where
  "cell row b col = push_bit 9 (push_bit 2 row OR b) OR (col AND 0x01ff)"

definition sdram_write :: "sdpins \<Rightarrow> sdramsim \<Rightarrow> fault + sdramsim" where
  "sdram_write p s =
     (if bs p AND NOT 3 \<noteq> 0 \<or> m_bank_status s (bs p) AND 1 = 0 \<or> \<not> driv p then Inl Assertion
      else
        let a = cell (m_bank_row s (bs p)) (bs p) (p_addr p) in
        if \<not> in_mem a then Inl Undefined
        else Inr (auto_precharge p
               (s\<lparr>m_mem := (m_mem s)(a := p_data p), m_wr_addr := a + 1, m_clocks_till_idle := 2, m_next_wr := True\<rparr>)))"

definition sdram_read :: "sdpins \<Rightarrow> sdramsim \<Rightarrow> fault + sdramsim" where
  "sdram_read p s =
     (if bs p AND NOT 3 \<noteq> 0 \<or> m_bank_status s (bs p) AND 1 = 0 \<or> driv p then Inl Assertion
      else
        let a = cell (m_bank_row s (bs p) AND 0x01fff) (bs p) (p_addr p) in
        if \<not> in_mem a \<or> \<not> in_mem (a + 1) then Inl Undefined
        else Inr (auto_precharge p
               (s\<lparr>m_qdata := (m_qdata s)((m_qloc s + 3) AND m_qmask s := m_mem s a,
                                       (m_qloc s + 4) AND m_qmask s := m_mem s (a + 1)),
                  m_clocks_till_idle := 2\<rparr>)))"

definition sdram_refresh :: "sdramsim \<Rightarrow> fault + sdramsim" where
  "sdram_refresh s =
     (let s = s\<lparr>m_refresh_time := (m_refresh_time s)(m_refresh_loc s := MAX_REFRESH_TIME)\<rparr>;
          s = s\<lparr>m_refresh_loc := m_refresh_loc s + 1\<rparr>;
          s = (if m_refresh_loc s \<ge> m_nrefresh s then s\<lparr>m_refresh_loc := 0\<rparr> else s)
      in if \<forall>i\<in>{0, 1, 2, 3}. m_bank_status s i AND 6 = 0 then Inr s else Inl Assertion)"

definition sdram_precharge :: "sdpins \<Rightarrow> sdramsim \<Rightarrow> fault + sdramsim" where
  "sdram_precharge p s =
     (if all_banks p then
        Inr (s\<lparr>m_bank_status := (\<lambda>i. if i < 4 then m_bank_status s i AND 3 else m_bank_status s i)\<rparr>)
      else if bs p AND NOT 3 \<noteq> 0 then Inl Assertion
      else Inr (set_bank (bs p) (m_bank_status s (bs p) AND 3) s))"

text \<open>Activating a bank that is not closed only schedules a failure; one out of range is written anyway.\<close>

definition sdram_activate :: "sdpins \<Rightarrow> sdramsim \<Rightarrow> fault + sdramsim" where
  "sdram_activate p s =
     (if bs p AND NOT 3 \<noteq> 0 then Inl Undefined
      else
        let s = (if m_bank_status s (bs p) \<noteq> 0 then s\<lparr>m_fail := 4\<rparr> else s)
        in Inr ((set_bank (bs p) (m_bank_status s (bs p) OR 4) s)
             \<lparr>m_bank_open_time := (m_bank_open_time s)(bs p := MAX_BANKOPEN_TIME),
              m_bank_row := (m_bank_row s)(bs p := p_addr p)\<rparr>))"

definition sdram_command :: "sdpins \<Rightarrow> sdramsim \<Rightarrow> fault + sdramsim" where
  "sdram_command p s =
     (if is_refresh p then sdram_refresh s
      else if is_precharge p then sdram_precharge p s
      else if is_activate p then sdram_activate p s
      else if is_write p then sdram_write p s
      else if is_read p then sdram_read p s
      else if is_noop p then Inr s
      else Inl Assertion)"

definition sdram_operate :: "sdpins \<Rightarrow> sdramsim \<Rightarrow> fault + (u16 \<times> sdramsim)" where
  "sdram_operate p s =
     (case sdram_age s of
        Inl e \<Rightarrow> Inl e
      | Inr s \<Rightarrow>
          (case sdram_second_write p s of
             Inl e \<Rightarrow> Inl e
           | Inr s \<Rightarrow>
               (case sdram_output p s of (result, s) \<Rightarrow> map_sum id (\<lambda>s. (result, s)) (sdram_command p s))))"

definition sdram_tick :: "sdpins \<Rightarrow> sdramsim \<Rightarrow> fault + (u16 \<times> sdramsim)" where
  "sdram_tick p s =
     (if \<not> driv p \<and> \<not> p_clk p then Inr (m_last_value s, s)
      else if \<not> cke p then Inl Assertion
      else if m_pwrup s < POWERED_UP_STATE then
        map_sum id (\<lambda>s. (if driv p then p_data p else 0, s)) (sdram_pwrup p s)
      else sdram_operate p s)"

section \<open>Runs\<close>

fun sdram_run :: "sdpins list \<Rightarrow> sdramsim \<Rightarrow> fault + (u16 list \<times> sdramsim)" where
  "sdram_run [] s = Inr ([], s)"
| "sdram_run (p # ps) s =
     (case sdram_tick p s of
        Inl e \<Rightarrow> Inl e
      | Inr (d, s) \<Rightarrow> map_sum id (\<lambda>(ds, s). (d # ds, s)) (sdram_run ps s))"

lemma sdram_run_snoc:
  "sdram_run (ps @ [p]) s = (case sdram_run ps s of
     Inl e \<Rightarrow> Inl e
   | Inr (ds, s) \<Rightarrow> map_sum id (\<lambda>(d, s). (ds @ [d], s)) (sdram_tick p s))"
proof (induction ps arbitrary: s)
  case (Cons q qs)
  show ?case
  proof (cases "sdram_tick q s")
    case (Inr r)
    obtain d s1 where r: "r = (d, s1)" by force
    show ?thesis
    proof (cases "sdram_run qs s1")
      case (Inr r2)
      obtain ds s2 where "r2 = (ds, s2)" by force
      then show ?thesis using \<open>sdram_tick q s = Inr r\<close> r Inr Cons [of s1]
        by (cases "sdram_tick p s2") (auto split: prod.splits)
    qed (use Inr r Cons [of s1] in simp)
  qed simp
qed (simp add: map_sum_def split: sum.splits prod.splits)

section \<open>The power-up sequence\<close>

text \<open>What the inputs so far must have contained for the power-up state that has been reached.\<close>

definition powerup_log :: "sdpins list \<Rightarrow> sdramsim \<Rightarrow> bool" where
  "powerup_log ps s \<longleftrightarrow>
     (m_pwrup s = 0 \<longrightarrow> PWRUP_WAIT_CKS \<le> m_clocks_till_idle s + length ps)
   \<and> (1 \<le> m_pwrup s \<longrightarrow> PWRUP_WAIT_CKS \<le> length ps)
   \<and> (2 \<le> m_pwrup s \<longrightarrow> (\<exists>p\<in>set ps. is_precharge p \<and> all_banks p))
   \<and> (mode_is_set s \<longrightarrow> (\<exists>p\<in>set ps. is_mode_set p \<and> p_addr p = 0x021))
   \<and> refresh_cycles s \<le> length (filter is_refresh ps)
   \<and> (3 \<le> m_pwrup s \<longrightarrow> mode_is_set s \<and> 8 \<le> refresh_cycles s)"

lemma powerup_log_mono:
  assumes "powerup_log ps s" "m_pwrup s' = m_pwrup s" "mode_is_set s' = mode_is_set s"
    "refresh_cycles s' = refresh_cycles s" "m_clocks_till_idle s \<le> Suc (m_clocks_till_idle s')"
  shows "powerup_log (ps @ [p]) s'"
  using assms by (auto simp: powerup_log_def)

lemma powerup_log_pwrup:
  assumes "powerup_log ps s" "m_pwrup s < POWERED_UP_STATE" "sdram_pwrup p s = Inr s'"
  shows "powerup_log (ps @ [p]) s'"
  using assms
  by (auto simp: powerup_log_def sdram_pwrup_def Let_def fresh_refresh_def POWERED_UP_STATE_def split: if_splits)

text \<open>What operating never touches.\<close>

definition same_setup :: "sdramsim \<Rightarrow> sdramsim \<Rightarrow> bool" where
  "same_setup s s' \<longleftrightarrow> m_pwrup s' = m_pwrup s \<and> mode_is_set s' = mode_is_set s \<and> refresh_cycles s' = refresh_cycles s
     \<and> m_qmask s' = m_qmask s \<and> m_nrefresh s' = m_nrefresh s"

lemma age_frame:
  "same_setup s (age_refresh s)" "m_qloc (age_refresh s) = m_qloc s" "m_qdata (age_refresh s) = m_qdata s"
  "m_mem (age_refresh s) = m_mem s" "m_bank_row (age_refresh s) = m_bank_row s" "m_bank_status (age_refresh s) = m_bank_status s"
  "same_setup s (age_banks s')  = same_setup s s'" "m_qloc (age_banks s) = m_qloc s" "m_qdata (age_banks s) = m_qdata s"
  "m_mem (age_banks s) = m_mem s" "m_bank_row (age_banks s) = m_bank_row s"
  by (simp_all add: age_refresh_def age_banks_def same_setup_def Let_def)

lemma age_timers_frame:
  "age_timers s' = Inr s'' \<Longrightarrow> same_setup s s'' = same_setup s s' \<and> m_qloc s'' = m_qloc s' \<and> m_qdata s'' = m_qdata s'
    \<and> m_mem s'' = m_mem s' \<and> m_bank_row s'' = m_bank_row s' \<and> m_bank_status s'' = m_bank_status s'"
  by (auto simp: age_timers_def Let_def same_setup_def split: if_splits)

lemma sdram_age_Inr: "sdram_age s = Inr s' \<Longrightarrow> age_timers (age_banks (age_refresh s)) = Inr s'"
  unfolding sdram_age_def Let_def by (simp split: if_splits)

lemma same_age: "sdram_age s = Inr s' \<Longrightarrow> same_setup s s' \<and> m_qloc s' = m_qloc s \<and> m_qdata s' = m_qdata s
    \<and> m_mem s' = m_mem s \<and> m_bank_row s' = m_bank_row s"
  using age_timers_frame [of "age_banks (age_refresh s)" s' s, OF sdram_age_Inr] by (simp add: age_frame)

lemma same_second_write: "sdram_second_write p s = Inr s' \<Longrightarrow> same_setup s s' \<and> m_qloc s' = m_qloc s
    \<and> m_qdata s' = m_qdata s \<and> m_bank_row s' = m_bank_row s \<and> m_bank_status s' = m_bank_status s"
  by (auto simp: sdram_second_write_def Let_def same_setup_def split: if_splits)

lemma same_auto: "same_setup s (auto_precharge p s') = same_setup s s'" "m_qloc (auto_precharge p s) = m_qloc s"
  "m_qdata (auto_precharge p s) = m_qdata s" "m_mem (auto_precharge p s) = m_mem s"
  by (auto simp: auto_precharge_def set_bank_def same_setup_def)

definition steady :: "sdramsim \<Rightarrow> sdramsim \<Rightarrow> bool" where
  "steady s s' \<longleftrightarrow> same_setup s s' \<and> m_qloc s' = m_qloc s"

lemma steady_auto [simp]: "steady s (auto_precharge p s') = steady s s'"
  by (auto simp: steady_def same_auto)

lemma steady_commands:
  "sdram_refresh s = Inr s' \<Longrightarrow> steady s s' \<and> m_qdata s' = m_qdata s"
  "sdram_precharge p s = Inr s' \<Longrightarrow> steady s s' \<and> m_qdata s' = m_qdata s"
  "sdram_activate p s = Inr s' \<Longrightarrow> steady s s' \<and> m_qdata s' = m_qdata s"
  "sdram_write p s = Inr s' \<Longrightarrow> steady s s' \<and> m_qdata s' = m_qdata s"
  "sdram_read p s = Inr s' \<Longrightarrow> steady s s'"
  subgoal by (auto simp: sdram_refresh_def Let_def steady_def same_setup_def split: if_splits)
  subgoal by (auto simp: sdram_precharge_def set_bank_def steady_def same_setup_def split: if_splits)
  subgoal by (auto simp: sdram_activate_def set_bank_def steady_def same_setup_def split: if_splits)
  subgoal by (auto simp: sdram_write_def Let_def same_auto split: if_splits) (auto simp: steady_def same_setup_def)
  subgoal by (auto simp: sdram_read_def Let_def split: if_splits) (auto simp: steady_def same_setup_def)
  done

lemma same_command: "sdram_command p s = Inr s' \<Longrightarrow> same_setup s s' \<and> m_qloc s' = m_qloc s
    \<and> (\<not> is_read p \<longrightarrow> m_qdata s' = m_qdata s)"
  using steady_commands(1) [of s s'] steady_commands(2-5) [of p s s']
  unfolding sdram_command_def steady_def
  by (auto simp: same_setup_def split: if_splits)

lemma same_output: "sdram_output p s = (d, s') \<Longrightarrow> same_setup s s' \<and> m_bank_status s' = m_bank_status s
    \<and> m_bank_row s' = m_bank_row s \<and> m_mem s' = m_mem s"
  by (auto simp: sdram_output_def Let_def same_setup_def)

lemma same_setup_trans: "same_setup s s1 \<Longrightarrow> same_setup s1 s2 \<Longrightarrow> same_setup s s2"
  by (simp add: same_setup_def)

lemma same_operate: "sdram_operate p s = Inr (d, s') \<Longrightarrow> same_setup s s'"
  unfolding sdram_operate_def
  by (auto split: sum.splits prod.splits simp: map_sum_def
      dest!: same_age same_second_write same_output same_command intro: same_setup_trans)

lemma powerup_log_tick:
  assumes "powerup_log ps s" "sdram_tick p s = Inr (d, s')"
  shows "powerup_log (ps @ [p]) s'"
proof (cases "\<not> driv p \<and> \<not> p_clk p")
  case True
  then show ?thesis using assms powerup_log_mono [OF assms(1), of s] by (auto simp: sdram_tick_def)
next
  case False
  show ?thesis
  proof (cases "m_pwrup s < POWERED_UP_STATE")
    case True
    then show ?thesis
      using False assms powerup_log_pwrup [OF assms(1) True, of p s'] by (auto simp: sdram_tick_def split: if_splits)
  next
    case up: False
    then have "sdram_operate p s = Inr (d, s')" using False assms(2) by (auto simp: sdram_tick_def split: if_splits)
    then have "same_setup s s'" by (rule same_operate)
    then show ?thesis using assms(1) up by (auto simp: same_setup_def powerup_log_def POWERED_UP_STATE_def)
  qed
qed

lemma powerup_log_run:
  assumes "sdramsim_init raw = Some s0" "sdram_run ps s0 = Inr (ds, s)"
  shows "powerup_log ps s"
  using assms(2)
proof (induction ps arbitrary: ds s rule: rev_induct)
  case Nil
  then show ?case using assms(1) by (auto simp: sdramsim_init_def powerup_log_def split: if_splits)
next
  case (snoc p ps)
  then obtain ds1 s1 d where "sdram_run ps s0 = Inr (ds1, s1)" "sdram_tick p s1 = Inr (d, s)"
    by (auto simp: sdram_run_snoc split: sum.splits)
  then show ?case using snoc.IH powerup_log_tick by blast
qed

text \<open>The sequence a controller drives.\<close>

definition sd_idle :: sdpins where
  "sd_idle = \<lparr>p_clk = True, cke = True, cs_n = True, ras_n = True, cas_n = True, we_n = True, bs = 0,
     p_addr = 0, driv = False, p_data = 0, dqm = 3\<rparr>"

definition sd_precharge_all :: sdpins where
  "sd_precharge_all = sd_idle\<lparr>cs_n := False, ras_n := False, we_n := False, p_addr := 0x400\<rparr>"

definition sd_mode_set :: sdpins where
  "sd_mode_set = sd_idle\<lparr>cs_n := False, ras_n := False, cas_n := False, we_n := False, p_addr := 0x021\<rparr>"

definition sd_refresh :: sdpins where
  "sd_refresh = sd_idle\<lparr>cs_n := False, ras_n := False, cas_n := False\<rparr>"

definition powerup_inputs :: "sdpins list" where
  "powerup_inputs = replicate 20000 sd_idle @ [sd_precharge_all, sd_mode_set] @ replicate 8 sd_refresh @ [sd_idle, sd_idle]"

lemmas sd_pin_defs = sd_idle_def sd_precharge_all_def sd_mode_set_def sd_refresh_def
  is_mode_set_def is_refresh_def is_precharge_def is_activate_def is_write_def is_read_def is_noop_def all_banks_def

lemma sdram_run_append:
  "sdram_run (ps @ qs) s = (case sdram_run ps s of
     Inl e \<Rightarrow> Inl e
   | Inr (ds, s) \<Rightarrow> map_sum id (\<lambda>(es, s). (ds @ es, s)) (sdram_run qs s))"
  by (induction ps arbitrary: s) (auto split: sum.splits prod.splits simp: map_sum_def)

lemma powerup_wait:
  "m_pwrup s = 0 \<Longrightarrow> m_clocks_till_idle s = Suc n \<Longrightarrow>
     \<exists>ds. sdram_run (replicate (Suc n) sd_idle) s
       = Inr (ds, s\<lparr>m_clocks_till_idle := 0, m_pwrup := 1, m_next_wr := False\<rparr>)"
proof (induction n arbitrary: s)
  case 0
  then show ?case by (simp add: sdram_tick_def sdram_pwrup_def sd_idle_def POWERED_UP_STATE_def)
next
  case (Suc n)
  have "sdram_tick sd_idle s = Inr (0, s\<lparr>m_clocks_till_idle := Suc n, m_next_wr := False\<rparr>)"
    using Suc.prems by (simp add: sdram_tick_def sdram_pwrup_def sd_idle_def POWERED_UP_STATE_def)
  then show ?case
    using Suc.prems Suc.IH [of "s\<lparr>m_clocks_till_idle := Suc n, m_next_wr := False\<rparr>"]
    by (subst replicate_Suc, subst sdram_run.simps) (auto simp del: replicate_Suc)
qed

lemma sdram_run_Cons:
  "sdram_tick p s = Inr (d, s') \<Longrightarrow> \<exists>ds. sdram_run ps s' = Inr (ds, s'') \<Longrightarrow> \<exists>ds. sdram_run (p # ps) s = Inr (ds, s'')"
  by auto

lemma powerup_commands:
  assumes "m_pwrup s = 1" "m_clocks_till_idle s = 0" "\<not> mode_is_set s" "refresh_cycles s = 0"
  shows "\<exists>ds s'. sdram_run ([sd_precharge_all, sd_mode_set] @ replicate 8 sd_refresh @ [sd_idle, sd_idle]) s = Inr (ds, s')
    \<and> m_pwrup s' = POWERED_UP_STATE \<and> m_bank_status s' = m_bank_status s"
proof -
  have r: "replicate 8 sd_refresh = [sd_refresh, sd_refresh, sd_refresh, sd_refresh, sd_refresh, sd_refresh, sd_refresh, sd_refresh]"
    by (simp add: numeral_eq_Suc)
  show ?thesis
    unfolding r
    using assms by (simp add: sdram_tick_def sdram_pwrup_def sd_pin_defs POWERED_UP_STATE_def fresh_refresh_def Let_def)
qed

lemma powerup_inputs_run:
  assumes "sdramsim_init raw = Some s0"
  shows "\<exists>ds s. sdram_run powerup_inputs s0 = Inr (ds, s) \<and> m_pwrup s = POWERED_UP_STATE
    \<and> m_bank_status s = m_bank_status raw"
proof -
  let ?s1 = "s0\<lparr>m_clocks_till_idle := 0, m_pwrup := 1, m_next_wr := False\<rparr>"
  have s0: "m_pwrup s0 = 0" "m_clocks_till_idle s0 = Suc 19999" "\<not> mode_is_set s0" "refresh_cycles s0 = 0"
    "m_bank_status s0 = m_bank_status raw"
    using assms by (auto simp: sdramsim_init_def PWRUP_WAIT_CKS_def split: if_splits)
  obtain ds1 where 1: "sdram_run (replicate (Suc 19999) sd_idle) s0 = Inr (ds1, ?s1)"
    using powerup_wait [OF s0(1,2)] by blast
  let ?cmds = "[sd_precharge_all, sd_mode_set] @ replicate 8 sd_refresh @ [sd_idle, sd_idle]"
  have banks: "m_bank_status ?s1 = m_bank_status raw" by (simp add: s0)
  have "\<exists>ds s'. sdram_run ?cmds ?s1 = Inr (ds, s') \<and> m_pwrup s' = POWERED_UP_STATE \<and> m_bank_status s' = m_bank_status ?s1"
    by (rule powerup_commands) (simp_all add: s0)
  then obtain ds2 s2 where 2: "sdram_run ?cmds ?s1 = Inr (ds2, s2)"
    "m_pwrup s2 = POWERED_UP_STATE" "m_bank_status s2 = m_bank_status raw"
    unfolding banks by blast
  have e: "powerup_inputs = replicate (Suc 19999) sd_idle
      @ ([sd_precharge_all, sd_mode_set] @ replicate 8 sd_refresh @ [sd_idle, sd_idle])"
    unfolding powerup_inputs_def by (rule arg_cong [of "20000::nat"]) simp
  show ?thesis
    unfolding e sdram_run_append [of _ ?cmds] 1 by (simp only: sum.case prod.case 2(1) map_sum.simps) (use 2 in simp)
qed

definition sd_up :: sdramsim where
  "sd_up = \<lparr>m_pwrup = POWERED_UP_STATE, m_mem = (\<lambda>_. 0), m_last_value = 0, m_bank_status = (\<lambda>_. 0), m_bank_row = (\<lambda>_. 0),
     m_bank_open_time = (\<lambda>_. 0), m_refresh_time = (\<lambda>_. 6400000), m_refresh_loc = 0, m_nrefresh = 4096, m_qloc = 0,
     m_qdata = (\<lambda>_. 0), m_qmask = 15, m_wr_addr = 0, m_clocks_till_idle = 0, m_next_wr = False, m_fail = 0,
     mode_is_set = True, refresh_cycles = 8\<rparr>"

text \<open>
  C9: the SDRAM comes up only after its power-up sequence.  Any sequence of inputs that brings a new
  device into operation without a fault is at least the required 20000 clocks long, has a precharge
  of all banks, the one permitted mode set, and eight refreshes.
\<close>
theorem powerup_sequence_required:
  assumes "sdramsim_init raw = Some s0" "sdram_run ps s0 = Inr (ds, s)" "m_pwrup s = POWERED_UP_STATE"
  shows "PWRUP_WAIT_CKS \<le> length ps \<and> (\<exists>p\<in>set ps. is_precharge p \<and> all_banks p)
    \<and> (\<exists>p\<in>set ps. is_mode_set p \<and> p_addr p = 0x021) \<and> 8 \<le> length (filter is_refresh ps)"
  using powerup_log_run [OF assms(1,2)] assms(3) by (auto simp: powerup_log_def POWERED_UP_STATE_def)

lemma powerup_sequence_required_witness:
  "PWRUP_WAIT_CKS \<le> length powerup_inputs \<and> (\<exists>p\<in>set powerup_inputs. is_precharge p \<and> all_banks p)
    \<and> (\<exists>p\<in>set powerup_inputs. is_mode_set p \<and> p_addr p = 0x021) \<and> 8 \<le> length (filter is_refresh powerup_inputs)"
proof -
  let ?raw = "sd_up"
  have "sdramsim_init ?raw \<noteq> None" by (simp add: sdramsim_init_def sd_up_def)
  then obtain s0 where s0: "sdramsim_init ?raw = Some s0" by blast
  obtain ds s where "sdram_run powerup_inputs s0 = Inr (ds, s)" "m_pwrup s = POWERED_UP_STATE"
    using powerup_inputs_run [OF s0] by blast
  then show ?thesis by (rule powerup_sequence_required [OF s0])
qed

section \<open>Reading back what was written\<close>

definition sd_select :: "u32 \<Rightarrow> u32 \<Rightarrow> sdpins" where
  "sd_select b a = sd_idle\<lparr>cs_n := False, bs := b, p_addr := a\<rparr>"

definition sd_activate :: "u32 \<Rightarrow> u32 \<Rightarrow> sdpins" where
  "sd_activate b row = (sd_select b row)\<lparr>ras_n := False\<rparr>"

definition sd_write :: "u32 \<Rightarrow> u32 \<Rightarrow> u16 \<Rightarrow> sdpins" where
  "sd_write b col d = (sd_select b col)\<lparr>cas_n := False, we_n := False, driv := True, p_data := d, dqm := 0\<rparr>"

definition sd_write_next :: "u16 \<Rightarrow> sdpins" where
  "sd_write_next d = sd_idle\<lparr>driv := True, p_data := d, dqm := 0\<rparr>"

definition sd_read :: "u32 \<Rightarrow> u32 \<Rightarrow> sdpins" where
  "sd_read b col = (sd_select b col)\<lparr>cas_n := False\<rparr>"

text \<open>What is known of a device in operation with at most one bank in use.\<close>

definition one_bank :: "u32 \<Rightarrow> u32 \<Rightarrow> int \<Rightarrow> sdramsim \<Rightarrow> bool" where
  "one_bank b st t s \<longleftrightarrow> m_pwrup s = POWERED_UP_STATE \<and> m_fail s = 0 \<and> m_qmask s = 15
     \<and> m_bank_status s b = st \<and> (\<forall>i\<in>{0, 1, 2, 3}. i \<noteq> b \<longrightarrow> m_bank_status s i = 0) \<and> m_bank_open_time s b = t"

lemma bank_shift_0 [simp]: "bank_shift 0 = 0" by (simp add: bank_shift_def)

lemma bank_lt_4: "(b::u32) < 4 \<longleftrightarrow> b \<in> {0, 1, 2, 3}"
  by (auto simp: word_less_nat_alt word_unat_eq_iff)

lemma age_banks_at:
  "b < 4 \<Longrightarrow> m_bank_status (age_banks s) b = bank_shift (m_bank_status s b)"
  "b < 4 \<Longrightarrow> m_bank_open_time (age_banks s) b
     = (if bank_shift (m_bank_status s b) AND 1 \<noteq> 0 then m_bank_open_time s b - 1 else m_bank_open_time s b)"
  "m_pwrup (age_banks s) = m_pwrup s" "m_fail (age_banks s) = m_fail s" "m_qmask (age_banks s) = m_qmask s"
  "m_clocks_till_idle (age_banks s) = m_clocks_till_idle s" "m_next_wr (age_banks s) = m_next_wr s"
  "m_wr_addr (age_banks s) = m_wr_addr s" "m_qloc (age_banks s) = m_qloc s" "m_qdata (age_banks s) = m_qdata s"
  "m_mem (age_banks s) = m_mem s" "m_bank_row (age_banks s) = m_bank_row s"
  by (simp_all add: age_banks_def Let_def)

lemma one_bank_age:
  assumes "one_bank b st t s" "b < 4" "bank_shift st AND 1 \<noteq> 0 \<Longrightarrow> 0 < t"
  shows "\<exists>s'. sdram_age s = Inr s' \<and> one_bank b (bank_shift st) (if bank_shift st AND 1 \<noteq> 0 then t - 1 else t) s'
    \<and> m_clocks_till_idle s' = m_clocks_till_idle s - 1 \<and> m_next_wr s' = m_next_wr s \<and> m_wr_addr s' = m_wr_addr s
    \<and> m_qloc s' = m_qloc s \<and> m_qdata s' = m_qdata s \<and> m_mem s' = m_mem s \<and> m_bank_row s' = m_bank_row s"
proof -
  let ?s1 = "age_refresh s"
  let ?s2 = "age_banks ?s1"
  note inv = assms(1) [unfolded one_bank_def]
  have one: "m_bank_status ?s2 b = bank_shift st"
    "m_bank_open_time ?s2 b = (if bank_shift st AND 1 \<noteq> 0 then t - 1 else t)"
    using inv \<open>b < 4\<close> by (simp_all add: age_banks_at age_refresh_def)
  have others: "\<forall>i\<in>{0, 1, 2, 3}. i \<noteq> b \<longrightarrow> m_bank_status ?s2 i = 0"
  proof (intro ballI impI)
    fix i :: u32 assume i: "i \<in> {0, 1, 2, 3}" "i \<noteq> b"
    then have "m_bank_status s i = 0" using inv by blast
    moreover have "i < 4" using i(1) by (simp add: bank_lt_4)
    ultimately show "m_bank_status ?s2 i = 0" by (simp add: age_banks_at age_refresh_def)
  qed
  have no: "\<not> (\<exists>i\<in>{0, 1, 2, 3}. m_bank_status ?s2 i AND 1 \<noteq> 0 \<and> m_bank_open_time ?s2 i < 0)"
  proof
    assume "\<exists>i\<in>{0, 1, 2, 3}. m_bank_status ?s2 i AND 1 \<noteq> 0 \<and> m_bank_open_time ?s2 i < 0"
    then obtain i where i: "i \<in> {0, 1, 2, 3}" "m_bank_status ?s2 i AND 1 \<noteq> 0" "m_bank_open_time ?s2 i < 0" by blast
    then have "i = b" using others by (metis and.left_neutral and_zero_eq bit.conj_zero_left)
    then show False using i(2,3) one assms(3) by (simp split: if_splits)
  qed
  have "sdram_age s = age_timers ?s2"
    unfolding sdram_age_def Let_def if_not_P [OF no] by simp
  moreover have "age_timers ?s2 = Inr (?s2\<lparr>m_clocks_till_idle := m_clocks_till_idle s - 1\<rparr>)"
    using inv by (simp add: age_timers_def age_banks_at age_refresh_def Let_def)
  ultimately show ?thesis
    using one others inv by (simp add: one_bank_def age_banks_at age_refresh_def)
qed

text \<open>One clock, up to the command.\<close>

definition second_half :: "sdramsim \<Rightarrow> bool" where
  "second_half s \<longleftrightarrow> m_clocks_till_idle s > 1 \<and> m_next_wr s"

lemma one_bank_operate:
  assumes "one_bank b st t s" "b < 4" "bank_shift st AND 1 \<noteq> 0 \<Longrightarrow> 0 < t"
    "second_half s \<Longrightarrow> in_mem (m_wr_addr s) \<and> dqm p = 0"
  shows "\<exists>s'. sdram_operate p s = map_sum id (Pair (if driv p then p_data p else m_qdata s (m_qloc s'))) (sdram_command p s')
    \<and> one_bank b (bank_shift st) (if bank_shift st AND 1 \<noteq> 0 then t - 1 else t) s'
    \<and> m_next_wr s' = (m_next_wr s \<and> \<not> second_half s) \<and> m_qloc s' = (m_qloc s + 1) AND 15
    \<and> m_clocks_till_idle s' = m_clocks_till_idle s - 1 \<and> m_qdata s' = (m_qdata s)(m_qloc s' := 0)
    \<and> m_mem s' = (if second_half s then (m_mem s)(m_wr_addr s := p_data p) else m_mem s) \<and> m_bank_row s' = m_bank_row s"
proof -
  obtain s1 where s1: "sdram_age s = Inr s1" "one_bank b (bank_shift st) (if bank_shift st AND 1 \<noteq> 0 then t - 1 else t) s1"
    "m_clocks_till_idle s1 = m_clocks_till_idle s - 1" "m_next_wr s1 = m_next_wr s" "m_wr_addr s1 = m_wr_addr s"
    "m_qloc s1 = m_qloc s" "m_qdata s1 = m_qdata s" "m_mem s1 = m_mem s" "m_bank_row s1 = m_bank_row s"
    using one_bank_age [OF assms(1-3)] by blast
  let ?s2 = "if second_half s then s1\<lparr>m_wr_addr := m_wr_addr s + 1, m_mem := (m_mem s)(m_wr_addr s := p_data p), m_next_wr := False\<rparr>
    else s1"
  have 1: "sdram_second_write p s1 = Inr ?s2"
    using assms(4) s1 by (auto simp: sdram_second_write_def second_half_def Let_def merge_dqm_def)
  have q: "m_qmask ?s2 = 15" "m_qloc ?s2 = m_qloc s" "m_qdata ?s2 = m_qdata s" using s1 by (auto simp: one_bank_def)
  let ?q = "(m_qloc s + 1) AND 15"
  let ?s3 = "?s2\<lparr>m_qloc := ?q, m_qdata := (m_qdata s)(?q := 0)\<rparr>"
  have "sdram_output p ?s2 = (if driv p then p_data p else m_qdata s ?q, ?s3)"
    using q by (simp add: sdram_output_def Let_def and.assoc)
  then have "sdram_operate p s = map_sum id (Pair (if driv p then p_data p else m_qdata s ?q)) (sdram_command p ?s3)"
    using s1(1) 1 by (simp add: sdram_operate_def)
  then show ?thesis
    using s1 by (intro exI [of _ ?s3]) (auto simp: one_bank_def)
qed

lemma tick_operates: "p_clk p \<Longrightarrow> cke p \<Longrightarrow> one_bank b st t s \<Longrightarrow> sdram_tick p s = sdram_operate p s"
  by (simp add: sdram_tick_def one_bank_def)

lemmas sd_cmd_defs = sd_pin_defs sd_select_def sd_activate_def sd_write_def sd_write_next_def sd_read_def

lemma tick_idle:
  assumes "one_bank b st t s" "b < 4" "bank_shift st AND 1 \<noteq> 0 \<Longrightarrow> 0 < t" "\<not> second_half s"
  shows "\<exists>s'. sdram_tick sd_idle s = Inr (m_qdata s (m_qloc s'), s')
    \<and> one_bank b (bank_shift st) (if bank_shift st AND 1 \<noteq> 0 then t - 1 else t) s' \<and> \<not> second_half s'
    \<and> m_qloc s' = (m_qloc s + 1) AND 15 \<and> m_qdata s' = (m_qdata s)(m_qloc s' := 0)
    \<and> m_mem s' = m_mem s \<and> m_bank_row s' = m_bank_row s"
  using one_bank_operate [OF assms(1-3), of sd_idle] assms(4) tick_operates [of sd_idle, OF _ _ assms(1)]
  by (auto simp: sdram_command_def sd_pin_defs second_half_def)

lemma tick_activate:
  assumes "one_bank b 0 t s" "b < 4" "\<not> second_half s"
  shows "\<exists>d s'. sdram_tick (sd_activate b row) s = Inr (d, s') \<and> one_bank b 4 MAX_BANKOPEN_TIME s'
    \<and> \<not> second_half s' \<and> m_mem s' = m_mem s \<and> m_bank_row s' b = row"
proof -
  have "bank_shift 0 AND 1 = 0" by simp
  then obtain s' d where "sdram_operate (sd_activate b row) s = map_sum id (Pair d) (sdram_command (sd_activate b row) s')"
    "one_bank b 0 t s'" "\<not> second_half s'" "m_mem s' = m_mem s"
    using one_bank_operate [OF assms(1,2), of "sd_activate b row"] assms(3) by (auto simp: second_half_def)
  moreover have "b AND NOT 3 = 0" using assms(2) by (auto simp: bank_lt_4)
  ultimately show ?thesis
    using tick_operates [of "sd_activate b row", OF _ _ assms(1)]
    by (simp add: sdram_command_def sdram_activate_def set_bank_def sd_cmd_defs one_bank_def second_half_def Let_def)
qed

lemma tick_write:
  assumes "one_bank b 6 t s" "b < 4" "0 < t" "\<not> second_half s" "col AND 0x400 = 0"
    "m_bank_row s b = row" "in_mem (cell row b col)"
  shows "\<exists>e s'. sdram_tick (sd_write b col d) s = Inr (e, s') \<and> one_bank b 7 (t - 1) s'
    \<and> second_half s' \<and> m_wr_addr s' = cell row b col + 1 \<and> m_mem s' = (m_mem s)(cell row b col := d) \<and> m_bank_row s' b = row"
proof -
  have 6: "bank_shift 6 = 7" by (simp add: bank_shift_def)
  obtain s' where "sdram_operate (sd_write b col d) s = map_sum id (Pair d) (sdram_command (sd_write b col d) s')"
    "one_bank b 7 (t - 1) s'" "m_mem s' = m_mem s" "m_bank_row s' = m_bank_row s"
    using one_bank_operate [OF assms(1-3), of "sd_write b col d"] assms(4) 6 by (auto simp: second_half_def sd_cmd_defs)
  moreover have "b AND NOT 3 = 0" using assms(2) by (auto simp: bank_lt_4)
  ultimately show ?thesis
    using tick_operates [of "sd_write b col d", OF _ _ assms(1)] assms(5-)
    by (simp add: sdram_command_def sdram_write_def auto_precharge_def sd_cmd_defs one_bank_def second_half_def Let_def)
qed

lemma tick_write_next:
  assumes "one_bank b 7 t s" "b < 4" "0 < t" "second_half s" "in_mem (m_wr_addr s)"
  shows "\<exists>e s'. sdram_tick (sd_write_next d) s = Inr (e, s') \<and> one_bank b 7 (t - 1) s'
    \<and> \<not> m_next_wr s' \<and> m_mem s' = (m_mem s)(m_wr_addr s := d) \<and> m_bank_row s' = m_bank_row s"
proof -
  have 7: "bank_shift 7 = 7" by (simp add: bank_shift_def)
  show ?thesis
  using one_bank_operate [OF assms(1-3), of "sd_write_next d"] assms(4,5) 7
    tick_operates [of "sd_write_next d", OF _ _ assms(1)]
  by (auto simp: second_half_def sd_cmd_defs sdram_command_def)
qed

text \<open>The slots of the output queue around its read position.\<close>

lemma take_bit_add_left: "take_bit n (take_bit n a + b) = take_bit n (a + b :: 'a::len word)"
  using take_bit_add_word [of n "take_bit n a" b] take_bit_add_word [of n a b] by simp

lemma queue_slot:
  fixes q :: u32
  shows "((q + k AND 15) + 1) AND 15 = q + (k + 1) AND 15"
    "(q + k AND 15) = (q + l AND 15) \<longleftrightarrow> take_bit 4 (k - l) = 0"
    "((q AND 15) + k) AND 15 = q + k AND 15"
  using take_bit_diff_eq_iff [of 4 "q + k" "q + l" 0]
  unfolding and_mask_take_bit take_bit_add_left by (simp_all add: add.assoc)

lemma tick_read:
  assumes "one_bank b 7 t s" "b < 4" "0 < t" "\<not> m_next_wr s" "col AND 0x400 = 0" "m_bank_row s b = row"
    "row AND 0x1fff = row" "in_mem (cell row b col)" "in_mem (cell row b col + 1)"
  shows "\<exists>e s' q. sdram_tick (sd_read b col) s = Inr (e, s') \<and> one_bank b 7 (t - 1) s' \<and> \<not> m_next_wr s'
    \<and> m_qloc s' = q + 0 AND 15 \<and> m_qdata s' (q + 3 AND 15) = m_mem s (cell row b col)
    \<and> m_qdata s' (q + 4 AND 15) = m_mem s (cell row b col + 1) \<and> m_mem s' = m_mem s"
proof -
  have 7: "bank_shift 7 = 7" by (simp add: bank_shift_def)
  have ns: "\<not> second_half s" using assms(4) by (simp add: second_half_def)
  have nd: "\<not> driv (sd_read b col)" by (simp add: sd_cmd_defs)
  obtain s' d where s': "sdram_operate (sd_read b col) s = map_sum id (Pair d) (sdram_command (sd_read b col) s')"
    "one_bank b 7 (t - 1) s'" "m_qloc s' = (m_qloc s + 1) AND 15" "m_mem s' = m_mem s" "m_bank_row s' = m_bank_row s" "\<not> m_next_wr s'"
    using one_bank_operate [OF assms(1-3), of "sd_read b col"] ns assms(4) 7 by auto
  have "b AND NOT 3 = 0" using assms(2) by (auto simp: bank_lt_4)
  moreover have "m_qmask s' = 15" using s'(2) by (simp add: one_bank_def)
  ultimately have "sdram_command (sd_read b col) s' = Inr (s'\<lparr>m_qdata := (m_qdata s')
      ((m_qloc s + 1) + 3 AND 15 := m_mem s (cell row b col), (m_qloc s + 1) + 4 AND 15 := m_mem s (cell row b col + 1)),
      m_clocks_till_idle := 2\<rparr>)"
    using assms(5-) s'(2-5)
    by (simp add: sdram_command_def sdram_read_def auto_precharge_def sd_cmd_defs one_bank_def Let_def queue_slot)
  moreover have "(m_qloc s + 1) + 3 AND 15 \<noteq> (m_qloc s + 1) + 4 AND (15::u32)"
    unfolding queue_slot by simp
  ultimately obtain s'' where s'': "sdram_command (sd_read b col) s' = Inr s''"
    "s'' = s'\<lparr>m_qdata := m_qdata s'', m_clocks_till_idle := 2\<rparr>"
    "m_qdata s'' (m_qloc s + 1 + 3 AND 15) = m_mem s (cell row b col)"
    "m_qdata s'' (m_qloc s + 1 + 4 AND 15) = m_mem s (cell row b col + 1)"
    by simp
  have "one_bank b 7 (t - 1) s''" "m_qloc s'' = m_qloc s + 1 + 0 AND 15" "m_mem s'' = m_mem s" "\<not> m_next_wr s''"
    using s' by (subst s''(2), simp add: one_bank_def)+
  moreover have "sdram_tick (sd_read b col) s = Inr (d, s'')"
    using s'(1) s''(1) tick_operates [of "sd_read b col", OF _ _ assms(1)] by (simp add: sd_cmd_defs)
  ultimately show ?thesis using s''(3,4) by blast
qed
lemma take_bit_below: "unat (w::u32) < 2 ^ n \<Longrightarrow> n \<le> 32 \<Longrightarrow> take_bit n w = w"
  by (simp add: word_unat_eq_iff unat_take_bit_u32 take_bit_nat_eq_self_iff)

lemma cell_bounds:
  assumes "b < 4" "row < 0x1000" "col < 0x1ff"
  shows "in_mem (cell row b col)" "in_mem (cell row b col + 1)" "row AND 0x1fff = row" "col AND 0x400 = 0"
proof -
  have m: "x AND 0x1ff = take_bit 9 x" "x AND 0x1fff = take_bit 13 x" for x :: u32
    by (simp_all add: take_bit_eq_mask mask_eq_exp_minus_1)
  have t: "take_bit 2 b = b" "take_bit 12 row = row" "take_bit 9 col = col" "take_bit 13 row = row"
    "take_bit 14 b = b" "take_bit 23 col = col"
    using assms by (simp_all add: take_bit_below word_less_nat_alt)
  let ?a = "cell row b col"
  have "take_bit 23 ?a = ?a"
    unfolding cell_def m by (simp add: take_bit_or take_bit_push_bit t)
  then have "unat (take_bit 23 ?a) = unat ?a" by simp
  then have a: "unat ?a < 2 ^ 23" unfolding unat_take_bit_u32 by (metis mod_less_divisor zero_less_numeral zero_less_power)
  have "take_bit 9 ?a = col"
    unfolding cell_def m by (simp add: take_bit_or take_bit_push_bit t)
  then have "?a \<noteq> 0x7fffff" using assms(3) by auto
  then have "unat ?a \<noteq> 2 ^ 23 - 1" by (simp add: word_unat_eq_iff)
  then have n: "unat ?a + 1 < 2 ^ 23" using a by simp
  then have "unat (?a + 1) = unat ?a + 1" by (simp add: unat_word_ariths(1))
  then show "in_mem ?a" "in_mem (?a + 1)" using a n by (simp_all add: in_mem_def SDRAMSZB_def)
  show "row AND 0x1fff = row" unfolding m by (rule t)
  have "col = col AND 0x1ff" unfolding m using t(3) by simp
  then have "col AND 0x400 = (col AND 0x1ff) AND 0x400" by (rule arg_cong)
  then show "col AND 0x400 = 0" by (simp add: and.assoc)
qed

definition write_read :: "u32 \<Rightarrow> u32 \<Rightarrow> u32 \<Rightarrow> u16 \<Rightarrow> u16 \<Rightarrow> sdpins list" where
  "write_read b row col d0 d1 =
     [sd_activate b row, sd_idle, sd_write b col d0, sd_write_next d1, sd_read b col, sd_idle, sd_idle, sd_idle, sd_idle]"

lemma idle_open:
  assumes "one_bank b 7 t s" "b < 4" "0 < t" "\<not> m_next_wr s" "m_qloc s = q + k AND 15"
  shows "\<exists>s'. sdram_tick sd_idle s = Inr (m_qdata s (q + (k + 1) AND 15), s') \<and> one_bank b 7 (t - 1) s' \<and> \<not> m_next_wr s'
    \<and> m_qloc s' = q + (k + 1) AND 15 \<and> m_qdata s' = (m_qdata s)(q + (k + 1) AND 15 := 0) \<and> m_mem s' = m_mem s"
proof -
  have 7: "bank_shift 7 = 7" by (simp add: bank_shift_def)
  have ns: "\<not> second_half s" using assms(4) by (simp add: second_half_def)
  obtain s' where s': "sdram_operate sd_idle s = map_sum id (Pair (if driv sd_idle then p_data sd_idle else m_qdata s (m_qloc s')))
      (sdram_command sd_idle s')" "one_bank b 7 (t - 1) s'"
    "\<not> m_next_wr s'" "m_qloc s' = (m_qloc s + 1) AND 15" "m_qdata s' = (m_qdata s)(m_qloc s' := 0)" "m_mem s' = m_mem s"
    using one_bank_operate [OF assms(1-3), of sd_idle] ns assms(4) 7 by auto
  have "sdram_command sd_idle s' = Inr s'" "\<not> driv sd_idle" "p_clk sd_idle" "cke sd_idle"
    by (simp_all add: sdram_command_def sd_pin_defs)
  then have "sdram_tick sd_idle s = Inr (m_qdata s (m_qloc s'), s')"
    using s'(1) tick_operates [OF _ _ assms(1)] by simp
  moreover have "m_qloc s' = q + (k + 1) AND 15" unfolding s'(4) assms(5) queue_slot(1) ..
  ultimately show ?thesis using s' by (simp only:) blast
qed

text \<open>
  C8: what is written to the SDRAM is read back.  From any state in operation with the banks closed,
  opening a row, writing a burst of two half words and reading the same burst delivers the two half
  words three and four clocks after the read command, and no other cell of the memory is changed.
\<close>
theorem sdram_reads_back:
  assumes "m_pwrup s = POWERED_UP_STATE" "m_fail s = 0" "m_qmask s = 15" "\<not> m_next_wr s"
    "\<forall>i\<in>{0, 1, 2, 3}. m_bank_status s i = 0" "b < 4" "row < 0x1000" "col < 0x1ff"
  shows "\<exists>ds s'. sdram_run (write_read b row col d0 d1) s = Inr (ds, s') \<and> ds ! 7 = d0 \<and> ds ! 8 = d1
    \<and> m_mem s' = (m_mem s)(cell row b col := d0, cell row b col + 1 := d1)"
proof -
  note c = cell_bounds [OF assms(6-8)] and b = assms(6)
  let ?a = "cell row b col"
  have s: "one_bank b 0 (m_bank_open_time s b) s" "\<not> second_half s"
    using assms(1-6) by (auto simp: one_bank_def second_half_def bank_lt_4)
  obtain d s1 where 1: "sdram_tick (sd_activate b row) s = Inr (d, s1)" "one_bank b 4 MAX_BANKOPEN_TIME s1"
    "\<not> second_half s1" "m_mem s1 = m_mem s" "m_bank_row s1 b = row"
    using tick_activate [OF s(1) b s(2), of row] by blast
  have sh: "bank_shift 4 = 6" "(6::u32) AND 1 = 0" by (simp_all add: bank_shift_def)
  obtain e s2 where 2: "sdram_tick sd_idle s1 = Inr (e, s2)" "one_bank b 6 MAX_BANKOPEN_TIME s2"
    "\<not> second_half s2" "m_mem s2 = m_mem s" "m_bank_row s2 b = row"
    using tick_idle [OF 1(2) b _ 1(3)] sh 1(4,5) by auto
  obtain f s3 where 3: "sdram_tick (sd_write b col d0) s2 = Inr (f, s3)" "one_bank b 7 9999 s3" "second_half s3"
    "m_wr_addr s3 = ?a + 1" "m_mem s3 = (m_mem s)(?a := d0)" "m_bank_row s3 b = row"
    using tick_write [OF 2(2) b _ 2(3) c(4) 2(5) c(1), of d0] 2(4) by (auto simp: MAX_BANKOPEN_TIME_def)
  obtain g s4 where 4: "sdram_tick (sd_write_next d1) s3 = Inr (g, s4)" "one_bank b 7 9998 s4" "\<not> m_next_wr s4"
    "m_mem s4 = (m_mem s)(?a := d0, ?a + 1 := d1)" "m_bank_row s4 b = row"
    using tick_write_next [OF 3(2) b _ 3(3), of d1] c(2) 3(4-6) by auto
  obtain h s5 q where 5: "sdram_tick (sd_read b col) s4 = Inr (h, s5)" "one_bank b 7 9997 s5" "\<not> m_next_wr s5"
    "m_qloc s5 = q + 0 AND 15" "m_qdata s5 (q + 3 AND 15) = d0" "m_qdata s5 (q + 4 AND 15) = d1" "m_mem s5 = m_mem s4"
    using tick_read [OF 4(2) b _ 4(3) c(4) 4(5) c(3,1,2)] 4(4) by auto
  obtain i s6 where 6: "sdram_tick sd_idle s5 = Inr (i, s6)" "one_bank b 7 9996 s6" "\<not> m_next_wr s6"
    "m_qloc s6 = q + 1 AND 15" "m_qdata s6 = (m_qdata s5)(q + 1 AND 15 := 0)" "m_mem s6 = m_mem s4"
    using idle_open [OF 5(2) b _ 5(3,4)] 5(7) by auto
  obtain j s7 where 7: "sdram_tick sd_idle s6 = Inr (j, s7)" "one_bank b 7 9995 s7" "\<not> m_next_wr s7"
    "m_qloc s7 = q + 2 AND 15" "m_qdata s7 = (m_qdata s6)(q + 2 AND 15 := 0)" "m_mem s7 = m_mem s4"
    using idle_open [OF 6(2) b _ 6(3,4)] 6(6) by auto
  obtain k s8 where 8: "sdram_tick sd_idle s7 = Inr (k, s8)" "one_bank b 7 9994 s8" "\<not> m_next_wr s8"
    "m_qloc s8 = q + 3 AND 15" "m_qdata s8 = (m_qdata s7)(q + 3 AND 15 := 0)" "m_mem s8 = m_mem s4"
    "k = m_qdata s7 (q + 3 AND 15)"
    using idle_open [OF 7(2) b _ 7(3,4)] 7(6) by auto
  obtain l s9 where 9: "sdram_tick sd_idle s8 = Inr (l, s9)" "m_mem s9 = m_mem s4" "l = m_qdata s8 (q + 4 AND 15)"
    using idle_open [OF 8(2) b _ 8(3,4)] 8(6) by auto
  have "k = d0" "l = d1"
    unfolding 8(7) 9(3) 8(5) 7(5) 6(5) fun_upd_apply queue_slot using 5(5,6) by simp_all
  then show ?thesis
    using 1(1) 2(1) 3(1) 4(1) 5(1) 6(1) 7(1) 8(1) 9(1,2) 4(4) by (simp add: write_read_def)
qed
lemma sdram_reads_back_witness:
  "\<exists>ds s'. sdram_run (write_read 2 0xabc 0x10 0x1234 0x5678) sd_up = Inr (ds, s') \<and> ds ! 7 = 0x1234 \<and> ds ! 8 = 0x5678
     \<and> m_mem s' = (\<lambda>_. 0)(cell 0xabc 2 0x10 := 0x1234, cell 0xabc 2 0x10 + 1 := 0x5678)"
  using sdram_reads_back [of sd_up 2 "0xabc" "0x10" "0x1234" "0x5678"] by (simp add: sd_up_def)

end
