(* ===== verification/SdSpiSim.thy ===== *)
theory SdSpiSim
  imports Prelude
begin

text \<open>
  The SD card of \<^verbatim>\<open>sim/sdspisim.cpp\<close>, commanded over SPI: one call of \<^verbatim>\<open>operator()\<close> per clock of the bench.
  \<open>sdspi_tick\<close> is that call, \<open>sdspi_byte\<close> what it does at the end of every eighth bit, \<open>sdspi_command\<close> the
  execution of a command frame.  A \<^verbatim>\<open>char\<close> is an 8-bit word, signed where it is widened; assertions and
  accesses outside the arrays are faults.  \<^verbatim>\<open>m_delay\<close>, which is only printed, is left out.
\<close>

section \<open>The state\<close>

datatype reset_state =
    SDSPI_POWERUP_RESET | SDSPI_CMD0_IDLE | SDSPI_RCVD_CMD8 | SDSPI_RCVD_ACMD41 | SDSPI_RESET_COMPLETE
  | SDSPI_IN_OPERATION

definition SDSPI_RSPLEN :: nat where "SDSPI_RSPLEN = 8"
definition SDSPI_MAXBLKLEN :: nat where "SDSPI_MAXBLKLEN = 1 + 2048 + 2"
definition MICROSECONDS :: u32 where "MICROSECONDS = 80"
definition MILLISECONDS :: u32 where "MILLISECONDS = MICROSECONDS * 1000"
definition tRESET :: u32 where "tRESET = 4 * MILLISECONDS"
definition CCS :: bool where "CCS = True"

text \<open>The file is the list of its bytes.  Buffers are functions from the index.\<close>

record sdspisim =
  m_dev :: "u8 list option"
  m_devblocks :: nat
  m_last_sck :: bool
  m_mosi :: bool
  m_busy :: bool
  m_block_address :: bool
  m_altcmd_flag :: bool
  m_syncd :: bool
  m_host_supports_high_capacity :: bool
  m_reading_data :: bool
  m_have_token :: bool
  m_reset_state :: reset_state
  m_cmdidx :: nat
  m_bitpos :: nat
  m_rspidx :: nat
  m_rspdly :: int
  m_blkdly :: int
  m_blklen :: int
  m_blkidx :: nat
  m_last_miso :: bool
  m_powerup_busy :: int
  m_rxloc :: nat
  m_cmdbuf :: "nat \<Rightarrow> u8"
  m_dat_out :: u8
  m_dat_in :: u8
  m_rspbuf :: "nat \<Rightarrow> u8"
  m_block_buf :: "nat \<Rightarrow> u8"
  m_csd :: "nat \<Rightarrow> u8"
  m_cid :: "nat \<Rightarrow> u8"

section \<open>Checksums\<close>

definition cmdcrc_bit :: "u32 \<Rightarrow> u32" where
  "cmdcrc_bit fill = (if fill AND 0x80 \<noteq> 0 then push_bit 1 fill XOR 0x12 else push_bit 1 fill)"

definition cmdcrc_byte :: "u32 \<Rightarrow> u8 \<Rightarrow> u32" where
  "cmdcrc_byte fill b = (cmdcrc_bit ^^ 8) (fill XOR scast b)"

definition cmdcrc :: "nat \<Rightarrow> (nat \<Rightarrow> u8) \<Rightarrow> u32" where
  "cmdcrc len buf =
     (let fill = foldl cmdcrc_byte 0 (map buf [0..<len])
      in (fill AND 0x0fe) OR 1)"

definition check_cmdcrc :: "(nat \<Rightarrow> u8) \<Rightarrow> bool" where
  "check_cmdcrc buf \<longleftrightarrow> cmdcrc 5 buf = ucast (buf 5)"

definition blockcrc_bit :: "u32 \<Rightarrow> u32" where
  "blockcrc_bit fill = (if fill AND 0x8000 \<noteq> 0 then push_bit 1 fill XOR 0x1021 else push_bit 1 fill)"

definition blockcrc_byte :: "u32 \<Rightarrow> u8 \<Rightarrow> u32" where
  "blockcrc_byte fill b = (blockcrc_bit ^^ 8) (fill XOR push_bit 8 (ucast b))"

definition blockcrc :: "nat \<Rightarrow> (nat \<Rightarrow> u8) \<Rightarrow> u32" where
  "blockcrc len buf = foldl blockcrc_byte 0 (map buf [0..<len]) AND 0x0ffff"

definition add_block_crc :: "nat \<Rightarrow> (nat \<Rightarrow> u8) \<Rightarrow> (nat \<Rightarrow> u8)" where
  "add_block_crc len buf =
     (let fill = blockcrc len (\<lambda>i. buf (i + 1))
      in buf(len + 1 := ucast (drop_bit 8 fill), len + 2 := ucast fill))"

section \<open>Construction\<close>

definition with_crc :: "u8 list \<Rightarrow> nat \<Rightarrow> u8" where
  "with_crc xs i = (if i < 15 then xs ! i else ucast (cmdcrc 15 (\<lambda>i. xs ! i)))"

text \<open>The argument holds what the members that the constructor does not initialise are.\<close>

definition sdspisim_init :: "sdspisim \<Rightarrow> sdspisim" where
  "sdspisim_init raw =
     raw\<lparr>m_dev := None, m_last_sck := True, m_block_address := CCS, m_host_supports_high_capacity := False,
         m_powerup_busy := -1, m_reset_state := SDSPI_POWERUP_RESET,
         m_csd := with_crc [0, 0x0f, 0x0f, 0x32, 0x5b, 0x59, 0x00, 0x00, 0, 0, 0x7f, 0x80, 0x0a, 0x40, 0],
         m_cid := with_crc [0xba, 0xd0, 0xda, 0xdd, 0, 0xde, 0xad, 0xbe, 0xef, 0x20, 0x16, 0x05, 0x26, 0, 0],
         m_reading_data := False, m_have_token := False\<rparr>"

text \<open>\<^verbatim>\<open>load\<close>, with the contents of the file if it can be opened.\<close>

definition sdspi_load :: "u8 list option \<Rightarrow> sdspisim \<Rightarrow> sdspisim" where
  "sdspi_load file s =
     (case file of None \<Rightarrow> s\<lparr>m_dev := None\<rparr>
      | Some bytes \<Rightarrow> s\<lparr>m_dev := Some bytes, m_devblocks := length bytes div 2 ^ 9\<rparr>)"

section \<open>Commands\<close>

definition cmd_arg :: "(nat \<Rightarrow> u8) \<Rightarrow> u32" where
  "cmd_arg buf = push_bit 8 (push_bit 8 (push_bit 8 (scast (buf 1)) OR ucast (buf 2)) OR ucast (buf 3)) OR ucast (buf 4)"

text \<open>The first byte of the response (the rest as it is) and the delay before it.\<close>

definition respond :: "u8 \<Rightarrow> int \<Rightarrow> sdspisim \<Rightarrow> sdspisim" where
  "respond r1 dly s = s\<lparr>m_rspbuf := (m_rspbuf s)(0 := r1), m_rspdly := dly\<rparr>"

text \<open>The application commands, those after CMD55.\<close>

definition sdspi_acmd41 :: "u32 \<Rightarrow> sdspisim \<Rightarrow> fault + sdspisim" where
  "sdspi_acmd41 arg s =
     (if m_reset_state s \<notin> {SDSPI_RCVD_CMD8, SDSPI_RCVD_ACMD41, SDSPI_RESET_COMPLETE} then Inl Assertion
      else
        let s = (if word_of_int (m_powerup_busy s) > tRESET then s\<lparr>m_powerup_busy := uint tRESET\<rparr> else s)
        in if arg AND 0x0bfffffff \<noteq> 0 then Inl Assertion
           else
             let s = respond (if m_powerup_busy s \<noteq> 0 then 1 else 0) 2 s
             in Inr (s\<lparr>m_host_supports_high_capacity := m_cmdbuf s 1 AND 0x40 \<noteq> 0,
                      m_reset_state := (if m_powerup_busy s \<noteq> 0 then SDSPI_RCVD_ACMD41 else SDSPI_RESET_COMPLETE)\<rparr>))"

definition sdspi_acmd51 :: "sdspisim \<Rightarrow> fault + sdspisim" where
  "sdspi_acmd51 s =
     (let buf = (m_block_buf s)(0 := 0x0fe);
          buf = (\<lambda>i. if 1 \<le> i \<and> i \<le> 8 then m_csd s (i - 1) else buf i)
      in Inr (s\<lparr>m_blklen := 8, m_block_buf := add_block_crc 8 buf, m_blkdly := 0, m_blkidx := 0, m_dat_out := 0\<rparr>))"

definition sdspi_acmd :: "u32 \<Rightarrow> sdspisim \<Rightarrow> fault + sdspisim" where
  "sdspi_acmd arg s =
     (let c = m_cmdbuf s 0 AND 0x03f
      in map_sum id (\<lambda>s. s\<lparr>m_altcmd_flag := False\<rparr>)
           (if c = 41 then sdspi_acmd41 arg s
            else if c = 51 then sdspi_acmd51 s
            else Inl Assertion))"

text \<open>The commands that answer with a block: CSD, CID and the data of the card.\<close>

definition send_block :: "nat \<Rightarrow> (nat \<Rightarrow> u8) \<Rightarrow> sdspisim \<Rightarrow> sdspisim" where
  "send_block len data s =
     (let s = s\<lparr>m_rspbuf := (m_rspbuf s)(0 := 0)\<rparr>;
          buf = (\<lambda>i. if i = 0 then 0x0fe else if i \<le> len then data (i - 1) else 0xff)
      in s\<lparr>m_blklen := int len, m_block_buf := add_block_crc len buf, m_blkdly := 60, m_blkidx := 0\<rparr>)"

text \<open>
  The 512 bytes of the file from \<open>pos\<close> on, as \<^verbatim>\<open>fread\<close> leaves them in a buffer of ones.  The block
  address is shifted as a 32-bit word.
\<close>

definition sdspi_cmd17 :: "u32 \<Rightarrow> sdspisim \<Rightarrow> fault + sdspisim" where
  "sdspi_cmd17 arg s =
     (if m_reset_state s \<noteq> SDSPI_IN_OPERATION then Inl Assertion
      else case m_dev s of
             None \<Rightarrow> Inr (send_block 512 (\<lambda>i. 0) s)
           | Some bytes \<Rightarrow>
               if \<not> (if m_block_address s then unat arg < m_devblocks s else unat arg < m_devblocks s * 2 ^ 9) then Inl Assertion
               else
                 let pos = unat (if m_block_address s then push_bit 9 arg else arg)
                 in Inr (send_block 512 (\<lambda>i. if pos + i < length bytes then bytes ! (pos + i) else 0xff) s))"

definition in_operation :: "sdspisim \<Rightarrow> (sdspisim \<Rightarrow> sdspisim) \<Rightarrow> fault + sdspisim" where
  "in_operation s f = (if m_reset_state s = SDSPI_IN_OPERATION then Inr (f s) else Inl Assertion)"

definition sdspi_cmd8 :: "u32 \<Rightarrow> sdspisim \<Rightarrow> fault + sdspisim" where
  "sdspi_cmd8 arg s =
     (if arg AND 0x0fffff000 \<noteq> 0 then Inl Assertion
      else
        let s = s\<lparr>m_rspbuf := (m_rspbuf s)(0 := 0, 1 := 0, 2 := 0, 3 := (if arg AND 0x0f00 = 0x0100 then 1 else 0),
                    4 := ucast arg), m_rspdly := 4\<rparr>
        in if m_reset_state s \<in> {SDSPI_CMD0_IDLE, SDSPI_RCVD_CMD8} then Inr (s\<lparr>m_reset_state := SDSPI_RCVD_CMD8\<rparr>)
           else Inl Assertion)"

definition sdspi_cmd58 :: "sdspisim \<Rightarrow> sdspisim" where
  "sdspi_cmd58 s =
     (let s = s\<lparr>m_rspbuf := (m_rspbuf s)(0 := 0,
                  1 := (if m_powerup_busy s \<noteq> 0 then 0x80 else 0) OR (if CCS then 0x40 else 0),
                  2 := 0xff, 3 := 0x80, 4 := 0), m_rspdly := 4\<rparr>
      in if m_reset_state s = SDSPI_RESET_COMPLETE then s\<lparr>m_reset_state := SDSPI_IN_OPERATION\<rparr> else s)"

definition sdspi_cmd :: "u32 \<Rightarrow> sdspisim \<Rightarrow> fault + sdspisim" where
  "sdspi_cmd arg s =
     (let s = s\<lparr>m_altcmd_flag := False, m_rspbuf := (\<lambda>i. if i < SDSPI_RSPLEN then 0xff else m_rspbuf s i)\<rparr>;
          c = m_cmdbuf s 0 AND 0x3f
      in if c = 0 then Inr ((respond 0x01 4 s)\<lparr>m_reset_state := SDSPI_CMD0_IDLE\<rparr>)
         else if c = 1 then
           (if arg AND 0x0bfffffff \<noteq> 0 then Inl Assertion
            else Inr ((respond 0x02 4 s)\<lparr>m_host_supports_high_capacity := m_cmdbuf s 1 AND 0x40 \<noteq> 0\<rparr>))
         else if c = 8 then sdspi_cmd8 arg s
         else if c = 9 then in_operation s (\<lambda>s. send_block 16 (m_csd s) s)
         else if c = 10 then in_operation s (\<lambda>s. send_block 16 (m_cid s) s)
         else if c = 13 then in_operation s (\<lambda>s. (respond 0x00 4 s)\<lparr>m_rspbuf := (m_rspbuf s)(0 := 0, 1 := 0)\<rparr>)
         else if c = 17 then sdspi_cmd17 arg s
         else if c = 24 then Inr (s\<lparr>m_reading_data := True, m_have_token := False, m_dat_out := 0\<rparr>)
         else if c = 55 then Inr ((respond 0x00 2 s)\<lparr>m_altcmd_flag := True\<rparr>)
         else if c = 58 then Inr (sdspi_cmd58 s)
         else Inl Assertion)"

definition sdspi_command :: "sdspisim \<Rightarrow> fault + sdspisim" where
  "sdspi_command s =
     (let s = s\<lparr>m_rspidx := 0, m_blkdly := 0, m_blkidx := SDSPI_MAXBLKLEN\<rparr>;
          arg = cmd_arg (m_cmdbuf s)
      in map_sum id (\<lambda>s. s\<lparr>m_cmdidx := m_cmdidx s + 1, m_blklen := m_blklen s + 3\<rparr>)
           (if \<not> check_cmdcrc (m_cmdbuf s) then Inl Assertion
            else if m_altcmd_flag s then sdspi_acmd arg s
            else sdspi_cmd arg s))"

section \<open>Bytes\<close>

text \<open>A byte of a block that is written: the block and its checksum, which is all that is looked at.\<close>

definition sdspi_write_byte :: "sdspisim \<Rightarrow> fault + sdspisim" where
  "sdspi_write_byte s =
     (if m_have_token s then
        if m_rxloc s \<ge> SDSPI_MAXBLKLEN then Inl Undefined
        else
          let s = s\<lparr>m_block_buf := (m_block_buf s)(m_rxloc s := m_dat_in s), m_rxloc := m_rxloc s + 1\<rparr>
          in if m_rxloc s \<ge> 512 + 2 then
               let crc = blockcrc 512 (m_block_buf s);
                   rxcrc = push_bit 8 (ucast (m_block_buf s 512)) OR ucast (m_block_buf s 513)
               in if rxcrc = crc then Inr (s\<lparr>m_reading_data := False, m_have_token := False, m_dat_out := 5\<rparr>)
                  else Inl Assertion
             else Inr s
      else if m_dat_in s = 0x0fe then Inr (s\<lparr>m_have_token := True, m_rxloc := 0\<rparr>)
      else Inr s)"

definition sdspi_reply_byte :: "sdspisim \<Rightarrow> fault + sdspisim" where
  "sdspi_reply_byte s =
     (if m_rspdly s > 0 then
        if m_dat_in s \<noteq> 0x0ff then Inl Assertion
        else Inr (s\<lparr>m_dat_out := (if m_busy s then 0 else m_dat_out s), m_rspdly := m_rspdly s - 1\<rparr>)
      else if m_rspidx s < SDSPI_RSPLEN then
        if m_dat_in s \<noteq> 0x0ff then Inl Assertion
        else Inr (s\<lparr>m_dat_out := m_rspbuf s (m_rspidx s), m_rspidx := m_rspidx s + 1\<rparr>)
      else if m_blkdly s > 0 then
        if m_dat_in s \<noteq> 0x0ff then Inl Assertion else Inr (s\<lparr>m_blkdly := m_blkdly s - 1\<rparr>)
      else if m_blkidx s < SDSPI_MAXBLKLEN then
        if m_dat_in s \<noteq> 0x0ff then Inl Assertion
        else Inr (s\<lparr>m_dat_out := m_block_buf s (m_blkidx s), m_blkidx := m_blkidx s + 1\<rparr>)
      else Inr s)"

definition sdspi_byte :: "sdspisim \<Rightarrow> fault + sdspisim" where
  "sdspi_byte s =
     (let s = s\<lparr>m_dat_out := 0xff\<rparr>
      in if m_reading_data s then sdspi_write_byte s
         else if m_cmdidx s < 6 then
           if m_cmdidx s = 0 \<and> m_dat_in s AND 0xc0 \<noteq> 0x40 then Inl Assertion
           else Inr (s\<lparr>m_cmdbuf := (m_cmdbuf s)(m_cmdidx s := m_dat_in s), m_cmdidx := m_cmdidx s + 1\<rparr>)
         else if m_cmdidx s = 6 then sdspi_command s
         else sdspi_reply_byte s)"

section \<open>Clocks\<close>

definition sdspi_deselect :: "bool \<Rightarrow> sdspisim \<Rightarrow> sdspisim" where
  "sdspi_deselect sck s =
     s\<lparr>m_cmdidx := 0, m_rspidx := 0, m_bitpos := 0, m_busy := False, m_last_sck := sck, m_syncd := False,
       m_last_miso := True, m_dat_out := 0x0ff\<rparr>"

text \<open>A falling edge: shift a bit in, handle a full byte, shift a bit out.\<close>

definition sdspi_fall :: "sdspisim \<Rightarrow> fault + (bool \<times> sdspisim)" where
  "sdspi_fall s =
     (let s = s\<lparr>m_bitpos := m_bitpos s + 1, m_dat_in := push_bit 1 (m_dat_in s) OR of_bool (m_mosi s)\<rparr>
      in map_sum id
           (\<lambda>s. let result = (m_dat_out s AND 0x80 \<noteq> 0)
                in (result, s\<lparr>m_dat_out := push_bit 1 (m_dat_out s), m_last_miso := result\<rparr>))
           (if m_bitpos s mod 8 = 0 then sdspi_byte s else Inr s))"

definition sdspi_tick :: "bool \<Rightarrow> bool \<Rightarrow> bool \<Rightarrow> sdspisim \<Rightarrow> fault + (bool \<times> sdspisim)" where
  "sdspi_tick csn sck mosi s =
     (let s = (if m_powerup_busy s > 0 then s\<lparr>m_powerup_busy := m_powerup_busy s - 1\<rparr> else s)
      in if csn then Inr (False, sdspi_deselect sck s)
         else if sck = m_last_sck s then Inr (m_last_miso s, s)
         else if \<not> m_last_sck s then Inr (m_last_miso s, s\<lparr>m_mosi := mosi, m_syncd := True, m_last_sck := sck\<rparr>)
         else if \<not> m_syncd s then Inr (m_last_miso s, s\<lparr>m_last_sck := sck\<rparr>)
         else sdspi_fall (s\<lparr>m_last_sck := sck\<rparr>))"

end
