(* ===== verification/SdSpiProps.thy ===== *)
theory SdSpiProps
  imports SdSpiSim
begin

text \<open>
  The SD card: its two checksums, the order and the duration of its reset as a refinement of an abstract
  machine, a block read over the pins, and what it does not do (store what is written, address more than
  four gigabytes).
\<close>

section \<open>The block checksum\<close>

text \<open>The low 16 bits of the register, which is all that matters.\<close>

definition crc16_step :: "u16 \<Rightarrow> u16" where
  "crc16_step f = (if bit f 15 then push_bit 1 f XOR 0x1021 else push_bit 1 f)"

lemma and_bit: "w AND 0x8000 \<noteq> (0::u32) \<longleftrightarrow> bit w 15" "w AND 0x80 \<noteq> (0::u32) \<longleftrightarrow> bit w 7"
  using bit_and_push_bit_1 [of w 15] bit_and_push_bit_1 [of w 7] by simp_all

lemma ucast_push_bit_16: "ucast (push_bit n (w::u32)) = (push_bit n (ucast w) :: u16)"
  by (rule bit_word_eqI) (auto simp: bit_simps)

lemma ucast_xor_16: "ucast (v XOR (w::u32)) = (ucast v XOR ucast w :: u16)"
  by (rule bit_word_eqI) (auto simp: bit_simps)

lemma blockcrc_bit_16: "ucast (blockcrc_bit f) = crc16_step (ucast f)"
proof -
  have "bit (ucast f :: u16) 15 = bit f 15" by (simp add: bit_simps)
  then show ?thesis
    unfolding blockcrc_bit_def crc16_step_def and_bit if_distrib [of "ucast :: u32 \<Rightarrow> u16"]
      ucast_push_bit_16 ucast_xor_16 by simp
qed

definition crc16_byte :: "u16 \<Rightarrow> u8 \<Rightarrow> u16" where
  "crc16_byte f b = (crc16_step ^^ 8) (f XOR push_bit 8 (ucast b))"

lemma ucast_ucast_8_16: "(ucast (ucast (b::u8) :: u32) :: u16) = ucast b"
  by (rule bit_word_eqI) (auto simp: bit_simps)

lemma blockcrc_byte_16: "ucast (blockcrc_byte f b) = crc16_byte (ucast f) b"
proof -
  have "ucast ((blockcrc_bit ^^ n) g) = (crc16_step ^^ n) (ucast g)" for n g
    by (induction n) (simp_all add: blockcrc_bit_16)
  then show ?thesis
    by (simp add: blockcrc_byte_def crc16_byte_def ucast_xor_16 ucast_push_bit_16 ucast_ucast_8_16)
qed

definition crc16 :: "u8 list \<Rightarrow> u16" where
  "crc16 bs = foldl crc16_byte 0 bs"

lemma blockcrc_crc16: "blockcrc n buf = ucast (crc16 (map buf [0..<n]))"
proof -
  have "ucast (foldl blockcrc_byte f bs) = foldl crc16_byte (ucast f) bs" for f bs
    by (induction bs arbitrary: f) (simp_all add: blockcrc_byte_16)
  from this [of 0] have e: "crc16 (map buf [0..<n]) = ucast (foldl blockcrc_byte 0 (map buf [0..<n]))"
    by (simp add: crc16_def)
  have "(ucast (ucast w :: u16) :: u32) = w AND 0x0ffff" for w :: u32
    unfolding and_mask_take_bit by (rule bit_word_eqI) (auto simp: bit_simps)
  then show ?thesis unfolding e blockcrc_def by simp
qed

text \<open>Without a one in its top bits a register only shifts, so a checksum run through itself cancels.\<close>

lemma crc16_shift: "\<forall>k<16. 16 - n \<le> k \<longrightarrow> \<not> bit f k \<Longrightarrow> n \<le> 16 \<Longrightarrow> (crc16_step ^^ n) f = push_bit n f"
proof (induction n)
  case (Suc n)
  then have f: "(crc16_step ^^ n) f = push_bit n f" by simp
  have "15 - n < 16" "16 - Suc n \<le> 15 - n" using Suc.prems(2) by simp_all
  then have "\<not> bit f (15 - n)" using Suc.prems(1) by blast
  then have "\<not> bit (push_bit n f) 15"
    unfolding bit_push_bit_iff by simp
  then have step: "crc16_step (push_bit n f) = push_bit 1 (push_bit n f)"
    by (simp only: crc16_step_def if_False)
  show ?case
    unfolding funpow.simps o_apply f step push_bit_push_bit by simp
qed simp

lemma crc16_residue:
  "crc16_byte (crc16_byte c (ucast (drop_bit 8 c))) (ucast c) = 0"
proof -
  have 1: "c XOR push_bit 8 (ucast (ucast (drop_bit 8 c) :: u8)) = take_bit 8 c"
    by (rule bit_word_eqI) (unfold bit_xor_iff bit_push_bit_iff bit_take_bit_iff, auto simp: bit_simps)
  have "(crc16_step ^^ 8) (take_bit 8 c) = push_bit 8 (take_bit 8 c)"
    by (rule crc16_shift) (auto simp: bit_take_bit_iff)
  then have 2: "crc16_byte c (ucast (drop_bit 8 c)) = push_bit 8 (take_bit 8 c)"
    unfolding crc16_byte_def 1 .
  have "push_bit 8 (take_bit 8 c) XOR push_bit 8 (ucast (ucast c :: u8)) = 0"
    by (rule bit_word_eqI) (unfold bit_xor_iff bit_push_bit_iff bit_take_bit_iff, auto simp: bit_simps)
  moreover have "(crc16_step ^^ 8) 0 = 0"
    using crc16_shift [of 8 0] by simp
  ultimately show ?thesis unfolding 2 crc16_byte_def [of "push_bit 8 (take_bit 8 c)"] by simp
qed

lemma crc16_append: "crc16 (as @ bs) = foldl crc16_byte (crc16 as) bs"
  by (simp add: crc16_def)

text \<open>
  A block is sent with its own check.  Whatever the block, the checksum over it and the two bytes that
  \<^verbatim>\<open>add_block_crc\<close> puts behind it is zero.
\<close>
lemma block_crc_residue:
  "blockcrc (n + 2) (\<lambda>i. add_block_crc n buf (i + 1)) = 0"
proof -
  let ?c = "crc16 (map (\<lambda>i. buf (i + 1)) [0..<n])"
  let ?b = "\<lambda>i. add_block_crc n buf (i + 1)"
  have "map ?b [0..<n] = map (\<lambda>i. buf (i + 1)) [0..<n]"
    by (simp add: add_block_crc_def Let_def)
  moreover have "?b n = ucast (drop_bit 8 ?c)" "?b (n + 1) = ucast ?c"
    unfolding add_block_crc_def Let_def blockcrc_crc16
    by (simp_all) (rule bit_word_eqI; auto simp: bit_simps)+
  moreover have "map ?b [0..<n + 2] = map ?b [0..<n] @ [?b n, ?b (n + 1)]" by simp
  ultimately have "crc16 (map ?b [0..<n + 2]) = crc16_byte (crc16_byte ?c (ucast (drop_bit 8 ?c))) (ucast ?c)"
    by (simp only: crc16_append foldl.simps)
  then show ?thesis unfolding blockcrc_crc16 crc16_residue by simp
qed

section \<open>The command checksum\<close>

definition crc7_step :: "u8 \<Rightarrow> u8" where
  "crc7_step f = (if bit f 7 then push_bit 1 f XOR 0x12 else push_bit 1 f)"

definition crc7_byte :: "u8 \<Rightarrow> u8 \<Rightarrow> u8" where
  "crc7_byte f b = (crc7_step ^^ 8) (f XOR b)"

lemma and_bit_7: "w AND 0x80 \<noteq> (0::u32) \<longleftrightarrow> bit w 7"
  using bit_and_push_bit_1 [of w 7] by simp

lemma ucast_push_bit_8: "ucast (push_bit n (w::u32)) = (push_bit n (ucast w) :: u8)"
  by (rule bit_word_eqI) (auto simp: bit_simps)

lemma ucast_xor_8: "ucast (v XOR (w::u32)) = (ucast v XOR ucast w :: u8)"
  by (rule bit_word_eqI) (auto simp: bit_simps)

lemma cmdcrc_bit_8: "ucast (cmdcrc_bit f) = crc7_step (ucast f)"
proof -
  have "bit (ucast f :: u8) 7 = bit f 7" by (simp add: bit_simps)
  then show ?thesis
    unfolding cmdcrc_bit_def crc7_step_def and_bit_7 if_distrib [of "ucast :: u32 \<Rightarrow> u8"]
      ucast_push_bit_8 ucast_xor_8 by simp
qed

lemma ucast_scast_8: "(ucast (scast (b::u8) :: u32) :: u8) = b"
  by (rule bit_word_eqI) (auto simp: bit_simps)

lemma cmdcrc_byte_8: "ucast (cmdcrc_byte f b) = crc7_byte (ucast f) b"
proof -
  have "ucast ((cmdcrc_bit ^^ n) g) = (crc7_step ^^ n) (ucast g)" for n g
    by (induction n) (simp_all add: cmdcrc_bit_8)
  then show ?thesis
    by (simp add: cmdcrc_byte_def crc7_byte_def ucast_xor_8 ucast_scast_8)
qed

text \<open>The checksum is linear in the bits of the frame.\<close>

lemma crc7_step_xor: "crc7_step (f XOR g) = crc7_step f XOR crc7_step g"
  unfolding crc7_step_def bit_xor_iff push_bit_xor
  by (cases "bit f 7"; cases "bit g 7") (simp_all add: xor.assoc xor.commute xor.left_commute)

lemma crc7_byte_xor: "crc7_byte (f XOR g) (a XOR b) = crc7_byte f a XOR crc7_byte g b"
proof -
  have "(crc7_step ^^ n) (f XOR g) = (crc7_step ^^ n) f XOR (crc7_step ^^ n) g" for n f g
    by (induction n) (simp_all add: crc7_step_xor)
  then show ?thesis
    unfolding crc7_byte_def by (metis xor.assoc xor.left_commute)
qed

definition syndrome :: "(nat \<Rightarrow> u8) \<Rightarrow> u8" where
  "syndrome buf = (foldl crc7_byte 0 (map buf [0..<5]) AND 0xfe) XOR buf 5"

lemma syndrome_xor: "syndrome (\<lambda>k. buf k XOR e k) = syndrome buf XOR syndrome e"
proof -
  have "foldl crc7_byte (f XOR g) (map (\<lambda>k. buf k XOR e k) ks)
      = foldl crc7_byte f (map buf ks) XOR foldl crc7_byte g (map e ks)" for f g ks
    by (induction ks arbitrary: f g) (simp_all add: crc7_byte_xor)
  from this [of 0 0 "[0..<5]"] show ?thesis
    unfolding syndrome_def by (simp only: xor_self_eq) (simp add: bit.conj_xor_distrib2 xor.assoc xor.left_commute)
qed

lemma bit_fe: "bit (0xfe :: u32) n \<longleftrightarrow> 0 < n \<and> n < 8" "bit (0xfe :: u8) n \<longleftrightarrow> 0 < n \<and> n < 8"
proof -
  have m: "(0xfe :: u32) = push_bit 1 (mask 7)" "(0xfe :: u8) = push_bit 1 (mask 7)" by (simp_all add: mask_eq_exp_minus_1)
  show "bit (0xfe :: u32) n \<longleftrightarrow> 0 < n \<and> n < 8" "bit (0xfe :: u8) n \<longleftrightarrow> 0 < n \<and> n < 8"
    unfolding m bit_push_bit_iff bit_mask_iff by auto
qed

lemma xor_eq_swap: "x XOR a = y \<longleftrightarrow> x XOR y = (a :: u8)"
  by (auto simp flip: xor.assoc)

lemma check_syndrome: "check_cmdcrc buf \<longleftrightarrow> syndrome buf = 1"
proof -
  let ?f = "foldl cmdcrc_byte 0 (map buf [0..<5])" and ?c = "foldl crc7_byte 0 (map buf [0..<5])"
  have "ucast (foldl cmdcrc_byte f bs) = foldl crc7_byte (ucast f) bs" for f bs
    by (induction bs arbitrary: f) (simp_all add: cmdcrc_byte_8)
  from this [of 0] have c: "ucast ?f = ?c" by simp
  have "(?f AND 0xfe) OR 1 = ucast ((?c AND 0xfe) XOR 1)"
    unfolding c [symmetric] by (rule bit_word_eqI) (unfold bit_and_iff bit_or_iff bit_xor_iff bit_unsigned_iff bit_fe bit_1_iff, auto)
  then have "check_cmdcrc buf \<longleftrightarrow> (ucast ((?c AND 0xfe) XOR 1) :: u32) = ucast (buf 5)"
    unfolding check_cmdcrc_def cmdcrc_def Let_def by simp
  also have "\<dots> \<longleftrightarrow> (?c AND 0xfe) XOR 1 = buf 5"
    by (metis ucast_u8_u32_id)
  also have "\<dots> \<longleftrightarrow> syndrome buf = 1"
    unfolding syndrome_def by (rule xor_eq_swap)
  finally show ?thesis .
qed

definition bit_error :: "nat \<Rightarrow> nat \<Rightarrow> u8" where
  "bit_error i k = (if k = i div 8 then push_bit (7 - i mod 8) 1 else 0)"

definition flip :: "nat \<Rightarrow> (nat \<Rightarrow> u8) \<Rightarrow> nat \<Rightarrow> u8" where
  "flip i buf k = buf k XOR bit_error i k"

fun crc7_trace :: "nat \<Rightarrow> u8 \<Rightarrow> u8 list" where
  "crc7_trace 0 f = []"
| "crc7_trace (Suc n) f = f # crc7_trace n (crc7_step f)"

lemma crc7_trace_nth: "k < n \<Longrightarrow> crc7_trace n f ! k = (crc7_step ^^ k) f"
proof (induction n arbitrary: k f)
  case (Suc n)
  then show ?case by (cases k) (simp_all add: funpow_swap1)
qed simp

lemma crc7_step_1: "k < 8 \<Longrightarrow> (crc7_step ^^ k) 1 = push_bit k 1"
proof (induction k)
  case (Suc k)
  then show ?case by (auto simp: crc7_step_def bit_simps)
qed simp

lemma crc7_step_0: "(crc7_step ^^ k) 0 = 0"
  by (induction k) (simp_all add: crc7_step_def)

lemma crc7_zeros: "foldl crc7_byte f (replicate j 0) = (crc7_step ^^ (8 * j)) f"
proof (induction j arbitrary: f)
  case (Suc j)
  have "crc7_byte f 0 = (crc7_step ^^ 8) f" by (simp add: crc7_byte_def)
  moreover have "(crc7_step ^^ (8 * j)) ((crc7_step ^^ 8) f) = (crc7_step ^^ (8 * j + 8)) f" by (simp only: funpow_add o_apply)
  moreover have "8 * j + 8 = 8 * Suc j" by simp
  ultimately show ?case by (simp only: replicate_Suc foldl.simps Suc.IH)
qed simp

lemma one_byte: "d < 5 \<Longrightarrow> map (\<lambda>k. if k = d then e else 0) [0..<5] = replicate d 0 @ e # replicate (4 - d) (0::u8)"
  by (rule nth_equalityI) (auto simp: nth_append nth_Cons split: nat.split)

lemma syndrome_error:
  assumes "i < 48"
  shows "syndrome (bit_error i) = (if i < 40 then 0xfe AND (crc7_step ^^ (47 - i)) 1 else (crc7_step ^^ (47 - i)) 1)"
proof -
  let ?m = "7 - i mod 8" and ?d = "i div 8"
  define e :: u8 where "e = push_bit ?m 1"
  have e: "e = (crc7_step ^^ ?m) 1"
    unfolding e_def by (rule crc7_step_1 [symmetric]) simp
  have i: "i = 8 * ?d + i mod 8" "i mod 8 < 8" by simp_all
  have error: "bit_error i = (\<lambda>k. if k = ?d then e else 0)"
    by (rule ext) (simp add: bit_error_def e_def)
  show ?thesis
  proof (cases "i < 40")
    case True
    then have d: "?d < 5" by simp
    have "foldl crc7_byte 0 (map (bit_error i) [0..<5]) = foldl crc7_byte (crc7_byte 0 e) (replicate (4 - ?d) 0)"
      unfolding error one_byte [OF d] by (simp add: crc7_zeros crc7_step_0)
    also have "\<dots> = (crc7_step ^^ (8 * (4 - ?d) + (8 + ?m))) 1"
      unfolding crc7_zeros by (simp only: crc7_byte_def xor.left_neutral e funpow_add o_apply)
    also have "8 * (4 - ?d) + (8 + ?m) = 47 - i" using i d by linarith
    finally show ?thesis using True d by (simp add: syndrome_def error and.commute)
  next
    case False
    then have d: "?d = 5" using assms by simp
    have "foldl crc7_byte 0 (map (bit_error i) [0..<5]) = foldl crc7_byte 0 (replicate 5 0)"
      unfolding error d by (rule arg_cong [of _ _ "foldl crc7_byte 0"]) (simp add: upt_rec numeral_eq_Suc)
    then have "foldl crc7_byte 0 (map (bit_error i) [0..<5]) = 0" by (simp add: crc7_zeros crc7_step_0)
    moreover have "?m = 47 - i" using i d by linarith
    ultimately show ?thesis using False d e by (simp add: syndrome_def error)
  qed
qed

definition syndrome_table :: "u8 list" where
  "syndrome_table = map ((AND) 0xfe) (drop 8 (crc7_trace 48 1)) @ take 8 (crc7_trace 48 1)"

lemma syndrome_table_distinct: "distinct (0 # syndrome_table)" "length (crc7_trace 48 1) = 48"
  by code_simp+

lemma syndrome_table_nth:
  assumes "i < 48"
  shows "syndrome (bit_error i) = syndrome_table ! (if i < 40 then 39 - i else 87 - i)"
proof (cases "i < 40")
  case True
  then have "8 + (39 - i) = 47 - i" by simp
  then show ?thesis
    using True syndrome_error [OF assms] syndrome_table_distinct(2)
    by (simp add: syndrome_table_def nth_append crc7_trace_nth)
next
  case False
  then have "87 - i - 40 = 47 - i" "47 - i < 8" "\<not> 87 - i < 40" using assms by simp_all
  then show ?thesis
    using False syndrome_error [OF assms] syndrome_table_distinct(2)
    by (simp add: syndrome_table_def nth_append crc7_trace_nth)
qed

lemma error_syndromes:
  assumes "i < 48"
  shows "syndrome (bit_error i) \<noteq> 0" "j < 48 \<Longrightarrow> i \<noteq> j \<Longrightarrow> syndrome (bit_error i) \<noteq> syndrome (bit_error j)"
proof -
  let ?p = "\<lambda>i. if i < (40::nat) then 39 - i else 87 - i"
  have len: "length syndrome_table = 48" using syndrome_table_distinct(2) by (simp add: syndrome_table_def)
  have p: "?p i < 48" using assms by (cases "i < 40") arith+
  then have "syndrome_table ! ?p i \<in> set syndrome_table" unfolding len [symmetric] by (rule nth_mem)
  then show "syndrome (bit_error i) \<noteq> 0" using syndrome_table_distinct(1) syndrome_table_nth [OF assms] by auto
  show "syndrome (bit_error i) \<noteq> syndrome (bit_error j)" if "j < 48" "i \<noteq> j"
  proof -
    have "?p j < 48" "?p i \<noteq> ?p j" using assms that by (cases "i < 40"; cases "j < 40"; arith)+
    then show ?thesis
      using syndrome_table_distinct(1) p len syndrome_table_nth [OF assms] syndrome_table_nth [OF that(1)]
      by (simp only: distinct.simps nth_eq_iff_index_eq) blast
  qed
qed

lemma syndrome_flip: "syndrome (flip i buf) = syndrome buf XOR syndrome (bit_error i)"
proof -
  have "flip i buf = (\<lambda>k. buf k XOR bit_error i k)" by (rule ext) (simp add: flip_def)
  then show ?thesis by (simp add: syndrome_xor)
qed

text \<open>
  C15: the check of a command frame catches every error of one or two bits.  If the six bytes of a frame
  pass the check, they no longer pass it with any one of their 48 bits flipped, nor with any two.
\<close>
theorem command_crc_detects:
  assumes "check_cmdcrc buf" "i < 48" "j < 48"
  shows "\<not> check_cmdcrc (flip i buf) \<and> (i \<noteq> j \<longrightarrow> \<not> check_cmdcrc (flip j (flip i buf)))"
proof -
  have "syndrome buf = 1" using assms(1) by (simp add: check_syndrome)
  then show ?thesis
    unfolding check_syndrome syndrome_flip using error_syndromes [OF assms(2)] assms(3)
    by (simp add: xor_eq_swap [of 1] xor.assoc) (metis xor.assoc xor_self_eq xor.right_neutral)
qed

text \<open>The frame of CMD0.\<close>

definition cmd0_frame :: "nat \<Rightarrow> u8" where
  "cmd0_frame i = (if i = 0 then 0x40 else if i = 5 then 0x95 else 0)"

lemma command_crc_detects_witness:
  "check_cmdcrc cmd0_frame \<and> \<not> check_cmdcrc (flip 3 cmd0_frame) \<and> \<not> check_cmdcrc (flip 47 (flip 3 cmd0_frame))"
proof -
  have "check_cmdcrc cmd0_frame" by code_simp
  with command_crc_detects [OF this, of 3 47] show ?thesis by simp
qed

section \<open>The reset sequence\<close>

text \<open>
  What the card promises of its start: an abstract machine over the phase of the reset and the power-up
  timer.  The timer counts down once it is started, and is started by the first ACMD41.
\<close>

definition count_down :: "int \<Rightarrow> int" where
  "count_down t = (if t > 0 then t - 1 else t)"

definition start_timer :: "int \<Rightarrow> int" where
  "start_timer t = (if word_of_int t > tRESET then uint tRESET else t)"

inductive card_step :: "reset_state \<times> int \<Rightarrow> reset_state \<times> int \<Rightarrow> bool" where
  idle: "card_step (q, t) (q, count_down t)"
| cmd0: "card_step (q, t) (SDSPI_CMD0_IDLE, count_down t)"
| cmd8: "q \<in> {SDSPI_CMD0_IDLE, SDSPI_RCVD_CMD8} \<Longrightarrow> card_step (q, t) (SDSPI_RCVD_CMD8, count_down t)"
| wait: "q \<in> {SDSPI_RCVD_CMD8, SDSPI_RCVD_ACMD41, SDSPI_RESET_COMPLETE} \<Longrightarrow> t' = start_timer (count_down t) \<Longrightarrow> t' \<noteq> 0 \<Longrightarrow>
     card_step (q, t) (SDSPI_RCVD_ACMD41, t')"
| ready: "q \<in> {SDSPI_RCVD_CMD8, SDSPI_RCVD_ACMD41, SDSPI_RESET_COMPLETE} \<Longrightarrow> start_timer (count_down t) = 0 \<Longrightarrow>
     card_step (q, t) (SDSPI_RESET_COMPLETE, 0)"
| operate: "card_step (SDSPI_RESET_COMPLETE, t) (SDSPI_IN_OPERATION, count_down t)"

inductive_cases card_stepE: "card_step (q, t) (q', t')"

definition phase :: "sdspisim \<Rightarrow> reset_state \<times> int" where
  "phase s = (m_reset_state s, m_powerup_busy s)"

text \<open>A command in a phase whose timer has been counted down already.\<close>

definition commanded :: "reset_state \<times> int \<Rightarrow> reset_state \<times> int \<Rightarrow> bool" where
  "commanded p p' \<longleftrightarrow> (\<forall>t. count_down t = snd p \<longrightarrow> card_step (fst p, t) p')"

lemma commanded_intros:
  "commanded p p" "commanded (q, t) (SDSPI_CMD0_IDLE, t)"
  "q \<in> {SDSPI_CMD0_IDLE, SDSPI_RCVD_CMD8} \<Longrightarrow> commanded (q, t) (SDSPI_RCVD_CMD8, t)"
  "commanded (SDSPI_RESET_COMPLETE, t) (SDSPI_IN_OPERATION, t)"
  by (cases p) (auto simp: commanded_def intro: card_step.intros)

lemma phase_simps [simp]:
  "phase (respond r d s) = phase s" "phase (send_block n f s) = phase s"
  by (simp_all add: phase_def respond_def send_block_def Let_def)

lemma acmd_phase: "sdspi_acmd arg s = Inr s' \<Longrightarrow> commanded (phase s) (phase s')"
proof -
  have 41: "sdspi_acmd41 arg s = Inr s' \<Longrightarrow> commanded (phase s) (phase s')" for s'
    unfolding sdspi_acmd41_def Let_def phase_def commanded_def
    by (auto simp: respond_def start_timer_def split: if_splits intro!: card_step.wait card_step.ready)
  have 51: "sdspi_acmd51 s = Inr s' \<Longrightarrow> phase s' = phase s" for s'
    by (auto simp: sdspi_acmd51_def phase_def Let_def)
  show "sdspi_acmd arg s = Inr s' \<Longrightarrow> commanded (phase s) (phase s')"
    using 41 51 by (auto simp: sdspi_acmd_def Let_def commanded_intros(1) phase_def split: if_splits)
qed

lemma cmd_phase:
  assumes "sdspi_cmd arg s = Inr s'"
  shows "commanded (phase s) (phase s')"
proof -
  let ?s = "s\<lparr>m_altcmd_flag := False, m_rspbuf := (\<lambda>i. if i < SDSPI_RSPLEN then 0xff else m_rspbuf s i)\<rparr>"
  have p: "phase ?s = phase s" by (simp add: phase_def)
  have 8: "sdspi_cmd8 arg ?s = Inr s' \<Longrightarrow> commanded (phase s) (phase s')"
    by (auto simp: sdspi_cmd8_def Let_def phase_def split: if_splits intro!: commanded_intros)
  have 17: "sdspi_cmd17 arg ?s = Inr s' \<Longrightarrow> phase s' = phase s"
    using p by (auto simp: sdspi_cmd17_def Let_def split: if_splits option.splits)
  have 58: "commanded (phase s) (phase (sdspi_cmd58 ?s))"
    by (simp add: sdspi_cmd58_def Let_def phase_def commanded_intros)
  have 0: "phase ((respond a b ?s)\<lparr>m_reset_state := SDSPI_CMD0_IDLE\<rparr>) = (SDSPI_CMD0_IDLE, m_powerup_busy s)" for a b
    by (simp add: phase_def respond_def)
  have same: "phase s' = phase s \<Longrightarrow> commanded (phase s) (phase s')" by (simp add: commanded_intros(1))
  show ?thesis
    using assms 8 17 58 0 unfolding sdspi_cmd_def Let_def in_operation_def
    by (auto simp: phase_def commanded_intros respond_def send_block_def Let_def split: if_splits)
qed

lemma byte_phase: "sdspi_byte s = Inr s' \<Longrightarrow> commanded (phase s) (phase s')"
proof -
  have w: "sdspi_write_byte s = Inr s' \<Longrightarrow> phase s' = phase s" for s
    by (auto simp: sdspi_write_byte_def Let_def phase_def split: if_splits)
  have r: "sdspi_reply_byte s = Inr s' \<Longrightarrow> phase s' = phase s" for s
    by (auto simp: sdspi_reply_byte_def Let_def phase_def split: if_splits)
  have c: "sdspi_command s = Inr s' \<Longrightarrow> commanded (phase s) (phase s')" for s
    unfolding sdspi_command_def Let_def
    by (auto dest!: cmd_phase acmd_phase simp: phase_def split: if_splits)
  have o: "phase (s\<lparr>m_dat_out := 0xff\<rparr>) = phase s" by (simp add: phase_def)
  show "sdspi_byte s = Inr s' \<Longrightarrow> commanded (phase s) (phase s')"
    unfolding sdspi_byte_def Let_def
    using w [of "s\<lparr>m_dat_out := 0xff\<rparr>"] r [of "s\<lparr>m_dat_out := 0xff\<rparr>"] c [of "s\<lparr>m_dat_out := 0xff\<rparr>"] o
    by (auto simp: commanded_intros(1) split: if_splits) (auto simp: phase_def commanded_intros(1))
qed

lemma fall_phase: "sdspi_fall x = Inr (r, s') \<Longrightarrow> commanded (phase x) (phase s')"
proof -
  let ?x = "x\<lparr>m_bitpos := m_bitpos x + 1, m_dat_in := push_bit 1 (m_dat_in x) OR of_bool (m_mosi x)\<rparr>"
  assume "sdspi_fall x = Inr (r, s')"
  then obtain y where y: "(if m_bitpos ?x mod 8 = 0 then sdspi_byte ?x else Inr ?x) = Inr y"
    "s' = y\<lparr>m_dat_out := push_bit 1 (m_dat_out y), m_last_miso := (m_dat_out y AND 0x80 \<noteq> 0)\<rparr>"
    unfolding sdspi_fall_def Let_def by auto
  have p: "phase ?x = phase x" "phase s' = phase y" using y(2) by (simp_all add: phase_def)
  show ?thesis
  proof (cases "m_bitpos ?x mod 8 = 0")
    case True
    from byte_phase [OF y(1) [unfolded if_P [OF True]]] show ?thesis unfolding p .
  next
    case False
    have "?x = y" using y(1) [unfolded if_not_P [OF False]] by (simp only: sum.inject)
    then show ?thesis unfolding p(2) p(1) [symmetric] by (simp only: commanded_intros(1))
  qed
qed

lemma tick_card_step:
  assumes "sdspi_tick csn sck mosi s = Inr (r, s')"
  shows "card_step (phase s) (phase s')"
proof -
  define s1 where "s1 = (if m_powerup_busy s > 0 then s\<lparr>m_powerup_busy := m_powerup_busy s - 1\<rparr> else s)"
  have p: "phase s1 = (m_reset_state s, count_down (m_powerup_busy s))"
    by (simp add: s1_def phase_def count_down_def)
  have same: "phase (s1\<lparr>m_mosi := a, m_syncd := b, m_last_sck := c\<rparr>) = phase s1"
    "phase (s1\<lparr>m_last_sck := c\<rparr>) = phase s1" "phase (sdspi_deselect c s1) = phase s1" for a b c
    by (simp_all add: phase_def sdspi_deselect_def)
  consider "sdspi_fall (s1\<lparr>m_last_sck := sck\<rparr>) = Inr (r, s')" | "phase s' = phase s1"
    using assms unfolding sdspi_tick_def s1_def [symmetric] Let_def by (auto simp: same split: if_splits)
  then have "commanded (phase s1) (phase s')"
  proof cases
    case 1
    from fall_phase [OF this] show ?thesis unfolding same .
  qed (simp add: commanded_intros(1))
  then show ?thesis unfolding p commanded_def by (simp add: phase_def)
qed

text \<open>
  C14: the SD card simulator refines the abstract reset machine.  Every clock that does not fault is a step
  of the machine: the phases come in the order CMD0, CMD8, ACMD41, ready, in operation, and the power-up
  timer only counts down after the first ACMD41 has started it.
\<close>
theorem sdspi_tick_refines:
  assumes "sdspi_tick csn sck mosi s = Inr (r, s')"
  shows "card_step (phase s) (phase s')"
  using assms by (rule tick_card_step)

lemma sdspi_tick_refines_witness: "card_step (SDSPI_POWERUP_RESET, -1) (SDSPI_POWERUP_RESET, -1)"
proof -
  let ?s = "sdspisim_init undefined"
  have "phase ?s = (SDSPI_POWERUP_RESET, -1)" by (simp add: phase_def sdspisim_init_def)
  moreover have "sdspi_tick True False False ?s = Inr (False, sdspi_deselect False ?s)"
    by (simp add: sdspi_tick_def sdspisim_init_def)
  ultimately show ?thesis
    using sdspi_tick_refines [of True False False ?s False] by (simp add: phase_def sdspi_deselect_def)
qed

section \<open>How long the reset takes\<close>

type_synonym spi_pins = "bool \<times> bool \<times> bool"

fun sdspi_run :: "spi_pins list \<Rightarrow> sdspisim \<Rightarrow> fault + (bool list \<times> sdspisim)" where
  "sdspi_run [] s = Inr ([], s)"
| "sdspi_run ((csn, sck, mosi) # ps) s =
     (case sdspi_tick csn sck mosi s of
        Inl e \<Rightarrow> Inl e
      | Inr (r, s) \<Rightarrow> map_sum id (\<lambda>(rs, s). (r # rs, s)) (sdspi_run ps s))"

definition timing :: "nat \<Rightarrow> reset_state \<times> int \<Rightarrow> bool" where
  "timing n p \<longleftrightarrow> (case p of (q, t) \<Rightarrow>
     t = -1 \<and> q \<in> {SDSPI_POWERUP_RESET, SDSPI_CMD0_IDLE, SDSPI_RCVD_CMD8}
     \<or> 0 \<le> t \<and> t \<le> 320000 \<and> 320000 \<le> t + int n \<and> (q \<in> {SDSPI_RESET_COMPLETE, SDSPI_IN_OPERATION} \<longrightarrow> 320000 \<le> n))"

lemma start_timer_cases:
  "start_timer (-1) = 320000" "0 \<le> t \<Longrightarrow> t \<le> 320000 \<Longrightarrow> start_timer t = t"
proof -
  have r: "tRESET = 320000" by (simp add: tRESET_def MILLISECONDS_def MICROSECONDS_def)
  show "start_timer (-1) = 320000" unfolding start_timer_def r by simp
  assume "0 \<le> t" "t \<le> 320000"
  then have "uint (word_of_int t :: u32) = t" by (simp add: unsigned_of_int take_bit_int_eq_self_iff)
  then have "\<not> (word_of_int t :: u32) > 320000" using \<open>t \<le> 320000\<close> by (simp add: word_less_def)
  then show "start_timer t = t" unfolding start_timer_def r by simp
qed

lemma timing_step: "card_step p p' \<Longrightarrow> timing n p \<Longrightarrow> timing (Suc n) p'"
proof (induction rule: card_step.induct)
  case (wait q t' t)
  then show ?case
    by (auto simp: timing_def count_down_def start_timer_cases split: if_splits)
next
  case (ready q t)
  then show ?case
    by (auto simp: timing_def count_down_def start_timer_cases split: if_splits)
qed (auto simp: timing_def count_down_def split: if_splits)

lemma timing_run: "sdspi_run ps s = Inr (rs, s') \<Longrightarrow> timing n (phase s) \<Longrightarrow> timing (n + length ps) (phase s')"
proof (induction ps arbitrary: s rs n)
  case (Cons p ps)
  obtain csn sck mosi where "p = (csn, sck, mosi)" by (cases p)
  then obtain r s1 rs1 where 1: "sdspi_tick csn sck mosi s = Inr (r, s1)" "sdspi_run ps s1 = Inr (rs1, s')"
    using Cons.prems(1) by (auto split: sum.splits)
  have "timing (Suc n) (phase s1)"
    using timing_step [OF tick_card_step [OF 1(1)] Cons.prems(2)] .
  from Cons.IH [OF 1(2) this] show ?case by simp
qed simp

text \<open>
  The card is busy for its power-up time.  No sequence of fewer than 320000 clocks brings a new card
  out of its reset, whatever commands it holds.
\<close>
lemma card_reset_takes_time:
  assumes "sdspi_run ps (sdspi_load file (sdspisim_init raw)) = Inr (rs, s)" "length ps < 320000"
  shows "m_reset_state s \<notin> {SDSPI_RESET_COMPLETE, SDSPI_IN_OPERATION}"
proof -
  have "phase (sdspi_load file (sdspisim_init raw)) = (SDSPI_POWERUP_RESET, -1)"
    by (simp add: phase_def sdspi_load_def sdspisim_init_def split: option.split)
  then have "timing 0 (phase (sdspi_load file (sdspisim_init raw)))" by (simp add: timing_def)
  from timing_run [OF assms(1) this] show ?thesis using assms(2) by (auto simp: timing_def phase_def)
qed

lemma card_reset_takes_time_witness:
  "\<exists>rs s. sdspi_run (replicate 2 (True, True, True)) (sdspi_load None (sdspisim_init undefined)) = Inr (rs, s)
     \<and> m_reset_state s \<notin> {SDSPI_RESET_COMPLETE, SDSPI_IN_OPERATION}"
proof -
  have "\<exists>rs s. sdspi_run (replicate 2 (True, True, True)) (sdspi_load None (sdspisim_init undefined)) = Inr (rs, s)"
    by (simp add: numeral_eq_Suc sdspi_tick_def Let_def)
  then show ?thesis using card_reset_takes_time [where ps = "replicate 2 (True, True, True)"] by (metis length_replicate numeral_less_iff semiring_norm(76) semiring_norm(78))
qed

section \<open>Bytes on the wire\<close>

text \<open>
  One bit each way, in the mode the card expects: the host sets its line and raises the clock, at which edge it
  samples the card's, and lowers the clock again.  A byte goes most significant bit first.  A transfer is
  preceded by a clock with the card deselected.
\<close>

definition spi_bit :: "bool \<Rightarrow> sdspisim \<Rightarrow> fault + (bool \<times> sdspisim)" where
  "spi_bit d s =
     (case sdspi_tick False True d s of
        Inl e \<Rightarrow> Inl e
      | Inr (r, s) \<Rightarrow> map_sum id (\<lambda>(_, s). (r, s)) (sdspi_tick False False d s))"

fun spi_bits :: "bool list \<Rightarrow> sdspisim \<Rightarrow> fault + (bool list \<times> sdspisim)" where
  "spi_bits [] s = Inr ([], s)"
| "spi_bits (d # ds) s =
     (case spi_bit d s of Inl e \<Rightarrow> Inl e | Inr (r, s) \<Rightarrow> map_sum id (\<lambda>(rs, s). (r # rs, s)) (spi_bits ds s))"

definition bits_of :: "u8 \<Rightarrow> bool list" where
  "bits_of b = map (bit b) [7, 6, 5, 4, 3, 2, 1, 0]"

definition shift_in :: "u8 \<Rightarrow> bool \<Rightarrow> u8" where
  "shift_in w d = push_bit 1 w OR of_bool d"

definition byte_of :: "bool list \<Rightarrow> u8" where
  "byte_of ds = foldl shift_in 0 ds"

definition spi_byte :: "u8 \<Rightarrow> sdspisim \<Rightarrow> fault + (u8 \<times> sdspisim)" where
  "spi_byte b s = map_sum id (\<lambda>(ds, s). (byte_of ds, s)) (spi_bits (bits_of b) s)"

fun spi_bytes :: "u8 list \<Rightarrow> sdspisim \<Rightarrow> fault + (u8 list \<times> sdspisim)" where
  "spi_bytes [] s = Inr ([], s)"
| "spi_bytes (b # bs) s =
     (case spi_byte b s of Inl e \<Rightarrow> Inl e | Inr (r, s) \<Rightarrow> map_sum id (\<lambda>(rs, s). (r # rs, s)) (spi_bytes bs s))"

definition spi_transfer :: "u8 list \<Rightarrow> sdspisim \<Rightarrow> fault + (u8 list \<times> sdspisim)" where
  "spi_transfer bs s = (case sdspi_tick True False True s of Inl e \<Rightarrow> Inl e | Inr (_, s) \<Rightarrow> spi_bytes bs s)"

text \<open>
  What the wire leaves alone: all but the pins, the shift registers and the power-up timer.  Between two bytes
  the clock is low and the count of bits a multiple of eight, and the card holds the byte the host is going to
  read next, its first bit on the line and the others in the shift register.
\<close>

definition card_of :: "sdspisim \<Rightarrow> sdspisim" where
  "card_of s = s\<lparr>m_last_sck := False, m_mosi := False, m_syncd := True, m_bitpos := 0, m_last_miso := False,
     m_dat_in := 0, m_dat_out := 0, m_powerup_busy := 0\<rparr>"

definition between_bytes :: "sdspisim \<Rightarrow> bool" where
  "between_bytes s \<longleftrightarrow> \<not> m_last_sck s \<and> m_bitpos s mod 8 = 0"

definition pending :: "sdspisim \<Rightarrow> u8" where
  "pending s = (if m_last_miso s then 0x80 else 0) OR drop_bit 1 (m_dat_out s)"

definition shift_out :: "sdspisim \<Rightarrow> sdspisim" where
  "shift_out s = s\<lparr>m_dat_out := push_bit 1 (m_dat_out s), m_last_miso := (m_dat_out s AND 0x80 \<noteq> 0)\<rparr>"

lemma card_of_fields:
  assumes "card_of a = card_of b"
  shows "m_reading_data a = m_reading_data b" "m_cmdidx a = m_cmdidx b" "m_cmdbuf a = m_cmdbuf b" "m_rspdly a = m_rspdly b"
    "m_rspidx a = m_rspidx b" "m_blkdly a = m_blkdly b" "m_blkidx a = m_blkidx b" "m_rspbuf a = m_rspbuf b"
    "m_block_buf a = m_block_buf b" "m_altcmd_flag a = m_altcmd_flag b" "m_reset_state a = m_reset_state b"
    "m_block_address a = m_block_address b" "m_dev a = m_dev b" "m_devblocks a = m_devblocks b" "m_busy a = m_busy b"
proof -
  have e: "f (card_of a) = f (card_of b)" for f :: "sdspisim \<Rightarrow> 'x" unfolding assms ..
  show "m_reading_data a = m_reading_data b" "m_cmdidx a = m_cmdidx b" "m_cmdbuf a = m_cmdbuf b" "m_rspdly a = m_rspdly b"
    "m_rspidx a = m_rspidx b" "m_blkdly a = m_blkdly b" "m_blkidx a = m_blkidx b" "m_rspbuf a = m_rspbuf b"
    "m_block_buf a = m_block_buf b" "m_altcmd_flag a = m_altcmd_flag b" "m_reset_state a = m_reset_state b"
    "m_block_address a = m_block_address b" "m_dev a = m_dev b" "m_devblocks a = m_devblocks b" "m_busy a = m_busy b"
    using e [of m_reading_data] e [of m_cmdidx] e [of m_cmdbuf] e [of m_rspdly] e [of m_rspidx] e [of m_blkdly]
      e [of m_blkidx] e [of m_rspbuf] e [of m_block_buf] e [of m_altcmd_flag] e [of m_reset_state] e [of m_block_address]
      e [of m_dev] e [of m_devblocks] e [of m_busy]
    by (simp_all add: card_of_def)
qed

lemma bit_shl: "bit (push_bit 1 (w :: u8)) n \<longleftrightarrow> 0 < n \<and> n < 8 \<and> bit w (n - 1)"
  unfolding bit_push_bit_iff by auto

lemma bit_shift_in: "bit (shift_in w d) n \<longleftrightarrow> (if n = 0 then d else n < 8 \<and> bit w (n - 1))"
  unfolding shift_in_def bit_or_iff bit_shl by (auto simp: bit_of_bool_iff)

lemma bit_0x80: "bit (0x80 :: u8) n \<longleftrightarrow> n = 7"
  using bit_push_bit_iff [of 7 "1 :: u8" n] by (auto simp: bit_1_iff)

lemma bit_pending: "n < 8 \<Longrightarrow> bit (pending s) n \<longleftrightarrow> (if n = 7 then m_last_miso s else bit (m_dat_out s) (n + 1))"
proof -
  have "bit (pending s) n \<longleftrightarrow> m_last_miso s \<and> n = 7 \<or> bit (m_dat_out s) (1 + n)"
    unfolding pending_def bit_or_iff bit_drop_bit_eq o_apply
    by (cases "m_last_miso s") (simp_all only: if_True if_False bit_0x80 bit_0_eq bot_apply bot_bool_def simp_thms)
  moreover have "bit (m_dat_out s) (1 + n) \<Longrightarrow> n \<noteq> 7" using bit_imp_le_length [of "m_dat_out s" "1 + n"] by auto
  ultimately show "n < 8 \<Longrightarrow> bit (pending s) n \<longleftrightarrow> (if n = 7 then m_last_miso s else bit (m_dat_out s) (n + 1))"
    by auto
qed

lemma bits_of_shl: "bits_of (push_bit 1 w) = tl (bits_of w) @ [False]"
  unfolding bits_of_def list.map bit_shl by simp

lemma rising_edge:
  assumes "\<not> m_last_sck s"
  shows "\<exists>s'. sdspi_tick False True d s = Inr (m_last_miso s, s') \<and> card_of s' = card_of s \<and> m_last_sck s' \<and> m_syncd s'
    \<and> m_mosi s' = d \<and> m_bitpos s' = m_bitpos s \<and> m_dat_in s' = m_dat_in s \<and> m_dat_out s' = m_dat_out s"
  using assms by (simp add: sdspi_tick_def card_of_def Let_def)

text \<open>The falling edge, up to what the card does with a whole byte.\<close>

lemma falling_edge:
  assumes "m_last_sck s" "m_syncd s"
  shows "\<exists>x. card_of x = card_of s \<and> \<not> m_last_sck x \<and> m_bitpos x = m_bitpos s + 1
    \<and> m_dat_in x = shift_in (m_dat_in s) (m_mosi s) \<and> m_dat_out x = m_dat_out s
    \<and> sdspi_tick False False d s = map_sum id (\<lambda>t. (m_dat_out t AND 0x80 \<noteq> 0, shift_out t))
        (if m_bitpos x mod 8 = 0 then sdspi_byte x else Inr x)"
proof -
  let ?p = "if m_powerup_busy s > 0 then s\<lparr>m_powerup_busy := m_powerup_busy s - 1\<rparr> else s"
  let ?x = "?p\<lparr>m_last_sck := False, m_bitpos := m_bitpos s + 1, m_dat_in := push_bit 1 (m_dat_in s) OR of_bool (m_mosi s)\<rparr>"
  have "card_of ?x = card_of s \<and> \<not> m_last_sck ?x \<and> m_bitpos ?x = m_bitpos s + 1
    \<and> m_dat_in ?x = shift_in (m_dat_in s) (m_mosi s) \<and> m_dat_out ?x = m_dat_out s"
    by (simp add: card_of_def shift_in_def)
  moreover have "sdspi_tick False False d s = map_sum id (\<lambda>t. (m_dat_out t AND 0x80 \<noteq> 0, shift_out t))
        (if m_bitpos ?x mod 8 = 0 then sdspi_byte ?x else Inr ?x)"
    using assms by (simp add: sdspi_tick_def sdspi_fall_def shift_out_def Let_def)
  ultimately show ?thesis by blast
qed

lemma card_bit_run:
  assumes "\<not> m_last_sck s"
  shows "\<exists>x. card_of x = card_of s \<and> \<not> m_last_sck x \<and> m_bitpos x = m_bitpos s + 1
    \<and> m_dat_in x = shift_in (m_dat_in s) d \<and> m_dat_out x = m_dat_out s
    \<and> spi_bit d s = map_sum id (\<lambda>t. (m_last_miso s, shift_out t)) (if m_bitpos x mod 8 = 0 then sdspi_byte x else Inr x)"
proof -
  obtain s1 where 1: "sdspi_tick False True d s = Inr (m_last_miso s, s1)" "card_of s1 = card_of s" "m_last_sck s1" "m_syncd s1"
    "m_mosi s1 = d" "m_bitpos s1 = m_bitpos s" "m_dat_in s1 = m_dat_in s" "m_dat_out s1 = m_dat_out s"
    using rising_edge [OF assms] by blast
  from falling_edge [OF 1(3,4), of d]
  obtain x where "card_of x = card_of s1 \<and> \<not> m_last_sck x \<and> m_bitpos x = m_bitpos s1 + 1
    \<and> m_dat_in x = shift_in (m_dat_in s1) (m_mosi s1) \<and> m_dat_out x = m_dat_out s1
    \<and> sdspi_tick False False d s1 = map_sum id (\<lambda>t. (m_dat_out t AND 0x80 \<noteq> 0, shift_out t))
        (if m_bitpos x mod 8 = 0 then sdspi_byte x else Inr x)" by blast
  then show ?thesis
    using 1 by (intro exI [of _ x]) (cases "if m_bitpos x mod 8 = 0 then sdspi_byte x else Inr x"; simp add: spi_bit_def)
qed

text \<open>The first seven bits of a byte only shift.\<close>

lemma spi_bits_shift:
  assumes "\<not> m_last_sck s" "m_bitpos s mod 8 + length ds < 8"
  shows "\<exists>s'. spi_bits ds s = Inr (take (length ds) (m_last_miso s # bits_of (m_dat_out s)), s') \<and> card_of s' = card_of s
    \<and> \<not> m_last_sck s' \<and> m_bitpos s' = m_bitpos s + length ds
    \<and> m_dat_in s' = foldl shift_in (m_dat_in s) ds
    \<and> m_last_miso s' = (m_last_miso s # bits_of (m_dat_out s)) ! length ds"
  using assms
proof (induction ds arbitrary: s)
  case (Cons d ds)
  obtain x where x: "card_of x = card_of s" "\<not> m_last_sck x" "m_bitpos x = m_bitpos s + 1"
    "m_dat_in x = shift_in (m_dat_in s) d" "m_dat_out x = m_dat_out s"
    "spi_bit d s = map_sum id (\<lambda>t. (m_last_miso s, shift_out t)) (if m_bitpos x mod 8 = 0 then sdspi_byte x else Inr x)"
    using card_bit_run [OF Cons.prems(1), of d] by blast
  let ?t = "shift_out x"
  have m: "m_bitpos x mod 8 = m_bitpos s mod 8 + 1" using x(3) Cons.prems(2) by (simp add: mod_Suc)
  then have b: "spi_bit d s = Inr (m_last_miso s, ?t)" using x(6) by simp
  have t: "\<not> m_last_sck ?t" "m_bitpos ?t mod 8 + length ds < 8" "card_of ?t = card_of s" "m_bitpos ?t = m_bitpos s + 1"
    "m_dat_in ?t = shift_in (m_dat_in s) d" "m_last_miso ?t = bit (m_dat_out s) 7"
    "m_dat_out ?t = push_bit 1 (m_dat_out s)"
    using x m Cons.prems(2) bit_and_push_bit_1 [of "m_dat_out s" 7] by (simp_all add: shift_out_def card_of_def)
  have l: "length ds < 7" using Cons.prems(2) by simp
  have c: "m_last_miso ?t # bits_of (m_dat_out ?t) = bits_of (m_dat_out s) @ [False]"
    unfolding t(6,7) bits_of_shl by (simp add: bits_of_def)
  have len: "length (bits_of (m_dat_out s)) = 8" by (simp add: bits_of_def)
  show ?case
    using Cons.IH [OF t(1,2)] l unfolding c by (auto simp: b t(3,4,5) nth_append len)
qed simp

lemma byte_of_bits: "foldl shift_in w (bits_of b) = b"
proof (rule bit_word_eqI)
  fix n assume "n < LENGTH(8)"
  then consider "n = 0" | "n = 1" | "n = 2" | "n = 3" | "n = 4" | "n = 5" | "n = 6" | "n = 7" by fastforce
  then show "bit (foldl shift_in w (bits_of b)) n \<longleftrightarrow> bit b n"
    unfolding bits_of_def list.map foldl.simps by cases (simp_all add: bit_shift_in)
qed

lemma bits_of_pending: "m_last_miso s # take 7 (bits_of (m_dat_out s)) = bits_of (pending s)"
  by (simp add: bits_of_def bit_pending numeral_eq_Suc)

lemma card_byte_run:
  assumes "between_bytes s"
  shows "\<exists>x. card_of x = card_of s \<and> m_dat_in x = b \<and> between_bytes x
    \<and> spi_byte b s = map_sum id (\<lambda>t. (pending s, shift_out t)) (sdspi_byte x)"
proof -
  let ?ds = "take 7 (bits_of b)"
  have bits: "bits_of b = ?ds @ [bit b 0]" and len: "length ?ds = 7" by (simp_all add: bits_of_def)
  have s: "\<not> m_last_sck s" "m_bitpos s mod 8 + length ?ds < 8" using assms len by (simp_all add: between_bytes_def)
  obtain s1 where s1: "spi_bits ?ds s = Inr (take 7 (m_last_miso s # bits_of (m_dat_out s)), s1)" "card_of s1 = card_of s"
    "\<not> m_last_sck s1" "m_bitpos s1 = m_bitpos s + 7"
    "m_dat_in s1 = foldl shift_in (m_dat_in s) ?ds"
    "m_last_miso s1 = (m_last_miso s # bits_of (m_dat_out s)) ! 7"
    using spi_bits_shift [OF s] unfolding len by blast
  obtain x where x: "card_of x = card_of s1" "\<not> m_last_sck x" "m_bitpos x = m_bitpos s1 + 1"
    "m_dat_in x = shift_in (m_dat_in s1) (bit b 0)"
    "spi_bit (bit b 0) s1 = map_sum id (\<lambda>t. (m_last_miso s1, shift_out t)) (if m_bitpos x mod 8 = 0 then sdspi_byte x else Inr x)"
    using card_bit_run [OF s1(3), of "bit b 0"] by blast
  have m: "m_bitpos x mod 8 = 0" using assms x(3) s1(4) by (simp add: between_bytes_def mod_add_left_eq [symmetric])
  have "m_dat_in x = foldl shift_in (m_dat_in s) (bits_of b)"
    unfolding x(4) s1(5) by (subst (2) bits) simp
  then have "m_dat_in x = b" unfolding byte_of_bits .
  moreover have "spi_byte b s = map_sum id (\<lambda>t. (pending s, shift_out t)) (sdspi_byte x)"
  proof -
    have app: "spi_bits (as @ [d]) u = (case spi_bits as u of Inl e \<Rightarrow> Inl e
        | Inr (rs, v) \<Rightarrow> map_sum id (\<lambda>(r, w). (rs @ [r], w)) (spi_bit d v))" for as d u
      by (induction as arbitrary: u) (auto simp: sum.map_comp o_def id_def case_prod_unfold split: sum.split)
    have seven: "take 7 (m_last_miso s # bits_of (m_dat_out s)) @ [m_last_miso s1] = bits_of (pending s)"
      unfolding s1(6) bits_of_pending [symmetric] by (simp add: bits_of_def)
    have "spi_bits (bits_of b) s = map_sum id (\<lambda>t. (bits_of (pending s), shift_out t)) (sdspi_byte x)"
      by (subst bits) (cases "sdspi_byte x"; simp add: app s1(1) x(5) m seven [simplified])
    then show ?thesis by (cases "sdspi_byte x") (simp_all add: spi_byte_def byte_of_def byte_of_bits)
  qed
  ultimately show ?thesis using x(1,2) s1(2) m by (auto simp: between_bytes_def)
qed

text \<open>
  The host reads the answer to a byte while it sends the next one.  \<open>answers bs rs s s'\<close>: sent the bytes \<open>bs\<close>,
  the card answers with the bytes \<open>rs\<close>, the last of which is then still pending.
\<close>

definition answers :: "u8 list \<Rightarrow> u8 list \<Rightarrow> sdspisim \<Rightarrow> sdspisim \<Rightarrow> bool" where
  "answers bs rs s s' \<longleftrightarrow> between_bytes s' \<and> pending s' = last (pending s # rs)
     \<and> spi_bytes bs s = Inr (butlast (pending s # rs), s')"

lemma answers_append:
  assumes "answers as rs s s1" "answers bs rs' s1 s2"
  shows "answers (as @ bs) (rs @ rs') s s2"
proof -
  have app: "spi_bytes (as @ bs) u = Inr (xs @ ys, w)"
    if "spi_bytes as u = Inr (xs, v)" "spi_bytes bs v = Inr (ys, w)" for u v w xs ys
    using that by (induction as arbitrary: u xs) (auto split: sum.splits)
  have split: "pending s # rs = butlast (pending s # rs) @ [pending s1]"
    using assms(1) by (simp only: answers_def append_butlast_last_id list.distinct simp_thms)
  have "pending s # (rs @ rs') = butlast (pending s # rs) @ (pending s1 # rs')"
    using arg_cong [OF split, of "\<lambda>xs. xs @ rs'"] by simp
  then have "butlast (pending s # (rs @ rs')) = butlast (pending s # rs) @ butlast (pending s1 # rs')"
    "last (pending s # (rs @ rs')) = last (pending s1 # rs')"
    by (simp_all only: butlast_append last_append list.distinct if_False)
  then show ?thesis using assms app by (simp only: answers_def)
qed

lemma answers_byte:
  assumes "between_bytes s"
    and "\<And>x. card_of x = card_of s \<Longrightarrow> m_dat_in x = b \<Longrightarrow> \<exists>t. sdspi_byte x = Inr t \<and> m_last_sck t = m_last_sck x
      \<and> m_bitpos t = m_bitpos x \<and> m_dat_out t = r \<and> card_of t = c x"
  shows "\<exists>x s'. card_of x = card_of s \<and> m_dat_in x = b \<and> answers [b] [r] s s' \<and> card_of s' = c x"
proof -
  obtain x where x: "card_of x = card_of s" "m_dat_in x = b" "between_bytes x"
    "spi_byte b s = map_sum id (\<lambda>t. (pending s, shift_out t)) (sdspi_byte x)"
    using card_byte_run [OF assms(1), of b] by blast
  obtain t where t: "sdspi_byte x = Inr t" "m_last_sck t = m_last_sck x" "m_bitpos t = m_bitpos x" "m_dat_out t = r"
    "card_of t = c x"
    using assms(2) [OF x(1,2)] by blast
  have "card_of (shift_out t) = c x" using t(5) by (simp add: shift_out_def card_of_def)
  moreover have "pending (shift_out t) = m_dat_out t"
  proof (rule bit_word_eqI)
    fix n assume n: "n < LENGTH(8)"
    have m: "m_dat_out t AND 0x80 \<noteq> 0 \<longleftrightarrow> bit (m_dat_out t) 7"
      using bit_and_push_bit_1 [of "m_dat_out t" 7] by simp
    have f: "m_last_miso (shift_out t) = bit (m_dat_out t) 7" "m_dat_out (shift_out t) = push_bit 1 (m_dat_out t)"
      unfolding shift_out_def m [symmetric] by simp_all
    have "n < 8" using n by simp
    then show "bit (pending (shift_out t)) n \<longleftrightarrow> bit (m_dat_out t) n"
      unfolding bit_pending [OF \<open>n < 8\<close>] f bit_shl by auto
  qed
  ultimately show ?thesis
    using x t by (intro exI [of _ x] exI [of _ "shift_out t"]) (simp add: answers_def between_bytes_def shift_out_def)
qed

section \<open>Reading a block\<close>

definition replying :: "nat \<Rightarrow> int \<Rightarrow> nat \<Rightarrow> (nat \<Rightarrow> u8) \<Rightarrow> (nat \<Rightarrow> u8) \<Rightarrow> sdspisim \<Rightarrow> bool" where
  "replying ri bd bi rb bb s \<longleftrightarrow> between_bytes s \<and> \<not> m_reading_data s \<and> m_cmdidx s = 7 \<and> m_rspdly s \<le> 0 \<and> m_rspidx s = ri
     \<and> m_blkdly s = bd \<and> m_blkidx s = bi \<and> m_rspbuf s = rb \<and> m_block_buf s = bb"

lemma reply_byte:
  assumes "replying ri bd bi rb bb s"
    and "\<And>x. card_of x = card_of s \<Longrightarrow> m_dat_in x = 0xff \<Longrightarrow>
      sdspi_byte x = Inr (x\<lparr>m_dat_out := r, m_rspidx := ri', m_blkdly := bd', m_blkidx := bi'\<rparr>)"
  shows "\<exists>s'. answers [0xff] [r] s s' \<and> replying ri' bd' bi' rb bb s'"
proof -
  have b: "between_bytes s" using assms(1) by (simp add: replying_def)
  have "\<exists>x s'. card_of x = card_of s \<and> m_dat_in x = 0xff \<and> answers [0xff] [r] s s'
      \<and> card_of s' = card_of (x\<lparr>m_rspidx := ri', m_blkdly := bd', m_blkidx := bi'\<rparr>)"
    by (rule answers_byte [OF b]) (simp add: assms(2) card_of_def)
  then obtain x s' where x: "card_of x = card_of s" "answers [0xff] [r] s s'"
    and s': "card_of s' = card_of (x\<lparr>m_rspidx := ri', m_blkdly := bd', m_blkidx := bi'\<rparr>)" by blast
  have "replying ri' bd' bi' rb bb s'"
    using assms(1) x(2) card_of_fields [OF x(1)] card_of_fields [OF s'] by (simp add: replying_def answers_def)
  then show ?thesis using x(2) by blast
qed

lemma reply_exchange:
  assumes "replying ri bd bi rb bb s"
  shows "ri < 8 \<Longrightarrow> \<exists>s'. answers [0xff] [rb ri] s s' \<and> replying (ri + 1) bd bi rb bb s'"
    "8 \<le> ri \<Longrightarrow> 0 < bd \<Longrightarrow> \<exists>s'. answers [0xff] [0xff] s s' \<and> replying ri (bd - 1) bi rb bb s'"
    "8 \<le> ri \<Longrightarrow> bd \<le> 0 \<Longrightarrow> bi < SDSPI_MAXBLKLEN \<Longrightarrow>
       \<exists>s'. answers [0xff] [bb bi] s s' \<and> replying ri bd (bi + 1) rb bb s'"
proof -
  have "sdspi_byte x = sdspi_reply_byte (x\<lparr>m_dat_out := 0xff\<rparr>)" "m_rspdly x \<le> 0" "m_rspidx x = ri" "m_blkdly x = bd"
    "m_blkidx x = bi" "m_rspbuf x = rb" "m_block_buf x = bb" if "card_of x = card_of s" for x
    using assms card_of_fields [OF that] by (simp_all add: replying_def sdspi_byte_def Let_def)
  note x = this
  have x1: "sdspi_byte x = Inr (x\<lparr>m_dat_out := rb ri, m_rspidx := ri + 1, m_blkdly := bd, m_blkidx := bi\<rparr>)"
    if "ri < 8" "card_of x = card_of s" "m_dat_in x = 0xff" for x
    using x [OF that(2)] that(1,3) by (cases x) (simp add: sdspi_reply_byte_def SDSPI_RSPLEN_def)
  have x2: "sdspi_byte x = Inr (x\<lparr>m_dat_out := 0xff, m_rspidx := ri, m_blkdly := bd - 1, m_blkidx := bi\<rparr>)"
    if "8 \<le> ri" "0 < bd" "card_of x = card_of s" "m_dat_in x = 0xff" for x
    using x [OF that(3)] that(1,2,4) by (cases x) (simp add: sdspi_reply_byte_def SDSPI_RSPLEN_def)
  have x3: "sdspi_byte x = Inr (x\<lparr>m_dat_out := bb bi, m_rspidx := ri, m_blkdly := bd, m_blkidx := bi + 1\<rparr>)"
    if "8 \<le> ri" "bd \<le> 0" "bi < SDSPI_MAXBLKLEN" "card_of x = card_of s" "m_dat_in x = 0xff" for x
    using x [OF that(4)] that(1,2,3,5) by (cases x) (simp add: sdspi_reply_byte_def SDSPI_RSPLEN_def)
  show "ri < 8 \<Longrightarrow> \<exists>s'. answers [0xff] [rb ri] s s' \<and> replying (ri + 1) bd bi rb bb s'"
    by (rule reply_byte [OF assms x1])
  show "8 \<le> ri \<Longrightarrow> 0 < bd \<Longrightarrow> \<exists>s'. answers [0xff] [0xff] s s' \<and> replying ri (bd - 1) bi rb bb s'"
    by (rule reply_byte [OF assms x2])
  show "8 \<le> ri \<Longrightarrow> bd \<le> 0 \<Longrightarrow> bi < SDSPI_MAXBLKLEN \<Longrightarrow>
       \<exists>s'. answers [0xff] [bb bi] s s' \<and> replying ri bd (bi + 1) rb bb s'"
    by (rule reply_byte [OF assms x3])
qed

lemma reply_response:
  "replying ri bd bi rb bb s \<Longrightarrow> ri + Suc n = 8 \<Longrightarrow>
     \<exists>s'. answers (replicate (Suc n) 0xff) (map rb [ri..<8]) s s' \<and> replying 8 bd bi rb bb s'"
proof (induction n arbitrary: ri s)
  case 0
  then show ?case using reply_exchange(1) [OF "0.prems"(1)] by (auto simp: upt_conv_Cons)
next
  case (Suc n)
  then have "ri < 8" by simp
  with reply_exchange(1) [OF Suc.prems(1)]
  obtain s1 where 1: "answers [0xff] [rb ri] s s1" "replying (ri + 1) bd bi rb bb s1" by auto
  from Suc.IH [OF this(2)] Suc.prems(2)
  obtain s2 where "answers (replicate (Suc n) 0xff) (map rb [ri + 1..<8]) s1 s2" "replying 8 bd bi rb bb s2" by auto
  moreover have "[ri..<8] = [ri] @ [ri + 1..<8]" using Suc.prems(2) by (simp add: upt_conv_Cons)
  ultimately show ?case using answers_append [OF 1(1)] by fastforce
qed

lemma reply_delay:
  "replying 8 (int (Suc n)) bi rb bb s \<Longrightarrow>
     \<exists>s'. answers (replicate (Suc n) 0xff) (replicate (Suc n) 0xff) s s' \<and> replying 8 0 bi rb bb s'"
proof (induction n arbitrary: s)
  case 0
  then show ?case using reply_exchange(2) [OF "0.prems"] by auto
next
  case (Suc n)
  from reply_exchange(2) [OF Suc.prems]
  obtain s1 where 1: "answers [0xff] [0xff] s s1" "replying 8 (int (Suc n)) bi rb bb s1" by auto
  from Suc.IH [OF this(2)]
  obtain s2 where "answers (replicate (Suc n) 0xff) (replicate (Suc n) 0xff) s1 s2" "replying 8 0 bi rb bb s2" by blast
  then show ?case using answers_append [OF 1(1)] by fastforce
qed

lemma reply_block:
  "replying 8 0 bi rb bb s \<Longrightarrow> bi + Suc n \<le> SDSPI_MAXBLKLEN \<Longrightarrow>
     \<exists>s'. answers (replicate (Suc n) 0xff) (map bb [bi..<bi + Suc n]) s s' \<and> replying 8 0 (bi + Suc n) rb bb s'"
proof (induction n arbitrary: bi s)
  case 0
  then show ?case using reply_exchange(3) [OF "0.prems"(1)] by auto
next
  case (Suc n)
  then have "bi < SDSPI_MAXBLKLEN" by simp
  with reply_exchange(3) [OF Suc.prems(1)]
  obtain s1 where 1: "answers [0xff] [bb bi] s s1" "replying 8 0 (bi + 1) rb bb s1" by auto
  from Suc.IH [OF this(2)] Suc.prems(2)
  obtain s2 where "answers (replicate (Suc n) 0xff) (map bb [bi + 1..<bi + 1 + Suc n]) s1 s2"
    "replying 8 0 (bi + 1 + Suc n) rb bb s2" by auto
  moreover have "[bi..<bi + Suc (Suc n)] = [bi] @ [bi + 1..<bi + 1 + Suc n]" by (simp add: upt_conv_Cons)
  ultimately show ?case using answers_append [OF 1(1)] by fastforce
qed

text \<open>A command frame.\<close>

definition frame_buf :: "u8 \<Rightarrow> u32 \<Rightarrow> nat \<Rightarrow> u8" where
  "frame_buf c arg i = [c, byte_at 3 arg, byte_at 2 arg, byte_at 1 arg, byte_at 0 arg] ! i"

definition frame :: "u8 \<Rightarrow> u32 \<Rightarrow> u8 list" where
  "frame c arg = [c, byte_at 3 arg, byte_at 2 arg, byte_at 1 arg, byte_at 0 arg, ucast (cmdcrc 5 (frame_buf c arg))]"

lemma cmd_arg_bytes: "cmd_arg (\<lambda>i. frame c arg ! i) = arg"
proof (rule bit_word_eqI)
  fix n assume n: "n < LENGTH(32)"
  consider "n < 8" | "8 \<le> n" "n < 16" | "16 \<le> n" "n < 24" | "24 \<le> n" by linarith
  then show "bit (cmd_arg (\<lambda>i. frame c arg ! i)) n \<longleftrightarrow> bit arg n"
    using n by cases (auto simp: cmd_arg_def frame_def byte_at_def bit_simps)
qed

lemma check_frame: "check_cmdcrc (\<lambda>i. frame c arg ! i)"
proof -
  have "map (\<lambda>i. frame c arg ! i) [0..<5] = map (frame_buf c arg) [0..<5]"
    by (simp add: upt_rec frame_def frame_buf_def)
  then have e: "cmdcrc 5 (\<lambda>i. frame c arg ! i) = cmdcrc 5 (frame_buf c arg)"
    unfolding cmdcrc_def by (simp only:)
  let ?f = "foldl cmdcrc_byte 0 (map (frame_buf c arg) [0..<5])"
  have "(?f AND 0xfe) OR 1 = (ucast (ucast ((?f AND 0xfe) OR 1) :: u8) :: u32)"
    by (rule bit_word_eqI) (unfold bit_and_iff bit_or_iff bit_unsigned_iff bit_fe bit_1_iff, auto)
  then show ?thesis
    unfolding check_cmdcrc_def e by (simp add: frame_def cmdcrc_def Let_def)
qed

lemma cmdbuf_frame:
  assumes "\<forall>i<6. buf i = frame c arg ! i"
  shows "check_cmdcrc buf" "cmd_arg buf = arg" "buf 0 = c"
proof -
  have b: "buf 0 = frame c arg ! 0" "buf 1 = frame c arg ! 1" "buf 2 = frame c arg ! 2" "buf 3 = frame c arg ! 3"
    "buf 4 = frame c arg ! 4" "buf 5 = frame c arg ! 5"
    using assms by simp_all
  show "check_cmdcrc buf"
  proof -
    have "map buf [0..<5] = map (\<lambda>i. frame c arg ! i) [0..<5]" using assms by simp
    then show ?thesis using check_frame [of c arg] unfolding check_cmdcrc_def cmdcrc_def b(6) by (simp only:)
  qed
  show "cmd_arg buf = arg"
    using cmd_arg_bytes [of c arg] unfolding cmd_arg_def by (simp add: b del: One_nat_def)
  show "buf 0 = c" using b(1) by (simp add: frame_def)
qed

text \<open>The start token, the data and the checksum of the data.\<close>

definition data_packet :: "u8 list \<Rightarrow> u8 list" where
  "data_packet ds =
     (let crc = blockcrc (length ds) (\<lambda>i. ds ! i)
      in 0xfe # ds @ [ucast (drop_bit 8 crc), ucast crc])"

definition block_buf :: "nat \<Rightarrow> (nat \<Rightarrow> u8) \<Rightarrow> nat \<Rightarrow> u8" where
  "block_buf len data = add_block_crc len (\<lambda>i. if i = 0 then 0x0fe else if i \<le> len then data (i - 1) else 0xff)"

lemma block_buf_sent: "map (block_buf len data) [0..<len + 3] = data_packet (map data [0..<len])"
proof -
  let ?buf = "\<lambda>i. if i = 0 then 0x0fe else if i \<le> len then data (i - 1) else (0xff :: u8)"
  have u: "[0..<len + 3] = 0 # map Suc [0..<len] @ [len + 1, len + 2]"
    by (simp add: map_Suc_upt upt_conv_Cons numeral_eq_Suc)
  have "map (\<lambda>i. ?buf (i + 1)) [0..<len] = map data [0..<len]" by simp
  moreover have "map ((!) (map data [0..<len])) [0..<len] = map data [0..<len]" by simp
  ultimately have "blockcrc len (\<lambda>i. ?buf (i + 1)) = blockcrc len ((!) (map data [0..<len]))"
    unfolding blockcrc_def by (simp only:)
  then show ?thesis
    unfolding u by (simp add: block_buf_def add_block_crc_def data_packet_def Let_def)
qed

text \<open>The card hears the bytes of a frame: nothing changes but the command buffer and its index.\<close>

definition hearing :: "sdspisim \<Rightarrow> u8 list \<Rightarrow> nat \<Rightarrow> sdspisim \<Rightarrow> bool" where
  "hearing s0 f k s \<longleftrightarrow> between_bytes s
     \<and> (\<exists>buf. card_of s = card_of (s0\<lparr>m_cmdidx := k, m_cmdbuf := buf\<rparr>) \<and> (\<forall>i<k. buf i = f ! i))"

lemma hear_byte:
  assumes "hearing s0 f k s" "k < 6" "\<not> m_reading_data s0" "f ! 0 AND 0xc0 = 0x40"
  shows "\<exists>s'. answers [f ! k] [0xff] s s' \<and> hearing s0 f (k + 1) s'"
proof -
  obtain buf where b: "between_bytes s" "card_of s = card_of (s0\<lparr>m_cmdidx := k, m_cmdbuf := buf\<rparr>)" "\<forall>i<k. buf i = f ! i"
    using assms(1) by (auto simp: hearing_def)
  let ?c = "\<lambda>x. card_of (x\<lparr>m_cmdbuf := buf(k := f ! k), m_cmdidx := k + 1\<rparr>)"
  have "\<exists>x s'. card_of x = card_of s \<and> m_dat_in x = f ! k \<and> answers [f ! k] [0xff] s s' \<and> card_of s' = ?c x"
  proof (rule answers_byte [OF b(1)])
    fix x assume x: "card_of x = card_of s" "m_dat_in x = f ! k"
    then have "card_of x = card_of (s0\<lparr>m_cmdidx := k, m_cmdbuf := buf\<rparr>)" using b(2) by simp
    from card_of_fields [OF this]
    have "m_cmdidx x = k" "m_cmdbuf x = buf" "\<not> m_reading_data x" using assms(3) by simp_all
    then have "sdspi_byte x = Inr (x\<lparr>m_dat_out := 0xff, m_cmdbuf := buf(k := f ! k), m_cmdidx := k + 1\<rparr>)"
      using x(2) assms(2,4) by (cases "k = 0") (simp_all add: sdspi_byte_def Let_def)
    then show "\<exists>t. sdspi_byte x = Inr t \<and> m_last_sck t = m_last_sck x \<and> m_bitpos t = m_bitpos x \<and> m_dat_out t = 0xff
        \<and> card_of t = ?c x"
      by (simp add: card_of_def)
  qed
  then obtain x s' where x: "card_of x = card_of s" "answers [f ! k] [0xff] s s'" "card_of s' = ?c x" by blast
  have over: "card_of (y\<lparr>m_cmdbuf := g, m_cmdidx := i\<rparr>) = (card_of y)\<lparr>m_cmdbuf := g, m_cmdidx := i\<rparr>" for y g i
    by (simp add: card_of_def)
  have "card_of s' = card_of (s0\<lparr>m_cmdidx := k + 1, m_cmdbuf := buf(k := f ! k)\<rparr>)"
    unfolding x(3) over x(1) b(2) by (simp add: card_of_def)
  moreover have "\<forall>i<k + 1. (buf(k := f ! k)) i = f ! i" using b(3) by (simp add: less_Suc_eq)
  moreover have "between_bytes s'" using x(2) by (simp add: answers_def)
  ultimately show ?thesis using x(2) unfolding hearing_def by blast
qed

lemma hear_frame:
  assumes "between_bytes s" "m_cmdidx s = 0" "\<not> m_reading_data s" "f ! 0 AND 0xc0 = 0x40" "n < 6"
  shows "\<exists>s'. answers (map ((!) f) [0..<Suc n]) (replicate (Suc n) 0xff) s s' \<and> hearing s f (Suc n) s'"
  using assms(5)
proof (induction n)
  case 0
  have "s\<lparr>m_cmdidx := 0, m_cmdbuf := m_cmdbuf s\<rparr> = s" using assms(2) by (cases s) simp
  then have "hearing s f 0 s" unfolding hearing_def using assms(1) by (metis not_less_zero)
  from hear_byte [OF this _ assms(3,4)] show ?case by simp
next
  case (Suc n)
  then obtain s1 where 1: "answers (map ((!) f) [0..<Suc n]) (replicate (Suc n) 0xff) s s1" "hearing s f (Suc n) s1" by auto
  from hear_byte [OF 1(2) Suc.prems assms(3,4)]
  obtain s2 where 2: "answers [f ! Suc n] [0xff] s1 s2" "hearing s f (Suc n + 1) s2" by blast
  have "map ((!) f) [0..<Suc (Suc n)] = map ((!) f) [0..<Suc n] @ [f ! Suc n]" by simp
  moreover have "replicate (Suc (Suc n)) 0xff = replicate (Suc n) 0xff @ [0xff :: u8]"
    by (simp add: replicate_append_same)
  ultimately show ?case using answers_append [OF 1(1) 2(1)] 2(2) by (metis Suc_eq_plus1)
qed

text \<open>The request for a block: the card answers, and holds the bytes of the file from its position on.\<close>

definition asked :: "u8 list \<Rightarrow> u32 \<Rightarrow> nat \<Rightarrow> u8" where
  "asked bytes arg i = (if 512 * unat arg + i < length bytes then bytes ! (512 * unat arg + i) else 0xff)"

definition zero_response :: "(nat \<Rightarrow> u8) \<Rightarrow> nat \<Rightarrow> u8" where
  "zero_response rb i = (if i = 0 then 0 else if i < SDSPI_RSPLEN then 0xff else rb i)"

lemma block_requested:
  assumes "between_bytes s" "m_cmdidx s = 0" "\<not> m_reading_data s" "\<not> m_altcmd_flag s" "m_rspdly s \<le> 0"
    "m_reset_state s = SDSPI_IN_OPERATION" "m_block_address s"
    "m_dev s = Some bytes" "m_devblocks s = length bytes div 512" "unat arg < m_devblocks s" "length bytes \<le> 2 ^ 32"
  shows "\<exists>s2. answers (frame 0x51 arg @ [0xff]) (replicate 7 0xff) s s2
    \<and> replying 0 (int 60) 0 (zero_response (m_rspbuf s)) (block_buf 512 (asked bytes arg)) s2"
proof -
  have "512 * unat arg < 2 ^ 32" using assms(9,10,11) by simp
  then have pos: "unat (push_bit 9 arg) = 512 * unat arg"
    by (simp add: push_bit_eq_mult unat_word_ariths mult.commute)
  have fr: "map ((!) (frame 0x51 arg)) [0..<Suc 5] = frame 0x51 arg" "frame 0x51 arg ! 0 AND 0xc0 = 0x40"
    by (simp_all add: frame_def upt_rec numeral_eq_Suc)
  obtain s1 where s1: "answers (frame 0x51 arg) (replicate (Suc 5) 0xff) s s1" "hearing s (frame 0x51 arg) (Suc 5) s1"
    using hear_frame [OF assms(1,2,3) fr(2), of 5] unfolding fr(1) by auto
  then obtain buf where buf: "between_bytes s1" "card_of s1 = card_of (s\<lparr>m_cmdidx := 6, m_cmdbuf := buf\<rparr>)"
    "\<forall>i<6. buf i = frame 0x51 arg ! i"
    by (auto simp: hearing_def)
  note c = cmdbuf_frame [OF buf(3)]
  let ?rb = "zero_response (m_rspbuf s)" and ?bb = "block_buf 512 (asked bytes arg)"
  have step: "\<exists>t. sdspi_byte x = Inr t \<and> m_last_sck t = m_last_sck x \<and> m_bitpos t = m_bitpos x \<and> m_dat_out t = 0xff
      \<and> \<not> m_reading_data t \<and> m_cmdidx t = 7 \<and> m_rspdly t \<le> 0 \<and> m_rspidx t = 0 \<and> m_blkdly t = 60 \<and> m_blkidx t = 0
      \<and> m_rspbuf t = ?rb \<and> m_block_buf t = ?bb" if "card_of x = card_of s1" for x
  proof -
    have "card_of x = card_of (s\<lparr>m_cmdidx := 6, m_cmdbuf := buf\<rparr>)" using that buf(2) by simp
    from card_of_fields [OF this]
    have x: "\<not> m_reading_data x" "m_cmdidx x = 6" "m_cmdbuf x = buf" "m_rspdly x \<le> 0" "m_rspbuf x = m_rspbuf s"
      "\<not> m_altcmd_flag x" "m_reset_state x = SDSPI_IN_OPERATION" "m_block_address x" "m_dev x = Some bytes"
      "unat arg < m_devblocks x"
      using assms by simp_all
    have rb: "(\<lambda>i. if i < SDSPI_RSPLEN then 0xff else m_rspbuf y i)(0 := 0) = ?rb" if "m_rspbuf y = m_rspbuf s" for y
      using that by (auto simp: zero_response_def)
    have bb: "asked bytes arg = (\<lambda>i. if 512 * unat arg + i < length bytes then bytes ! (512 * unat arg + i) else 0xff)"
      by (rule ext) (simp add: asked_def)
    show ?thesis
      unfolding block_buf_def bb
      by (simp add: x c pos rb sdspi_byte_def sdspi_command_def sdspi_cmd_def sdspi_cmd17_def send_block_def Let_def)
  qed
  have "\<exists>x s'. card_of x = card_of s1 \<and> m_dat_in x = 0xff \<and> answers [0xff] [0xff] s1 s'
      \<and> card_of s' = card_of (projr (sdspi_byte x))"
    by (rule answers_byte [OF buf(1)]) (use step in fastforce)
  then obtain x s2 where x: "card_of x = card_of s1" "answers [0xff] [0xff] s1 s2" "card_of s2 = card_of (projr (sdspi_byte x))"
    by blast
  have "replying 0 (int 60) 0 ?rb ?bb s2"
    using step [OF x(1)] card_of_fields [OF x(3)] x(2) by (auto simp: replying_def answers_def)
  moreover have "replicate 7 0xff = replicate (Suc 5) 0xff @ [0xff :: u8]" by (simp add: numeral_eq_Suc)
  ultimately show ?thesis using answers_append [OF s1(1) x(2)] by metis
qed

text \<open>
  C13: reading a block from a card in operation, over its pins.  The host deselects the card for a clock, sends
  the six bytes of the frame of CMD17 and then ones, bit by bit, each with a rising and a falling edge of the clock,
  and samples the card's line at the rising edges.  The byte it reads while it sends one is the card's answer to
  the byte before: one byte after the frame the card answers with a zero, and after 67 more it delivers the
  start token, the 512 bytes of the block and their checksum.  The block is the one the argument names, as long as
  the file is no longer than four gigabytes.
\<close>
theorem sdspi_reads_block:
  assumes "\<not> m_reading_data s" "\<not> m_altcmd_flag s" "m_rspdly s \<le> 0" "m_reset_state s = SDSPI_IN_OPERATION" "m_block_address s"
    "m_dev s = Some bytes" "m_devblocks s = length bytes div 512" "unat arg < m_devblocks s" "length bytes \<le> 2 ^ 32"
  shows "\<exists>s'. spi_transfer (frame 0x51 arg @ replicate 585 0xff) s
    = Inr (replicate 8 0xff @ [0] @ replicate 67 0xff @ data_packet (take 512 (drop (512 * unat arg) bytes)), s')"
proof -
  let ?block = "take 512 (drop (512 * unat arg) bytes)"
  let ?rb = "zero_response (m_rspbuf s)" and ?bb = "block_buf 512 (asked bytes arg)"
  obtain t where t: "sdspi_tick True False True s = Inr (False, t)" "between_bytes t" "m_cmdidx t = 0" "pending t = 0xff"
    "m_rspbuf t = m_rspbuf s" "\<not> m_reading_data t" "\<not> m_altcmd_flag t" "m_rspdly t \<le> 0" "m_reset_state t = SDSPI_IN_OPERATION"
    "m_block_address t" "m_dev t = Some bytes" "m_devblocks t = length bytes div 512" "unat arg < m_devblocks t"
    using assms by (simp add: sdspi_tick_def sdspi_deselect_def between_bytes_def pending_def Let_def drop_bit_eq_div)
  obtain s2 where s2: "answers (frame 0x51 arg @ [0xff]) (replicate 7 0xff) t s2" "replying 0 (int 60) 0 ?rb ?bb s2"
    using block_requested [OF t(2,3,6-13) assms(9)] unfolding t(5) by blast
  obtain s3 where s3: "answers (replicate 8 0xff) (map ?rb [0..<8]) s2 s3" "replying 8 (int 60) 0 ?rb ?bb s3"
    using reply_response [OF s2(2), of 7] by auto
  obtain s4 where s4: "answers (replicate 60 0xff) (replicate 60 0xff) s3 s4" "replying 8 0 0 ?rb ?bb s4"
    using reply_delay [of 59] s3(2) by fastforce
  obtain s5 where s5: "answers (replicate 515 0xff) (map ?bb [0..<515]) s4 s5" "replying 8 0 515 ?rb ?bb s5"
    using reply_block [OF s4(2), of 514] by (auto simp: SDSPI_MAXBLKLEN_def)
  obtain s6 where s6: "answers [0xff] [?bb 515] s5 s6"
    using reply_exchange(3) [OF s5(2)] by (auto simp: SDSPI_MAXBLKLEN_def)
  have "512 * unat arg + 512 \<le> length bytes" using assms(7,8) by simp
  then have "map (asked bytes arg) [0..<512] = ?block" by (intro nth_equalityI) (simp_all add: asked_def)
  then have data: "map ?bb [0..<515] = data_packet ?block" using block_buf_sent [of 512 "asked bytes arg"] by simp
  have rsp: "map ?rb [0..<8] = 0 # replicate 7 0xff"
    by (simp add: zero_response_def SDSPI_RSPLEN_def upt_rec numeral_eq_Suc)
  have ones: "[0xff] @ replicate 8 0xff @ replicate 60 0xff @ replicate 515 0xff @ [0xff] = replicate 585 (0xff :: u8)"
    using replicate_add [of 1 584 "0xff :: u8"] replicate_add [of 8 576 "0xff :: u8"] replicate_add [of 60 516 "0xff :: u8"]
      replicate_add [of 515 1 "0xff :: u8"] by simp
  have gap: "(0 # replicate 7 0xff) @ replicate 60 0xff = [0] @ replicate 67 (0xff :: u8)"
    using replicate_add [of 7 60 "0xff :: u8"] by simp
  have sent: "(frame 0x51 arg @ [0xff]) @ replicate 8 0xff @ replicate 60 0xff @ replicate 515 0xff @ [0xff]
      = frame 0x51 arg @ replicate 585 0xff"
    by (simp only: append.assoc ones)
  have got: "replicate 7 0xff @ (0 # replicate 7 0xff) @ replicate 60 0xff @ ds @ [x]
      = replicate 7 0xff @ ([0] @ replicate 67 0xff @ ds) @ [x]" for ds and x :: u8
    using arg_cong [OF gap, of "\<lambda>ys. replicate 7 0xff @ ys @ ds @ [x]"] by (simp only: append.assoc)
  have "answers (frame 0x51 arg @ replicate 585 0xff)
      (replicate 7 0xff @ ([0] @ replicate 67 0xff @ data_packet ?block) @ [?bb 515]) t s6"
    using answers_append [OF s2(1) answers_append [OF s3(1) answers_append [OF s4(1) answers_append [OF s5(1) s6]]]]
    unfolding data rsp sent got .
  then have "spi_bytes (frame 0x51 arg @ replicate 585 0xff) t
      = Inr (0xff # replicate 7 0xff @ [0] @ replicate 67 0xff @ data_packet ?block, s6)"
    by (simp add: answers_def t(4) butlast_append)
  moreover have "0xff # replicate 7 0xff = replicate 8 (0xff :: u8)" by (simp add: numeral_eq_Suc)
  ultimately show ?thesis unfolding spi_transfer_def t(1) by (metis append_Cons case_prod_conv sum.case(2))
qed

definition demo_card :: "u8 list \<Rightarrow> sdspisim" where
  "demo_card bytes = (sdspi_load (Some bytes) (sdspisim_init undefined))
     \<lparr>m_altcmd_flag := False, m_rspdly := 0, m_reset_state := SDSPI_IN_OPERATION\<rparr>"

lemma sdspi_reads_block_witness:
  "\<exists>s'. spi_transfer (frame 0x51 1 @ replicate 585 0xff) (demo_card (replicate 512 0 @ replicate 512 7))
     = Inr (replicate 8 0xff @ [0] @ replicate 67 0xff @ data_packet (replicate 512 7), s')"
  using sdspi_reads_block [of "demo_card (replicate 512 0 @ replicate 512 7)" "replicate 512 0 @ replicate 512 7" 1]
  by (simp add: demo_card_def sdspi_load_def sdspisim_init_def CCS_def)

section \<open>The file\<close>

text \<open>
  Blocks are addressed modulo four gigabytes.  The block number is shifted as a 32-bit word, so from
  block \<open>2 ^ 23\<close> on a card delivers the block \<open>2 ^ 23\<close> places before the one that was asked for.
\<close>
lemma sdspi_block_wraps:
  assumes "m_block_address s" "unat arg < m_devblocks s" "2 ^ 23 \<le> unat arg"
  shows "sdspi_cmd17 arg s = sdspi_cmd17 (arg - 0x800000) s"
proof -
  have "0x800000 \<le> arg" using assms(3) by (simp add: word_le_nat_alt)
  then have "unat (arg - 0x800000) < m_devblocks s" using assms(2) by (simp add: unat_sub)
  moreover have "push_bit 9 (arg - 0x800000) = push_bit 9 arg"
  proof -
    have "(0x800000 :: u32) * 2 ^ 9 = 0" by code_simp
    then show ?thesis unfolding push_bit_eq_mult left_diff_distrib by simp
  qed
  ultimately show ?thesis
    using assms(1,2) by (simp add: sdspi_cmd17_def split: option.split)
qed

lemma sdspi_block_wraps_witness:
  "let s = (sdspi_load (Some (replicate (2 ^ 33) 0)) (sdspisim_init undefined)) in sdspi_cmd17 0x800001 s = sdspi_cmd17 1 s"
  using sdspi_block_wraps [of "sdspi_load (Some (replicate (2 ^ 33) 0)) (sdspisim_init undefined)" "0x800001"]
  by (simp add: sdspi_load_def sdspisim_init_def CCS_def)

lemma command_file: "sdspi_command s = Inr s' \<Longrightarrow> m_dev s' = m_dev s"
proof -
  have 41: "sdspi_acmd41 a s = Inr s' \<Longrightarrow> m_dev s' = m_dev s" for a s s'
    by (auto simp: sdspi_acmd41_def respond_def Let_def split: if_splits)
  have 51: "sdspi_acmd51 s = Inr s' \<Longrightarrow> m_dev s' = m_dev s" for s s'
    by (auto simp: sdspi_acmd51_def Let_def)
  have blk: "m_dev (send_block n f s) = m_dev s" "m_dev (respond a b s) = m_dev s" "m_dev (sdspi_cmd58 s) = m_dev s" for n f s a b
    by (simp_all add: send_block_def respond_def sdspi_cmd58_def Let_def)
  have 17: "sdspi_cmd17 a s = Inr s' \<Longrightarrow> m_dev s' = m_dev s" for a s s'
    by (auto simp: sdspi_cmd17_def Let_def blk split: if_splits option.splits)
  have 8: "sdspi_cmd8 a s = Inr s' \<Longrightarrow> m_dev s' = m_dev s" for a s s'
    by (auto simp: sdspi_cmd8_def Let_def split: if_splits)
  have alt: "sdspi_acmd a s = Inr s' \<Longrightarrow> m_dev s' = m_dev s" for a s s'
    using 41 51 by (auto simp: sdspi_acmd_def Let_def split: if_splits)
  have cmd: "sdspi_cmd a s = Inr s' \<Longrightarrow> m_dev s' = m_dev s" for a s s'
    unfolding sdspi_cmd_def Let_def in_operation_def
    by (auto simp: blk split: if_splits dest!: 8 17)
  show "sdspi_command s = Inr s' \<Longrightarrow> m_dev s' = m_dev s"
    unfolding sdspi_command_def Let_def by (auto split: if_splits dest!: alt cmd)
qed

lemma byte_file: "sdspi_byte s = Inr s' \<Longrightarrow> m_dev s' = m_dev s"
proof -
  have "sdspi_write_byte s = Inr s' \<Longrightarrow> m_dev s' = m_dev s" for s
    by (auto simp: sdspi_write_byte_def Let_def split: if_splits)
  moreover have "sdspi_reply_byte s = Inr s' \<Longrightarrow> m_dev s' = m_dev s" for s
    by (auto simp: sdspi_reply_byte_def Let_def split: if_splits)
  ultimately show "sdspi_byte s = Inr s' \<Longrightarrow> m_dev s' = m_dev s"
    unfolding sdspi_byte_def Let_def by (fastforce split: if_splits dest: command_file)
qed

text \<open>
  Nothing is ever stored.  A block that is written is received and its checksum is checked, but no clock
  and no command changes the contents of the card.
\<close>
lemma sdspi_never_stores:
  assumes "sdspi_tick csn sck mosi s = Inr (r, s')"
  shows "m_dev s' = m_dev s"
proof -
  have fall: "sdspi_fall x = Inr (r, s') \<Longrightarrow> m_dev s' = m_dev x" for x
    by (auto simp: sdspi_fall_def Let_def split: if_splits dest!: byte_file)
  show ?thesis
    using assms by (auto simp: sdspi_tick_def sdspi_deselect_def Let_def split: if_splits dest!: fall)
qed

lemma sdspi_never_stores_witness:
  "\<exists>s'. sdspi_tick True True True (sdspi_load (Some [1, 2]) (sdspisim_init undefined)) = Inr (False, s') \<and> m_dev s' = Some [1, 2]"
  using sdspi_never_stores [of True True True "sdspi_load (Some [1, 2]) (sdspisim_init undefined)" False]
  by (simp add: sdspi_tick_def sdspi_load_def Let_def sdspi_deselect_def)

end
