(* ===== verification/UartSim.thy ===== *)
theory UartSim
  imports Prelude
begin

text \<open>
  The serial port of the simulation, \<^verbatim>\<open>sim/dbluartsim.cpp\<close>: characters from two TCP connections go out on a
  wire bit by bit, and the bits of the other wire come back as characters.  The operating system is the record
  \<open>net\<close> of the calls the code makes on a world of type \<open>'w\<close>.  The half of \<^verbatim>\<open>tick\<close> that listens to the wire is
  \<open>rx_tick\<close>, the half that drives it is \<open>tx_tick\<close>.  Opening and closing the sockets (\<^verbatim>\<open>setup_listener\<close>,
  \<^verbatim>\<open>kill\<close>) is in \<open>Sockets\<close>.  What is printed is left out, but not the line it is collected in, \<^verbatim>\<open>m_cmdline\<close>.
\<close>

section \<open>The operating system\<close>

text \<open>
  \<^verbatim>\<open>poll\<close> of a list of descriptors for input: what it returns and those with input.  \<^verbatim>\<open>recv\<close> of at most so
  many bytes: an error, or the bytes, none when the connection is closed.
\<close>

record 'w net =
  net_poll :: "int list \<Rightarrow> 'w \<Rightarrow> (int \<times> int list) \<times> 'w"
  net_accept :: "int \<Rightarrow> 'w \<Rightarrow> int \<times> 'w"
  net_recv :: "int \<Rightarrow> nat \<Rightarrow> 'w \<Rightarrow> u8 list option \<times> 'w"
  net_send :: "int \<Rightarrow> u8 list \<Rightarrow> 'w \<Rightarrow> int \<times> 'w"
  net_close :: "int \<Rightarrow> 'w \<Rightarrow> 'w"

section \<open>The state\<close>

definition DBLPIPEBUFLEN :: nat where "DBLPIPEBUFLEN = 256"

text \<open>The two states of each half, idle and data, are the truth values of \<open>m_rx_state\<close> and \<open>m_tx_state\<close>.\<close>

record dbluartsim =
  m_skt :: int
  m_console :: int
  m_cmd :: int
  m_con :: int
  m_conbuf :: "nat \<Rightarrow> u8"
  m_cmdbuf :: "nat \<Rightarrow> u8"
  m_rxbuf :: "nat \<Rightarrow> u8"
  m_cmdline :: "nat \<Rightarrow> u8"
  m_ilen :: nat
  m_rxpos :: nat
  m_cmdpos :: nat
  m_conpos :: nat
  m_cllen :: nat
  m_setup :: u32
  m_nparity :: nat
  m_fixdp :: bool
  m_evenp :: bool
  m_nbits :: nat
  m_nstop :: nat
  m_baud_counts :: nat
  m_rx_baudcounter :: int
  m_rx_state :: bool
  m_rx_busy :: nat
  m_rx_changectr :: int
  m_last_tx :: bool
  m_tx_baudcounter :: int
  m_tx_state :: bool
  m_tx_busy :: nat
  m_rx_data :: u32
  m_tx_data :: u32

definition uart_setup :: "u32 \<Rightarrow> dbluartsim \<Rightarrow> dbluartsim" where
  "uart_setup isetup s =
     (if isetup \<noteq> m_setup s then
        s\<lparr>m_setup := isetup, m_baud_counts := unat (isetup AND 0x0ffffff),
          m_nbits := 8 - unat (drop_bit 28 isetup AND 3), m_nstop := unat (drop_bit 27 isetup AND 1) + 1,
          m_nparity := unat (drop_bit 26 isetup AND 1), m_fixdp := bit isetup 25, m_evenp := bit isetup 24\<rparr>
      else s)"

text \<open>The arguments: what the members that are not initialised hold, and the two listening sockets.\<close>

definition uart_init :: "dbluartsim \<Rightarrow> int \<Rightarrow> int \<Rightarrow> dbluartsim" where
  "uart_init raw skt console =
     (uart_setup 25 (raw\<lparr>m_con := -1, m_cmd := -1, m_skt := skt, m_console := console,
                      m_rxpos := 0, m_cmdpos := 0, m_conpos := 0, m_ilen := 0\<rparr>))
       \<lparr>m_rx_baudcounter := 0, m_tx_baudcounter := 0, m_rx_state := False, m_tx_state := False, m_cllen := 0\<rparr>"

section \<open>Connections\<close>

definition accept_one :: "'w net \<Rightarrow> int list \<Rightarrow> int \<Rightarrow> dbluartsim \<times> 'w \<Rightarrow> dbluartsim \<times> 'w" where
  "accept_one net ready fd = (\<lambda>(s, w).
     if fd \<notin> set ready then (s, w)
     else if fd = m_skt s then (case net_accept net (m_skt s) w of (c, w) \<Rightarrow> (s\<lparr>m_cmd := c\<rparr>, w))
     else if fd = m_console s then (case net_accept net (m_console s) w of (c, w) \<Rightarrow> (s\<lparr>m_con := c\<rparr>, w))
     else (s, w))"

definition poll_accept :: "'w net \<Rightarrow> dbluartsim \<times> 'w \<Rightarrow> fault + dbluartsim \<times> 'w" where
  "poll_accept net = (\<lambda>(s, w).
     let pb = (if m_cmd s < 0 then [m_skt s] else []) @ (if m_con s < 0 then [m_console s] else [])
     in if pb = [] then Inr (s, w)
        else case net_poll net pb w of
               ((pr, ready), w) \<Rightarrow>
                 if pr < 0 then Inl Assertion
                 else Inr (if pr > 0 then fold (accept_one net ready) pb (s, w) else (s, w)))"

text \<open>The bytes that were received, behind those in the buffer; those of the command port get bit 7.\<close>

definition put_bytes :: "u8 list \<Rightarrow> dbluartsim \<Rightarrow> dbluartsim" where
  "put_bytes bs s =
     s\<lparr>m_rxbuf := (\<lambda>i. if m_ilen s \<le> i \<and> i < m_ilen s + length bs then bs ! (i - m_ilen s) else m_rxbuf s i),
       m_ilen := m_ilen s + length bs\<rparr>"

text \<open>
  The line that is printed for the command port: each byte is put at its end, and it is closed with a zero and
  started again at the end of a line or after 64 characters.  Stores outside the array are faults.
\<close>

definition echo_byte :: "u8 \<Rightarrow> dbluartsim \<Rightarrow> fault + dbluartsim" where
  "echo_byte b s =
     (if m_cllen s \<ge> DBLPIPEBUFLEN then Inl Undefined
      else
        let s = s\<lparr>m_cmdline := (m_cmdline s)(m_cllen s := b)\<rparr>;
            s = (if b \<noteq> 0x0d then
                   if b = 0x0a then s\<lparr>m_cmdline := (m_cmdline s)(m_cllen s := 0), m_cllen := 0\<rparr>
                   else s\<lparr>m_cllen := m_cllen s + 1\<rparr>
                 else s)
        in if m_cllen s \<ge> 64 then
             if m_cllen s + 1 \<ge> DBLPIPEBUFLEN then Inl Undefined
             else Inr (s\<lparr>m_cmdline := (m_cmdline s)(m_cllen s + 1 := 0), m_cllen := 0\<rparr>)
           else Inr s)"

fun echo_bytes :: "u8 list \<Rightarrow> dbluartsim \<Rightarrow> fault + dbluartsim" where
  "echo_bytes [] s = Inr s"
| "echo_bytes (b # bs) s = (case echo_byte b s of Inl e \<Rightarrow> Inl e | Inr s \<Rightarrow> echo_bytes bs s)"

text \<open>No bytes are an error or the end of the connection.\<close>

definition echo_cmd :: "u8 list \<Rightarrow> dbluartsim \<Rightarrow> fault + dbluartsim" where
  "echo_cmd bs s =
     (case echo_bytes bs s of Inl e \<Rightarrow> Inl e
      | Inr s \<Rightarrow>
          if m_cllen s \<ge> DBLPIPEBUFLEN then Inl Undefined
          else Inr (s\<lparr>m_cmdline := (m_cmdline s)(m_cllen s := 0), m_cllen := (if bs = [] then 0 else m_cllen s)\<rparr>))"

fun read_fds :: "'w net \<Rightarrow> int list \<Rightarrow> int list \<Rightarrow> dbluartsim \<times> 'w \<Rightarrow> fault + dbluartsim \<times> 'w" where
  "read_fds net ready [] sw = Inr sw"
| "read_fds net ready (fd # fds) (s, w) =
     (if fd \<in> set ready then
        case net_recv net fd (DBLPIPEBUFLEN - m_ilen s) w of (r, w) \<Rightarrow>
          let bs = (case r of None \<Rightarrow> [] | Some bs \<Rightarrow> bs)
          in case (if fd = m_cmd s then echo_cmd bs s else Inr s) of
               Inl e \<Rightarrow> Inl e
             | Inr s \<Rightarrow>
                 if bs = [] then
                   read_fds net ready fds (if fd = m_cmd s then s\<lparr>m_cmd := -1\<rparr> else s\<lparr>m_con := -1\<rparr>, net_close net fd w)
                 else
                   let s = put_bytes (if fd = m_cmd s then map (\<lambda>b. b OR 0x80) bs else bs) s
                   in if m_ilen s = DBLPIPEBUFLEN then Inr (s, w) else read_fds net ready fds (s, w)
      else read_fds net ready fds (s, w))"

text \<open>After an error of \<^verbatim>\<open>poll\<close> the code goes on with what \<^verbatim>\<open>poll\<close> has not written.\<close>

definition poll_read :: "'w net \<Rightarrow> dbluartsim \<times> 'w \<Rightarrow> fault + dbluartsim \<times> 'w" where
  "poll_read net = (\<lambda>(s, w).
     let pb = (if m_cmd s \<ge> 0 then [m_cmd s] else []) @ (if m_con s \<ge> 0 then [m_con s] else [])
     in if pb = [] then Inr (s, w)
        else case net_poll net pb w of
               ((r, ready), w) \<Rightarrow>
                 if r < 0 then Inl Undefined
                 else if r = 0 then Inr (s, w)
                 else map_sum id (apfst (\<lambda>s. s\<lparr>m_rxpos := 0\<rparr>)) (read_fds net ready pb (s, w)))"

section \<open>Characters\<close>

definition store_char :: "u8 \<Rightarrow> dbluartsim \<Rightarrow> fault + dbluartsim" where
  "store_char ch s =
     (if ch AND 0x80 \<noteq> 0 then
        if m_cmdpos s < DBLPIPEBUFLEN
        then Inr (s\<lparr>m_cmdbuf := (m_cmdbuf s)(m_cmdpos s := ch AND 0x7f), m_cmdpos := m_cmdpos s + 1\<rparr>)
        else Inl Undefined
      else
        if m_conpos s < DBLPIPEBUFLEN
        then Inr (s\<lparr>m_conbuf := (m_conbuf s)(m_conpos s := ch AND 0x7f), m_conpos := m_conpos s + 1\<rparr>)
        else Inl Undefined)"

text \<open>The command buffer is sent at the end of a line or when it is full.\<close>

definition flush_cmd :: "'w net \<Rightarrow> dbluartsim \<times> 'w \<Rightarrow> fault + dbluartsim \<times> 'w" where
  "flush_cmd net = (\<lambda>(s, w).
     if m_cmdpos s > 0 \<and> (m_cmdbuf s (m_cmdpos s - 1) = 0x0a \<or> m_cmdpos s \<ge> DBLPIPEBUFLEN - 2) then
       case (if m_cmd s \<ge> 0 then
               (case net_send net (m_cmd s) (map (m_cmdbuf s) [0..<m_cmdpos s]) w of (snt, w) \<Rightarrow>
                  if snt < 0 then (s\<lparr>m_cmd := -1\<rparr>, net_close net (m_cmd s) w) else (s, w))
             else (s, w)) of (s, w) \<Rightarrow>
         if m_cmdpos s < DBLPIPEBUFLEN
         then Inr (s\<lparr>m_cmdbuf := (m_cmdbuf s)(m_cmdpos s := 0), m_cmdpos := 0\<rparr>, w)
         else Inl Undefined
     else Inr (s, w))"

text \<open>The console gets its characters one by one while it is connected.\<close>

definition send_con :: "'w net \<Rightarrow> dbluartsim \<times> 'w \<Rightarrow> dbluartsim \<times> 'w" where
  "send_con net = (\<lambda>(s, w).
     if m_con s \<ge> 0 \<and> m_conpos s > 0 then
       (case net_send net (m_con s) [m_conbuf s (m_conpos s - 1)] w of (snt, w) \<Rightarrow>
          if snt < 0 then (s\<lparr>m_con := -1, m_conpos := 0\<rparr>, net_close net (m_con s) w) else (s\<lparr>m_conpos := 0\<rparr>, w))
     else (s, w))"

definition flush_con :: "dbluartsim \<Rightarrow> fault + dbluartsim" where
  "flush_con s =
     (if m_conpos s > 0 \<and> (m_conbuf s (m_conpos s - 1) = 0x0a \<or> m_conpos s \<ge> DBLPIPEBUFLEN - 2) then
        if m_conpos s < DBLPIPEBUFLEN
        then Inr (s\<lparr>m_conbuf := (m_conbuf s)(m_conpos s := 0), m_conpos := 0\<rparr>)
        else Inl Undefined
      else Inr s)"

definition received :: "'w net \<Rightarrow> u8 \<Rightarrow> dbluartsim \<times> 'w \<Rightarrow> fault + dbluartsim \<times> 'w" where
  "received net ch = (\<lambda>(s, w).
     case store_char ch s of Inl e \<Rightarrow> Inl e
     | Inr s \<Rightarrow>
         (case flush_cmd net (s, w) of Inl e \<Rightarrow> Inl e
          | Inr sw \<Rightarrow>
              (case send_con net sw of (s, w) \<Rightarrow> map_sum id (\<lambda>s. (s, w)) (flush_con s))))"

definition take_char :: "dbluartsim \<Rightarrow> fault + u8 option \<times> dbluartsim" where
  "take_char s =
     (if m_ilen s = 0 then Inr (None, s)
      else if m_rxpos s < DBLPIPEBUFLEN
      then Inr (Some (m_rxbuf s (m_rxpos s)), s\<lparr>m_rxpos := m_rxpos s + 1, m_ilen := m_ilen s - 1\<rparr>)
      else Inl Undefined)"

definition next_char :: "'w net \<Rightarrow> dbluartsim \<times> 'w \<Rightarrow> fault + u8 option \<times> dbluartsim \<times> 'w" where
  "next_char net = (\<lambda>(s, w).
     case (if m_ilen s = 0 then poll_read net (s, w) else Inr (s, w)) of Inl e \<Rightarrow> Inl e
     | Inr (s, w) \<Rightarrow> map_sum id (\<lambda>(c, s). (c, s, w)) (take_char s))"

section \<open>Bits\<close>

text \<open>The number of bits after the start bit.\<close>

abbreviation frame_bits :: "dbluartsim \<Rightarrow> nat" where
  "frame_bits s \<equiv> m_nbits s + m_nparity s + m_nstop s"

definition rx_edge :: "bool \<Rightarrow> dbluartsim \<Rightarrow> dbluartsim" where
  "rx_edge i_tx s =
     s\<lparr>m_rx_changectr := (if \<not> i_tx \<and> m_last_tx s then 0 else m_rx_changectr s + 1), m_last_tx := i_tx\<rparr>"

definition rx_tick :: "bool \<Rightarrow> dbluartsim \<Rightarrow> u8 option \<times> dbluartsim" where
  "rx_tick i_tx s =
     (let s = rx_edge i_tx s
      in if \<not> m_rx_state s then
           (None, if \<not> i_tx then
                    s\<lparr>m_rx_state := True,
                      m_rx_baudcounter := int (m_baud_counts s + m_baud_counts s div 2) - 1 - m_rx_changectr s,
                      m_rx_busy := 0, m_rx_data := 0\<rparr>
                  else s)
         else if m_rx_baudcounter s \<le> 0 then
           (if m_rx_busy s \<ge> 2 ^ (frame_bits s - 1) then
              (Some (ucast (drop_bit (32 - frame_bits s) (m_rx_data s))),
               s\<lparr>m_rx_state := False, m_rx_baudcounter := int (m_baud_counts s) - 1\<rparr>)
            else
              (None, s\<lparr>m_rx_busy := 2 * m_rx_busy s + 1, m_rx_data := push_bit 31 (of_bool i_tx) OR drop_bit 1 (m_rx_data s),
                       m_rx_baudcounter := int (m_baud_counts s) - 1\<rparr>))
         else (None, s\<lparr>m_rx_baudcounter := m_rx_baudcounter s - 1\<rparr>))"

definition parity_bit :: "u32 \<Rightarrow> dbluartsim \<Rightarrow> bool" where
  "parity_bit data s =
     (if m_fixdp s then m_evenp s
      else
        let p = drop_bit 1 data AND 0x0ff; p = p XOR drop_bit 4 p; p = p XOR drop_bit 2 p; p = p XOR drop_bit 1 p
        in (p AND 1 \<noteq> 0) \<noteq> m_evenp s)"

definition tx_word :: "u8 \<Rightarrow> dbluartsim \<Rightarrow> u32" where
  "tx_word ch s =
     (let data = push_bit (m_nbits s + m_nparity s + 1) (- 1) OR (push_bit 1 (ucast ch) AND 0x01fe)
      in if m_nparity s \<noteq> 0 then data OR push_bit (m_nbits s + m_nparity s) (of_bool (parity_bit data s)) else data)"

definition tx_tick :: "'w net \<Rightarrow> dbluartsim \<times> 'w \<Rightarrow> fault + bool \<times> dbluartsim \<times> 'w" where
  "tx_tick net = (\<lambda>(s, w).
     if \<not> m_tx_state s then
       (case next_char net (s, w) of Inl e \<Rightarrow> Inl e
        | Inr (None, s, w) \<Rightarrow> Inr (True, s, w)
        | Inr (Some ch, s, w) \<Rightarrow>
            Inr (False, s\<lparr>m_tx_data := tx_word ch s, m_tx_busy := 2 ^ (frame_bits s + 1) - 1, m_tx_state := True,
                          m_tx_baudcounter := int (m_baud_counts s) - 1\<rparr>, w))
     else if m_tx_baudcounter s \<le> 0 then
       let s = s\<lparr>m_tx_data := drop_bit 1 (m_tx_data s), m_tx_busy := m_tx_busy s div 2\<rparr>
       in Inr (bit (m_tx_data s) 0,
               if m_tx_busy s = 0 then s\<lparr>m_tx_state := False\<rparr> else s\<lparr>m_tx_baudcounter := int (m_baud_counts s) - 1\<rparr>, w)
     else Inr (bit (m_tx_data s) 0, s\<lparr>m_tx_baudcounter := m_tx_baudcounter s - 1\<rparr>, w))"

definition uart_tick :: "'w net \<Rightarrow> bool \<Rightarrow> dbluartsim \<times> 'w \<Rightarrow> fault + bool \<times> dbluartsim \<times> 'w" where
  "uart_tick net i_tx sw =
     (case poll_accept net sw of Inl e \<Rightarrow> Inl e
      | Inr (s, w) \<Rightarrow>
          (case rx_tick i_tx s of (c, s) \<Rightarrow>
             (case (case c of None \<Rightarrow> Inr (s, w) | Some ch \<Rightarrow> received net ch (s, w)) of Inl e \<Rightarrow> Inl e
              | Inr sw \<Rightarrow> tx_tick net sw)))"

text \<open>The call with a setup word.\<close>

definition uart_call :: "'w net \<Rightarrow> bool \<Rightarrow> u32 \<Rightarrow> dbluartsim \<times> 'w \<Rightarrow> fault + bool \<times> dbluartsim \<times> 'w" where
  "uart_call net i_tx isetup = (\<lambda>(s, w). uart_tick net i_tx (uart_setup isetup s, w))"

text \<open>A run: one tick for every level of the wire.\<close>

fun uart_run :: "'w net \<Rightarrow> bool list \<Rightarrow> dbluartsim \<times> 'w \<Rightarrow> fault + bool list \<times> dbluartsim \<times> 'w" where
  "uart_run net [] sw = Inr ([], sw)"
| "uart_run net (i # is) sw =
     (case uart_tick net i sw of Inl e \<Rightarrow> Inl e
      | Inr (o_rx, sw) \<Rightarrow> map_sum id (apfst ((#) o_rx)) (uart_run net is sw))"

end
