(* ===== verification/UartProps.thy ===== *)
theory UartProps
  imports UartSim
begin

text \<open>
  What the serial port of \<open>UartSim\<close> promises: a transmitter and a receiver with the same settings pass
  characters on unchanged, back to back, and no buffer is overrun.
\<close>

section \<open>The receiver in time\<close>

text \<open>\<open>rx_at wire s t\<close>: the receiver after \<open>t\<close> ticks on the wire; \<open>heard wire s a b\<close>: what it reports in the ticks from \<open>a\<close> to \<open>b\<close>.\<close>

primrec rx_at :: "(nat \<Rightarrow> bool) \<Rightarrow> dbluartsim \<Rightarrow> nat \<Rightarrow> dbluartsim" where
  "rx_at wire s 0 = s"
| "rx_at wire s (Suc t) = snd (rx_tick (wire t) (rx_at wire s t))"

definition heard_at :: "(nat \<Rightarrow> bool) \<Rightarrow> dbluartsim \<Rightarrow> nat \<Rightarrow> u8 list" where
  "heard_at wire s t = (case fst (rx_tick (wire t) (rx_at wire s t)) of None \<Rightarrow> [] | Some c \<Rightarrow> [c])"

definition heard :: "(nat \<Rightarrow> bool) \<Rightarrow> dbluartsim \<Rightarrow> nat \<Rightarrow> nat \<Rightarrow> u8 list" where
  "heard wire s a b = concat (map (heard_at wire s) [a..<b])"

lemma heard_split: "a \<le> b \<Longrightarrow> b \<le> c \<Longrightarrow> heard wire s a c = heard wire s a b @ heard wire s b c"
  using upt_add_eq_append [of a b "c - b"] by (simp add: heard_def)

lemma heard_none [simp]: "heard wire s a a = []"
  by (simp add: heard_def)

lemma heard_Suc: "a \<le> b \<Longrightarrow> heard wire s a (Suc b) = heard wire s a b @ heard_at wire s b"
  by (simp add: heard_def)

lemma rx_edge_simps [simp]:
  "m_baud_counts (rx_edge i s) = m_baud_counts s" "m_nbits (rx_edge i s) = m_nbits s" "m_nparity (rx_edge i s) = m_nparity s"
  "m_nstop (rx_edge i s) = m_nstop s" "m_last_tx (rx_edge i s) = i" "m_rx_state (rx_edge i s) = m_rx_state s"
  "m_rx_baudcounter (rx_edge i s) = m_rx_baudcounter s" "m_rx_busy (rx_edge i s) = m_rx_busy s" "m_rx_data (rx_edge i s) = m_rx_data s"
  by (simp_all add: rx_edge_def)

text \<open>The settings stay, and the edge counter counts the ticks since the last falling edge.\<close>

lemma rx_at_settings [simp]:
  "m_baud_counts (rx_at wire s t) = m_baud_counts s" "m_nbits (rx_at wire s t) = m_nbits s"
  "m_nparity (rx_at wire s t) = m_nparity s" "m_nstop (rx_at wire s t) = m_nstop s"
  by (induction t) (simp_all add: rx_tick_def Let_def)

lemma last_tx_Suc [simp]: "m_last_tx (rx_at wire s (Suc t)) = wire t"
  by (simp add: rx_tick_def Let_def)

definition changectr_next :: "bool \<Rightarrow> dbluartsim \<Rightarrow> int" where
  "changectr_next i s = (if \<not> i \<and> m_last_tx s then 0 else m_rx_changectr s + 1)"

lemma rx_edge_changectr [simp]: "m_rx_changectr (rx_edge i s) = changectr_next i s"
  by (simp add: rx_edge_def changectr_next_def)

lemma changectr_Suc: "m_rx_changectr (rx_at wire s (Suc t)) = changectr_next (wire t) (rx_at wire s t)"
  by (simp add: rx_tick_def Let_def)

lemma changectr_since_edge:
  assumes "m_last_tx (rx_at wire s t)" "\<And>j. j \<le> d \<Longrightarrow> \<not> wire (t + j)"
  shows "changectr_next (wire (t + d)) (rx_at wire s (t + d)) = int d"
  using assms(2)
proof (induction d)
  case 0
  then show ?case using assms(1) by (simp add: changectr_next_def)
next
  case (Suc d)
  have "m_rx_changectr (rx_at wire s (Suc (t + d))) = int d"
    unfolding changectr_Suc using Suc by simp
  moreover have "\<not> m_last_tx (rx_at wire s (Suc (t + d)))"
    unfolding last_tx_Suc using Suc.prems [of d] by simp
  ultimately show ?case by (simp add: changectr_next_def)
qed

text \<open>\<open>sampling s c i v\<close>: in a character, \<open>c\<close> ticks before the next sample, with \<open>i\<close> bits in the top of \<open>v\<close>.\<close>

definition sampling :: "dbluartsim \<Rightarrow> nat \<Rightarrow> nat \<Rightarrow> u32 \<Rightarrow> bool" where
  "sampling s c i v \<longleftrightarrow> m_rx_state s \<and> m_rx_baudcounter s = int c \<and> m_rx_busy s + 1 = 2 ^ i \<and> m_rx_data s = v"

lemma sampling_wait:
  assumes "sampling (rx_at wire s t) c i v"
  shows "sampling (rx_at wire s (t + c)) 0 i v" "heard wire s t (t + c) = []"
proof -
  have "d \<le> c \<Longrightarrow> sampling (rx_at wire s (t + d)) (c - d) i v \<and> heard wire s t (t + d) = []" for d
  proof (induction d)
    case (Suc d)
    then have 1: "sampling (rx_at wire s (t + d)) (Suc (c - Suc d)) i v" "heard wire s t (t + d) = []"
      by (simp_all add: Suc_diff_Suc)
    then have "sampling (rx_at wire s (Suc (t + d))) (c - Suc d) i v" "heard_at wire s (t + d) = []"
      by (simp_all add: sampling_def rx_tick_def heard_at_def Let_def)
    then show ?case using 1(2) heard_Suc [of t "t + d" wire s] by simp
  qed (use assms in simp)
  from this [of c] show "sampling (rx_at wire s (t + c)) 0 i v" "heard wire s t (t + c) = []" by simp_all
qed

lemma sampling_bit:
  assumes "sampling (rx_at wire s t) 0 i v" "i < frame_bits s" "0 < m_baud_counts s"
  shows "sampling (rx_at wire s (Suc t)) (m_baud_counts s - 1) (Suc i) (push_bit 31 (of_bool (wire t)) OR drop_bit 1 v)"
    "heard_at wire s t = []"
proof -
  have "(2::nat) ^ i \<le> 2 ^ (frame_bits s - 1)" using assms(2) by (intro power_increasing) simp_all
  then have "\<not> 2 ^ (frame_bits s - 1) \<le> x" if "x + 1 = (2::nat) ^ i" for x using that by linarith
  then show "sampling (rx_at wire s (Suc t)) (m_baud_counts s - 1) (Suc i) (push_bit 31 (of_bool (wire t)) OR drop_bit 1 v)"
    "heard_at wire s t = []"
    using assms by (simp_all add: sampling_def rx_tick_def heard_at_def Let_def of_nat_diff algebra_simps)
qed

lemma sampling_end:
  assumes "sampling (rx_at wire s t) 0 (frame_bits s) v" "0 < frame_bits s"
  shows "heard_at wire s t = [ucast (drop_bit (32 - frame_bits s) v)]" "\<not> m_rx_state (rx_at wire s (Suc t))"
proof -
  have "2 ^ (frame_bits s - 1) < (2::nat) ^ frame_bits s" using assms(2) by simp
  then have "2 ^ (frame_bits s - 1) \<le> x" if "x + 1 = (2::nat) ^ frame_bits s" for x using that by linarith
  then show "heard_at wire s t = [ucast (drop_bit (32 - frame_bits s) v)]" "\<not> m_rx_state (rx_at wire s (Suc t))"
    using assms(1) by (simp_all add: sampling_def rx_tick_def heard_at_def Let_def)
qed

text \<open>The samples one after the other, a bit length apart.\<close>

fun collect :: "bool list \<Rightarrow> u32 \<Rightarrow> u32" where
  "collect [] v = v"
| "collect (b # bs) v = collect bs (push_bit 31 (of_bool b) OR drop_bit 1 v)"

lemma collect_snoc: "collect (bs @ [b]) v = push_bit 31 (of_bool b) OR drop_bit 1 (collect bs v)"
  by (induction bs arbitrary: v) simp_all

lemma bit_collect: "length bs \<le> 32 \<Longrightarrow> k < length bs \<Longrightarrow> bit (collect bs v) (32 - length bs + k) = bs ! k"
proof (induction bs arbitrary: k rule: rev_induct)
  case (snoc b bs)
  show ?case
  proof (cases "k = length bs")
    case True
    then show ?thesis using snoc.prems(1)
      by (simp add: collect_snoc bit_or_iff bit_push_bit_iff bit_drop_bit_eq bit_imp_le_length) (auto dest: bit_imp_le_length)
  next
    case False
    then have k: "k < length bs" using snoc.prems by simp
    then have "32 - length (bs @ [b]) + k < 31" "32 - length (bs @ [b]) + k + 1 = 32 - length bs + k" using snoc.prems by simp_all
    then show ?thesis using snoc.IH [of k] k snoc.prems(1)
      unfolding collect_snoc bit_or_iff bit_push_bit_iff bit_drop_bit_eq comp_def by (simp add: nth_append add.commute del: One_nat_def)
  qed
qed simp

lemma sampling_bits:
  assumes "sampling (rx_at wire s t) 0 0 v" "0 < m_baud_counts s" "i \<le> frame_bits s"
  shows "sampling (rx_at wire s (t + i * m_baud_counts s)) 0 i (collect (map (\<lambda>j. wire (t + j * m_baud_counts s)) [0..<i]) v)
    \<and> heard wire s t (t + i * m_baud_counts s) = []"
  using assms(3)
proof (induction i)
  case (Suc i)
  let ?t = "t + i * m_baud_counts s"
  have 1: "sampling (rx_at wire s ?t) 0 i (collect (map (\<lambda>j. wire (t + j * m_baud_counts s)) [0..<i]) v)"
    "heard wire s t ?t = []" using Suc by simp_all
  note 2 = sampling_bit [OF 1(1) _ assms(2)]
  have end_: "Suc ?t + (m_baud_counts s - 1) = t + Suc i * m_baud_counts s" using assms(2) by simp
  have "heard wire s t (Suc ?t) = []" using 2(2) 1(2) Suc.prems heard_Suc [of t ?t wire s] by simp
  moreover have "heard wire s (Suc ?t) (t + Suc i * m_baud_counts s) = []"
    using sampling_wait(2) [OF 2(1)] Suc.prems unfolding end_ by simp
  moreover have "heard wire s t (t + Suc i * m_baud_counts s)
      = heard wire s t (Suc ?t) @ heard wire s (Suc ?t) (t + Suc i * m_baud_counts s)"
    using assms(2) by (intro heard_split) simp_all
  ultimately show ?case
    using sampling_wait(1) [OF 2(1)] Suc.prems unfolding end_ by (simp add: collect_snoc del: One_nat_def)
qed (use assms(1) in simp)

section \<open>One character\<close>

text \<open>The levels of a frame: \<open>f\<close> is the word the transmitter shifts out, from its start bit on.\<close>

definition on_wire :: "(nat \<Rightarrow> bool) \<Rightarrow> dbluartsim \<Rightarrow> nat \<Rightarrow> u32 \<Rightarrow> bool" where
  "on_wire wire s t f \<longleftrightarrow> (\<forall>j \<le> (frame_bits s + 1) * m_baud_counts s. wire (t + j) = bit f (j div m_baud_counts s))"

text \<open>The receiver is idle, no more than half a bit after a falling edge at \<open>t\<close>.\<close>

definition listening :: "(nat \<Rightarrow> bool) \<Rightarrow> dbluartsim \<Rightarrow> nat \<Rightarrow> nat \<Rightarrow> bool" where
  "listening wire s t d \<longleftrightarrow> d \<le> m_baud_counts s div 2 \<and> \<not> m_rx_state (rx_at wire s (t + d)) \<and> m_last_tx (rx_at wire s t)"

lemma start_bit:
  assumes "listening wire s t d" "\<And>j. j < m_baud_counts s \<Longrightarrow> \<not> wire (t + j)" "0 < m_baud_counts s"
  shows "sampling (rx_at wire s (Suc (t + d))) (m_baud_counts s + m_baud_counts s div 2 - 1 - d) 0 0"
    "heard_at wire s (t + d) = []"
proof -
  have d: "d \<le> m_baud_counts s div 2" "m_baud_counts s div 2 < m_baud_counts s" using assms(1,3) by (simp_all add: listening_def)
  have "changectr_next (wire (t + d)) (rx_at wire s (t + d)) = int d"
    using assms(1,2) d by (intro changectr_since_edge) (simp_all add: listening_def)
  moreover have "\<not> wire (t + d)" using assms(2) d by simp
  ultimately show "sampling (rx_at wire s (Suc (t + d))) (m_baud_counts s + m_baud_counts s div 2 - 1 - d) 0 0"
    "heard_at wire s (t + d) = []"
    using assms(1) d by (simp_all add: listening_def sampling_def rx_tick_def heard_at_def Let_def of_nat_diff)
qed

text \<open>
  A frame is heard as its bits after the start bit, and half a bit after its end the receiver is idle again:
  in the middle of the start bit of the next frame, if that follows at once.
\<close>

lemma frame_heard:
  assumes "listening wire s t d" "on_wire wire s t f" "\<not> bit f 0" "0 < m_baud_counts s" "0 < frame_bits s" "frame_bits s \<le> 32"
  defines "n \<equiv> frame_bits s" and "B \<equiv> m_baud_counts s"
  shows "heard wire s (t + d) (t + (n + 1) * B + B div 2 + 1)
      = [ucast (drop_bit (32 - n) (collect (map (\<lambda>i. bit f (i + 1)) [0..<n]) 0))]"
    and "\<not> m_rx_state (rx_at wire s (t + (n + 1) * B + B div 2 + 1))"
proof -
  have B: "0 < B" "B div 2 < B" "d \<le> B div 2" using assms(1,4) by (simp_all add: B_def listening_def)
  have wire: "wire (t + j) = bit f (j div B)" if "j \<le> (n + 1) * B" for j
    using assms(2) that by (simp add: on_wire_def n_def B_def)
  have low: "\<not> wire (t + j)" if "j < B" for j using wire [of j] that assms(3) by simp
  let ?m = "t + B + B div 2"
  note start = start_bit [OF assms(1) low [unfolded B_def] assms(4), folded B_def]
  have mid: "Suc (t + d) + (B + B div 2 - 1 - d) = ?m" using B by simp
  have s0: "sampling (rx_at wire s ?m) 0 0 0" "heard wire s (Suc (t + d)) ?m = []"
    using sampling_wait [OF start(1)] unfolding mid by simp_all
  note bits = sampling_bits [OF s0(1) assms(4) order.refl, folded n_def B_def]
  have sample: "wire (?m + i * B) = bit f (i + 1)" if "i < n" for i
  proof -
    have "B + B div 2 + i * B = (i + 1) * B + B div 2" by simp
    then have "(B + B div 2 + i * B) div B = i + 1" using B(1,2) by (simp only: div_mult_self3 div_less add_0_right)
    moreover have "B + B div 2 + i * B \<le> (n + 1) * B"
    proof -
      have "(i + 2) * B \<le> (n + 1) * B" using that by (intro mult_le_mono1) simp
      then show ?thesis using B by (simp add: algebra_simps)
    qed
    ultimately show ?thesis using wire [of "B + B div 2 + i * B"] by (simp add: add.assoc)
  qed
  let ?e = "?m + n * B"
  have "map (\<lambda>j. wire (?m + j * B)) [0..<n] = map (\<lambda>i. bit f (i + 1)) [0..<n]" using sample by simp
  then have full: "sampling (rx_at wire s ?e) 0 n (collect (map (\<lambda>i. bit f (i + 1)) [0..<n]) 0)" "heard wire s ?m ?e = []"
    using bits by metis+
  note fin = sampling_end [OF full(1) [unfolded n_def], folded n_def]
  have e: "Suc ?e = t + (n + 1) * B + B div 2 + 1" by simp
  show "\<not> m_rx_state (rx_at wire s (t + (n + 1) * B + B div 2 + 1))"
    using fin(2) assms(5) unfolding n_def [symmetric] e by simp
  have "heard wire s (t + d) (Suc ?e) = heard wire s (t + d) (Suc (t + d)) @ heard wire s (Suc (t + d)) ?m @ heard wire s ?m ?e @ heard wire s ?e (Suc ?e)"
    using B by (simp add: heard_split [of "t + d" "Suc (t + d)" "Suc ?e"] heard_split [of "Suc (t + d)" ?m "Suc ?e"] heard_split [of ?m ?e "Suc ?e"] del: upt_Suc)
  then show "heard wire s (t + d) (t + (n + 1) * B + B div 2 + 1)
      = [ucast (drop_bit (32 - n) (collect (map (\<lambda>i. bit f (i + 1)) [0..<n]) 0))]"
    using start(2) s0(2) full(2) fin(1) assms(5) unfolding e [symmetric] n_def [symmetric]
    by (simp add: heard_Suc)
qed

section \<open>The transmitter\<close>

definition settings :: "dbluartsim \<Rightarrow> nat \<times> nat \<times> nat \<times> nat \<times> bool \<times> bool" where
  "settings s = (m_baud_counts s, m_nbits s, m_nparity s, m_nstop s, m_fixdp s, m_evenp s)"

text \<open>The characters that wait to be sent.\<close>

definition queue :: "dbluartsim \<Rightarrow> u8 list" where
  "queue s = map (m_rxbuf s) [m_rxpos s..<m_rxpos s + m_ilen s]"

text \<open>All that the transmitter looks at.\<close>

definition tx_side where
  "tx_side s = (settings s, m_tx_state s, m_tx_data s, m_tx_busy s, m_tx_baudcounter s, m_rxbuf s, m_rxpos s, m_ilen s)"

lemma accept_tx_side: "tx_side (fst (fold (accept_one net ready) fds (s, w))) = tx_side s"
proof (induction fds arbitrary: s w)
  case (Cons fd fds)
  obtain s1 w1 where 1: "accept_one net ready fd (s, w) = (s1, w1)" by (cases "accept_one net ready fd (s, w)")
  then have "tx_side s1 = tx_side s"
    by (auto simp: accept_one_def tx_side_def settings_def split: if_splits prod.splits)
  then show ?case using Cons.IH [of s1 w1] 1 by simp
qed simp

lemma poll_accept_cases:
  assumes "poll_accept net (s, w) = Inr (s', w')"
  shows "s' = s \<or> (\<exists>ready fds w1. s' = fst (fold (accept_one net ready) fds (s, w1)))"
proof -
  have "s' = s \<or> (\<exists>ready fds w1. (s', w') = fold (accept_one net ready) fds (s, w1))"
    using assms unfolding poll_accept_def Let_def
    by (auto split: if_splits prod.splits simp del: fold.simps fold_simps) metis+
  then show ?thesis by (metis fst_conv)
qed

lemma poll_accept_tx_side: "poll_accept net (s, w) = Inr (s', w') \<Longrightarrow> tx_side s' = tx_side s"
  using poll_accept_cases [of net s w s' w'] accept_tx_side by metis

lemma tx_side_rx_upd [simp]:
  "tx_side (m_rx_state_update f1 s) = tx_side s" "tx_side (m_rx_baudcounter_update f2 s) = tx_side s"
  "tx_side (m_rx_busy_update f3 s) = tx_side s" "tx_side (m_rx_data_update f4 s) = tx_side s"
  by (simp_all add: tx_side_def settings_def)

lemma tx_side_rx_edge [simp]: "tx_side (rx_edge i s) = tx_side s"
  by (simp add: rx_edge_def tx_side_def settings_def)

lemma rx_tick_tx_side: "tx_side (snd (rx_tick i s)) = tx_side s"
  by (simp add: rx_tick_def Let_def)

lemma store_char_tx_side: "store_char ch s = Inr s' \<Longrightarrow> tx_side s' = tx_side s"
  by (auto simp: store_char_def tx_side_def settings_def split: if_splits)

lemma flush_cmd_tx_side: "flush_cmd net (s, w) = Inr (s', w') \<Longrightarrow> tx_side s' = tx_side s"
  by (auto simp: flush_cmd_def tx_side_def settings_def split: if_splits prod.splits)

lemma send_con_tx_side: "tx_side (fst (send_con net (s, w))) = tx_side s"
  by (simp add: send_con_def tx_side_def settings_def split: prod.split)

lemma flush_con_tx_side: "flush_con s = Inr s' \<Longrightarrow> tx_side s' = tx_side s"
  by (auto simp: flush_con_def tx_side_def settings_def split: if_splits)

lemma received_tx_side:
  assumes "received net ch (s, w) = Inr (s', w')"
  shows "tx_side s' = tx_side s"
proof -
  obtain s1 where 1: "store_char ch s = Inr s1" using assms by (auto simp: received_def split: sum.splits)
  obtain s2 w2 where 2: "flush_cmd net (s1, w) = Inr (s2, w2)" using assms 1 by (auto simp: received_def split: sum.splits)
  have "flush_con (fst (send_con net (s2, w2))) = Inr s'"
    using assms 1 2 by (auto simp: received_def split: prod.splits)
  then show ?thesis
    using store_char_tx_side [OF 1] flush_cmd_tx_side [OF 2] send_con_tx_side [of net s2 w2] flush_con_tx_side by metis
qed

lemma tick_tx:
  assumes "uart_tick net i (s, w) = Inr (out, s', w')"
  shows "\<exists>s1 w1. tx_side s1 = tx_side s \<and> tx_tick net (s1, w1) = Inr (out, s', w')"
proof -
  obtain s1 w1 where 1: "poll_accept net (s, w) = Inr (s1, w1)"
    using assms by (auto simp: uart_tick_def split: sum.splits)
  obtain c s2 where 2: "rx_tick i s1 = (c, s2)" by (cases "rx_tick i s1")
  obtain s3 w3 where 3: "(case c of None \<Rightarrow> Inr (s2, w1) | Some ch \<Rightarrow> received net ch (s2, w1)) = Inr (s3, w3)" "tx_tick net (s3, w3) = Inr (out, s', w')"
    using assms 1 2 by (auto simp: uart_tick_def split: sum.splits option.splits)
  then have "tx_side s3 = tx_side s2" using received_tx_side by (auto split: option.splits)
  then show ?thesis
    using 3(2) rx_tick_tx_side [of i s1] 2 poll_accept_tx_side [OF 1] by (intro exI [of _ s3] exI [of _ w3]) simp
qed

text \<open>\<open>sending s j f\<close>: the tick \<open>j\<close> of the frame \<open>f\<close> has been put on the wire.\<close>

definition sending :: "dbluartsim \<Rightarrow> nat \<Rightarrow> u32 \<Rightarrow> bool" where
  "sending s j f \<longleftrightarrow> m_tx_state s \<and> m_tx_data s = drop_bit (j div m_baud_counts s) f
     \<and> m_tx_busy s = mask (frame_bits s + 1 - j div m_baud_counts s)
     \<and> m_tx_baudcounter s = int (m_baud_counts s - 1 - j mod m_baud_counts s)"

lemma sending_tx_side: "tx_side s1 = tx_side s \<Longrightarrow> sending s1 j f = sending s j f \<and> queue s1 = queue s \<and> settings s1 = settings s"
  by (simp add: tx_side_def settings_def sending_def queue_def)

lemma tx_tick_sends:
  assumes "sending s j f" "0 < m_baud_counts s" "j < (frame_bits s + 1) * m_baud_counts s" "tx_tick net (s, w) = Inr (out, s', w')"
  shows "out = bit f (Suc j div m_baud_counts s) \<and> queue s' = queue s \<and> settings s' = settings s
    \<and> (if Suc j < (frame_bits s + 1) * m_baud_counts s then sending s' (Suc j) f else \<not> m_tx_state s')"
proof (cases "Suc (j mod m_baud_counts s) = m_baud_counts s")
  case True
  let ?B = "m_baud_counts s" and ?n = "frame_bits s"
  have j: "Suc j div ?B = Suc (j div ?B)" "Suc j mod ?B = 0" using True by (simp_all add: div_Suc mod_Suc)
  have "Suc j < (?n + 1) * ?B \<longleftrightarrow> Suc (j div ?B) < ?n + 1"
    using div_less_iff_less_mult [OF assms(2), of "Suc j" "?n + 1"] j(1) by simp
  moreover have "mask (?n + 1 - j div ?B) div 2 = (mask (?n - j div ?B) :: nat)"
    using drop_bit_mask_eq [of 1 "?n + 1 - j div ?B", where 'a = nat] by (simp add: drop_bit_eq_div)
  moreover have "mask (?n - j div ?B) = (0 :: nat) \<longleftrightarrow> \<not> Suc (j div ?B) < ?n + 1"
    using one_less_power [of "2::nat" "?n - j div ?B"] by (auto simp: mask_nat_def)
  ultimately show ?thesis
    using assms(1,4) True j
    by (auto simp: sending_def tx_tick_def queue_def settings_def bit_drop_bit_eq Let_def split: if_splits)
next
  case False
  let ?B = "m_baud_counts s" and ?n = "frame_bits s"
  have lt: "Suc (j mod ?B) < ?B" using False assms(2) mod_less_divisor [of ?B j] by linarith
  have j: "Suc j div ?B = j div ?B" "Suc j mod ?B = Suc (j mod ?B)" using False by (simp_all add: div_Suc mod_Suc)
  have "Suc j div ?B < ?n + 1" unfolding j(1) div_less_iff_less_mult [OF assms(2)] by (rule assms(3))
  then have "Suc j < (?n + 1) * ?B" unfolding div_less_iff_less_mult [OF assms(2)] .
  then show ?thesis
    using assms(1,4) lt j
    by (auto simp: sending_def tx_tick_def queue_def settings_def bit_drop_bit_eq Let_def)
qed

lemma settings_eq:
  "settings s' = settings s \<Longrightarrow> m_baud_counts s' = m_baud_counts s \<and> frame_bits s' = frame_bits s"
  by (simp add: settings_def)

lemma tick_sends:
  assumes "uart_tick net i (s, w) = Inr (out, s', w')" "sending s j f" "0 < m_baud_counts s" "j < (frame_bits s + 1) * m_baud_counts s"
  shows "out = bit f (Suc j div m_baud_counts s) \<and> queue s' = queue s \<and> settings s' = settings s
    \<and> (if Suc j < (frame_bits s + 1) * m_baud_counts s then sending s' (Suc j) f else \<not> m_tx_state s')"
proof -
  obtain s1 w1 where 1: "tx_side s1 = tx_side s" "tx_tick net (s1, w1) = Inr (out, s', w')"
    using tick_tx [OF assms(1)] by blast
  note t = sending_tx_side [OF 1(1)]
  note e = settings_eq [of s1 s]
  show ?thesis
    using tx_tick_sends [of s1 j f net w1 out s' w'] 1(2) t e assms(2-4) by simp
qed

lemma run_sends:
  assumes "uart_run net ins (s, w) = Inr (outs, s', w')" "sending s j f" "0 < m_baud_counts s"
    "j + length ins = (frame_bits s + 1) * m_baud_counts s" "ins \<noteq> []"
  shows "length outs = length ins \<and> (\<forall>k<length ins. outs ! k = bit f ((j + 1 + k) div m_baud_counts s))
    \<and> queue s' = queue s \<and> settings s' = settings s \<and> \<not> m_tx_state s'"
  using assms
proof (induction ins arbitrary: s w j outs)
  case (Cons i ins)
  obtain out s1 w1 where 1: "uart_tick net i (s, w) = Inr (out, s1, w1)"
    using Cons.prems(1) by (auto split: sum.splits)
  then obtain outs1 where 2: "uart_run net ins (s1, w1) = Inr (outs1, s', w')" "outs = out # outs1"
    using Cons.prems(1) by (auto split: sum.splits)
  have lt: "j < (frame_bits s + 1) * m_baud_counts s" using Cons.prems(4) by simp
  note t = tick_sends [OF 1 Cons.prems(2,3) lt]
  then have e: "m_baud_counts s1 = m_baud_counts s \<and> frame_bits s1 = frame_bits s" using settings_eq by blast
  show ?case
  proof (cases "ins = []")
    case True
    then show ?thesis using t 2 Cons.prems(4) by simp
  next
    case False
    then have "Suc j < (frame_bits s + 1) * m_baud_counts s" using Cons.prems(4) by (cases ins) simp_all
    then have "sending s1 (Suc j) f" using t by simp
    from Cons.IH [OF 2(1) this] e t False Cons.prems(3,4)
    show ?thesis by (auto simp: 2(2) less_Suc_eq_0_disj add.commute)
  qed
qed simp

lemma next_char_queue:
  assumes "queue s = c # cs" "next_char net (s, w) = Inr (r, s', w')"
  shows "r = Some c \<and> queue s' = cs \<and> settings s' = settings s \<and> m_tx_state s' = m_tx_state s"
proof -
  have "m_ilen s \<noteq> 0"
  proof
    assume "m_ilen s = 0"
    then have "queue s = []" by (simp add: queue_def)
    then show False using assms(1) by simp
  qed
  moreover then have "[m_rxpos s..<m_rxpos s + m_ilen s] = m_rxpos s # [m_rxpos s + 1..<m_rxpos s + m_ilen s]"
    by (simp add: upt_conv_Cons)
  ultimately show ?thesis
    using assms by (auto simp: next_char_def take_char_def queue_def settings_def split: if_splits)
qed

lemma tick_loads:
  assumes "uart_tick net i (s, w) = Inr (out, s', w')" "\<not> m_tx_state s" "queue s = c # cs" "0 < m_baud_counts s"
  shows "\<not> out \<and> queue s' = cs \<and> settings s' = settings s \<and> sending s' 0 (tx_word c s)"
proof -
  obtain s1 w1 where 1: "tx_side s1 = tx_side s" "tx_tick net (s1, w1) = Inr (out, s', w')"
    using tick_tx [OF assms(1)] by blast
  have s1: "\<not> m_tx_state s1" "queue s1 = c # cs" "settings s1 = settings s"
    using 1(1) assms(2,3) sending_tx_side [OF 1(1)] by (simp_all add: tx_side_def)
  obtain r s2 w2 where 2: "next_char net (s1, w1) = Inr (r, s2, w2)"
    using 1(2) s1(1) by (auto simp: tx_tick_def split: sum.splits)
  note n = next_char_queue [OF s1(2) 2]
  have w: "tx_word c s2 = tx_word c s" if "settings s2 = settings s" for s2
    using that by (simp add: tx_word_def parity_bit_def settings_def Let_def)
  show ?thesis
    using 1(2) 2 n s1(1,3) assms(4) w [of s2]
    by (auto simp: tx_tick_def sending_def queue_def settings_def mask_nat_def)
qed

lemma length_run: "uart_run net ins sw = Inr (outs, sw') \<Longrightarrow> length outs = length ins"
  by (induction ins arbitrary: sw outs) (auto split: sum.splits)

lemma uart_run_append:
  assumes "uart_run net (is @ js) sw = Inr (outs, sw')"
  shows "\<exists>o1 o2 sw1. uart_run net is sw = Inr (o1, sw1) \<and> uart_run net js sw1 = Inr (o2, sw') \<and> outs = o1 @ o2"
  using assms
proof (induction "is" arbitrary: sw outs)
  case (Cons i "is")
  obtain out sw1 where 1: "uart_tick net i sw = Inr (out, sw1)" using Cons.prems by (auto split: sum.splits)
  then obtain outs1 where 2: "uart_run net (is @ js) sw1 = Inr (outs1, sw')" "outs = out # outs1"
    using Cons.prems by (auto split: sum.splits)
  then show ?case using Cons.IH [OF 2(1)] 1 by fastforce
qed simp

abbreviation frame_ticks :: "dbluartsim \<Rightarrow> nat" where
  "frame_ticks s \<equiv> (frame_bits s + 1) * m_baud_counts s + 1"

lemma bit_tx_word:
  "bit (tx_word c s) i \<longleftrightarrow> i < 32 \<and> (m_nbits s + m_nparity s + 1 \<le> i \<or> 1 \<le> i \<and> i \<le> 8 \<and> bit c (i - 1)
    \<or> m_nparity s \<noteq> 0 \<and> i = m_nbits s + m_nparity s
      \<and> parity_bit (push_bit (m_nbits s + m_nparity s + 1) (- 1) OR (push_bit 1 (ucast c) AND 0x01fe)) s)"
proof -
  have "(0x1fe :: u32) = push_bit 1 (mask 8)" by (simp add: mask_eq_exp_minus_1 push_bit_eq_mult)
  then have 1: "bit (0x1fe :: u32) i \<longleftrightarrow> 1 \<le> i \<and> i \<le> 8"
    by (simp only: bit_push_bit_iff bit_mask_iff) auto
  have 2: "bit (push_bit n (- 1) :: u32) i \<longleftrightarrow> n \<le> i \<and> i < 32" for n
    unfolding bit_push_bit_iff by (auto simp: bit_1_iff)
  have 3: "bit (push_bit n (of_bool x) :: u32) i \<longleftrightarrow> i = n \<and> i < 32 \<and> x" for n x
    unfolding bit_push_bit_iff by (auto simp: bit_1_iff)
  have 4: "bit (push_bit 1 (ucast c) :: u32) i \<longleftrightarrow> 1 \<le> i \<and> i < 32 \<and> bit c (i - 1)"
    unfolding bit_push_bit_iff by (auto simp: bit_ucast_iff)
  show ?thesis
    unfolding tx_word_def Let_def if_distrib [of "\<lambda>w. bit w i"] bit_or_iff bit_and_iff 1 2 3 4 by auto
qed

lemma tx_word_start: "0 < m_nbits s \<Longrightarrow> \<not> bit (tx_word c s) 0"
  by (simp add: bit_tx_word)

lemma run_frame:
  assumes "uart_run net ins (s, w) = Inr (outs, s', w')" "\<not> m_tx_state s" "queue s = c # cs" "0 < m_baud_counts s"
    "0 < m_nbits s" "length ins = frame_ticks s"
  shows "(\<forall>k<frame_ticks s. outs ! k = bit (tx_word c s) (k div m_baud_counts s))
    \<and> queue s' = cs \<and> settings s' = settings s \<and> \<not> m_tx_state s'"
proof -
  obtain i "is" where "is": "ins = i # is" using assms(6) by (cases ins) simp_all
  obtain out s1 w1 where 1: "uart_tick net i (s, w) = Inr (out, s1, w1)"
    using assms(1) "is" by (auto split: sum.splits)
  then obtain outs1 where 2: "uart_run net is (s1, w1) = Inr (outs1, s', w')" "outs = out # outs1"
    using assms(1) "is" by (auto split: sum.splits)
  note t = tick_loads [OF 1 assms(2-4)]
  then have e: "m_baud_counts s1 = m_baud_counts s \<and> frame_bits s1 = frame_bits s" using settings_eq by blast
  have "is \<noteq> []" using assms(4,6) "is" by auto
  with run_sends [OF 2(1), of 0 "tx_word c s"] t e assms(4-6) "is"
  show ?thesis by (auto simp: 2(2) less_Suc_eq_0_disj tx_word_start)
qed

lemma tx_word_settings: "settings s' = settings s \<Longrightarrow> tx_word c s' = tx_word c s"
  by (simp add: tx_word_def parity_bit_def settings_def Let_def)

lemma run_frames:
  assumes "uart_run net ins (s, w) = Inr (outs, s', w')" "\<not> m_tx_state s" "queue s = bs" "0 < m_baud_counts s"
    "0 < m_nbits s" "length bs * frame_ticks s \<le> length ins" "k < length bs" "j < frame_ticks s"
  shows "outs ! (k * frame_ticks s + j) = bit (tx_word (bs ! k) s) (j div m_baud_counts s)"
  using assms
proof (induction bs arbitrary: ins s w outs k)
  case (Cons c cs)
  let ?F = "frame_ticks s"
  have len: "?F \<le> length ins" using Cons.prems(6) by simp
  obtain o1 o2 s1 w1 where run: "uart_run net (take ?F ins) (s, w) = Inr (o1, s1, w1)"
    "uart_run net (drop ?F ins) (s1, w1) = Inr (o2, s', w')" "outs = o1 @ o2"
    using uart_run_append [of net "take ?F ins" "drop ?F ins"] Cons.prems(1) by fastforce
  have l1: "length o1 = ?F" using length_run [OF run(1)] len by simp
  have "length (take ?F ins) = ?F" using len by simp
  note f = run_frame [OF run(1) Cons.prems(2-5) this]
  then have set: "settings s1 = settings s" by blast
  then have e: "m_baud_counts s1 = m_baud_counts s \<and> m_nbits s1 = m_nbits s \<and> m_nparity s1 = m_nparity s \<and> m_nstop s1 = m_nstop s"
    by (simp add: settings_def)
  show ?case
  proof (cases k)
    case 0
    then show ?thesis using f l1 Cons.prems(8) by (simp add: run(3) nth_append)
  next
    case (Suc k')
    have "o2 ! (k' * ?F + j) = bit (tx_word (cs ! k') s) (j div m_baud_counts s)"
      using Cons.IH [OF run(2), of k'] f e Cons.prems(4-8) Suc tx_word_settings [OF set] by simp
    moreover have "k * ?F + j = length o1 + (k' * ?F + j)" using Suc l1 by simp
    ultimately show ?thesis using Suc by (simp only: run(3) nth_append_length_plus nth_Cons_Suc)
  qed
qed simp

section \<open>From one wire end to the other\<close>

definition eight_bits :: "dbluartsim \<Rightarrow> bool" where
  "eight_bits s \<longleftrightarrow> m_nbits s = 8 \<and> m_nparity s \<le> 1 \<and> m_nstop s \<in> {1, 2} \<and> 0 < m_baud_counts s"

lemma tx_word_bits:
  assumes "eight_bits s"
  shows "i < 8 \<Longrightarrow> bit (tx_word c s) (i + 1) = bit c i" "bit (tx_word c s) (frame_bits s + 1)"
  using assms by (auto simp: bit_tx_word eight_bits_def)

lemma decode_frame:
  assumes "eight_bits s"
  shows "ucast (drop_bit (32 - frame_bits s) (collect (map (\<lambda>i. bit (tx_word c s) (i + 1)) [0..<frame_bits s]) 0)) = c"
proof (rule bit_word_eqI)
  fix k assume "k < LENGTH(8)"
  then have k: "k < 8" by simp
  let ?bs = "map (\<lambda>i. bit (tx_word c s) (i + 1)) [0..<frame_bits s]"
  have n: "8 < frame_bits s" "frame_bits s \<le> 11" using assms by (auto simp: eight_bits_def)
  then have "bit (collect ?bs 0) (32 - length ?bs + k) = ?bs ! k" using k by (intro bit_collect) simp_all
  then show "bit (ucast (drop_bit (32 - frame_bits s) (collect ?bs 0)) :: u8) k = bit c k"
    using k n tx_word_bits(1) [OF assms k, of c] by (simp add: bit_ucast_iff bit_drop_bit_eq)
qed

lemma heard_frames:
  assumes "\<And>k. k < K \<Longrightarrow> on_wire wire b (k * frame_ticks b) (f k) \<and> \<not> bit (f k) 0 \<and> bit (f k) (frame_bits b + 1)"
    "\<not> m_rx_state b" "m_last_tx b" "0 < m_baud_counts b" "0 < frame_bits b" "frame_bits b \<le> 32" "k \<le> K"
  defines "d \<equiv> \<lambda>k. if k = 0 then 0 else m_baud_counts b div 2"
  shows "listening wire b (k * frame_ticks b) (d k) \<and> heard wire b 0 (k * frame_ticks b + d k)
    = map (\<lambda>k. ucast (drop_bit (32 - frame_bits b) (collect (map (\<lambda>i. bit (f k) (i + 1)) [0..<frame_bits b]) 0))) [0..<k]"
  using assms(7)
proof (induction k)
  case 0
  then show ?case using assms(2,3) by (simp add: d_def listening_def)
next
  case (Suc k)
  let ?F = "frame_ticks b" and ?B = "m_baud_counts b"
  have IH: "listening wire b (k * ?F) (d k)" using Suc by simp
  have w: "on_wire wire b (k * ?F) (f k)" "\<not> bit (f k) 0" "bit (f k) (frame_bits b + 1)" using assms(1) [of k] Suc.prems by simp_all
  note h = frame_heard [OF IH w(1,2) assms(4-6)]
  have e: "k * ?F + (frame_bits b + 1) * ?B + ?B div 2 + 1 = Suc k * ?F + d (Suc k)" by (simp add: d_def)
  have "wire (k * ?F + (frame_bits b + 1) * ?B)"
    using w(1,3) assms(4) by (simp add: on_wire_def)
  moreover have "Suc k * ?F = Suc (k * ?F + (frame_bits b + 1) * ?B)" by simp
  ultimately have "m_last_tx (rx_at wire b (Suc k * ?F))" by (simp only: last_tx_Suc)
  then have "listening wire b (Suc k * ?F) (d (Suc k))"
    using h(2) unfolding e listening_def by (simp add: d_def del: rx_at.simps mult_Suc)
  moreover have "heard wire b 0 (Suc k * ?F + d (Suc k))
      = heard wire b 0 (k * ?F + d k) @ heard wire b (k * ?F + d k) (Suc k * ?F + d (Suc k))"
    using IH unfolding listening_def by (intro heard_split) (auto simp: d_def)
  ultimately show ?case using Suc h(1) unfolding e by simp
qed

lemma heard_queue:
  assumes "uart_run net ins (a, w) = Inr (outs, a', w')" "\<not> m_tx_state a" "queue a = bs" "eight_bits a"
    "settings b = settings a" "\<not> m_rx_state b" "m_last_tx b"
    "length bs * frame_ticks a + m_baud_counts a div 2 \<le> length ins"
  shows "\<exists>more. heard (\<lambda>t. outs ! t) b 0 (length ins) = bs @ more"
proof -
  let ?f = "\<lambda>k. tx_word (bs ! k) a" and ?F = "frame_ticks a" and ?h = "m_baud_counts a div 2"
  have e: "m_baud_counts b = m_baud_counts a" "m_nbits b = m_nbits a" "m_nparity b = m_nparity a" "m_nstop b = m_nstop a"
    using assms(5) by (simp_all add: settings_def)
  have n: "0 < m_baud_counts a" "0 < m_nbits a" "frame_bits a \<le> 32" "0 < frame_bits a"
    using assms(4) by (auto simp: eight_bits_def)
  have wire: "on_wire (\<lambda>t. outs ! t) b (k * ?F) (?f k) \<and> \<not> bit (?f k) 0 \<and> bit (?f k) (frame_bits a + 1)" if "k < length bs" for k
    using run_frames [OF assms(1-3) n(1,2), of k] assms(8) that tx_word_start [OF n(2)] tx_word_bits(2) [OF assms(4)]
    unfolding on_wire_def e by simp
  let ?d = "if length bs = 0 then 0 else ?h"
  have "heard (\<lambda>t. outs ! t) b 0 (length bs * ?F + ?d)
      = map (\<lambda>k. ucast (drop_bit (32 - frame_bits a) (collect (map (\<lambda>i. bit (?f k) (i + 1)) [0..<frame_bits a]) 0))) [0..<length bs]"
    using heard_frames [of "length bs" "\<lambda>t. outs ! t" b ?f "length bs"] wire assms(6,7) n unfolding e by blast
  also have "\<dots> = map ((!) bs) [0..<length bs]" unfolding decode_frame [OF assms(4)] ..
  finally have "heard (\<lambda>t. outs ! t) b 0 (length bs * ?F + ?d) = bs" by (simp only: map_upt_id)
  moreover have "heard (\<lambda>t. outs ! t) b 0 (length ins) = heard (\<lambda>t. outs ! t) b 0 (length bs * ?F + ?d)
      @ heard (\<lambda>t. outs ! t) b (length bs * ?F + ?d) (length ins)"
    using assms(8) by (intro heard_split) auto
  ultimately show ?thesis by simp
qed

section \<open>The buffers\<close>

text \<open>What is asked of the operating system: it polls without an error and delivers no more bytes than there is room for.\<close>

definition net_ok :: "'w net \<Rightarrow> bool" where
  "net_ok net \<longleftrightarrow> (\<forall>fds w. 0 \<le> fst (fst (net_poll net fds w)))
     \<and> (\<forall>fd n w bs. fst (net_recv net fd n w) = Some bs \<longrightarrow> length bs \<le> n)"

definition uart_fits :: "dbluartsim \<Rightarrow> bool" where
  "uart_fits s \<longleftrightarrow> m_rxpos s + m_ilen s \<le> DBLPIPEBUFLEN \<and> m_cmdpos s < DBLPIPEBUFLEN - 2 \<and> m_conpos s < DBLPIPEBUFLEN - 2
     \<and> m_cllen s < 64"

definition buffer_side where
  "buffer_side s = (m_rxpos s, m_ilen s, m_cmdpos s, m_conpos s, m_cllen s)"

lemma accept_buffer_side: "buffer_side (fst (fold (accept_one net ready) fds (s, w))) = buffer_side s"
proof (induction fds arbitrary: s w)
  case (Cons fd fds)
  obtain s1 w1 where 1: "accept_one net ready fd (s, w) = (s1, w1)" by (cases "accept_one net ready fd (s, w)")
  then have "buffer_side s1 = buffer_side s"
    by (auto simp: accept_one_def buffer_side_def split: if_splits prod.splits)
  then show ?case using Cons.IH [of s1 w1] 1 by simp
qed simp

lemma poll_accept_fits:
  assumes "net_ok net" "uart_fits s"
  shows "\<exists>s' w'. poll_accept net (s, w) = Inr (s', w') \<and> uart_fits s'"
proof -
  have "0 \<le> fst (fst (net_poll net fds w))" for fds using assms(1) by (simp add: net_ok_def)
  then have "\<exists>s' w'. poll_accept net (s, w) = Inr (s', w')"
    unfolding poll_accept_def Let_def by (auto simp del: fold.simps fold_simps split: prod.split) (metis fst_conv not_less surj_pair)+
  then obtain s' w' where 1: "poll_accept net (s, w) = Inr (s', w')" by blast
  then have "buffer_side s' = buffer_side s" using poll_accept_cases [OF 1] accept_buffer_side by metis
  then show ?thesis using 1 assms(2) by (auto simp: buffer_side_def uart_fits_def)
qed

text \<open>The printed line never grows beyond 64 characters.\<close>

lemma echo_byte_fits:
  "m_cllen s < 64 \<Longrightarrow> \<exists>s'. echo_byte b s = Inr s' \<and> m_cllen s' < 64 \<and> m_ilen s' = m_ilen s \<and> m_cmdpos s' = m_cmdpos s
     \<and> m_conpos s' = m_conpos s \<and> m_cmd s' = m_cmd s"
  by (auto simp: echo_byte_def DBLPIPEBUFLEN_def Let_def)

lemma echo_cmd_fits:
  assumes "m_cllen s < 64"
  shows "\<exists>s'. echo_cmd bs s = Inr s' \<and> m_cllen s' < 64 \<and> m_ilen s' = m_ilen s \<and> m_cmdpos s' = m_cmdpos s
     \<and> m_conpos s' = m_conpos s \<and> m_cmd s' = m_cmd s"
proof -
  have "\<exists>s'. echo_bytes bs s = Inr s' \<and> m_cllen s' < 64 \<and> m_ilen s' = m_ilen s \<and> m_cmdpos s' = m_cmdpos s
     \<and> m_conpos s' = m_conpos s \<and> m_cmd s' = m_cmd s"
    using assms
  proof (induction bs arbitrary: s)
    case (Cons b bs)
    then show ?case using echo_byte_fits [OF Cons.prems, of b] by fastforce
  qed simp
  then show ?thesis by (auto simp: echo_cmd_def DBLPIPEBUFLEN_def)
qed

lemma read_fds_fits:
  assumes "net_ok net" "m_ilen s \<le> DBLPIPEBUFLEN" "m_cllen s < 64"
  shows "\<exists>s' w'. read_fds net ready fds (s, w) = Inr (s', w') \<and> m_ilen s' \<le> DBLPIPEBUFLEN \<and> m_cllen s' < 64
    \<and> m_cmdpos s' = m_cmdpos s \<and> m_conpos s' = m_conpos s"
  using assms(2,3)
proof (induction fds arbitrary: s w)
  case (Cons fd fds)
  obtain r w1 where 1: "net_recv net fd (DBLPIPEBUFLEN - m_ilen s) w = (r, w1)" by (cases "net_recv net fd (DBLPIPEBUFLEN - m_ilen s) w")
  define bs where "bs = (case r of None \<Rightarrow> [] | Some bs \<Rightarrow> bs)"
  have "length bs \<le> DBLPIPEBUFLEN - m_ilen s"
    using assms(1) 1 unfolding net_ok_def bs_def by (metis fst_conv le0 list.size(3) option.case_eq_if option.collapse)
  then have len: "m_ilen s + length bs \<le> DBLPIPEBUFLEN" using Cons.prems(1) by simp
  obtain s1 where s1: "(if fd = m_cmd s then echo_cmd bs s else Inr s) = Inr s1" "m_cllen s1 < 64" "m_ilen s1 = m_ilen s"
    "m_cmdpos s1 = m_cmdpos s" "m_conpos s1 = m_conpos s"
    using echo_cmd_fits [OF Cons.prems(2), of bs] Cons.prems(2) by (cases "fd = m_cmd s") auto
  show ?case
  proof (cases "fd \<in> set ready")
    case True
    let ?closed = "if fd = m_cmd s1 then s1\<lparr>m_cmd := -1\<rparr> else s1\<lparr>m_con := -1\<rparr>"
    let ?put = "put_bytes (if fd = m_cmd s1 then map (\<lambda>b. b OR 0x80) bs else bs) s1"
    have run: "read_fds net ready (fd # fds) (s, w) =
        (if bs = [] then read_fds net ready fds (?closed, net_close net fd w1)
         else if m_ilen ?put = DBLPIPEBUFLEN then Inr (?put, w1) else read_fds net ready fds (?put, w1))"
      using True by (simp only: read_fds.simps 1 bs_def [symmetric] s1(1) prod.case sum.case if_True Let_def)
    have "m_ilen ?closed \<le> DBLPIPEBUFLEN" "m_cllen ?closed < 64" "m_cmdpos ?closed = m_cmdpos s" "m_conpos ?closed = m_conpos s"
      using s1(2-5) Cons.prems(1) by simp_all
    moreover have "m_ilen ?put \<le> DBLPIPEBUFLEN" "m_cllen ?put < 64" "m_cmdpos ?put = m_cmdpos s" "m_conpos ?put = m_conpos s"
      using s1(2-5) len by (simp_all add: put_bytes_def)
    ultimately show ?thesis
      unfolding run using Cons.IH [of ?closed "net_close net fd w1"] Cons.IH [of ?put w1] by fastforce
  next
    case False
    then show ?thesis using Cons.IH [OF Cons.prems, of w] by simp
  qed
qed simp

lemma poll_read_fits:
  assumes "net_ok net" "uart_fits s" "m_ilen s = 0"
  shows "\<exists>s' w'. poll_read net (s, w) = Inr (s', w') \<and> uart_fits s'"
proof -
  define pb where "pb = (if m_cmd s \<ge> 0 then [m_cmd s] else []) @ (if m_con s \<ge> 0 then [m_con s] else [])"
  obtain r ready w1 where 1: "net_poll net pb w = ((r, ready), w1)" by (metis surj_pair)
  then have "0 \<le> r" using assms(1) unfolding net_ok_def by (metis fst_conv)
  obtain s2 w2 where 2: "read_fds net ready pb (s, w1) = Inr (s2, w2)" "m_ilen s2 \<le> DBLPIPEBUFLEN" "m_cllen s2 < 64"
    "m_cmdpos s2 = m_cmdpos s" "m_conpos s2 = m_conpos s"
    using read_fds_fits [OF assms(1), of s] assms(2) by (fastforce simp: uart_fits_def)
  then have "uart_fits (s2\<lparr>m_rxpos := 0\<rparr>)" using assms(2) by (simp add: uart_fits_def)
  then show ?thesis
    using 1 2(1) \<open>0 \<le> r\<close> assms(2) unfolding poll_read_def case_prod_conv pb_def [symmetric] Let_def by auto
qed

lemma received_fits:
  assumes "uart_fits s"
  shows "\<exists>s' w'. received net ch (s, w) = Inr (s', w') \<and> uart_fits s'"
proof -
  have "\<exists>s1. store_char ch s = Inr s1 \<and> m_rxpos s1 + m_ilen s1 \<le> DBLPIPEBUFLEN
    \<and> m_cmdpos s1 \<le> DBLPIPEBUFLEN - 2 \<and> m_conpos s1 \<le> DBLPIPEBUFLEN - 2 \<and> m_cllen s1 < 64"
    using assms by (simp add: store_char_def uart_fits_def DBLPIPEBUFLEN_def)
  then obtain s1 where 1: "store_char ch s = Inr s1" "m_rxpos s1 + m_ilen s1 \<le> DBLPIPEBUFLEN"
    "m_cmdpos s1 \<le> DBLPIPEBUFLEN - 2" "m_conpos s1 \<le> DBLPIPEBUFLEN - 2" "m_cllen s1 < 64" by blast
  have "\<exists>s2 w2. flush_cmd net (s1, w) = Inr (s2, w2) \<and> m_rxpos s2 + m_ilen s2 \<le> DBLPIPEBUFLEN
    \<and> m_cmdpos s2 < DBLPIPEBUFLEN - 2 \<and> m_conpos s2 \<le> DBLPIPEBUFLEN - 2 \<and> m_cllen s2 < 64"
    using 1(2-5) by (auto simp: flush_cmd_def DBLPIPEBUFLEN_def split: prod.split)
  then obtain s2 w2 where 2: "flush_cmd net (s1, w) = Inr (s2, w2)" "m_rxpos s2 + m_ilen s2 \<le> DBLPIPEBUFLEN"
    "m_cmdpos s2 < DBLPIPEBUFLEN - 2" "m_conpos s2 \<le> DBLPIPEBUFLEN - 2" "m_cllen s2 < 64" by blast
  have "\<exists>s3 w3. send_con net (s2, w2) = (s3, w3) \<and> m_rxpos s3 + m_ilen s3 \<le> DBLPIPEBUFLEN
    \<and> m_cmdpos s3 < DBLPIPEBUFLEN - 2 \<and> m_conpos s3 \<le> DBLPIPEBUFLEN - 2 \<and> m_cllen s3 < 64"
    using 2(2-5) by (auto simp: send_con_def DBLPIPEBUFLEN_def split: prod.split)
  then obtain s3 w3 where 3: "send_con net (s2, w2) = (s3, w3)" "m_rxpos s3 + m_ilen s3 \<le> DBLPIPEBUFLEN"
    "m_cmdpos s3 < DBLPIPEBUFLEN - 2" "m_conpos s3 \<le> DBLPIPEBUFLEN - 2" "m_cllen s3 < 64" by blast
  then have "\<exists>s'. flush_con s3 = Inr s' \<and> uart_fits s'"
    by (auto simp: flush_con_def uart_fits_def DBLPIPEBUFLEN_def)
  then show ?thesis using 1(1) 2(1) 3(1) by (auto simp: received_def)
qed

lemma next_char_fits:
  assumes "net_ok net" "uart_fits s"
  shows "\<exists>r s' w'. next_char net (s, w) = Inr (r, s', w') \<and> uart_fits s'"
proof -
  obtain s1 w1 where 1: "(if m_ilen s = 0 then poll_read net (s, w) else Inr (s, w)) = Inr (s1, w1)" "uart_fits s1"
  proof (cases "m_ilen s = 0")
    case True
    then show ?thesis using poll_read_fits [OF assms True] that by (metis (full_types))
  next
    case False
    then show ?thesis using that assms(2) by simp
  qed
  have "\<exists>r s'. take_char s1 = Inr (r, s') \<and> uart_fits s'"
    using 1(2) by (auto simp: take_char_def uart_fits_def)
  then show ?thesis using 1(1) by (auto simp: next_char_def)
qed

lemma uart_fits_tx_upd [simp]:
  "uart_fits (m_tx_state_update f1 s) = uart_fits s" "uart_fits (m_tx_baudcounter_update f2 s) = uart_fits s"
  "uart_fits (m_tx_busy_update f3 s) = uart_fits s" "uart_fits (m_tx_data_update f4 s) = uart_fits s"
  "uart_fits (m_rx_state_update g1 s) = uart_fits s" "uart_fits (m_rx_baudcounter_update g2 s) = uart_fits s"
  "uart_fits (m_rx_busy_update g3 s) = uart_fits s" "uart_fits (m_rx_data_update g4 s) = uart_fits s"
  "uart_fits (rx_edge i s) = uart_fits s"
  by (simp_all add: uart_fits_def rx_edge_def)

lemma tx_tick_fits:
  assumes "net_ok net" "uart_fits s"
  shows "\<exists>out s' w'. tx_tick net (s, w) = Inr (out, s', w') \<and> uart_fits s'"
proof (cases "m_tx_state s")
  case True
  then show ?thesis using assms(2) by (simp add: tx_tick_def Let_def)
next
  case False
  obtain r s1 w1 where "next_char net (s, w) = Inr (r, s1, w1)" "uart_fits s1" using next_char_fits [OF assms] by blast
  then show ?thesis using False by (cases r) (auto simp: tx_tick_def)
qed

lemma tick_fits:
  assumes "net_ok net" "uart_fits s"
  shows "\<exists>out s' w'. uart_tick net i (s, w) = Inr (out, s', w') \<and> uart_fits s'"
proof -
  obtain s1 w1 where 1: "poll_accept net (s, w) = Inr (s1, w1)" "uart_fits s1" using poll_accept_fits [OF assms] by blast
  obtain c s2 where 2: "rx_tick i s1 = (c, s2)" by (cases "rx_tick i s1")
  have "uart_fits (snd (rx_tick i s1))" using 1(2) by (simp add: rx_tick_def Let_def)
  then have "uart_fits s2" using 2 by simp
  then obtain s3 w3 where 3: "(case c of None \<Rightarrow> Inr (s2, w1) | Some ch \<Rightarrow> received net ch (s2, w1)) = Inr (s3, w3)" "uart_fits s3"
  proof (cases c)
    case None
    then show ?thesis using that \<open>uart_fits s2\<close> by simp
  next
    case (Some ch)
    then show ?thesis using that received_fits [OF \<open>uart_fits s2\<close>, of net ch w1] by fastforce
  qed
  show ?thesis using tx_tick_fits [OF assms(1) 3(2)] 1(1) 2 3(1) by (auto simp: uart_tick_def)
qed

lemma run_fits:
  assumes "net_ok net" "uart_fits s"
  shows "\<exists>outs s' w'. uart_run net ins (s, w) = Inr (outs, s', w') \<and> uart_fits s'"
  using assms(2)
proof (induction ins arbitrary: s w)
  case (Cons i ins)
  obtain out s1 w1 where 1: "uart_tick net i (s, w) = Inr (out, s1, w1)" "uart_fits s1" using tick_fits [OF assms(1) Cons.prems] by blast
  show ?case using Cons.IH [OF 1(2), of w1] 1(1) by auto
qed simp

lemma init_fits: "uart_fits (uart_init raw skt console)"
  by (simp add: uart_init_def uart_setup_def uart_fits_def DBLPIPEBUFLEN_def)

text \<open>
  C18: the serial port never overruns a buffer.  From its construction on, whatever the wire and the two
  connections do, no tick faults: the characters that were received, those that wait to be sent and the
  line of commands that is printed stay inside their buffers of 256 bytes, as long as \<^verbatim>\<open>poll\<close> does not fail and \<^verbatim>\<open>recv\<close> keeps to its length.
\<close>
theorem uart_buffers_fit:
  assumes "net_ok net"
  shows "\<exists>outs s w'. uart_run net ins (uart_init raw skt console, w) = Inr (outs, s, w') \<and> uart_fits s"
  by (rule run_fits [OF assms init_fits])

text \<open>A console that has one connection and sends \<open>bs\<close> over it.\<close>

definition one_console :: "u8 list net" where
  "one_console = \<lparr>net_poll = (\<lambda>fds w. ((if 7 \<in> set fds \<and> w \<noteq> [] \<or> 5 \<in> set fds then 1 else 0, [5] @ (if w \<noteq> [] then [7] else [])), w)),
     net_accept = (\<lambda>fd w. (7, w)), net_recv = (\<lambda>fd n w. (Some (take n w), drop n w)),
     net_send = (\<lambda>fd bs w. (int (length bs), w)), net_close = (\<lambda>fd w. w)\<rparr>"

lemma one_console_ok: "net_ok one_console"
  by (simp add: net_ok_def one_console_def)

lemma uart_buffers_fit_witness:
  "\<exists>outs s w'. uart_run one_console (replicate 300 True) (uart_init undefined 4 5, [0x41, 0x42]) = Inr (outs, s, w') \<and> uart_fits s"
  by (rule uart_buffers_fit [OF one_console_ok])

text \<open>
  C17: what goes out comes in.  A serial port whose transmitter is idle, with the characters \<open>bs\<close> in its
  queue and settings of eight bits with any parity and any baud rate, puts levels on its wire from which an
  idle port with the same settings hears exactly \<open>bs\<close>, in their order, before anything else, although the
  frames follow each other without a pause.
\<close>
theorem uart_roundtrip:
  assumes "uart_run net ins (a, w) = Inr (outs, a', w')" "\<not> m_tx_state a" "queue a = bs" "eight_bits a"
    "settings b = settings a" "\<not> m_rx_state b" "m_last_tx b"
    "length bs * frame_ticks a + m_baud_counts a div 2 \<le> length ins"
  shows "\<exists>more. heard (\<lambda>t. outs ! t) b 0 (length ins) = bs @ more"
  by (rule heard_queue [OF assms])

text \<open>A port with two characters in its queue, and one that listens.\<close>

definition demo_sender :: dbluartsim where
  "demo_sender = (uart_init undefined 4 5)
     \<lparr>m_baud_counts := 3, m_nbits := 8, m_nstop := 2, m_nparity := 1, m_fixdp := False, m_evenp := True,
      m_rxbuf := (\<lambda>i. if i = 0 then 0xc1 else 0x42), m_ilen := 2\<rparr>"

lemma uart_roundtrip_witness:
  "\<exists>outs more. heard (\<lambda>t. outs ! t) (demo_sender\<lparr>m_last_tx := True\<rparr>) 0 100 = [0xc1, 0x42] @ more"
proof -
  have "uart_fits demo_sender"
    by (simp add: demo_sender_def uart_init_def uart_setup_def uart_fits_def DBLPIPEBUFLEN_def)
  then obtain outs a' w' where run: "uart_run one_console (replicate 100 True) (demo_sender, []) = Inr (outs, a', w')"
    using run_fits [OF one_console_ok] by blast
  have "queue demo_sender = [0xc1, 0x42]"
    by (simp add: demo_sender_def uart_init_def uart_setup_def queue_def upt_rec)
  moreover have "eight_bits demo_sender" "frame_bits demo_sender = 11" "m_baud_counts demo_sender = 3"
    "\<not> m_tx_state demo_sender" "\<not> m_rx_state demo_sender"
    by (simp_all add: demo_sender_def uart_init_def uart_setup_def eight_bits_def)
  moreover have "settings (demo_sender\<lparr>m_last_tx := True\<rparr>) = settings demo_sender" by (simp add: settings_def)
  ultimately show ?thesis
    using uart_roundtrip [OF run, of "[0xc1, 0x42]" "demo_sender\<lparr>m_last_tx := True\<rparr>"] by auto
qed

end
