(* ===== verification/Text.thy ===== *)
theory Text
  imports Prelude
begin

text \<open>
  Texts as \<^verbatim>\<open>printf\<close> writes them, shared by the programs that print: the conversions \<^verbatim>\<open>%d\<close>, \<^verbatim>\<open>%08x\<close>
  and \<^verbatim>\<open>%2d\<close>, a character of a C string with its terminator, and the newline.
\<close>

definition char_at :: "string \<Rightarrow> nat \<Rightarrow> char" where
  "char_at s i = (if i < length s then s ! i else CHR 0x00)"

fun dec_nat :: "nat \<Rightarrow> string" where
  "dec_nat n = (if n < 10 then [char_of (48 + n)] else dec_nat (n div 10) @ [char_of (48 + n mod 10)])"

declare dec_nat.simps [simp del]

definition fmt_d :: "u32 \<Rightarrow> string" where
  "fmt_d w = (if sint w < 0 then CHR ''-'' # dec_nat (nat (- sint w)) else dec_nat (nat (sint w)))"

definition hex8 :: "u32 \<Rightarrow> string" where
  "hex8 w = map (\<lambda>b. char_of (unat b)) (fmt_08x w)"

definition pad_left :: "nat \<Rightarrow> string \<Rightarrow> string" where
  "pad_left n s = replicate (n - length s) CHR '' '' @ s"

definition newline :: string where
  "newline = [CHR 0x0a]"

end
