(* ===== verification/Zopcodes.thy ===== *)
theory Zopcodes
  imports Text
begin

text \<open>
  The ZipCPU disassembler of \<^verbatim>\<open>sw/host/zopcodes.cpp\<close>: the two opcode tables, the extraction of the fields
  they name, the text of an instruction word (two texts for a word that holds two compressed
  instructions), the recognition of two-word instructions and the target of an early branch.

  An \<open>int\<close> of the code is a 32-bit word and a \<open>long\<close> a 64-bit word.  Reading a table of register names
  beyond its end and the assertion of the consistency check are faults.  The code pads with
  \<^verbatim>\<open>sprintf(line, "%-11s", line)\<close>; the padded text is what that is meant to give.
\<close>

type_synonym i64 = "64 word"

section \<open>Texts\<close>

definition toupper :: "char \<Rightarrow> char" where
  "toupper c = (let n = of_char c :: nat in if 97 \<le> n \<and> n \<le> 122 then char_of (n - 32) else c)"

definition strcaseeq :: "string \<Rightarrow> string \<Rightarrow> bool" where
  "strcaseeq a b \<longleftrightarrow> map toupper a = map toupper b"

definition strncaseeq :: "nat \<Rightarrow> string \<Rightarrow> string \<Rightarrow> bool" where
  "strncaseeq n a b \<longleftrightarrow> strcaseeq (take n a) (take n b)"

definition pad11 :: "string \<Rightarrow> string" where
  "pad11 s = s @ replicate (11 - length s) CHR '' ''"

section \<open>The tables\<close>

definition zip_regstr :: "string list" where
  "zip_regstr = [
     ''R0'', ''R1'', ''R2'', ''R3'', ''R4'', ''R5'', ''R6'', ''R7'', ''R8'', ''R9'', ''R10'', ''R11'',
     ''R12'', ''SP'', ''CC'', ''PC'',
     ''uR0'', ''uR1'', ''uR2'', ''uR3'', ''uR4'', ''uR5'', ''uR6'', ''uR7'', ''uR8'', ''uR9'', ''uR10'', ''uR11'',
     ''uR12'', ''uSP'', ''uCC'', ''uPC'',
     ''sR0'', ''sR1'', ''sR2'', ''sR3'', ''sR4'', ''sR5'', ''sR6'', ''sR7'', ''sR8'', ''sR9'', ''sR10'', ''sR11'',
     ''sR12'', ''sSP'', ''sCC'', ''sPC'', ''rILL'']"

definition zip_ccstr :: "string list" where
  "zip_ccstr = ['''', ''.Z'', ''.LT'', ''.C'', ''.V'', ''.NZ'', ''.GE'', ''.NC'']"

definition ZIP_OPUNUSED :: u32 where "ZIP_OPUNUSED = -1"
definition ZIP_BITFIELD :: "u32 \<Rightarrow> u32 \<Rightarrow> u32" where "ZIP_BITFIELD ln mn = push_bit 8 (ln AND 0xff) + (mn AND 0xff)"
definition ZIP_REGFIELD :: "u32 \<Rightarrow> u32" where "ZIP_REGFIELD mn = 0x400 + (mn AND 0xff)"
definition ZIP_URGFIELD :: "u32 \<Rightarrow> u32" where "ZIP_URGFIELD mn = 0x0100400 + (mn AND 0xff)"
definition ZIP_IMMFIELD :: "u32 \<Rightarrow> u32 \<Rightarrow> u32" where
  "ZIP_IMMFIELD ln mn = 0x40000000 + (push_bit 8 (ln AND 0xff) + (mn AND 0xff))"
definition ZIP_SP :: u32 where "ZIP_SP = 0xd0000"

record zopcode =
  s_opstr :: string
  s_mask :: u32
  s_val :: u32
  s_result :: u32
  s_ra :: u32
  s_rb :: u32
  s_i :: u32
  s_cf :: u32

definition zop :: "string \<Rightarrow> u32 \<Rightarrow> u32 \<Rightarrow> u32 \<Rightarrow> u32 \<Rightarrow> u32 \<Rightarrow> u32 \<Rightarrow> u32 \<Rightarrow> zopcode" where
  "zop n m v r a b i c = \<lparr>s_opstr = n, s_mask = m, s_val = v, s_result = r, s_ra = a, s_rb = b, s_i = i, s_cf = c\<rparr>"

text \<open>The table of the instructions and of the high halves, and the table of the low halves.\<close>

definition oplist_full :: "zopcode list" where
  "oplist_full =
  [zop ''BUSY'' 0xffc7ffff 0x7883ffff ZIP_OPUNUSED ZIP_OPUNUSED ZIP_OPUNUSED ZIP_OPUNUSED (ZIP_BITFIELD 3 19),
   zop ''BZ'' 0xfffc0000 0x78880000 ZIP_OPUNUSED ZIP_OPUNUSED ZIP_OPUNUSED (ZIP_IMMFIELD 18 0) ZIP_OPUNUSED,
   zop ''BLT'' 0xfffc0000 0x78900000 ZIP_OPUNUSED ZIP_OPUNUSED ZIP_OPUNUSED (ZIP_IMMFIELD 18 0) ZIP_OPUNUSED,
   zop ''BC'' 0xfffc0000 0x78980000 ZIP_OPUNUSED ZIP_OPUNUSED ZIP_OPUNUSED (ZIP_IMMFIELD 18 0) ZIP_OPUNUSED,
   zop ''BV'' 0xfffc0000 0x78a00000 ZIP_OPUNUSED ZIP_OPUNUSED ZIP_OPUNUSED (ZIP_IMMFIELD 18 0) ZIP_OPUNUSED,
   zop ''BNZ'' 0xfffc0000 0x78a80000 ZIP_OPUNUSED ZIP_OPUNUSED ZIP_OPUNUSED (ZIP_IMMFIELD 18 0) ZIP_OPUNUSED,
   zop ''BGE'' 0xfffc0000 0x78b00000 ZIP_OPUNUSED ZIP_OPUNUSED ZIP_OPUNUSED (ZIP_IMMFIELD 18 0) ZIP_OPUNUSED,
   zop ''BNC'' 0xfffc0000 0x78b80000 ZIP_OPUNUSED ZIP_OPUNUSED ZIP_OPUNUSED (ZIP_IMMFIELD 18 0) ZIP_OPUNUSED,
   zop ''BRA'' 0xffc40000 0x78800000 ZIP_OPUNUSED ZIP_OPUNUSED ZIP_OPUNUSED (ZIP_IMMFIELD 18 0) (ZIP_BITFIELD 3 19),
   zop ''TRAP'' 0xfffffff0 0x76000000 ZIP_OPUNUSED ZIP_OPUNUSED ZIP_OPUNUSED ZIP_OPUNUSED ZIP_OPUNUSED,
   zop ''TRAP'' 0xff800000 0x76000000 ZIP_OPUNUSED ZIP_OPUNUSED ZIP_OPUNUSED ZIP_OPUNUSED ZIP_OPUNUSED,
   zop ''TRAP'' 0xffc7ffff 0x72000000 ZIP_OPUNUSED ZIP_OPUNUSED ZIP_OPUNUSED (ZIP_IMMFIELD 18 0) (ZIP_BITFIELD 3 19),
   zop ''TRAP'' 0xffc4ffff 0x72400000 ZIP_OPUNUSED ZIP_OPUNUSED ZIP_OPUNUSED ZIP_OPUNUSED (ZIP_BITFIELD 3 19),
   zop ''TRAP'' 0xffc40000 0x72400000 ZIP_OPUNUSED ZIP_OPUNUSED ZIP_OPUNUSED (ZIP_IMMFIELD 18 0) (ZIP_BITFIELD 3 19),
   zop ''CLR'' 0x87ffffff 0x06000000 (ZIP_REGFIELD 27) ZIP_OPUNUSED ZIP_OPUNUSED ZIP_OPUNUSED ZIP_OPUNUSED,
   zop ''CLR'' 0x87c7ffff 0x02000000 (ZIP_REGFIELD 27) (ZIP_REGFIELD 27) ZIP_OPUNUSED (ZIP_IMMFIELD 18 0) (ZIP_BITFIELD 3 19),
   zop ''HALT'' 0xffc7ffff 0x70c00010 ZIP_OPUNUSED ZIP_OPUNUSED ZIP_OPUNUSED ZIP_OPUNUSED (ZIP_BITFIELD 3 19),
   zop ''WAIT'' 0xffc7ffff 0x70c00030 ZIP_OPUNUSED ZIP_OPUNUSED ZIP_OPUNUSED ZIP_OPUNUSED (ZIP_BITFIELD 3 19),
   zop ''RTU'' 0xffc7ffff 0x70c00020 ZIP_OPUNUSED ZIP_OPUNUSED ZIP_OPUNUSED ZIP_OPUNUSED (ZIP_BITFIELD 3 19),
   zop ''RTN'' 0xffc7ffff 0x7b400000 ZIP_OPUNUSED ZIP_OPUNUSED ZIP_OPUNUSED ZIP_OPUNUSED (ZIP_BITFIELD 3 19),
   zop ''JMP'' 0xffc40000 0x7b400000 ZIP_OPUNUSED ZIP_OPUNUSED (ZIP_REGFIELD 14) (ZIP_IMMFIELD 13 0) (ZIP_BITFIELD 3 19),
   zop ''JMPI'' 0xff800000 0x7e000000 (ZIP_REGFIELD 27) ZIP_OPUNUSED ZIP_OPUNUSED (ZIP_IMMFIELD 23 0) ZIP_OPUNUSED,
   zop ''LJMP'' 0xffffffff 0x7c87c000 ZIP_OPUNUSED ZIP_OPUNUSED ZIP_OPUNUSED ZIP_OPUNUSED ZIP_OPUNUSED,
   zop ''SUB'' 0x87c40000 0x00000000 (ZIP_REGFIELD 27) (ZIP_REGFIELD 27) ZIP_OPUNUSED (ZIP_IMMFIELD 18 0) (ZIP_BITFIELD 3 19),
   zop ''SUB'' 0x87c40000 0x00040000 (ZIP_REGFIELD 27) (ZIP_REGFIELD 27) (ZIP_REGFIELD 14) (ZIP_IMMFIELD 14 0) (ZIP_BITFIELD 3 19),
   zop ''AND'' 0x87c40000 0x00400000 (ZIP_REGFIELD 27) (ZIP_REGFIELD 27) ZIP_OPUNUSED (ZIP_IMMFIELD 18 0) (ZIP_BITFIELD 3 19),
   zop ''AND'' 0x87c40000 0x00440000 (ZIP_REGFIELD 27) (ZIP_REGFIELD 27) (ZIP_REGFIELD 14) (ZIP_IMMFIELD 14 0) (ZIP_BITFIELD 3 19),
   zop ''ADD'' 0x87c40000 0x00800000 (ZIP_REGFIELD 27) (ZIP_REGFIELD 27) ZIP_OPUNUSED (ZIP_IMMFIELD 18 0) (ZIP_BITFIELD 3 19),
   zop ''ADD'' 0x87c40000 0x00840000 (ZIP_REGFIELD 27) (ZIP_REGFIELD 27) (ZIP_REGFIELD 14) (ZIP_IMMFIELD 14 0) (ZIP_BITFIELD 3 19),
   zop ''OR'' 0x87c40000 0x00c00000 (ZIP_REGFIELD 27) (ZIP_REGFIELD 27) ZIP_OPUNUSED (ZIP_IMMFIELD 18 0) (ZIP_BITFIELD 3 19),
   zop ''OR'' 0x87c40000 0x00c40000 (ZIP_REGFIELD 27) (ZIP_REGFIELD 27) (ZIP_REGFIELD 14) (ZIP_IMMFIELD 14 0) (ZIP_BITFIELD 3 19),
   zop ''XOR'' 0x87c40000 0x01000000 (ZIP_REGFIELD 27) (ZIP_REGFIELD 27) ZIP_OPUNUSED (ZIP_IMMFIELD 18 0) (ZIP_BITFIELD 3 19),
   zop ''XOR'' 0x87c40000 0x01040000 (ZIP_REGFIELD 27) (ZIP_REGFIELD 27) (ZIP_REGFIELD 14) (ZIP_IMMFIELD 14 0) (ZIP_BITFIELD 3 19),
   zop ''LSR'' 0x87c40000 0x01400000 (ZIP_REGFIELD 27) (ZIP_REGFIELD 27) ZIP_OPUNUSED (ZIP_IMMFIELD 18 0) (ZIP_BITFIELD 3 19),
   zop ''LSR'' 0x87c40000 0x01440000 (ZIP_REGFIELD 27) (ZIP_REGFIELD 27) (ZIP_REGFIELD 14) (ZIP_IMMFIELD 14 0) (ZIP_BITFIELD 3 19),
   zop ''LSL'' 0x87c40000 0x01800000 (ZIP_REGFIELD 27) (ZIP_REGFIELD 27) ZIP_OPUNUSED (ZIP_IMMFIELD 18 0) (ZIP_BITFIELD 3 19),
   zop ''LSL'' 0x87c40000 0x01840000 (ZIP_REGFIELD 27) (ZIP_REGFIELD 27) (ZIP_REGFIELD 14) (ZIP_IMMFIELD 14 0) (ZIP_BITFIELD 3 19),
   zop ''ASR'' 0x87c40000 0x01c00000 (ZIP_REGFIELD 27) (ZIP_REGFIELD 27) ZIP_OPUNUSED (ZIP_IMMFIELD 18 0) (ZIP_BITFIELD 3 19),
   zop ''ASR'' 0x87c40000 0x01c40000 (ZIP_REGFIELD 27) (ZIP_REGFIELD 27) (ZIP_REGFIELD 14) (ZIP_IMMFIELD 14 0) (ZIP_BITFIELD 3 19),
   zop ''BREV'' 0x87c40000 0x02000000 (ZIP_REGFIELD 27) (ZIP_REGFIELD 27) ZIP_OPUNUSED (ZIP_IMMFIELD 18 0) (ZIP_BITFIELD 3 19),
   zop ''BREV'' 0x87c40000 0x02040000 (ZIP_REGFIELD 27) (ZIP_REGFIELD 27) (ZIP_REGFIELD 14) (ZIP_IMMFIELD 14 0) (ZIP_BITFIELD 3 19),
   zop ''LDILO'' 0x87c40000 0x02400000 (ZIP_REGFIELD 27) (ZIP_REGFIELD 27) ZIP_OPUNUSED (ZIP_IMMFIELD 18 0) (ZIP_BITFIELD 3 19),
   zop ''LDILO'' 0x87c40000 0x02440000 (ZIP_REGFIELD 27) (ZIP_REGFIELD 27) (ZIP_REGFIELD 14) (ZIP_IMMFIELD 14 0) (ZIP_BITFIELD 3 19),
   zop ''MPYUHI'' 0x87c40000 0x02800000 (ZIP_REGFIELD 27) (ZIP_REGFIELD 27) ZIP_OPUNUSED (ZIP_IMMFIELD 18 0) (ZIP_BITFIELD 3 19),
   zop ''MPYUHI'' 0x87c40000 0x02840000 (ZIP_REGFIELD 27) (ZIP_REGFIELD 27) (ZIP_REGFIELD 14) (ZIP_IMMFIELD 14 0) (ZIP_BITFIELD 3 19),
   zop ''MPYSHI'' 0x87c40000 0x02c00000 (ZIP_REGFIELD 27) (ZIP_REGFIELD 27) ZIP_OPUNUSED (ZIP_IMMFIELD 18 0) (ZIP_BITFIELD 3 19),
   zop ''MPYSHI'' 0x87c40000 0x02c40000 (ZIP_REGFIELD 27) (ZIP_REGFIELD 27) (ZIP_REGFIELD 14) (ZIP_IMMFIELD 14 0) (ZIP_BITFIELD 3 19),
   zop ''MPY'' 0x87c40000 0x03000000 (ZIP_REGFIELD 27) (ZIP_REGFIELD 27) ZIP_OPUNUSED (ZIP_IMMFIELD 18 0) (ZIP_BITFIELD 3 19),
   zop ''MPY'' 0x87c40000 0x03040000 (ZIP_REGFIELD 27) (ZIP_REGFIELD 27) (ZIP_REGFIELD 14) (ZIP_IMMFIELD 14 0) (ZIP_BITFIELD 3 19),
   zop ''MOV'' 0x87c42000 0x03400000 (ZIP_REGFIELD 27) ZIP_OPUNUSED (ZIP_REGFIELD 14) (ZIP_IMMFIELD 13 0) (ZIP_BITFIELD 3 19),
   zop ''MOV'' 0x87c42000 0x03440000 (ZIP_URGFIELD 27) ZIP_OPUNUSED (ZIP_REGFIELD 14) (ZIP_IMMFIELD 13 0) (ZIP_BITFIELD 3 19),
   zop ''MOV'' 0x87c42000 0x03402000 (ZIP_REGFIELD 27) ZIP_OPUNUSED (ZIP_URGFIELD 14) (ZIP_IMMFIELD 13 0) (ZIP_BITFIELD 3 19),
   zop ''MOV'' 0x87c42000 0x03442000 (ZIP_URGFIELD 27) ZIP_OPUNUSED (ZIP_URGFIELD 14) (ZIP_IMMFIELD 13 0) (ZIP_BITFIELD 3 19),
   zop ''DIVU'' 0x87c40000 0x03800000 (ZIP_REGFIELD 27) (ZIP_REGFIELD 27) ZIP_OPUNUSED (ZIP_IMMFIELD 18 0) (ZIP_BITFIELD 3 19)]"

definition oplist_rest :: "zopcode list" where
  "oplist_rest =
  [zop ''DIVU'' 0x87c40000 0x03840000 (ZIP_REGFIELD 27) (ZIP_REGFIELD 27) (ZIP_REGFIELD 14) (ZIP_IMMFIELD 14 0) (ZIP_BITFIELD 3 19),
   zop ''DIVS'' 0x87c40000 0x03c00000 (ZIP_REGFIELD 27) (ZIP_REGFIELD 27) ZIP_OPUNUSED (ZIP_IMMFIELD 18 0) (ZIP_BITFIELD 3 19),
   zop ''DIVS'' 0x87c40000 0x03c40000 (ZIP_REGFIELD 27) (ZIP_REGFIELD 27) (ZIP_REGFIELD 14) (ZIP_IMMFIELD 14 0) (ZIP_BITFIELD 3 19),
   zop ''CMP'' 0x87c40000 0x04000000 ZIP_OPUNUSED (ZIP_REGFIELD 27) ZIP_OPUNUSED (ZIP_IMMFIELD 18 0) (ZIP_BITFIELD 3 19),
   zop ''CMP'' 0x87c40000 0x04040000 ZIP_OPUNUSED (ZIP_REGFIELD 27) (ZIP_REGFIELD 14) (ZIP_IMMFIELD 14 0) (ZIP_BITFIELD 3 19),
   zop ''TST'' 0x87c40000 0x04400000 ZIP_OPUNUSED (ZIP_REGFIELD 27) ZIP_OPUNUSED (ZIP_IMMFIELD 18 0) (ZIP_BITFIELD 3 19),
   zop ''TST'' 0x87c40000 0x04440000 ZIP_OPUNUSED (ZIP_REGFIELD 27) (ZIP_REGFIELD 14) (ZIP_IMMFIELD 14 0) (ZIP_BITFIELD 3 19),
   zop ''LW'' 0x87c40000 0x04800000 (ZIP_REGFIELD 27) ZIP_OPUNUSED ZIP_OPUNUSED (ZIP_IMMFIELD 18 0) (ZIP_BITFIELD 3 19),
   zop ''LW'' 0x87c40000 0x04840000 (ZIP_REGFIELD 27) ZIP_OPUNUSED (ZIP_REGFIELD 14) (ZIP_IMMFIELD 14 0) (ZIP_BITFIELD 3 19),
   zop ''SW'' 0x87c40000 0x04c00000 ZIP_OPUNUSED (ZIP_REGFIELD 27) ZIP_OPUNUSED (ZIP_IMMFIELD 18 0) (ZIP_BITFIELD 3 19),
   zop ''SW'' 0x87c40000 0x04c40000 ZIP_OPUNUSED (ZIP_REGFIELD 27) (ZIP_REGFIELD 14) (ZIP_IMMFIELD 14 0) (ZIP_BITFIELD 3 19),
   zop ''LH'' 0x87c40000 0x05000000 (ZIP_REGFIELD 27) ZIP_OPUNUSED ZIP_OPUNUSED (ZIP_IMMFIELD 18 0) (ZIP_BITFIELD 3 19),
   zop ''LH'' 0x87c40000 0x05040000 (ZIP_REGFIELD 27) ZIP_OPUNUSED (ZIP_REGFIELD 14) (ZIP_IMMFIELD 14 0) (ZIP_BITFIELD 3 19),
   zop ''SH'' 0x87c40000 0x05400000 ZIP_OPUNUSED (ZIP_REGFIELD 27) ZIP_OPUNUSED (ZIP_IMMFIELD 18 0) (ZIP_BITFIELD 3 19),
   zop ''SH'' 0x87c40000 0x05440000 ZIP_OPUNUSED (ZIP_REGFIELD 27) (ZIP_REGFIELD 14) (ZIP_IMMFIELD 14 0) (ZIP_BITFIELD 3 19),
   zop ''LB'' 0x87c40000 0x05800000 (ZIP_REGFIELD 27) ZIP_OPUNUSED ZIP_OPUNUSED (ZIP_IMMFIELD 18 0) (ZIP_BITFIELD 3 19),
   zop ''LB'' 0x87c40000 0x05840000 (ZIP_REGFIELD 27) ZIP_OPUNUSED (ZIP_REGFIELD 14) (ZIP_IMMFIELD 14 0) (ZIP_BITFIELD 3 19),
   zop ''SB'' 0x87c40000 0x05c00000 ZIP_OPUNUSED (ZIP_REGFIELD 27) ZIP_OPUNUSED (ZIP_IMMFIELD 18 0) (ZIP_BITFIELD 3 19),
   zop ''SB'' 0x87c40000 0x05c40000 ZIP_OPUNUSED (ZIP_REGFIELD 27) (ZIP_REGFIELD 14) (ZIP_IMMFIELD 14 0) (ZIP_BITFIELD 3 19),
   zop ''LDI'' 0x87800000 0x06000000 (ZIP_REGFIELD 27) ZIP_OPUNUSED ZIP_OPUNUSED (ZIP_IMMFIELD 23 0) ZIP_OPUNUSED,
   zop ''BRK'' 0xf7ffffff 0x77000000 ZIP_OPUNUSED ZIP_OPUNUSED ZIP_OPUNUSED ZIP_OPUNUSED ZIP_OPUNUSED,
   zop ''BRK'' 0xf7c00000 0x77000000 ZIP_OPUNUSED ZIP_OPUNUSED ZIP_OPUNUSED (ZIP_IMMFIELD 22 0) ZIP_OPUNUSED,
   zop ''LOCK'' 0xf7ffffff 0x77400000 ZIP_OPUNUSED ZIP_OPUNUSED ZIP_OPUNUSED ZIP_OPUNUSED ZIP_OPUNUSED,
   zop ''LOCK'' 0xf7c00000 0x77400000 ZIP_OPUNUSED ZIP_OPUNUSED ZIP_OPUNUSED (ZIP_IMMFIELD 22 0) ZIP_OPUNUSED,
   zop ''SIM'' 0xf7ffffff 0x77800000 ZIP_OPUNUSED ZIP_OPUNUSED ZIP_OPUNUSED ZIP_OPUNUSED ZIP_OPUNUSED,
   zop ''SEXIT'' 0xf7ffffff 0x77800100 ZIP_OPUNUSED ZIP_OPUNUSED ZIP_OPUNUSED ZIP_OPUNUSED ZIP_OPUNUSED,
   zop ''SEXIT'' 0xf7fffff0 0x77800310 ZIP_OPUNUSED (ZIP_URGFIELD 0) ZIP_OPUNUSED ZIP_OPUNUSED ZIP_OPUNUSED,
   zop ''SEXIT'' 0xf7ffffe0 0x77800300 ZIP_OPUNUSED (ZIP_REGFIELD 0) ZIP_OPUNUSED ZIP_OPUNUSED ZIP_OPUNUSED,
   zop ''SEXIT'' 0xf7ffff00 0x77800100 ZIP_OPUNUSED ZIP_OPUNUSED ZIP_OPUNUSED (ZIP_IMMFIELD 8 0) ZIP_OPUNUSED,
   zop ''SDUMP'' 0xf7ffffff 0x778002ff ZIP_OPUNUSED ZIP_OPUNUSED ZIP_OPUNUSED ZIP_OPUNUSED ZIP_OPUNUSED,
   zop ''SDUMP'' 0xf7fffff0 0x77800200 ZIP_OPUNUSED (ZIP_REGFIELD 0) ZIP_OPUNUSED ZIP_OPUNUSED ZIP_OPUNUSED,
   zop ''SDUMP'' 0xf7fffff0 0x77800210 ZIP_OPUNUSED (ZIP_URGFIELD 0) ZIP_OPUNUSED ZIP_OPUNUSED ZIP_OPUNUSED,
   zop ''SOUT'' 0xf7fffff0 0x77800230 ZIP_OPUNUSED (ZIP_URGFIELD 0) ZIP_OPUNUSED ZIP_OPUNUSED ZIP_OPUNUSED,
   zop ''SOUT'' 0xf7ffffe0 0x77800220 ZIP_OPUNUSED (ZIP_REGFIELD 0) ZIP_OPUNUSED ZIP_OPUNUSED ZIP_OPUNUSED,
   zop ''SOUT'' 0xf7ffff00 0x77800400 ZIP_OPUNUSED ZIP_OPUNUSED ZIP_OPUNUSED (ZIP_IMMFIELD 8 0) ZIP_OPUNUSED,
   zop ''SDUMP'' 0xf7ffff00 0x77800200 ZIP_OPUNUSED ZIP_OPUNUSED ZIP_OPUNUSED (ZIP_IMMFIELD 8 0) ZIP_OPUNUSED,
   zop ''SIM'' 0xf7c00000 0x77800000 ZIP_OPUNUSED ZIP_OPUNUSED ZIP_OPUNUSED (ZIP_IMMFIELD 22 0) ZIP_OPUNUSED,
   zop ''NOOP'' 0xf7ffffff 0x77c00000 ZIP_OPUNUSED ZIP_OPUNUSED ZIP_OPUNUSED ZIP_OPUNUSED ZIP_OPUNUSED,
   zop ''NEXIT'' 0xf7ffffff 0x77c00100 ZIP_OPUNUSED ZIP_OPUNUSED ZIP_OPUNUSED ZIP_OPUNUSED ZIP_OPUNUSED,
   zop ''NEXIT'' 0xf7ffff00 0x77c00100 ZIP_OPUNUSED ZIP_OPUNUSED ZIP_OPUNUSED (ZIP_IMMFIELD 8 0) ZIP_OPUNUSED,
   zop ''NEXIT'' 0xf7fffff0 0x77c00310 ZIP_OPUNUSED (ZIP_URGFIELD 0) ZIP_OPUNUSED ZIP_OPUNUSED ZIP_OPUNUSED,
   zop ''NEXIT'' 0xf7ffffe0 0x77c00300 ZIP_OPUNUSED (ZIP_REGFIELD 0) ZIP_OPUNUSED ZIP_OPUNUSED ZIP_OPUNUSED,
   zop ''NDUMP'' 0xf7ffffff 0x77c002ff ZIP_OPUNUSED ZIP_OPUNUSED ZIP_OPUNUSED ZIP_OPUNUSED ZIP_OPUNUSED,
   zop ''NDUMP'' 0xf7fffff0 0x77c00200 ZIP_OPUNUSED (ZIP_REGFIELD 0) ZIP_OPUNUSED ZIP_OPUNUSED ZIP_OPUNUSED,
   zop ''NDUMP'' 0xf7fffff0 0x77c00210 ZIP_OPUNUSED (ZIP_URGFIELD 0) ZIP_OPUNUSED ZIP_OPUNUSED ZIP_OPUNUSED,
   zop ''NOUT'' 0xf7fffff0 0x77c00230 ZIP_OPUNUSED (ZIP_URGFIELD 0) ZIP_OPUNUSED ZIP_OPUNUSED ZIP_OPUNUSED,
   zop ''NOUT'' 0xf7ffffe0 0x77c00220 ZIP_OPUNUSED (ZIP_REGFIELD 0) ZIP_OPUNUSED ZIP_OPUNUSED ZIP_OPUNUSED,
   zop ''NOUT'' 0xf7ffff00 0x77c00400 ZIP_OPUNUSED ZIP_OPUNUSED ZIP_OPUNUSED (ZIP_IMMFIELD 8 0) ZIP_OPUNUSED,
   zop ''NDUMP'' 0xf7ffff00 0x77c00200 ZIP_OPUNUSED ZIP_OPUNUSED ZIP_OPUNUSED ZIP_OPUNUSED ZIP_OPUNUSED,
   zop ''NSIM'' 0xf7c00000 0x77c00000 ZIP_OPUNUSED ZIP_OPUNUSED ZIP_OPUNUSED (ZIP_IMMFIELD 22 0) ZIP_OPUNUSED,
   zop ''FPADD'' 0x87c43fff 0x06840000 (ZIP_REGFIELD 27) (ZIP_REGFIELD 27) (ZIP_REGFIELD 14) ZIP_OPUNUSED (ZIP_BITFIELD 3 19),
   zop ''FPSUB'' 0x87c43fff 0x06c40000 (ZIP_REGFIELD 27) (ZIP_REGFIELD 27) (ZIP_REGFIELD 14) ZIP_OPUNUSED (ZIP_BITFIELD 3 19),
   zop ''FPMPY'' 0x87c43fff 0x07040000 (ZIP_REGFIELD 27) (ZIP_REGFIELD 27) (ZIP_REGFIELD 14) ZIP_OPUNUSED (ZIP_BITFIELD 3 19),
   zop ''FPDIV'' 0x87c43fff 0x07440000 (ZIP_REGFIELD 27) (ZIP_REGFIELD 27) (ZIP_REGFIELD 14) ZIP_OPUNUSED (ZIP_BITFIELD 3 19),
   zop ''FPI2F'' 0x87c40000 0x07800000 (ZIP_REGFIELD 27) ZIP_OPUNUSED ZIP_OPUNUSED (ZIP_IMMFIELD 18 0) (ZIP_BITFIELD 3 19),
   zop ''FPI2F'' 0x87c40000 0x07840000 (ZIP_REGFIELD 27) ZIP_OPUNUSED (ZIP_REGFIELD 14) (ZIP_IMMFIELD 14 0) (ZIP_BITFIELD 3 19),
   zop ''FPF2I'' 0x87c40000 0x07c40000 (ZIP_REGFIELD 27) ZIP_OPUNUSED (ZIP_REGFIELD 14) (ZIP_IMMFIELD 14 0) (ZIP_BITFIELD 3 19),
   zop ''BRA'' 0xff800000 0xf9000000 ZIP_OPUNUSED ZIP_OPUNUSED ZIP_OPUNUSED (ZIP_IMMFIELD 7 16) ZIP_OPUNUSED,
   zop ''CLR'' 0x87ff0000 0x86000000 (ZIP_REGFIELD 27) ZIP_OPUNUSED ZIP_OPUNUSED ZIP_OPUNUSED ZIP_OPUNUSED,
   zop ''RTN'' 0xffff0000 0xff800000 ZIP_OPUNUSED ZIP_OPUNUSED ZIP_OPUNUSED ZIP_OPUNUSED ZIP_OPUNUSED,
   zop ''JMP'' 0xff800000 0xff000000 (ZIP_REGFIELD 27) ZIP_OPUNUSED (ZIP_REGFIELD 19) (ZIP_IMMFIELD 3 16) ZIP_OPUNUSED,
   zop ''SUB'' 0x87800000 0x80000000 (ZIP_REGFIELD 27) (ZIP_REGFIELD 27) ZIP_OPUNUSED (ZIP_IMMFIELD 7 16) ZIP_OPUNUSED,
   zop ''SUB'' 0x87800000 0x80800000 (ZIP_REGFIELD 27) (ZIP_REGFIELD 27) (ZIP_REGFIELD 19) (ZIP_IMMFIELD 3 16) ZIP_OPUNUSED,
   zop ''AND'' 0x87800000 0x81000000 (ZIP_REGFIELD 27) (ZIP_REGFIELD 27) ZIP_OPUNUSED (ZIP_IMMFIELD 7 16) ZIP_OPUNUSED,
   zop ''AND'' 0x87800000 0x81800000 (ZIP_REGFIELD 27) (ZIP_REGFIELD 27) (ZIP_REGFIELD 19) (ZIP_IMMFIELD 3 16) ZIP_OPUNUSED,
   zop ''ADD'' 0x87800000 0x82000000 (ZIP_REGFIELD 27) (ZIP_REGFIELD 27) ZIP_OPUNUSED (ZIP_IMMFIELD 7 16) ZIP_OPUNUSED,
   zop ''ADD'' 0x87800000 0x82800000 (ZIP_REGFIELD 27) (ZIP_REGFIELD 27) (ZIP_REGFIELD 19) (ZIP_IMMFIELD 3 16) ZIP_OPUNUSED,
   zop ''CMP'' 0x87800000 0x83000000 (ZIP_REGFIELD 27) ZIP_OPUNUSED (ZIP_REGFIELD 19) (ZIP_IMMFIELD 7 16) ZIP_OPUNUSED,
   zop ''CMP'' 0x87800000 0x83800000 (ZIP_REGFIELD 27) ZIP_OPUNUSED (ZIP_REGFIELD 19) (ZIP_IMMFIELD 3 16) ZIP_OPUNUSED,
   zop ''LW'' 0x87800000 0x84000000 (ZIP_REGFIELD 27) ZIP_OPUNUSED ZIP_SP (ZIP_IMMFIELD 7 16) ZIP_OPUNUSED,
   zop ''LW'' 0x87800000 0x84800000 (ZIP_REGFIELD 27) ZIP_OPUNUSED (ZIP_REGFIELD 19) (ZIP_IMMFIELD 3 16) ZIP_OPUNUSED,
   zop ''SW'' 0x87000000 0x85000000 ZIP_OPUNUSED (ZIP_REGFIELD 27) ZIP_SP (ZIP_IMMFIELD 7 16) ZIP_OPUNUSED,
   zop ''SW'' 0x87800000 0x85800000 ZIP_OPUNUSED (ZIP_REGFIELD 27) (ZIP_REGFIELD 19) (ZIP_IMMFIELD 3 16) ZIP_OPUNUSED,
   zop ''LDI'' 0x87000000 0x86000000 (ZIP_REGFIELD 27) ZIP_OPUNUSED ZIP_OPUNUSED (ZIP_IMMFIELD 8 16) ZIP_OPUNUSED,
   zop ''MOV'' 0x87800000 0x87800000 ZIP_OPUNUSED (ZIP_REGFIELD 27) (ZIP_REGFIELD 19) (ZIP_IMMFIELD 3 16) ZIP_OPUNUSED,
   zop ''ILLV'' 0x80000000 0x80000000 ZIP_OPUNUSED ZIP_OPUNUSED ZIP_OPUNUSED (ZIP_IMMFIELD 32 16) ZIP_OPUNUSED,
   zop ''ILL'' 0x00000000 0x00000000 ZIP_OPUNUSED ZIP_OPUNUSED ZIP_OPUNUSED (ZIP_IMMFIELD 32 0) ZIP_OPUNUSED]"

definition zip_oplist :: "zopcode list" where
  "zip_oplist = oplist_full @ oplist_rest"

definition zip_opbottomlist :: "zopcode list" where
  "zip_opbottomlist =
  [zop ''BRA'' 0x80007f80 0x80007900 ZIP_OPUNUSED ZIP_OPUNUSED ZIP_OPUNUSED (ZIP_IMMFIELD 7 0) ZIP_OPUNUSED,
   zop ''CLR'' 0x800007ff 0x80000600 (ZIP_REGFIELD 11) ZIP_OPUNUSED ZIP_OPUNUSED ZIP_OPUNUSED ZIP_OPUNUSED,
   zop ''RTN'' 0x80007fff 0x80007f80 ZIP_OPUNUSED ZIP_OPUNUSED ZIP_OPUNUSED ZIP_OPUNUSED ZIP_OPUNUSED,
   zop ''JMP'' 0x80007f80 0x80007f00 (ZIP_REGFIELD 11) ZIP_OPUNUSED (ZIP_REGFIELD 3) (ZIP_IMMFIELD 3 0) ZIP_OPUNUSED,
   zop ''LJMP'' 0x80007fff 0x80007cf8 (ZIP_REGFIELD 11) ZIP_OPUNUSED (ZIP_REGFIELD 3) (ZIP_IMMFIELD 3 0) ZIP_OPUNUSED,
   zop ''SUB'' 0x80000780 0x80000000 (ZIP_REGFIELD 11) (ZIP_REGFIELD 11) ZIP_OPUNUSED (ZIP_IMMFIELD 7 0) ZIP_OPUNUSED,
   zop ''SUB'' 0x80000780 0x80000080 (ZIP_REGFIELD 11) (ZIP_REGFIELD 11) (ZIP_REGFIELD 3) (ZIP_IMMFIELD 3 0) ZIP_OPUNUSED,
   zop ''AND'' 0x80000780 0x80000100 (ZIP_REGFIELD 11) (ZIP_REGFIELD 11) ZIP_OPUNUSED (ZIP_IMMFIELD 7 0) ZIP_OPUNUSED,
   zop ''AND'' 0x80000780 0x80000180 (ZIP_REGFIELD 11) (ZIP_REGFIELD 11) (ZIP_REGFIELD 3) (ZIP_IMMFIELD 3 0) ZIP_OPUNUSED,
   zop ''ADD'' 0x80000780 0x80000200 (ZIP_REGFIELD 11) (ZIP_REGFIELD 11) ZIP_OPUNUSED (ZIP_IMMFIELD 7 0) ZIP_OPUNUSED,
   zop ''ADD'' 0x80000780 0x80000280 (ZIP_REGFIELD 11) (ZIP_REGFIELD 11) (ZIP_REGFIELD 3) (ZIP_IMMFIELD 3 0) ZIP_OPUNUSED,
   zop ''CMP'' 0x80000780 0x80000300 (ZIP_REGFIELD 11) ZIP_OPUNUSED ZIP_OPUNUSED (ZIP_IMMFIELD 7 0) ZIP_OPUNUSED,
   zop ''CMP'' 0x80000780 0x80000380 (ZIP_REGFIELD 11) ZIP_OPUNUSED (ZIP_REGFIELD 3) (ZIP_IMMFIELD 3 0) ZIP_OPUNUSED,
   zop ''LW'' 0x80000780 0x80000400 (ZIP_REGFIELD 11) ZIP_OPUNUSED ZIP_SP (ZIP_IMMFIELD 7 0) ZIP_OPUNUSED,
   zop ''LW'' 0x80000780 0x80000480 (ZIP_REGFIELD 11) ZIP_OPUNUSED (ZIP_REGFIELD 3) (ZIP_IMMFIELD 3 0) ZIP_OPUNUSED,
   zop ''SW'' 0x80000780 0x80000500 ZIP_OPUNUSED (ZIP_REGFIELD 11) ZIP_SP (ZIP_IMMFIELD 7 0) ZIP_OPUNUSED,
   zop ''SW'' 0x80000780 0x80000580 ZIP_OPUNUSED (ZIP_REGFIELD 11) (ZIP_REGFIELD 3) (ZIP_IMMFIELD 3 0) ZIP_OPUNUSED,
   zop ''LDI'' 0x80000700 0x80000600 (ZIP_REGFIELD 11) ZIP_OPUNUSED ZIP_OPUNUSED (ZIP_IMMFIELD 8 0) ZIP_OPUNUSED,
   zop ''MOV'' 0x80000780 0x80000780 (ZIP_REGFIELD 11) ZIP_OPUNUSED (ZIP_REGFIELD 3) (ZIP_IMMFIELD 3 0) ZIP_OPUNUSED,
   zop ''ILLV'' 0x80000000 0x80000000 ZIP_OPUNUSED ZIP_OPUNUSED ZIP_OPUNUSED (ZIP_IMMFIELD 15 0) ZIP_OPUNUSED,
   zop ''ILL'' 0x00000000 0x00000000 ZIP_OPUNUSED ZIP_OPUNUSED ZIP_OPUNUSED (ZIP_IMMFIELD 15 0) ZIP_OPUNUSED]"

section \<open>Fields\<close>

definition zip_sbits :: "i64 \<Rightarrow> nat \<Rightarrow> i64" where
  "zip_sbits val bits =
     (let r = val AND (push_bit bits 1 - 1)
      in if r AND push_bit (bits - 1) 1 \<noteq> 0 then r OR push_bit bits (-1) else r)"

definition zip_ubits :: "i64 \<Rightarrow> nat \<Rightarrow> i64" where
  "zip_ubits val bits = val AND (push_bit bits 1 - 1)"

definition zip_getbits :: "u32 \<Rightarrow> u32 \<Rightarrow> u32" where
  "zip_getbits ins which =
     (let v = ucast (drop_bit (unat (which AND 0x3f)) ins) :: i64;
          n = unat (drop_bit 8 which AND 0x3f)
      in if which AND 0x40000000 \<noteq> 0 then ucast (zip_sbits v n)
         else ucast (zip_ubits v n + ucast (drop_bit 16 which AND 0xff)))"

section \<open>Instructions of more than one word\<close>

definition TWOWORD_LOAD :: "u32 \<Rightarrow> u32 \<Rightarrow> bool" where
  "TWOWORD_LOAD one two \<longleftrightarrow> one AND 0x87c40000 = 0x02000000 \<and> two AND 0x87c40000 = 0x02400000
     \<and> (one XOR two) AND 0xf8380000 = 0"

definition OFFSET_PC_MOV :: "u32 \<Rightarrow> bool" where
  "OFFSET_PC_MOV ins \<longleftrightarrow> ins AND 0x87c7e000 = 0x0343c000"

definition TWOWORD_LJMP :: "u32 \<Rightarrow> bool" where
  "TWOWORD_LJMP iword \<longleftrightarrow> iword = 0x7c87c000 \<or> iword AND 0x80007fff = 0x80007cf8"

definition TWOWORD_JSR :: "u32 \<Rightarrow> u32 \<Rightarrow> bool" where
  "TWOWORD_JSR iword nxtword \<longleftrightarrow> iword = 0x0343c001 \<and> nxtword AND 0xffc40000 = 0x78800000"

definition THREEWORD_LJSR :: "u32 \<Rightarrow> u32 \<Rightarrow> bool" where
  "THREEWORD_LJSR iword nxtword \<longleftrightarrow> iword = 0x0343c002 \<and> nxtword = 0x7c87c000"

definition TWOWORD_CIS_JSR :: "u32 \<Rightarrow> bool" where
  "TWOWORD_CIS_JSR iword \<longleftrightarrow> iword = 0x87fafcf8"

definition CIS_JSR :: "u32 \<Rightarrow> bool" where
  "CIS_JSR iword \<longleftrightarrow> TWOWORD_CIS_JSR iword \<or> iword AND 0xffffff87 = 0x87f9ff80"

definition POSSIBLE_TWOWORD_BEGINNING :: "u32 \<Rightarrow> bool" where
  "POSSIBLE_TWOWORD_BEGINNING iword \<longleftrightarrow> TWOWORD_LJMP iword \<or> iword = 0x0343c001 \<or> iword = 0x0343c002
     \<or> CIS_JSR iword \<or> iword AND 0x87c40000 = 0x02000000"

fun bitreverse_loop :: "nat \<Rightarrow> u32 \<Rightarrow> u32 \<Rightarrow> u32" where
  "bitreverse_loop 0 v r = r"
| "bitreverse_loop (Suc b) v r = bitreverse_loop b (drop_bit 1 v) (push_bit 1 r OR (v AND 1))"

definition zip_bitreverse :: "u32 \<Rightarrow> u32" where
  "zip_bitreverse v = bitreverse_loop 32 v 0"

definition TWOWORD_VALUE :: "u32 \<Rightarrow> u32 \<Rightarrow> u32" where
  "TWOWORD_VALUE one two = (two AND 0x0ffff) OR zip_bitreverse (one AND 0x0ffff)"

section \<open>Disassembly\<close>

text \<open>Concatenation of texts, any of which may be a fault.\<close>

fun cats :: "(fault + string) list \<Rightarrow> fault + string" where
  "cats [] = Inr []"
| "cats (x # xs) = (case x of Inl e \<Rightarrow> Inl e | Inr s \<Rightarrow> map_sum id ((@) s) (cats xs))"

definition reg_name :: "u32 \<Rightarrow> fault + string" where
  "reg_name r = (if unat r < length zip_regstr then Inr (zip_regstr ! unat r) else Inl Undefined)"

definition cc_name :: "u32 \<Rightarrow> fault + string" where
  "cc_name c = (if unat c < length zip_ccstr then Inr (zip_ccstr ! unat c) else Inl Undefined)"

text \<open>A register or an immediate of an instruction: what the field holds, or the given default.\<close>

definition field_or :: "u32 \<Rightarrow> u32 \<Rightarrow> u32 \<Rightarrow> u32" where
  "field_or dflt ins f = (if f \<noteq> ZIP_OPUNUSED then zip_getbits ins f else dflt)"

definition immediate :: "u32 \<Rightarrow> zopcode \<Rightarrow> u32" where
  "immediate ins l =
     (let imv = field_or 0 ins (s_i l)
      in if s_rb l \<noteq> ZIP_OPUNUSED \<and> field_or (-1) ins (s_rb l) = 15 then push_bit 2 imv else imv)"

definition is_store :: "string \<Rightarrow> bool" where
  "is_store n \<longleftrightarrow> strncaseeq 2 ''SW'' n \<or> strncaseeq 2 ''SH'' n \<or> strncaseeq 2 ''SB'' n"

definition is_branch :: "string \<Rightarrow> bool" where
  "is_branch n \<longleftrightarrow> char_at n 0 = CHR ''B'' \<and> \<not> strcaseeq n ''BUSY'' \<and> \<not> strcaseeq n ''BREV'' \<and> \<not> strcaseeq n ''BRK''"

definition is_memop :: "string \<Rightarrow> bool" where
  "is_memop n \<longleftrightarrow> CHR ''L'' = toupper (char_at n 0)
     \<and> (CHR ''W'' = toupper (char_at n 1) \<or> CHR ''H'' = toupper (char_at n 1) \<or> CHR ''B'' = toupper (char_at n 1))
     \<and> char_at n 2 = CHR 0x00"

definition store_operands :: "u32 \<Rightarrow> zopcode \<Rightarrow> fault + string" where
  "store_operands ins l =
     (let imv = immediate ins l in
      cats [reg_name (field_or (-1) ins (s_ra l)), Inr '','',
            Inr (if s_i l \<noteq> ZIP_OPUNUSED then
                   if s_rb l = ZIP_OPUNUSED then ''($'' @ fmt_d imv @ '')''
                   else if imv \<noteq> 0 then ''$'' @ fmt_d imv else ''''
                 else ''''),
            if s_rb l \<noteq> ZIP_OPUNUSED then cats [Inr ''('', reg_name (field_or (-1) ins (s_rb l)), Inr '')''] else Inr ''''])"

definition other_operands :: "u32 \<Rightarrow> zopcode \<Rightarrow> fault + string" where
  "other_operands ins l =
     (let imv = immediate ins l; memop = is_memop (s_opstr l) in
      cats [Inr (if s_i l \<noteq> ZIP_OPUNUSED then
                   if memop \<and> s_rb l = ZIP_OPUNUSED then ''($'' @ fmt_d imv @ '')''
                   else if memop \<and> imv \<noteq> 0 then fmt_d imv
                   else if \<not> memop \<and> (imv \<noteq> 0 \<or> s_rb l = ZIP_OPUNUSED)
                   then ''$'' @ fmt_d imv @ (if s_rb l \<noteq> ZIP_OPUNUSED then ''+'' else '''')
                   else ''''
                 else ''''),
            if s_rb l \<noteq> ZIP_OPUNUSED then
              if memop then cats [Inr ''('', reg_name (field_or (-1) ins (s_rb l)), Inr '')'']
              else reg_name (field_or (-1) ins (s_rb l))
            else Inr '''',
            Inr (if (s_i l \<noteq> ZIP_OPUNUSED \<or> s_rb l \<noteq> ZIP_OPUNUSED) \<and> (s_ra l \<noteq> ZIP_OPUNUSED \<or> s_result l \<noteq> ZIP_OPUNUSED)
                 then '','' else ''''),
            if s_ra l \<noteq> ZIP_OPUNUSED then reg_name (field_or (-1) ins (s_ra l))
            else if s_result l \<noteq> ZIP_OPUNUSED then reg_name (field_or (-1) ins (s_result l))
            else Inr ''''])"

definition operands :: "u32 \<Rightarrow> u32 \<Rightarrow> zopcode \<Rightarrow> fault + string" where
  "operands addr ins l =
     (if is_store (s_opstr l) then store_operands ins l
      else if strncaseeq 3 ''LJMP'' (s_opstr l) then Inr ''''
      else if is_branch (s_opstr l) \<and> addr \<noteq> 0 then Inr (''@0x'' @ hex8 (addr + (zip_getbits ins (s_i l) + 4)))
      else other_operands ins l)"

definition opcode_text :: "u32 \<Rightarrow> zopcode \<Rightarrow> fault + string" where
  "opcode_text ins l =
     map_sum id pad11 (cats [Inr (s_opstr l), if s_cf l \<noteq> ZIP_OPUNUSED then cc_name (zip_getbits ins (s_cf l)) else Inr ''''])"

definition matches :: "u32 \<Rightarrow> zopcode \<Rightarrow> bool" where
  "matches ins l \<longleftrightarrow> ins AND s_mask l = s_val l"

text \<open>The loop over a table stops at the first row with an empty mask.\<close>

definition lookup_op :: "u32 \<Rightarrow> zopcode list \<Rightarrow> zopcode option" where
  "lookup_op ins listp = find (matches ins) (takeWhile (\<lambda>l. s_mask l \<noteq> 0) listp)"

definition zipi_to_halfstring :: "u32 \<Rightarrow> u32 \<Rightarrow> zopcode list \<Rightarrow> fault + string" where
  "zipi_to_halfstring addr ins listp =
     (if OFFSET_PC_MOV ins then
        let iv = ucast (zip_sbits (ucast ins) 13) :: u32;
            ref = push_bit 2 iv + addr + 4
        in cats [map_sum id pad11 (cats [Inr ''MOV'', cc_name (zip_getbits ins (ZIP_BITFIELD 3 19))]),
                 Inr (''0x'' @ hex8 ref), Inr '','', reg_name (zip_getbits ins (ZIP_REGFIELD 27))]
      else if TWOWORD_CIS_JSR ins then Inr (pad11 ''LJSR'')
      else if CIS_JSR ins then cats [Inr (pad11 ''JSR''), reg_name (zip_getbits ins (ZIP_REGFIELD 3))]
      else if \<not> list_all (\<lambda>l. NOT (s_mask l) AND s_val l = 0) zip_oplist then Inl Assertion
      else case lookup_op ins listp of
             None \<Rightarrow> Inr (''ILL '' @ hex8 ins)
           | Some l \<Rightarrow> cats [opcode_text ins l, operands addr ins l])"

definition zipi_to_double_string :: "u32 \<Rightarrow> u32 \<Rightarrow> (fault + string) \<times> (fault + string)" where
  "zipi_to_double_string addr ins =
     (zipi_to_halfstring addr ins zip_oplist,
      if ins AND 0x80000000 \<noteq> 0 \<and> \<not> CIS_JSR ins then zipi_to_halfstring addr ins zip_opbottomlist else Inr '''')"

definition zop_early_branch :: "u32 \<Rightarrow> u32 \<Rightarrow> u32" where
  "zop_early_branch pc insn =
     (if insn AND 0xf8000000 \<noteq> 0x78000000 then pc + 4
      else if insn AND 0xffc60000 = 0x78800000 then pc + 4 + push_bit 2 (insn AND 0x3ffff)
      else if insn AND 0xffc60000 = 0x78820000 then pc + 4 + push_bit 2 (0x40000 - (insn AND 0x3ffff))
      else pc + 4)"

section \<open>The fields of the tables\<close>

lemma zip_ubits_take_bit: "n < 64 \<Longrightarrow> zip_ubits v n = take_bit n v"
  unfolding zip_ubits_def word_push_bit_1_minus_1 word_and_mask_eq_take_bit ..

definition field_len :: "u32 \<Rightarrow> nat" where
  "field_len f = unat (drop_bit 8 f AND 0x3f)"

definition index_below :: "nat \<Rightarrow> u32 \<Rightarrow> bool" where
  "index_below k f \<longleftrightarrow> f AND 0x40000000 = 0 \<and> field_len f < 8 \<and> 2 ^ field_len f + unat (drop_bit 16 f AND 0xff) \<le> k"

definition row_ok :: "zopcode \<Rightarrow> bool" where
  "row_ok l \<longleftrightarrow> NOT (s_mask l) AND s_val l = 0 \<and> 0 < length (s_opstr l) \<and> length (s_opstr l) < 8
     \<and> (\<forall>f\<in>set [s_result l, s_ra l, s_rb l]. f = ZIP_OPUNUSED \<or> index_below 49 f)
     \<and> (s_cf l = ZIP_OPUNUSED \<or> index_below 8 (s_cf l))
     \<and> (is_store (s_opstr l) \<longrightarrow> s_ra l \<noteq> ZIP_OPUNUSED)"

lemma oplist_full_ok: "list_all row_ok oplist_full"
  by code_simp
lemma oplist_rest_ok: "list_all row_ok oplist_rest"
  by code_simp
lemma opbottomlist_ok: "list_all row_ok zip_opbottomlist"
  by code_simp

lemma getbits_below:
  assumes "index_below k f"
  shows "unat (zip_getbits ins f) < k"
proof -
  let ?n = "field_len f" and ?b = "drop_bit 16 f AND 0xff"
  let ?v = "ucast (drop_bit (unat (f AND 0x3f)) ins) :: i64"
  have n: "?n < 8" and k: "2 ^ ?n + unat ?b \<le> k" and u: "f AND 0x40000000 = 0"
    using assms by (auto simp: index_below_def)
  have e: "zip_getbits ins f = ucast (take_bit ?n ?v + ucast ?b)"
    using u n unfolding zip_getbits_def Let_def field_len_def by (simp add: zip_ubits_take_bit)
  have b: "unat ?b < 256" unfolding and_mask_take_bit by (simp add: unat_take_bit_u32)
  have t: "unat (take_bit ?n ?v) < 2 ^ ?n"
    by (metis take_bit_nat_less_exp unsigned_take_bit_eq)
  have n8: "(2::nat) ^ ?n < 2 ^ 8" using n by (rule power_strict_increasing) simp
  have ub: "unat (ucast ?b :: i64) = unat ?b" using b by (simp add: unsigned_ucast_eq take_bit_nat_eq_self_iff)
  have sum: "unat (take_bit ?n ?v + ucast ?b) = unat (take_bit ?n ?v) + unat ?b"
    using t b n8 by (simp add: unat_word_ariths(1) ub)
  have "unat (zip_getbits ins f) = unat (take_bit ?n ?v) + unat ?b"
    using t b n8 sum unfolding e by (simp add: unsigned_ucast_eq take_bit_nat_eq_self_iff)
  then show ?thesis using t k by simp
qed

section \<open>The lengths of the texts\<close>

lemma length_dec_nat: "n < 10 ^ Suc k \<Longrightarrow> length (dec_nat n) \<le> Suc k"
proof (induction k arbitrary: n)
  case 0
  then show ?case by (simp add: dec_nat.simps)
next
  case (Suc k)
  then have "n div 10 < 10 ^ Suc k" by (simp add: less_mult_imp_div_less mult.commute)
  then have "length (dec_nat (n div 10)) \<le> Suc k" by (rule Suc.IH)
  then show ?case by (subst dec_nat.simps) simp
qed

lemma length_fmt_d: "length (fmt_d w) \<le> 11"
proof -
  have "- (2 ^ 31) \<le> sint w" "sint w < 2 ^ 31"
    using sint_greater_eq [of w] sint_lt [of w] by simp_all
  then have "nat (sint w) < 10 ^ Suc 9" "nat (- sint w) < 10 ^ Suc 9" by simp_all
  then show ?thesis
    using length_dec_nat [of "nat (sint w)" 9] length_dec_nat [of "nat (- sint w)" 9]
    unfolding fmt_d_def by simp
qed

lemma length_hex8: "length (hex8 w) = 8"
  by (simp add: hex8_def fmt_08x_def)

lemma length_pad11: "length (pad11 s) = max 11 (length s)"
  by (simp add: pad11_def)

lemma reg_names_short: "list_all (\<lambda>s. length s \<le> 4) zip_regstr" "length zip_regstr = 49"
  "list_all (\<lambda>s. length s \<le> 3) zip_ccstr" "length zip_ccstr = 8"
  by code_simp+

text \<open>A text of at most \<open>n\<close> characters.\<close>

definition text_upto :: "nat \<Rightarrow> fault + string \<Rightarrow> bool" where
  "text_upto n x \<longleftrightarrow> (case x of Inl e \<Rightarrow> False | Inr s \<Rightarrow> length s \<le> n)"

lemma text_upto_Inr [simp]: "text_upto n (Inr s) \<longleftrightarrow> length s \<le> n"
  by (simp add: text_upto_def)

lemma text_upto_mono: "text_upto n x \<Longrightarrow> n \<le> m \<Longrightarrow> text_upto m x"
  by (auto simp: text_upto_def split: sum.splits)

lemma text_upto_Nil: "text_upto n (cats [])" by simp

lemma text_upto_Cons: "text_upto n x \<Longrightarrow> text_upto m (cats xs) \<Longrightarrow> text_upto (n + m) (cats (x # xs))"
  by (auto simp: text_upto_def split: sum.splits)

lemma text_upto_reg: "unat r < 49 \<Longrightarrow> text_upto 4 (reg_name r)"
  using reg_names_short by (auto simp: reg_name_def list_all_length)

lemma text_upto_cc: "unat c < 8 \<Longrightarrow> text_upto 3 (cc_name c)"
  using reg_names_short by (auto simp: cc_name_def list_all_length)

lemma text_upto_pad11: "text_upto 11 x \<Longrightarrow> text_upto 11 (map_sum id pad11 x)"
  by (auto simp: text_upto_def length_pad11 split: sum.splits)

lemma text_upto_cats: "list_all2 text_upto ns xs \<Longrightarrow> sum_list ns \<le> m \<Longrightarrow> text_upto m (cats xs)"
proof (induction ns xs arbitrary: m rule: list_all2_induct)
  case (Cons n ns x xs)
  then have "text_upto (n + sum_list ns) (cats (x # xs))" by (intro text_upto_Cons) auto
  then show ?case by (rule text_upto_mono) (use Cons.prems in simp)
qed simp

lemma text_upto_field:
  assumes "f = ZIP_OPUNUSED \<or> index_below 49 f" "f \<noteq> ZIP_OPUNUSED"
  shows "text_upto 4 (reg_name (field_or d ins f))"
  using assms getbits_below [of 49 f ins] by (auto simp: field_or_def intro: text_upto_reg)

lemma operands_upto:
  assumes "row_ok l"
  shows "text_upto 25 (operands addr ins l)"
proof -
  note ok = assms [unfolded row_ok_def]
  have f: "f \<in> set [s_result l, s_ra l, s_rb l] \<Longrightarrow> f \<noteq> ZIP_OPUNUSED \<Longrightarrow> text_upto 4 (reg_name (field_or (-1) ins f))" for f
    using ok by (blast intro: text_upto_field)
  have d: "length (fmt_d w) \<le> 11" for w by (rule length_fmt_d)
  have rb: "s_rb l \<noteq> ZIP_OPUNUSED \<Longrightarrow> text_upto 6 (cats [Inr ''('', reg_name (field_or (-1) ins (s_rb l)), Inr '')''])"
    using f [of "s_rb l"] by (intro text_upto_cats [of "[1, 4, 1]"]) simp_all
  have "text_upto 25 (store_operands ins l)" if "is_store (s_opstr l)"
  proof -
    have "text_upto 4 (reg_name (field_or (-1) ins (s_ra l)))" using f [of "s_ra l"] ok that by simp
    then show ?thesis
      unfolding store_operands_def Let_def
      by (intro text_upto_cats [of "[4, 1, 14, 6]"]) (use rb d in \<open>auto intro: le_trans [OF d]\<close>)
  qed
  moreover have "text_upto 25 (other_operands ins l)"
    unfolding other_operands_def Let_def
    by (intro text_upto_cats [of "[14, 6, 1, 4]"])
      (use rb f [of "s_rb l"] f [of "s_ra l"] f [of "s_result l"] d in
        \<open>auto intro: le_trans [OF d] text_upto_mono [of 4 _ 6]\<close>)
  ultimately show ?thesis
    unfolding operands_def by (auto simp: length_hex8)
qed

lemma opcode_upto:
  assumes "row_ok l"
  shows "text_upto 11 (opcode_text ins l)"
proof -
  have "s_cf l \<noteq> ZIP_OPUNUSED \<Longrightarrow> text_upto 3 (cc_name (zip_getbits ins (s_cf l)))"
    using assms by (auto simp: row_ok_def intro!: text_upto_cc getbits_below)
  then show ?thesis
    unfolding opcode_text_def
    by (intro text_upto_pad11 text_upto_cats [of "[7, 3]"]) (use assms in \<open>auto simp: row_ok_def\<close>)
qed

lemma tables_consistent: "list_all (\<lambda>l. NOT (s_mask l) AND s_val l = 0) zip_oplist"
  using oplist_full_ok oplist_rest_ok by (auto simp: zip_oplist_def row_ok_def list_all_iff)

lemma lookup_op_row: "lookup_op ins listp = Some l \<Longrightarrow> l \<in> set listp \<and> matches ins l"
  unfolding lookup_op_def by (auto simp: find_Some_iff dest: set_takeWhileD [OF nth_mem])

lemma register_fields: "index_below 8 (ZIP_BITFIELD 3 19)" "index_below 49 (ZIP_REGFIELD 27)" "index_below 49 (ZIP_REGFIELD 3)"
  by code_simp+

lemma halfstring_upto:
  assumes "list_all row_ok listp"
  shows "text_upto 36 (zipi_to_halfstring addr ins listp)"
proof -
  have r: "text_upto 4 (reg_name (zip_getbits ins (ZIP_REGFIELD 27)))" "text_upto 4 (reg_name (zip_getbits ins (ZIP_REGFIELD 3)))"
    using register_fields by (auto intro!: text_upto_reg getbits_below)
  have "text_upto 11 (map_sum id pad11 (cats [Inr ''MOV'', cc_name (zip_getbits ins (ZIP_BITFIELD 3 19))]))"
    using register_fields(1) by (intro text_upto_pad11 text_upto_cats [of "[3, 3]"]) (auto intro!: text_upto_cc getbits_below)
  then have mov: "text_upto 36 (cats [map_sum id pad11 (cats [Inr ''MOV'', cc_name (zip_getbits ins (ZIP_BITFIELD 3 19))]),
                 Inr (''0x'' @ hex8 w), Inr '','', reg_name (zip_getbits ins (ZIP_REGFIELD 27))])" for w
    by (intro text_upto_cats [of "[11, 10, 1, 4]"]) (use r in \<open>simp_all add: length_hex8\<close>)
  have jsr: "text_upto 36 (cats [Inr (pad11 ''JSR''), reg_name (zip_getbits ins (ZIP_REGFIELD 3))])"
    by (intro text_upto_cats [of "[11, 4]"]) (use r in \<open>simp_all add: length_pad11\<close>)
  have op: "text_upto 36 (cats [opcode_text ins l, operands addr ins l])" if "lookup_op ins listp = Some l" for l
    by (intro text_upto_cats [of "[11, 25]"])
      (use lookup_op_row [OF that] assms in \<open>auto simp: list_all_iff intro: opcode_upto operands_upto\<close>)
  show ?thesis
    unfolding zipi_to_halfstring_def Let_def
    using mov jsr op tables_consistent by (auto simp: length_pad11 length_hex8 split: option.splits)
qed

text \<open>
  C30: every 32-bit word disassembles.  For every address and instruction both texts are produced: the
  consistency check of the table passes, no table of names is read out of bounds, and the texts are short
  enough for the 80-byte lines of the debugger.
\<close>
theorem disassembly_total:
  "\<exists>la lb. zipi_to_double_string addr ins = (Inr la, Inr lb) \<and> length la < 80 \<and> length lb < 80"
proof -
  have "text_upto 36 (zipi_to_halfstring addr ins zip_oplist)"
    using oplist_full_ok oplist_rest_ok by (intro halfstring_upto) (simp add: zip_oplist_def)
  moreover have "text_upto 36 (snd (zipi_to_double_string addr ins))"
    using halfstring_upto [OF opbottomlist_ok] by (auto simp: zipi_to_double_string_def)
  ultimately show ?thesis
    by (auto simp: zipi_to_double_string_def text_upto_def split: sum.splits)
qed

section \<open>Which row is chosen\<close>

text \<open>No word with \<open>M\<close>-bits \<open>V\<close> matches a row that wants other values for some of these bits.\<close>

definition excludes :: "u32 \<Rightarrow> u32 \<Rightarrow> zopcode \<Rightarrow> bool" where
  "excludes M V l \<longleftrightarrow> s_mask l \<noteq> 0 \<and> V AND s_mask l \<noteq> s_val l AND M"

lemma excludes_matches:
  assumes "excludes M V l" "ins AND M = V"
  shows "\<not> matches ins l"
proof
  assume "matches ins l"
  then have "ins AND s_mask l = s_val l" by (simp add: matches_def)
  then have "V AND s_mask l = s_val l AND M" unfolding assms(2) [symmetric] by (metis and.assoc and.commute)
  then show False using assms(1) by (simp add: excludes_def)
qed

lemma find_skip: "find P pre = None \<Longrightarrow> find P (pre @ xs) = find P xs"
  by (induction pre) (auto split: if_splits)

lemma lookup_op_first:
  assumes "listp = pre @ l # post" "list_all (excludes M V) pre" "ins AND M = V"
    "s_mask l \<noteq> 0" "s_mask l AND M = s_mask l" "V AND s_mask l = s_val l"
  shows "lookup_op ins listp = Some l"
proof -
  have pre: "takeWhile (\<lambda>l. s_mask l \<noteq> 0) pre = pre" "find (matches ins) pre = None"
    unfolding takeWhile_eq_all_conv find_None_iff
    using assms(2) excludes_matches [OF _ assms(3)] by (auto simp: list_all_iff excludes_def)
  have "ins AND s_mask l = V AND s_mask l"
    unfolding assms(3) [symmetric] using assms(5) by (metis and.assoc and.commute)
  then have "matches ins l" unfolding matches_def using assms(6) by (rule trans)
  then show ?thesis
    using pre assms(4) unfolding assms(1) lookup_op_def
    by (subst takeWhile_append2) (auto simp: takeWhile_eq_all_conv find_skip)
qed

lemma split_at: "i < length xs \<Longrightarrow> xs = take i xs @ xs ! i # drop (Suc i) xs"
  by (rule id_take_nth_drop)

definition sw_sp_high :: zopcode where
  "sw_sp_high = zop ''SW'' 0x87000000 0x85000000 ZIP_OPUNUSED (ZIP_REGFIELD 27) ZIP_SP (ZIP_IMMFIELD 7 16) ZIP_OPUNUSED"

definition sw_reg_high :: zopcode where
  "sw_reg_high = zop ''SW'' 0x87800000 0x85800000 ZIP_OPUNUSED (ZIP_REGFIELD 27) (ZIP_REGFIELD 19) (ZIP_IMMFIELD 3 16) ZIP_OPUNUSED"

definition sw_reg_low :: zopcode where
  "sw_reg_low = zop ''SW'' 0x80000780 0x80000580 ZIP_OPUNUSED (ZIP_REGFIELD 11) (ZIP_REGFIELD 3) (ZIP_IMMFIELD 3 0) ZIP_OPUNUSED"

lemma sw_rows:
  "125 < length zip_oplist" "zip_oplist ! 125 = sw_sp_high" "zip_oplist ! 126 = sw_reg_high"
  "16 < length zip_opbottomlist" "zip_opbottomlist ! 16 = sw_reg_low"
  by code_simp+

lemma sw_prefixes:
  "list_all (excludes 0x87800000 0x85800000) (take 125 zip_oplist)"
  "list_all (excludes 0x80000780 0x80000580) (take 16 zip_opbottomlist)"
  by code_simp+

text \<open>
  A compressed store with a register base, in the high half of a word, is disassembled as a store
  relative to the stack pointer: the row of the table that is meant for it comes after a row with a
  shorter mask and is never reached.  In the low half the same store is disassembled with its register.
\<close>
lemma cis_store_shadowed:
  "(ins AND 0x87800000 = 0x85800000 \<longrightarrow> sw_reg_high \<in> set zip_oplist \<and> matches ins sw_reg_high
      \<and> lookup_op ins zip_oplist = Some sw_sp_high)
   \<and> (ins AND 0x80000780 = 0x80000580 \<longrightarrow> lookup_op ins zip_opbottomlist = Some sw_reg_low)"
proof (intro conjI impI)
  assume i: "ins AND 0x87800000 = 0x85800000"
  have "126 < length zip_oplist" by code_simp
  then show "sw_reg_high \<in> set zip_oplist" using sw_rows(3) by (metis nth_mem)
  show "matches ins sw_reg_high" using i by (simp add: matches_def sw_reg_high_def zop_def)
  show "lookup_op ins zip_oplist = Some sw_sp_high"
    by (rule lookup_op_first [OF split_at [OF sw_rows(1), unfolded sw_rows(2)] sw_prefixes(1) i])
      (simp_all add: sw_sp_high_def zop_def)
next
  assume i: "ins AND 0x80000780 = 0x80000580"
  show "lookup_op ins zip_opbottomlist = Some sw_reg_low"
    by (rule lookup_op_first [OF split_at [OF sw_rows(4), unfolded sw_rows(5)] sw_prefixes(2) i])
      (simp_all add: sw_reg_low_def zop_def)
qed

lemma cis_store_shadowed_witness:
  "matches 0x858b0000 sw_reg_high \<and> lookup_op 0x858b0000 zip_oplist = Some sw_sp_high
   \<and> lookup_op 0x80000598 zip_opbottomlist = Some sw_reg_low"
  using cis_store_shadowed [of "0x858b0000"] cis_store_shadowed [of "0x80000598"] by simp

section \<open>Values and targets\<close>

lemma bit_bitreverse_loop:
  "n \<le> 32 \<Longrightarrow> k < 32 \<Longrightarrow> bit (bitreverse_loop n v r) k \<longleftrightarrow> (if k < n then bit v (n - 1 - k) else bit r (k - n))"
proof (induction n arbitrary: v r)
  case (Suc n)
  have "bit (bitreverse_loop n (drop_bit 1 v) (push_bit 1 r OR (v AND 1))) k
    \<longleftrightarrow> (if k < n then bit (drop_bit 1 v) (n - 1 - k) else bit (push_bit 1 r OR (v AND 1)) (k - n))"
    using Suc.prems by (intro Suc.IH) simp_all
  moreover have "k < n \<Longrightarrow> Suc (n - 1 - k) = Suc n - 1 - k" by simp
  moreover have "bit (push_bit 1 r OR (v AND 1)) (k - n) \<longleftrightarrow> (if k = n then bit v 0 else bit r (k - Suc n))"
    if "\<not> k < n"
    using that Suc.prems unfolding bit_or_iff bit_push_bit_iff and_mask_take_bit(1) bit_take_bit_iff possible_bit_word
    by (auto simp: Suc_diff_le)
  ultimately show ?case
    using Suc.prems by (auto simp: bit_simps)
qed simp

text \<open>
  The value a BREV followed by an LDILO loads has the low 16 bits of the second instruction as its
  low half and the bit-reversed low 16 bits of the first as its high half.
\<close>
lemma two_word_load_value:
  "k < 32 \<Longrightarrow> bit (TWOWORD_VALUE one two) k \<longleftrightarrow> (if k < 16 then bit two k else bit one (31 - k))"
  by (auto simp: TWOWORD_VALUE_def zip_bitreverse_def bit_or_iff bit_and_iff bit_bitreverse_loop
      and_mask_take_bit bit_take_bit_iff)

lemma two_word_load_value_witness:
  "bit (TWOWORD_VALUE 0x02000001 0x02400001) 31 \<and> \<not> bit (TWOWORD_VALUE 0x02000001 0x02400001) 16
    \<and> bit (TWOWORD_VALUE 0x02000001 0x02400001) 0"
  using two_word_load_value [of 31 "0x02000001" "0x02400001"] two_word_load_value [of 16 "0x02000001" "0x02400001"]
    two_word_load_value [of 0 "0x02000001" "0x02400001"] by simp

text \<open>The word offset of a branch, sign extended.\<close>

definition branch_offset :: "u32 \<Rightarrow> u32" where
  "branch_offset insn = signed_take_bit 17 insn"

lemma branch_offset_value:
  "branch_offset w = (if bit w 17 then take_bit 18 w - 0x40000 else take_bit 18 w)"
proof -
  have plus: "take_bit 18 w + NOT (mask 18) = take_bit 18 w OR NOT (mask 18)"
    by (rule disjunctive_add) (auto simp: bit_simps)
  have minus: "NOT (mask 18) = (- 0x40000 :: u32)" by (simp add: mask_eq_exp_minus_1)
  have 17: "17 \<le> n \<Longrightarrow> n < 18 \<Longrightarrow> n = 17" for n :: nat by simp
  have "branch_offset w = (if bit w 17 then take_bit 18 w OR NOT (mask 18) else take_bit 18 w)"
    unfolding branch_offset_def by (rule bit_word_eqI) (auto simp: bit_simps min_def dest: 17)
  then have "branch_offset w = (if bit w 17 then take_bit 18 w + NOT (mask 18) else take_bit 18 w)" unfolding plus .
  then show ?thesis unfolding minus by simp
qed

text \<open>
  The early branch goes to the instruction after the next plus four times its offset when the offset
  is not negative; a negative offset is added with the wrong sign.
\<close>
lemma early_branch_target:
  assumes "insn AND 0xffc40000 = 0x78800000"
  shows "zop_early_branch pc insn = (if bit insn 17 then pc + 4 - 4 * branch_offset insn else pc + 4 + 4 * branch_offset insn)"
proof -
  have m: "w AND 0x3ffff = take_bit 18 w" for w :: u32 by (simp add: take_bit_eq_mask mask_eq_exp_minus_1)
  have op: "insn AND 0xf8000000 = 0x78000000"
  proof -
    have "insn AND 0xf8000000 = (insn AND 0xffc40000) AND 0xf8000000" by (simp add: and.assoc)
    then show ?thesis unfolding assms by simp
  qed
  have "0xffc60000 = (0xffc40000 OR 0x20000 :: u32)" by simp
  then have "insn AND 0xffc60000 = (insn AND 0xffc40000) OR (insn AND 0x20000)"
    by (simp only: bit.conj_disj_distrib)
  moreover have "insn AND 0x20000 = (if bit insn 17 then 0x20000 else 0)"
  proof -
    have "insn AND push_bit 17 1 = (if bit insn 17 then push_bit 17 1 else 0)"
      by (rule bit_word_eqI) (unfold bit_and_iff if_distrib [of bit] if_distribR bit_push_bit_iff bit_1_iff, auto)
    then show ?thesis by simp
  qed
  ultimately have sel: "insn AND 0xffc60000 = (if bit insn 17 then 0x78820000 else 0x78800000)"
    unfolding assms by simp
  have ne: "(0x78820000 :: u32) \<noteq> 0x78800000" by simp
  have "zop_early_branch pc insn = (if bit insn 17 then pc + 4 + push_bit 2 (0x40000 - take_bit 18 insn)
      else pc + 4 + push_bit 2 (take_bit 18 insn))"
    by (cases "bit insn 17") (simp_all only: zop_early_branch_def op sel m ne if_True if_False simp_thms)
  then show ?thesis
    by (simp add: branch_offset_value push_bit_eq_mult algebra_simps)
qed

lemma early_branch_target_witness:
  "zop_early_branch 0x1000 0x78800010 = 0x1044 \<and> zop_early_branch 0x1000 0x7883ffff = 0x1008"
  using early_branch_target [of "0x78800010" "0x1000"] early_branch_target [of "0x7883ffff" "0x1000"]
  by (simp add: branch_offset_def signed_take_bit_def mask_eq_exp_minus_1)

end
