(* ===== verification/Udiv.thy ===== *)
theory Udiv
  imports Prelude "HOL-Library.Signed_Division"
begin

text \<open>
  The 64-bit division of the ZipCPU run-time library, \<^verbatim>\<open>sw/zlib/udiv.c\<close> and \<^verbatim>\<open>sw/zlib/umod.c\<close>, built from
  32-bit divisions, shifts and subtractions.  \<^verbatim>\<open>unsigned long\<close> and \<^verbatim>\<open>long\<close> are 64-bit words; a 32-bit division
  by zero and the negation of the least \<^verbatim>\<open>long\<close> are undefined.  \<^verbatim>\<open>cltz\<close> is the C version of the function, not
  the assembly for the ZipCPU.
\<close>

section \<open>Counting leading zeros\<close>

fun bitrev_loop :: "nat \<Rightarrow> u32 \<Rightarrow> u32 \<Rightarrow> u32" where
  "bitrev_loop 0 b r = r"
| "bitrev_loop (Suc i) b r = bitrev_loop i (drop_bit 1 b) (push_bit 1 r OR (b AND 1))"

definition zip_bitrev :: "u32 \<Rightarrow> u32" where
  "zip_bitrev a = bitrev_loop 32 a 0"

text \<open>One of the five tests: when the low \<open>n\<close> bits are zero, count them and shift them out.\<close>

definition skip_zeros :: "nat \<Rightarrow> nat \<times> u32 \<Rightarrow> nat \<times> u32" where
  "skip_zeros n = (\<lambda>(cnt, hv). if hv AND mask n = 0 then (cnt + n, drop_bit n hv) else (cnt, hv))"

definition cltz :: "u64 \<Rightarrow> nat" where
  "cltz v =
     (let hv = ucast (drop_bit 32 v) :: u32;
          (cnt, hv) = (if hv = 0 then (32, ucast v) else (0, hv));
          hv = zip_bitrev hv;
          (cnt, hv) = skip_zeros 2 (skip_zeros 4 (skip_zeros 8 (skip_zeros 16 (cnt, hv))))
      in if hv AND 1 = 0 then cnt + 1 else cnt)"

section \<open>Division\<close>

text \<open>The 32-bit division of the machine.\<close>

definition div32 :: "u32 \<Rightarrow> u32 \<Rightarrow> fault + u32" where
  "div32 a b = (if b = 0 then Inl Undefined else Inr (a div b))"

function udiv_loop :: "u64 \<Rightarrow> u64 \<Rightarrow> u64 \<Rightarrow> u64 \<Rightarrow> u64" where
  "udiv_loop m a b r =
     (if m = 0 then r
      else
        let (r, a) = (if b \<le> a then (r OR m, a - b) else (r, a))
        in udiv_loop (drop_bit 1 m) a (drop_bit 1 b) r)"
  by pat_completeness auto
termination
proof (relation "measure (\<lambda>(m, a, b, r). unat m)")
  fix m :: u64 assume "m \<noteq> 0"
  then have "0 < unat m" by (simp add: unat_gt_0)
  then have "unat (drop_bit 1 m) < unat m" by (simp add: unat_drop_bit_eq drop_bit_eq_div unat_div)
  then show "((drop_bit 1 m, y, drop_bit 1 b, x), m, a, b, r) \<in> measure (\<lambda>(m, a, b, r). unat m)" for x y a b r :: u64
    by simp
qed simp

declare udiv_loop.simps [simp del]

definition udivdi3 :: "u64 \<Rightarrow> u64 \<Rightarrow> fault + u64" where
  "udivdi3 a b =
     (if a < b then Inr 0
      else if drop_bit 32 b = 0 \<and> drop_bit 32 a = 0 then map_sum id ucast (div32 (ucast a) (ucast b))
      else
        let la = cltz a; lb = cltz b;
            a = push_bit la a
        in if int lb - int la < 32 \<and> push_bit la b AND 0x0ffffffff = 0 then
             let b = push_bit la b
             in map_sum id ucast (div32 (ucast (drop_bit 32 a)) (ucast (drop_bit 32 b)))
           else Inr (udiv_loop (push_bit (nat (int lb - int la)) 1) a (push_bit lb b) 0))"

definition neg64 :: "u64 \<Rightarrow> fault + u64" where
  "neg64 x = (if x = push_bit 63 1 then Inl Undefined else Inr (- x))"

definition divdi3 :: "u64 \<Rightarrow> u64 \<Rightarrow> fault + u64" where
  "divdi3 a b =
     (let s = False in
      case (if sint a < 0 then map_sum id (Pair True) (neg64 a) else Inr (s, a)) of Inl e \<Rightarrow> Inl e
      | Inr (s, a) \<Rightarrow>
          (case (if sint b < 0 then map_sum id (Pair (\<not> s)) (neg64 b) else Inr (s, b)) of Inl e \<Rightarrow> Inl e
           | Inr (s, b) \<Rightarrow>
               (case udivdi3 a b of Inl e \<Rightarrow> Inl e
                | Inr r \<Rightarrow> if s then neg64 r else Inr r)))"

definition umoddi3 :: "u64 \<Rightarrow> u64 \<Rightarrow> fault + u64" where
  "umoddi3 a b = map_sum id (\<lambda>r. a - r * b) (udivdi3 a b)"

section \<open>What cltz counts\<close>

text \<open>\<open>lowest_bit w p\<close>: bit \<open>p\<close> is the lowest bit set in \<open>w\<close>.\<close>

definition lowest_bit :: "u32 \<Rightarrow> nat \<Rightarrow> bool" where
  "lowest_bit w p \<longleftrightarrow> bit w p \<and> (\<forall>i<p. \<not> bit w i)"

lemma bit_bitrev_loop:
  "n \<le> 32 \<Longrightarrow> k < 32 \<Longrightarrow> bit (bitrev_loop n b r) k \<longleftrightarrow> (if k < n then bit b (n - 1 - k) else bit r (k - n))"
proof (induction n arbitrary: b r)
  case (Suc n)
  have "bit (push_bit 1 r OR (b AND 1)) (k - n) \<longleftrightarrow> (if k = n then bit b 0 else bit r (k - Suc n))" if "\<not> k < n"
    using that Suc.prems unfolding bit_or_iff bit_push_bit_iff and_mask_take_bit(1) bit_take_bit_iff possible_bit_word
    by (auto simp: Suc_diff_le)
  moreover have "k < n \<Longrightarrow> Suc (n - 1 - k) = Suc n - 1 - k" by simp
  ultimately show ?case
    using Suc.prems by (auto simp: Suc.IH bit_drop_bit_eq simp del: push_bit_of_1)
qed simp

text \<open>What the tests keep: the count so far and the zeros that are left make up \<open>t\<close>.\<close>

definition counting :: "nat \<Rightarrow> nat \<Rightarrow> nat \<times> u32 \<Rightarrow> bool" where
  "counting t n = (\<lambda>(cnt, hv). \<exists>p<n. lowest_bit hv p \<and> cnt + p = t)"

lemma counting_skip_zeros:
  assumes "counting t (2 * n) x"
  shows "counting t n (skip_zeros n x)"
proof -
  obtain cnt hv p where p: "x = (cnt, hv)" "p < 2 * n" "lowest_bit hv p" "cnt + p = t"
    using assms by (auto simp: counting_def)
  have len: "p < 32" using p(3) bit_imp_le_length [of hv p] by (simp add: lowest_bit_def)
  have "hv AND mask n = 0 \<longleftrightarrow> (\<forall>i<n. \<not> bit hv i)"
    unfolding bit_eq_iff bit_and_iff bit_mask_iff by (simp add: bit_mask_iff) (use bit_imp_le_length [of hv] in fastforce)
  then have zero: "hv AND mask n = 0 \<longleftrightarrow> n \<le> p"
    using p(3) unfolding lowest_bit_def by (metis leI order.strict_trans2)
  show ?thesis
  proof (cases "n \<le> p")
    case True
    then have "lowest_bit (drop_bit n hv) (p - n)" "p - n < n" "cnt + n + (p - n) = t"
      using p by (auto simp: lowest_bit_def bit_simps)
    then show ?thesis using True zero p(1) by (auto simp: skip_zeros_def counting_def)
  next
    case False
    then show ?thesis using p zero by (auto simp: skip_zeros_def counting_def)
  qed
qed

lemma counting_end: "counting t 2 (cnt, hv) \<Longrightarrow> (if hv AND 1 = 0 then cnt + 1 else cnt) = t"
  using bit_and_push_bit_1 [of hv 0] by (auto simp: counting_def lowest_bit_def numeral_2_eq_2 less_Suc_eq)

lemma cltz_tests:
  assumes "lowest_bit hv p"
  shows "(let (cnt, hv) = skip_zeros 2 (skip_zeros 4 (skip_zeros 8 (skip_zeros 16 (cnt, hv))))
      in if hv AND 1 = 0 then cnt + 1 else cnt) = cnt + p"
proof -
  have "p < 32" using assms bit_imp_le_length [of hv p] by (simp add: lowest_bit_def)
  then have "counting (cnt + p) (2 * 16) (cnt, hv)" using assms by (auto simp: counting_def)
  then have "counting (cnt + p) (2 * 8) (skip_zeros 16 (cnt, hv))" by (simp add: counting_skip_zeros)
  then have "counting (cnt + p) (2 * 4) (skip_zeros 8 (skip_zeros 16 (cnt, hv)))" by (simp add: counting_skip_zeros)
  then have "counting (cnt + p) (2 * 2) (skip_zeros 4 (skip_zeros 8 (skip_zeros 16 (cnt, hv))))" by (simp add: counting_skip_zeros)
  then have "counting (cnt + p) 2 (skip_zeros 2 (skip_zeros 4 (skip_zeros 8 (skip_zeros 16 (cnt, hv)))))" by (rule counting_skip_zeros)
  then show ?thesis
    using counting_end
    by (cases "skip_zeros 2 (skip_zeros 4 (skip_zeros 8 (skip_zeros 16 (cnt, hv))))") (simp only: Let_def case_prod_conv)
qed

text \<open>The highest bit set, as the shift that brings it to the top.\<close>

lemma highest_bit:
  fixes v :: u64
  assumes "bit v q" "\<And>i. q < i \<Longrightarrow> \<not> bit v i"
  shows "2 ^ q \<le> unat v" "unat v < 2 ^ Suc q"
proof -
  have "take_bit (Suc q) v = v"
    using assms(2) by (intro bit_word_eqI) (use not_le in \<open>auto simp: bit_take_bit_iff less_Suc_eq_le\<close>)
  then have "unat v = unat v mod 2 ^ Suc q"
    by (metis take_bit_eq_mod unsigned_take_bit_eq)
  then show "unat v < 2 ^ Suc q" using mod_less_divisor [of "2 ^ Suc q" "unat v"] by simp
  have "bit (unat v) q" using assms(1) by (simp add: bit_unsigned_iff)
  then show "2 ^ q \<le> unat v"
    using nat_take_bit_eq by (metis bit_iff_odd div_less even_zero leI)
qed

lemma cltz_top:
  assumes "v \<noteq> 0"
  shows "cltz v < 64" "2 ^ 63 \<le> unat v * 2 ^ cltz v" "unat v * 2 ^ cltz v < 2 ^ 64"
proof -
  define q where "q = Max {i. bit v i}"
  have fin: "finite {i. bit v i}" by (rule finite_subset [of _ "{..<64}"]) (auto dest: bit_imp_le_length)
  have "{i. bit v i} \<noteq> {}" using assms by (auto simp: bit_eq_iff)
  then have q: "bit v q" "\<And>i. q < i \<Longrightarrow> \<not> bit v i"
    using Max_in [OF fin] Max_ge [OF fin] unfolding q_def by (auto simp: not_le [symmetric])
  then have "q < 64" by (auto dest: bit_imp_le_length)
  have "cltz v = 63 - q"
  proof (cases "q < 32")
    case True
    then have "ucast (drop_bit 32 v) = (0 :: u32)"
      using q(2) by (intro bit_word_eqI) (auto simp: bit_simps)
    moreover have "lowest_bit (zip_bitrev (ucast v)) (31 - q)"
      using True q by (auto simp: lowest_bit_def zip_bitrev_def bit_bitrev_loop bit_ucast_iff)
    ultimately show ?thesis
      using cltz_tests [of "zip_bitrev (ucast v)" "31 - q" 32] True by (simp add: cltz_def)
  next
    case False
    have "ucast (drop_bit 32 v) \<noteq> (0 :: u32)"
    proof
      assume "ucast (drop_bit 32 v) = (0 :: u32)"
      then have "\<not> bit (ucast (drop_bit 32 v) :: u32) (q - 32)" by simp
      then show False using False q(1) \<open>q < 64\<close> by (simp add: bit_simps)
    qed
    moreover have "lowest_bit (zip_bitrev (ucast (drop_bit 32 v))) (63 - q)"
      using False q \<open>q < 64\<close> by (auto simp: lowest_bit_def zip_bitrev_def bit_bitrev_loop bit_ucast_iff bit_drop_bit_eq)
    ultimately show ?thesis
      using cltz_tests [of "zip_bitrev (ucast (drop_bit 32 v))" "63 - q" 0] by (simp add: cltz_def)
  qed
  moreover have "(2::nat) ^ 63 = 2 ^ q * 2 ^ (63 - q)" "(2::nat) ^ 64 = 2 ^ Suc q * 2 ^ (63 - q)"
    unfolding power_add [symmetric] using \<open>q < 64\<close> by (auto intro: arg_cong [where f = "(^) 2"])
  moreover have "2 ^ q * 2 ^ (63 - q) \<le> unat v * 2 ^ (63 - q)" "unat v * 2 ^ (63 - q) < 2 ^ Suc q * 2 ^ (63 - q)"
    using highest_bit [OF q] by (intro mult_le_mono1 mult_less_mono1; simp)+
  ultimately show "cltz v < 64" "2 ^ 63 \<le> unat v * 2 ^ cltz v" "unat v * 2 ^ cltz v < 2 ^ 64"
    by (simp_all only:)
qed

section \<open>The quotient\<close>

lemma unat_of_nat_u64: "n < 2 ^ 64 \<Longrightarrow> unat (of_nat n :: u64) = n"
  by (simp add: unsigned_of_nat take_bit_nat_eq_self_iff)

lemma drop_bit_of_nat_u64: "n < 2 ^ 64 \<Longrightarrow> drop_bit 1 (of_nat n :: u64) = of_nat (n div 2)"
  using unat_of_nat_u64 [of n] unat_of_nat_u64 [of "n div 2"]
  by (simp add: word_unat_eq_iff unat_drop_bit_eq drop_bit_eq_div unat_div)

lemma or_push_bit_1: "\<not> bit (r :: 'a::len word) k \<Longrightarrow> r OR push_bit k 1 = r + push_bit k 1"
  using bit_and_push_bit_1 [of r k] by (subst disjunctive_add_eq_or) blast+

text \<open>One turn of the loop.  \<open>d\<close> is the divisor as it is when the last bit of the quotient is found.\<close>

lemma udiv_loop_turn:
  assumes "d * 2 ^ k < 2 ^ 64" "a < 2 ^ 64" "k < 64" "\<not> bit r k"
  shows "udiv_loop (push_bit k 1) (of_nat a) (of_nat (d * 2 ^ k)) r =
    (if d * 2 ^ k \<le> a
     then udiv_loop (drop_bit 1 (push_bit k 1)) (of_nat (a - d * 2 ^ k)) (of_nat (d * 2 ^ k div 2)) (r + push_bit k 1)
     else udiv_loop (drop_bit 1 (push_bit k 1)) (of_nat a) (of_nat (d * 2 ^ k div 2)) r)"
proof -
  have "push_bit k 1 \<noteq> (0 :: u64)"
    using assms(3) bit_and_push_bit_1 [of "mask 64 :: u64" k] by (auto simp: bit_simps)
  moreover have "(of_nat (d * 2 ^ k) :: u64) \<le> of_nat a \<longleftrightarrow> d * 2 ^ k \<le> a"
    using assms(1,2) by (simp only: word_le_nat_alt unat_of_nat_u64)
  ultimately show ?thesis
    using assms
    by (subst udiv_loop.simps)
      (cases "d * 2 ^ k \<le> a"; simp only: Let_def case_prod_conv drop_bit_of_nat_u64 or_push_bit_1 [OF assms(4)] of_nat_diff if_True if_False)
qed

lemma udiv_loop_div:
  assumes "a < d * 2 ^ Suc k" "d * 2 ^ k < 2 ^ 64" "a < 2 ^ 64" "k < 64" "\<forall>i\<le>k. \<not> bit r i"
  shows "udiv_loop (push_bit k 1) (of_nat a) (of_nat (d * 2 ^ k)) r = r + of_nat (a div d)"
  using assms
proof (induction k arbitrary: a r)
  case 0
  have end_: "udiv_loop 0 x y z = z" for x y z by (simp add: udiv_loop.simps)
  have "a div d = (if d \<le> a then 1 else 0)"
    using 0(1) by (simp add: le_div_geq)
  then show ?case
    using 0 udiv_loop_turn [of d 0 a r] by (simp add: end_)
next
  case (Suc k)
  have drop: "drop_bit 1 (push_bit (Suc k) 1) = (push_bit k 1 :: u64)" "d * 2 ^ Suc k div 2 = d * 2 ^ k"
    using Suc.prems(4) by (auto intro!: bit_word_eqI simp: bit_simps)
  note turn = udiv_loop_turn [of d "Suc k" a r, unfolded drop]
  show ?case
  proof (cases "d * 2 ^ Suc k \<le> a")
    case True
    have "0 < d" using Suc.prems(1) by (cases d) simp_all
    have "\<forall>i\<le>k. \<not> bit (r + push_bit (Suc k) 1) i"
      using Suc.prems(5) or_push_bit_1 [of r "Suc k", symmetric] by (simp add: bit_or_iff bit_push_bit_iff del: push_bit_of_1)
    moreover have "a div d = 2 ^ Suc k + (a - d * 2 ^ Suc k) div d"
      using True \<open>0 < d\<close> by (metis le_add_diff_inverse div_mult_self4 less_numeral_extra(3))
    moreover have "a - d * 2 ^ Suc k < d * 2 ^ Suc k" "d * 2 ^ k < 2 ^ 64" "a - d * 2 ^ Suc k < 2 ^ 64"
      using Suc.prems(1,2,3) by simp_all
    ultimately show ?thesis
      using turn [OF Suc.prems(2-4)] Suc.IH [of "a - d * 2 ^ Suc k" "r + push_bit (Suc k) 1"] True Suc.prems(4,5)
      by (simp only: if_True of_nat_add of_nat_power of_nat_numeral push_bit_of_1 add.assoc) simp
  next
    case False
    then show ?thesis using turn [OF Suc.prems(2-4)] Suc.IH [of a r] Suc.prems by (simp only: if_False) simp
  qed
qed

lemma unat_push_bit_u64: "unat (a :: u64) * 2 ^ n < 2 ^ 64 \<Longrightarrow> unat (push_bit n a) = unat a * 2 ^ n"
  unfolding unsigned_push_bit_eq unfolding push_bit_eq_mult by (simp add: take_bit_nat_eq_self_iff)

lemma unat_drop_bit_u64: "unat (drop_bit n (a :: u64)) = unat a div 2 ^ n"
  unfolding unat_drop_bit_eq by (rule drop_bit_eq_div)

lemma high_half_0: "drop_bit 32 (a :: u64) = 0 \<longleftrightarrow> unat a < 2 ^ 32"
  using unat_drop_bit_u64 [of 32 a] by (simp only: unat_eq_0 [symmetric] div_eq_0_iff) simp

lemma unat_half: "unat (a :: u64) < 2 ^ 32 \<Longrightarrow> unat (ucast a :: u32) = unat a"
  by (simp add: unsigned_ucast_eq take_bit_nat_eq_self_iff)

lemma unat_high_half: "unat (ucast (drop_bit 32 (a :: u64)) :: u32) = unat a div 2 ^ 32"
proof -
  have "unat a div 2 ^ 32 < 2 ^ 32" using unsigned_less [of a] by (simp add: div_less_iff_less_mult)
  then show ?thesis by (metis unat_half unat_drop_bit_u64)
qed

lemma div32_half:
  assumes "unat ib \<noteq> 0" "unat ia div unat ib = unat (a :: u64) div unat b"
  shows "map_sum id ucast (div32 ia ib) = Inr (a div b)"
proof -
  have "unat (ia div ib) < 2 ^ 32" using unsigned_less [of "ia div ib"] by simp
  then have "unat (ucast (ia div ib) :: u64) = unat (ia div ib)"
    by (simp add: unsigned_ucast_eq take_bit_nat_eq_self_iff)
  then have "ucast (ia div ib) = a div b" using assms(2) by (simp add: word_unat_eq_iff unat_div)
  then show ?thesis using assms(1) by (simp add: div32_def unat_eq_0)
qed

lemma low_half_0: "w AND 0x0ffffffff = 0 \<longleftrightarrow> unat (w :: u64) mod 2 ^ 32 = 0"
proof -
  have "(0x0ffffffff :: u64) = mask 32" by (simp add: mask_eq_exp_minus_1)
  then have "w AND 0x0ffffffff = take_bit 32 w" by (simp only: take_bit_eq_mask)
  then have "unat (w AND 0x0ffffffff) = unat w mod 2 ^ 32"
    unfolding unsigned_take_bit_eq by (simp only: unsigned_take_bit_eq) (rule take_bit_eq_mod)
  then show ?thesis unfolding unat_eq_0 [symmetric] by simp
qed

lemma cltz_le:
  assumes "b \<noteq> 0" "unat b \<le> unat a"
  shows "cltz a \<le> cltz b"
proof (rule ccontr)
  assume "\<not> cltz a \<le> cltz b"
  then have "(2::nat) ^ Suc (cltz b) \<le> 2 ^ cltz a" by (intro power_increasing) simp_all
  then have "unat b * 2 ^ Suc (cltz b) \<le> unat a * 2 ^ cltz a" using assms(2) by (rule mult_le_mono [rotated])
  moreover have "a \<noteq> 0" using assms by (auto simp: unat_eq_0)
  ultimately show False using cltz_top(2) [OF assms(1)] cltz_top(3) [of a] by simp
qed

text \<open>What is known where the dividend is not below the divisor: the shifts, and the magnitudes after them.\<close>

lemma shifted_operands:
  assumes "b \<noteq> 0" "unat b \<le> unat a"
  shows "cltz a \<le> cltz b" "cltz b < 64" "unat a * 2 ^ cltz a < 2 ^ 64" "unat b * 2 ^ cltz a < 2 ^ 64"
    "unat b * 2 ^ cltz b < 2 ^ 64" "2 ^ 64 \<le> unat b * 2 ^ cltz b * 2"
    "unat b * 2 ^ cltz a * 2 ^ (cltz b - cltz a) = unat b * 2 ^ cltz b"
proof -
  have "a \<noteq> 0" using assms by (metis le_zero_eq unat_0 unat_eq_0)
  show l: "cltz a \<le> cltz b" by (rule cltz_le [OF assms])
  show shift: "unat b * 2 ^ cltz a * 2 ^ (cltz b - cltz a) = unat b * 2 ^ cltz b"
    using l by (simp add: mult.assoc power_add [symmetric])
  show top: "cltz b < 64" "unat a * 2 ^ cltz a < 2 ^ 64" "unat b * 2 ^ cltz b < 2 ^ 64" "2 ^ 64 \<le> unat b * 2 ^ cltz b * 2"
    using cltz_top [OF assms(1)] cltz_top [OF \<open>a \<noteq> 0\<close>] by simp_all
  have "unat b * 2 ^ cltz a \<le> unat b * 2 ^ cltz a * 2 ^ (cltz b - cltz a)" by simp
  then show "unat b * 2 ^ cltz a < 2 ^ 64" using top(3) unfolding shift by (rule le_less_trans)
qed

text \<open>The 32-bit division is enough where the low half of the shifted divisor is zero.\<close>

lemma high_division:
  assumes b: "b \<noteq> 0" "unat b \<le> unat a" and low: "push_bit (cltz a) b AND 0x0ffffffff = 0"
  shows "map_sum id ucast (div32 (ucast (drop_bit 32 (push_bit (cltz a) a))) (ucast (drop_bit 32 (push_bit (cltz a) b)))) = Inr (a div b)"
proof -
  let ?A = "unat a" and ?B = "unat b" and ?la = "cltz a"
  let ?ia = "ucast (drop_bit 32 (push_bit ?la a)) :: u32" and ?ib = "ucast (drop_bit 32 (push_bit ?la b)) :: u32"
  note sh = shifted_operands [OF b]
  have half: "unat ?ia = ?A * 2 ^ ?la div 2 ^ 32" "unat ?ib = ?B * 2 ^ ?la div 2 ^ 32"
    unfolding unat_high_half using unat_push_bit_u64 sh(3,4) by simp_all
  have "?B * 2 ^ ?la mod 2 ^ 32 = 0"
    using low unfolding low_half_0 unat_push_bit_u64 [OF sh(4)] by blast
  then have exact: "2 ^ 32 * (?B * 2 ^ ?la div 2 ^ 32) = ?B * 2 ^ ?la" by (metis dvd_eq_mod_eq_0 dvd_mult_div_cancel)
  have "0 < ?B" using b(1) by (simp add: unat_gt_0)
  show ?thesis
  proof (rule div32_half)
    show "unat ?ib \<noteq> 0" using exact \<open>0 < ?B\<close> unfolding half by (metis mult_eq_0_iff less_irrefl power_not_zero zero_neq_numeral)
    have "(?A * 2 ^ ?la) div (?B * 2 ^ ?la) = ?A div ?B" by simp
    then show "unat ?ia div unat ?ib = ?A div ?B" unfolding half div_mult2_eq [symmetric] exact .
  qed
qed

lemma loop_division:
  assumes b: "b \<noteq> 0" "unat b \<le> unat a"
  shows "udiv_loop (push_bit (cltz b - cltz a) 1) (push_bit (cltz a) a) (push_bit (cltz b) b) 0 = a div b"
proof -
  let ?A = "unat a" and ?B = "unat b" and ?la = "cltz a" and ?lb = "cltz b"
  note sh = shifted_operands [OF b]
  have "0 < ?B" using b(1) by (simp add: unat_gt_0)
  have "?A * 2 ^ ?la < ?B * 2 ^ ?la * 2 ^ Suc (?lb - ?la)"
    unfolding power_Suc2 mult.assoc [symmetric] sh(7) using sh(3,6) by (rule less_le_trans)
  moreover have "?lb - ?la < 64" using sh(1,2) by simp
  ultimately have "udiv_loop (push_bit (?lb - ?la) 1) (of_nat (?A * 2 ^ ?la)) (of_nat (?B * 2 ^ ?la * 2 ^ (?lb - ?la))) 0
      = 0 + of_nat ((?A * 2 ^ ?la) div (?B * 2 ^ ?la))"
    using sh(3) sh(5) [folded sh(7)] by (intro udiv_loop_div) simp_all
  moreover have "of_nat (?A * 2 ^ ?la) = push_bit ?la a" "of_nat (?B * 2 ^ ?la * 2 ^ (?lb - ?la)) = push_bit ?lb b"
    unfolding sh(7) unat_push_bit_u64 [OF sh(3), symmetric] unat_push_bit_u64 [OF sh(5), symmetric] by simp_all
  moreover have "(?A * 2 ^ ?la) div (?B * 2 ^ ?la) = ?A div ?B" by simp
  moreover have "of_nat (?A div ?B) = a div b" by (simp add: unat_div [symmetric])
  ultimately show ?thesis by (simp only: add_0_left)
qed

lemma udivdi3_div:
  assumes "b \<noteq> 0"
  shows "udivdi3 a b = Inr (a div b)"
proof (cases "a < b")
  case True
  then show ?thesis by (simp add: udivdi3_def div_word_less)
next
  case False
  then have le: "unat b \<le> unat a" by (simp add: word_le_nat_alt not_less)
  consider (half) "drop_bit 32 b = 0 \<and> drop_bit 32 a = 0"
    | (high) "\<not> (drop_bit 32 b = 0 \<and> drop_bit 32 a = 0)" "int (cltz b) - int (cltz a) < 32 \<and> push_bit (cltz a) b AND 0x0ffffffff = 0"
    | (loop) "\<not> (drop_bit 32 b = 0 \<and> drop_bit 32 a = 0)" "\<not> (int (cltz b) - int (cltz a) < 32 \<and> push_bit (cltz a) b AND 0x0ffffffff = 0)"
    by blast
  then show ?thesis
  proof cases
    case half
    then have "unat (ucast a :: u32) = unat a" "unat (ucast b :: u32) = unat b"
      unfolding high_half_0 by (simp_all only: unat_half)
    then have "map_sum id ucast (div32 (ucast a) (ucast b)) = Inr (a div b)"
      using assms by (intro div32_half) (simp_all add: unat_eq_0)
    then show ?thesis using False half by (simp only: udivdi3_def if_False if_True simp_thms)
  next
    case high
    then show ?thesis
      using False high_division [OF assms le] unfolding udivdi3_def Let_def by (simp only: if_False if_True simp_thms)
  next
    case loop
    have "nat (int (cltz b) - int (cltz a)) = cltz b - cltz a" by simp
    then show ?thesis
      using False loop loop_division [OF assms le] unfolding udivdi3_def Let_def by (simp only: if_False)
  qed
qed

text \<open>
  C16: the division routine divides.  Shifting, a 32-bit division where one is enough and one subtraction for
  every bit of the quotient otherwise give exactly the quotient of the two 64-bit words, whatever they are,
  and no step of it faults or loops forever as long as the divisor is not zero.
\<close>
theorem udivdi3_is_div: "b \<noteq> 0 \<Longrightarrow> udivdi3 a b = Inr (a div b)"
  by (rule udivdi3_div)

lemma udivdi3_is_div_witness: "udivdi3 0xfedcba9876543210 0x123456789 = Inr 0xe0000000"
proof -
  have "(0xfedcba9876543210 :: u64) div 0x123456789 = 0xe0000000" by code_simp
  then show ?thesis using udivdi3_is_div [of "0x123456789" "0xfedcba9876543210"] by simp
qed

section \<open>Division by zero\<close>

lemma cltz_0: "cltz 0 = 63" by code_simp

lemma udiv_loop_0: "k < 64 \<Longrightarrow> udiv_loop (push_bit k 1) a 0 r = r OR mask (Suc k)"
proof (induction k arbitrary: r)
  case 0
  have "udiv_loop 0 x y z = z" for x y z by (simp add: udiv_loop.simps)
  then show ?case by (simp add: udiv_loop.simps [of 1])
next
  case (Suc k)
  have "drop_bit 1 (push_bit (Suc k) 1) = (push_bit k 1 :: u64)"
    using Suc.prems by (auto intro!: bit_word_eqI simp: bit_simps)
  moreover have "push_bit (Suc k) 1 \<noteq> (0 :: u64)"
    using Suc.prems bit_and_push_bit_1 [of "mask 64 :: u64" "Suc k"] by (auto simp: bit_simps)
  ultimately have "udiv_loop (push_bit (Suc k) 1) a 0 r = (r OR push_bit (Suc k) 1) OR mask (Suc k)"
    using Suc.IH [of "r OR push_bit (Suc k) 1"] Suc.prems
    by (subst udiv_loop.simps) (simp del: push_bit_of_1 push_bit_Suc)
  also have "\<dots> = r OR mask (Suc (Suc k))"
    by (rule bit_word_eqI) (auto simp: bit_simps less_Suc_eq)
  finally show ?case .
qed

text \<open>
  A division by zero is not always caught.  If the dividend fits into 32 bits it ends in the machine's
  division by zero; otherwise the routine returns a number, of as many ones as the dividend has binary digits.
\<close>
lemma udivdi3_by_zero:
  "udivdi3 a 0 = (if drop_bit 32 a = 0 then Inl Undefined else Inr (mask (64 - cltz a)))"
proof (cases "drop_bit 32 a = 0")
  case True
  then show ?thesis by (simp add: udivdi3_def div32_def)
next
  case False
  have A: "2 ^ 32 \<le> unat a" using False unfolding high_half_0 by simp
  then have "a \<noteq> 0" by (auto simp: unat_eq_0)
  then have "unat a * 2 ^ cltz a < 2 ^ 64" by (rule cltz_top)
  then have "2 ^ 32 * 2 ^ cltz a < (2::nat) ^ 64" using mult_le_mono1 [OF A] by (rule le_less_trans [rotated])
  then have "(2::nat) ^ (32 + cltz a) < 2 ^ 64" by (simp only: power_add)
  then have c: "cltz a < 32" by (simp only: power_strict_increasing_iff [of "2::nat"])
  have "udiv_loop (push_bit (63 - cltz a) 1) (push_bit (cltz a) a) 0 0 = 0 OR mask (Suc (63 - cltz a))"
    by (rule udiv_loop_0) simp
  moreover have "Suc (63 - cltz a) = 64 - cltz a" "nat (int 63 - int (cltz a)) = 63 - cltz a" using c by simp_all
  moreover have "\<not> int 63 - int (cltz a) < 32" using c by simp
  ultimately show ?thesis
    using False unfolding udivdi3_def Let_def cltz_0 by (simp del: push_bit_of_1 of_nat_numeral)
qed

section \<open>Signed division and remainder\<close>

lemma unat_of_int_u64: "0 \<le> z \<Longrightarrow> z < 2 ^ 64 \<Longrightarrow> unat (word_of_int z :: u64) = nat z"
  by (simp add: unsigned_of_int take_bit_int_eq_self)

lemma sint_of_int_u64: "- (2 ^ 63) \<le> z \<Longrightarrow> z < 2 ^ 63 \<Longrightarrow> sint (word_of_int z :: u64) = z"
  by (simp add: signed_of_int signed_take_bit_int_eq_self_iff)

lemma sint_range_u64: "- (2 ^ 63) \<le> sint (a :: u64)" "sint a < 2 ^ 63"
  using sint_ge [of a] sint_lt [of a] by simp_all

lemma least_long: "a \<noteq> push_bit 63 1 \<longleftrightarrow> - (2 ^ 63) < sint (a :: u64)"
proof -
  have "sint (push_bit 63 1 :: u64) = - (2 ^ 63)" by code_simp
  then have "a = push_bit 63 1 \<longleftrightarrow> sint a = - (2 ^ 63)" by (metis signed_word_eqI)
  then show ?thesis using sint_range_u64(1) [of a] by linarith
qed

lemma magnitude:
  assumes "a \<noteq> push_bit 63 1"
  shows "(if sint a < 0 then map_sum id (Pair x) (neg64 a) else Inr (y, a)) = Inr (if sint a < 0 then x else y, word_of_int \<bar>sint a\<bar>)"
proof (cases "sint a < 0")
  case True
  have "- a = word_of_int (- sint a)" by simp
  then show ?thesis using True assms by (simp add: neg64_def)
qed simp

lemma neg64_of_int:
  assumes "0 \<le> z" "z < 2 ^ 63"
  shows "\<exists>r. neg64 (word_of_int z) = Inr r \<and> sint r = - z"
proof -
  have "word_of_int z \<noteq> (push_bit 63 1 :: u64)"
    unfolding least_long using assms by (subst sint_of_int_u64) simp_all
  then show ?thesis using assms sint_of_int_u64 [of "- z"] by (simp add: neg64_def)
qed

text \<open>
  The signed division truncates.  For every dividend and divisor but the least \<^verbatim>\<open>long\<close> and a divisor of
  zero, \<^verbatim>\<open>__divdi3\<close> returns the quotient rounded towards zero, without a fault.
\<close>
lemma divdi3_truncates:
  assumes "a \<noteq> push_bit 63 1" "b \<noteq> push_bit 63 1" "b \<noteq> 0"
  shows "\<exists>r. divdi3 a b = Inr r \<and> sint r = sint a sdiv sint b"
proof -
  define q where "q = \<bar>sint a\<bar> div \<bar>sint b\<bar>"
  have range: "\<bar>sint a\<bar> < 2 ^ 63" "\<bar>sint b\<bar> < 2 ^ 63"
    using assms(1,2) sint_range_u64 [of a] sint_range_u64 [of b] unfolding least_long by linarith+
  have "sint b \<noteq> 0" using assms(3) signed_word_eqI [of b 0] by auto
  then have b: "word_of_int \<bar>sint b\<bar> \<noteq> (0 :: u64)"
    using range(2) unat_of_int_u64 [of "\<bar>sint b\<bar>"] by (auto simp: unat_eq_0 [symmetric])
  have "1 \<le> \<bar>sint b\<bar>" using \<open>sint b \<noteq> 0\<close> by linarith
  then have "q \<le> \<bar>sint a\<bar> div 1" "0 \<le> q" unfolding q_def by (intro zdiv_mono2 div_int_pos_iff [THEN iffD2]; simp)+
  then have q: "0 \<le> q" "q < 2 ^ 63" using range(1) by (simp_all only: div_by_1 order.strict_trans1)
  have "word_of_int \<bar>sint a\<bar> div word_of_int \<bar>sint b\<bar> = (word_of_int q :: u64)"
    using range q unfolding word_unat_eq_iff unat_div q_def
    by (simp add: unat_of_int_u64 nat_div_distrib)
  then have "divdi3 a b = (if (sint a < 0) \<noteq> (sint b < 0) then neg64 (word_of_int q) else Inr (word_of_int q))"
    unfolding divdi3_def Let_def magnitude [OF assms(1)] magnitude [OF assms(2)] by (simp add: udivdi3_div [OF b])
  moreover have "sint a sdiv sint b = (if (sint a < 0) \<noteq> (sint b < 0) then - q else q)"
    using \<open>sint b \<noteq> 0\<close> unfolding q_def signed_divide_int_def by (cases "sint a = 0") (auto simp: sgn_if)
  ultimately show ?thesis
    using q by (simp add: neg64_of_int sint_of_int_u64)
qed

lemma divdi3_truncates_witness: "\<exists>r. divdi3 (- 7) 2 = Inr r \<and> sint r = - 3"
proof -
  have "(- 7 :: u64) \<noteq> push_bit 63 1" "(2 :: u64) \<noteq> push_bit 63 1" "(2 :: u64) \<noteq> 0" by code_simp+
  moreover have "sint (- 7 :: u64) sdiv sint (2 :: u64) = - 3" by code_simp
  ultimately show ?thesis using divdi3_truncates [of "- 7" 2] by simp
qed

text \<open>
  The remainder completes the quotient.  \<^verbatim>\<open>__umoddi3\<close>, which multiplies the quotient back and subtracts it,
  returns the remainder of the two 64-bit words.
\<close>
lemma umoddi3_is_mod: "b \<noteq> 0 \<Longrightarrow> umoddi3 a b = Inr (a mod b)"
  by (simp add: umoddi3_def udivdi3_div minus_div_mult_eq_mod)

end
