(* ===== verification/ZipElf.thy ===== *)
theory ZipElf
  imports Prelude
begin

text \<open>
  Reading a program file: the two copies of \<^verbatim>\<open>zipelf.cpp\<close>, \<^verbatim>\<open>sw/host\<close> and \<^verbatim>\<open>sim\<close>, which differ in what they do
  with a program header that has nothing in the file.  What libelf and the operating system say of the
  file is the record \<open>elf\<close>.  The result is a block of memory in which a table of pointers precedes the
  sections; pointers are offsets into the block, and two of them can be the same.
\<close>

section \<open>The file\<close>

datatype elf_kind = ELF_K_ELF | ELF_K_AR | ELF_K_NONE | ELF_K_OTHER
datatype elf_class = ELFCLASSNONE | ELFCLASS32 | ELFCLASS64

record elfphdr =
  p_offset :: u64
  p_paddr :: u64
  p_filesz :: u64
  p_memsz :: u64

text \<open>
  \<open>el_ready\<close>: the library, the file and the descriptor of it can be set up.  \<open>el_read\<close> delivers at most so
  many bytes from an offset, or the seek fails.
\<close>

record elf =
  el_ready :: bool
  el_kind :: elf_kind
  el_ehdr :: "(u16 \<times> u64) option"
  el_class :: elf_class
  el_ident :: bool
  el_phdrs :: "elfphdr option list option"
  el_read :: "u64 \<Rightarrow> nat \<Rightarrow> u8 list option"

text \<open>The first bytes of a file, if it can be opened.\<close>

definition iself :: "u8 list option \<Rightarrow> bool" where
  "iself file =
     (case file of None \<Rightarrow> False
      | Some bytes \<Rightarrow> take 4 bytes = [0x7f, 0x45, 0x4c, 0x46])"

section \<open>The sections\<close>

definition SIZEOF_ELFSECTION :: nat where "SIZEOF_ELFSECTION = 12"
definition SIZEOF_PTR :: nat where "SIZEOF_PTR = 8"

text \<open>
  The block: the table of pointers, and at an offset the start and the length of a section and its bytes.
\<close>

record elfmem =
  em_r :: "nat \<Rightarrow> nat"
  em_hdr :: "nat \<Rightarrow> u32 \<times> u32"
  em_data :: "nat \<Rightarrow> nat \<Rightarrow> u8"
  em_offset :: nat
  em_section :: nat

definition put_hdr :: "nat \<Rightarrow> u32 \<times> u32 \<Rightarrow> elfmem \<Rightarrow> elfmem" where
  "put_hdr off h m = m\<lparr>em_hdr := (em_hdr m)(off := h)\<rparr>"

text \<open>The bytes of a section that were read; the length in its header is not cut with them.\<close>

definition read_section :: "elf \<Rightarrow> elfphdr \<Rightarrow> nat \<Rightarrow> elfmem \<Rightarrow> fault + elfmem" where
  "read_section f ph off m =
     (let n = (if p_filesz ph > p_memsz ph then 0 else unat (p_filesz ph))
      in case el_read f (p_offset ph) n of None \<Rightarrow> Inl Exited
         | Some bytes \<Rightarrow>
             if length bytes \<noteq> n then Inl Exited
             else Inr (m\<lparr>em_data := (em_data m)(off := (\<lambda>k. if k < n then bytes ! k else em_data m off k))\<rparr>))"

definition elf_phdr :: "bool \<Rightarrow> elf \<Rightarrow> nat \<Rightarrow> elfphdr option \<Rightarrow> elfmem \<Rightarrow> fault + elfmem" where
  "elf_phdr skip_empty f i ph m =
     (let off = em_offset m; m = m\<lparr>em_r := (em_r m)(i := off)\<rparr>
      in case ph of None \<Rightarrow> Inl Exited
         | Some ph \<Rightarrow>
             if skip_empty \<and> p_filesz ph = 0 then Inr m
             else
               let m = put_hdr off (ucast (p_paddr ph), ucast (p_filesz ph)) (m\<lparr>em_section := em_section m + 1\<rparr>)
               in read_section f ph off (m\<lparr>em_offset := off + unat (p_memsz ph) + SIZEOF_ELFSECTION\<rparr>))"

fun elf_phdrs :: "bool \<Rightarrow> elf \<Rightarrow> nat \<Rightarrow> elfphdr option list \<Rightarrow> elfmem \<Rightarrow> fault + elfmem" where
  "elf_phdrs skip_empty f i [] m = Inr m"
| "elf_phdrs skip_empty f i (ph # phs) m =
     (case elf_phdr skip_empty f i ph m of Inl e \<Rightarrow> Inl e | Inr m \<Rightarrow> elf_phdrs skip_empty f (Suc i) phs m)"

text \<open>What the file needs in memory, which the code adds up in 32 bits.\<close>

definition elf_octets :: "elfphdr list \<Rightarrow> nat" where
  "elf_octets phs = sum_list (map (\<lambda>ph. SIZEOF_PTR + SIZEOF_ELFSECTION + unat (p_memsz ph)) phs)"

text \<open>
  \<^verbatim>\<open>elfread\<close>.  \<open>skip_empty\<close> is true for the copy of the simulation.  The argument \<open>m0\<close> is what the block holds
  before it is written.  If the size of the block does not fit into 32 bits the sections are written
  outside it.
\<close>

definition elfread :: "bool \<Rightarrow> elf \<Rightarrow> elfmem \<Rightarrow> fault + u32 \<times> elfmem" where
  "elfread skip_empty f m0 =
     (if \<not> el_ready f then Inl Exited
      else if el_kind f \<notin> {ELF_K_ELF, ELF_K_NONE} then Inl Exited
      else case el_ehdr f of None \<Rightarrow> Inl Exited
      | Some (machine, entry) \<Rightarrow>
          if el_class f = ELFCLASSNONE \<or> \<not> el_ident f \<or> el_class f \<noteq> ELFCLASS32 then Inl Exited
          else if machine \<noteq> 0x0dad1 then Inl Exited
          else case el_phdrs f of None \<Rightarrow> Inl Exited
          | Some phs \<Rightarrow>
              if phs = [] then Inl Assertion
              else if None \<in> set phs then Inl Exited
              else if 2 ^ 32 \<le> elf_octets (map the phs) + SIZEOF_ELFSECTION + SIZEOF_PTR then Inl Undefined
              else
                let n = length phs;
                    m = m0\<lparr>em_offset := (n + 1) * SIZEOF_PTR, em_section := 0\<rparr>
                in case elf_phdrs skip_empty f 0 phs m of Inl e \<Rightarrow> Inl e
                   | Inr m \<Rightarrow>
                       let m = m\<lparr>em_r := (em_r m)(n := em_offset m)\<rparr>
                       in Inr (ucast entry, put_hdr (em_r m (em_section m)) (0, 0) m))"

text \<open>What the callers see: the sections up to the first one of no length.\<close>

record elfsection =
  m_start :: u32
  m_len :: u32
  m_data :: "nat \<Rightarrow> u8"

definition section_at :: "elfmem \<Rightarrow> nat \<Rightarrow> elfsection" where
  "section_at m i = (let off = em_r m i in \<lparr>m_start = fst (em_hdr m off), m_len = snd (em_hdr m off), m_data = em_data m off\<rparr>)"

definition sections :: "elfmem \<Rightarrow> elfsection list" where
  "sections m = takeWhile (\<lambda>s. m_len s \<noteq> 0) (map (section_at m) [0..<em_section m + 1])"

section \<open>The table\<close>

definition kept :: "bool \<Rightarrow> elfphdr \<Rightarrow> bool" where
  "kept skip_empty ph \<longleftrightarrow> \<not> (skip_empty \<and> p_filesz ph = 0)"

definition hdr_of :: "elfphdr \<Rightarrow> u32 \<times> u32" where
  "hdr_of ph = (ucast (p_paddr ph), ucast (p_filesz ph))"

text \<open>The pointers of the table, and the end of the sections.\<close>

definition next_off :: "bool \<Rightarrow> nat \<Rightarrow> elfphdr \<Rightarrow> nat" where
  "next_off skip_empty off ph = (if kept skip_empty ph then off + unat (p_memsz ph) + SIZEOF_ELFSECTION else off)"

fun offs :: "bool \<Rightarrow> nat \<Rightarrow> elfphdr list \<Rightarrow> nat list" where
  "offs skip_empty off [] = []"
| "offs skip_empty off (ph # phs) = off # offs skip_empty (next_off skip_empty off ph) phs"

definition end_off :: "bool \<Rightarrow> nat \<Rightarrow> elfphdr list \<Rightarrow> nat" where
  "end_off skip_empty = foldl (next_off skip_empty)"

lemma length_offs [simp]: "length (offs sk off phs) = length phs"
  by (induction sk off phs rule: offs.induct) simp_all

lemma end_off_simps [simp]:
  "end_off sk off [] = off" "end_off sk off (ph # phs) = end_off sk (next_off sk off ph) phs"
  "end_off sk off (xs @ ys) = end_off sk (end_off sk off xs) ys"
  by (simp_all add: end_off_def)

lemma offs_append: "offs sk off (xs @ ys) = offs sk off xs @ offs sk (end_off sk off xs) ys"
  by (induction xs arbitrary: off) simp_all

lemma next_off_ge: "off \<le> next_off sk off ph" "kept sk ph \<Longrightarrow> off < next_off sk off ph"
  by (simp_all add: next_off_def SIZEOF_ELFSECTION_def)

lemma end_off_ge: "off \<le> end_off sk off phs"
proof (induction phs arbitrary: off)
  case (Cons ph phs)
  show ?case using Cons [of "next_off sk off ph"] next_off_ge(1) [of off sk ph] by simp
qed simp

lemma offs_range: "j < length phs \<Longrightarrow> off \<le> offs sk off phs ! j \<and> (kept sk (phs ! j) \<longrightarrow> offs sk off phs ! j < end_off sk off phs)"
proof (induction phs arbitrary: off j)
  case (Cons ph phs)
  show ?case
  proof (cases j)
    case 0
    then show ?thesis using next_off_ge(2) [of sk ph off] end_off_ge [of "next_off sk off ph" sk phs] by auto
  next
    case (Suc j')
    then show ?thesis using Cons.IH [of j' "next_off sk off ph"] Cons.prems next_off_ge(1) [of off sk ph] by auto
  qed
qed simp

lemma offs_increase:
  assumes "j < k" "k < length phs" "kept sk (phs ! j)"
  shows "offs sk off phs ! j < offs sk off phs ! k"
proof -
  have "phs = take k phs @ drop k phs" by simp
  then have "offs sk off phs = offs sk off (take k phs) @ offs sk (end_off sk off (take k phs)) (drop k phs)"
    by (metis offs_append)
  moreover have "length (offs sk off (take k phs)) = k" using assms(2) by simp
  ultimately have "offs sk off phs ! j = offs sk off (take k phs) ! j"
    "offs sk off phs ! k = offs sk (end_off sk off (take k phs)) (drop k phs) ! 0"
    using assms(1) by (simp_all add: nth_append)
  then show ?thesis
    using offs_range [of j "take k phs" off sk] offs_range [of 0 "drop k phs" "end_off sk off (take k phs)" sk] assms by simp
qed

text \<open>What the loop over the headers leaves in the block.\<close>

definition section_read :: "elf \<Rightarrow> elfphdr \<Rightarrow> (nat \<Rightarrow> u8) \<Rightarrow> bool" where
  "section_read f ph dat \<longleftrightarrow> (p_filesz ph \<le> p_memsz ph \<longrightarrow>
     (\<exists>bytes. el_read f (p_offset ph) (unat (p_filesz ph)) = Some bytes \<and> map dat [0..<unat (p_filesz ph)] = bytes))"

lemma elf_phdr_mem:
  assumes "elf_phdr sk f i (Some ph) m = Inr m'"
  shows "em_offset m' = next_off sk (em_offset m) ph" "em_section m' = em_section m + (if kept sk ph then 1 else 0)"
    "em_r m' = (em_r m)(i := em_offset m)"
    "off \<noteq> em_offset m \<Longrightarrow> em_hdr m' off = em_hdr m off \<and> em_data m' off = em_data m off"
    "kept sk ph \<Longrightarrow> em_hdr m' (em_offset m) = hdr_of ph \<and> section_read f ph (em_data m' (em_offset m))"
proof -
  have read: "read_section f ph off m = Inr m' \<Longrightarrow> em_offset m' = em_offset m \<and> em_section m' = em_section m \<and> em_r m' = em_r m
      \<and> em_hdr m' = em_hdr m \<and> (\<forall>q. q \<noteq> off \<longrightarrow> em_data m' q = em_data m q) \<and> section_read f ph (em_data m' off)" for off m
    by (auto simp: read_section_def section_read_def Let_def not_less split: option.splits if_splits intro!: nth_equalityI)
  show "em_offset m' = next_off sk (em_offset m) ph" "em_section m' = em_section m + (if kept sk ph then 1 else 0)"
    "em_r m' = (em_r m)(i := em_offset m)"
    "off \<noteq> em_offset m \<Longrightarrow> em_hdr m' off = em_hdr m off \<and> em_data m' off = em_data m off"
    "kept sk ph \<Longrightarrow> em_hdr m' (em_offset m) = hdr_of ph \<and> section_read f ph (em_data m' (em_offset m))"
    using assms by (auto simp: elf_phdr_def kept_def next_off_def put_hdr_def hdr_of_def Let_def dest!: read split: if_splits)
qed

lemma elf_phdrs_mem:
  assumes "elf_phdrs sk f i (map Some phs) m = Inr m'"
  shows "em_offset m' = end_off sk (em_offset m) phs \<and> em_section m' = em_section m + length (filter (kept sk) phs)
    \<and> (\<forall>j. em_r m' j = (if i \<le> j \<and> j < i + length phs then offs sk (em_offset m) phs ! (j - i) else em_r m j))
    \<and> (\<forall>off<em_offset m. em_hdr m' off = em_hdr m off \<and> em_data m' off = em_data m off)
    \<and> (\<forall>j<length phs. kept sk (phs ! j) \<longrightarrow> em_hdr m' (offs sk (em_offset m) phs ! j) = hdr_of (phs ! j)
        \<and> section_read f (phs ! j) (em_data m' (offs sk (em_offset m) phs ! j)))"
  using assms
proof (induction phs arbitrary: i m)
  case (Cons ph phs)
  obtain m1 where 1: "elf_phdr sk f i (Some ph) m = Inr m1" "elf_phdrs sk f (Suc i) (map Some phs) m1 = Inr m'"
    using Cons.prems by (auto split: sum.splits)
  note s = elf_phdr_mem [OF 1(1)]
  note IH = Cons.IH [OF 1(2), unfolded s(1-3)]
  have old: "em_hdr m' off = em_hdr m off \<and> em_data m' off = em_data m off" if "off < em_offset m" for off
    using IH s(4) [of off] that next_off_ge(1) [of "em_offset m" sk ph] by auto
  have new: "em_hdr m' (em_offset m) = hdr_of ph \<and> section_read f ph (em_data m' (em_offset m))" if "kept sk ph"
    using IH s(5) [OF that] next_off_ge(2) [OF that, of "em_offset m"] by auto
  have all: "kept sk ((ph # phs) ! j) \<longrightarrow> em_hdr m' (offs sk (em_offset m) (ph # phs) ! j) = hdr_of ((ph # phs) ! j)
        \<and> section_read f ((ph # phs) ! j) (em_data m' (offs sk (em_offset m) (ph # phs) ! j))" if "j < length (ph # phs)" for j
    using that IH new by (cases j) simp_all
  have "em_r m' j = (if i \<le> j \<and> j < i + length (ph # phs) then offs sk (em_offset m) (ph # phs) ! (j - i) else em_r m j)" for j
    using IH by (cases "j = i") (auto simp: nth_Cons' Suc_diff_le[symmetric])
  then show ?case using IH old all by auto
qed simp

lemma elfread_mem:
  assumes "elfread sk f m0 = Inr (entry, m)" "el_phdrs f = Some (map Some phs)"
  defines "off0 \<equiv> (length phs + 1) * SIZEOF_PTR"
  shows "\<exists>last. em_section m = length (filter (kept sk) phs)
    \<and> (\<forall>j\<le>length phs. em_r m j = (if j < length phs then offs sk off0 phs ! j else end_off sk off0 phs))
    \<and> last = em_r m (em_section m) \<and> em_hdr m last = (0, 0)
    \<and> (\<forall>j<length phs. kept sk (phs ! j) \<longrightarrow> section_read f (phs ! j) (em_data m (offs sk off0 phs ! j))
         \<and> (offs sk off0 phs ! j \<noteq> last \<longrightarrow> em_hdr m (offs sk off0 phs ! j) = hdr_of (phs ! j)))
    \<and> elf_octets phs < 2 ^ 32"
proof -
  let ?m0 = "m0\<lparr>em_offset := off0, em_section := 0\<rparr>"
  have "None \<notin> set (map Some phs)" by auto
  then obtain m1 where 1: "elf_phdrs sk f 0 (map Some phs) ?m0 = Inr m1" "elf_octets phs < 2 ^ 32"
    "m = (let m = m1\<lparr>em_r := (em_r m1)(length phs := em_offset m1)\<rparr> in put_hdr (em_r m (em_section m)) (0, 0) m)"
    using assms(1,2) by (auto simp: elfread_def Let_def off0_def comp_def split: if_splits option.splits prod.splits sum.splits)
  then show ?thesis
    using elf_phdrs_mem [OF 1(1)] by (auto simp: put_hdr_def Let_def)
qed

text \<open>The bytes of a section.\<close>

definition section_bytes :: "elfsection \<Rightarrow> u8 list" where
  "section_bytes s = map (m_data s) [0..<unat (m_len s)]"

lemma unat_ucast_u32_u64: "unat (w :: u64) < 2 ^ 32 \<Longrightarrow> unat (ucast w :: u32) = unat w"
  by (simp add: unsigned_ucast_eq take_bit_nat_eq_self_iff)

lemma section_read_bytes:
  assumes "section_read f ph dat" "p_filesz ph \<le> p_memsz ph" "unat (p_memsz ph) < 2 ^ 32"
  shows "el_read f (p_offset ph) (unat (p_filesz ph)) = Some (map dat [0..<unat (ucast (p_filesz ph) :: u32)])"
proof -
  have "unat (p_filesz ph) < 2 ^ 32" using assms(2,3) by (simp add: word_le_nat_alt)
  then show ?thesis using assms(1,2) by (auto simp: section_read_def unat_ucast_u32_u64)
qed

lemma takeWhile_snoc: "\<not> P x \<Longrightarrow> takeWhile P (xs @ [x]) = takeWhile P xs"
  by (induction xs) auto

text \<open>The entry of the table that belongs to a header of the file.\<close>

lemma section_of_header:
  assumes "elfread False f m0 = Inr (entry, m)" "el_phdrs f = Some (map Some phs)" "\<forall>ph\<in>set phs. p_filesz ph \<le> p_memsz ph" "j < length phs"
  shows "m_start (section_at m j) = ucast (p_paddr (phs ! j))"
    "section_bytes (section_at m j) = the (el_read f (p_offset (phs ! j)) (unat (p_filesz (phs ! j))))"
    "m_len (section_at m j) = 0 \<longleftrightarrow> p_filesz (phs ! j) = 0"
proof -
  let ?ph = "phs ! j" and ?off0 = "(length phs + 1) * SIZEOF_PTR"
  have kept: "kept False ph" for ph by (simp add: kept_def)
  note e = elfread_mem [OF assms(1,2)]
  have ph: "?ph \<in> set phs" using assms(4) by simp
  have "unat (p_memsz ?ph) \<le> elf_octets phs"
    using ph member_le_sum_list [of "SIZEOF_PTR + SIZEOF_ELFSECTION + unat (p_memsz ?ph)" "map (\<lambda>ph. SIZEOF_PTR + SIZEOF_ELFSECTION + unat (p_memsz ph)) phs"]
    unfolding elf_octets_def by fastforce
  then have small: "unat (p_memsz ?ph) < 2 ^ 32" using e by auto
  have "offs False ?off0 phs ! j \<noteq> end_off False ?off0 phs"
    using offs_range [OF assms(4), of ?off0 False] kept by simp
  then have r: "em_r m j = offs False ?off0 phs ! j" "em_hdr m (em_r m j) = hdr_of ?ph" "section_read f ?ph (em_data m (em_r m j))"
    using e kept assms(4) by auto
  note b = section_read_bytes [OF r(3) assms(3) [rule_format, OF ph] small]
  have "unat (ucast (p_filesz ?ph) :: u32) = unat (p_filesz ?ph)"
    using assms(3) small ph by (intro unat_ucast_u32_u64) (fastforce simp: word_le_nat_alt)
  then have "ucast (p_filesz ?ph) = (0 :: u32) \<longleftrightarrow> p_filesz ?ph = 0" by (metis unat_eq_0)
  then show "m_start (section_at m j) = ucast (p_paddr ?ph)"
    "section_bytes (section_at m j) = the (el_read f (p_offset ?ph) (unat (p_filesz ?ph)))"
    "m_len (section_at m j) = 0 \<longleftrightarrow> p_filesz ?ph = 0"
    using r(2) b by (simp_all add: section_at_def section_bytes_def hdr_of_def Let_def)
qed

lemma sections_of_headers:
  assumes "elfread False f m0 = Inr (entry, m)" "el_phdrs f = Some (map Some phs)" "\<forall>ph\<in>set phs. p_filesz ph \<le> p_memsz ph"
  shows "sections m = map (section_at m) (takeWhile (\<lambda>j. p_filesz (phs ! j) \<noteq> 0) [0..<length phs])"
proof -
  note e = elfread_mem [OF assms(1,2)]
  have sec: "em_section m = length phs" using e by (simp add: kept_def)
  have "\<not> m_len (section_at m (length phs)) \<noteq> 0"
    using e sec by (auto simp: section_at_def Let_def)
  then have "sections m = takeWhile (\<lambda>s. m_len s \<noteq> 0) (map (section_at m) [0..<length phs])"
    unfolding sections_def sec by (simp add: takeWhile_snoc)
  moreover have "takeWhile (\<lambda>j. m_len (section_at m j) \<noteq> 0) [0..<length phs] = takeWhile (\<lambda>j. p_filesz (phs ! j) \<noteq> 0) [0..<length phs]"
    using section_of_header(3) [OF assms] by (intro takeWhile_cong) auto
  ultimately show ?thesis by (simp add: takeWhile_map comp_def)
qed

text \<open>
  C12: the loader of the host sees the sections of the program.  If no header claims more bytes than memory,
  the sections are those of the headers in their order, with their addresses and the bytes at their place
  in the file, up to the first header that has no bytes: what comes after that is not seen.
\<close>
theorem host_elf_sections:
  assumes "elfread False f m0 = Inr (entry, m)" "el_phdrs f = Some (map Some phs)" "\<forall>ph\<in>set phs. p_filesz ph \<le> p_memsz ph"
  shows "map (\<lambda>s. (m_start s, section_bytes s)) (sections m)
    = map (\<lambda>ph. (ucast (p_paddr ph), the (el_read f (p_offset ph) (unat (p_filesz ph)))))
        (takeWhile (\<lambda>ph. p_filesz ph \<noteq> 0) phs)"
proof -
  let ?f = "\<lambda>ph. (ucast (p_paddr ph) :: u32, the (el_read f (p_offset ph) (unat (p_filesz ph))))"
  have "map (\<lambda>s. (m_start s, section_bytes s)) (sections m)
      = map (\<lambda>j. ?f (phs ! j)) (takeWhile (\<lambda>j. p_filesz (phs ! j) \<noteq> 0) [0..<length phs])"
    unfolding sections_of_headers [OF assms] using section_of_header(1,2) [OF assms] by (auto dest: set_takeWhileD)
  also have "\<dots> = map ?f (takeWhile (\<lambda>ph. p_filesz ph \<noteq> 0) (map ((!) phs) [0..<length phs]))"
    unfolding takeWhile_map by (simp add: comp_def)
  finally show ?thesis by (simp only: map_nth)
qed

text \<open>A file of three sections of four bytes each, the second of which is empty.\<close>

definition demo_phdr :: "u64 \<Rightarrow> u64 \<Rightarrow> elfphdr" where
  "demo_phdr a n = \<lparr>p_offset = a, p_paddr = 0x00200000 + a, p_filesz = n, p_memsz = 4\<rparr>"

definition demo_elf :: elf where
  "demo_elf = \<lparr>el_ready = True, el_kind = ELF_K_ELF, el_ehdr = Some (0xdad1, 0x00200000), el_class = ELFCLASS32, el_ident = True,
     el_phdrs = Some (map Some [demo_phdr 0 4, demo_phdr 4 0, demo_phdr 8 4]), el_read = (\<lambda>off n. Some (replicate n (ucast off)))\<rparr>"

definition demo_mem :: elfmem where
  "demo_mem = \<lparr>em_r = (\<lambda>_. 0), em_hdr = (\<lambda>_. (0, 0)), em_data = (\<lambda>_ _. 0), em_offset = 0, em_section = 0\<rparr>"

lemma demo_elf_reads: "\<exists>m. elfread sk demo_elf demo_mem = Inr (0x00200000, m)"
  by (cases sk) (simp_all add: elfread_def demo_elf_def demo_phdr_def demo_mem_def elf_octets_def elf_phdr_def read_section_def
      put_hdr_def SIZEOF_PTR_def SIZEOF_ELFSECTION_def Let_def)

lemma demo_phdrs: "el_phdrs demo_elf = Some (map Some [demo_phdr 0 4, demo_phdr 4 0, demo_phdr 8 4])"
  by (simp add: demo_elf_def)

lemma host_elf_sections_witness:
  "\<exists>m. elfread False demo_elf demo_mem = Inr (0x00200000, m) \<and> map (\<lambda>s. (m_start s, section_bytes s)) (sections m) = [(0x00200000, replicate 4 0)]"
proof -
  obtain m where m: "elfread False demo_elf demo_mem = Inr (0x00200000, m)" using demo_elf_reads by blast
  have "\<forall>ph\<in>set [demo_phdr 0 4, demo_phdr 4 0, demo_phdr 8 4]. p_filesz ph \<le> p_memsz ph" by (simp add: demo_phdr_def)
  from host_elf_sections [OF m demo_phdrs this] m show ?thesis
    by (auto simp: demo_phdr_def demo_elf_def)
qed

text \<open>
  The copy of the simulation loses a section.  Where the host's copy stops at an empty header, it means
  to go on; but the pointer of the skipped header stays, so the ones after it come one late, and the mark
  of the end is put on the last section.  Of a program with one empty header in the middle the callers see
  the sections before it and the ones after it, the first of these twice and the last not at all.
\<close>
lemma sim_elf_loses_last:
  assumes "elfread True f m0 = Inr (entry, m)" "el_phdrs f = Some (map Some (as @ e # bs))"
    "\<forall>ph\<in>set (as @ bs). snd (hdr_of ph) \<noteq> 0" "p_filesz e = 0" "bs \<noteq> []"
  shows "map (\<lambda>s. (m_start s, m_len s)) (sections m)
    = map hdr_of as @ (if length bs = 1 then [] else hdr_of (hd bs) # map hdr_of (butlast bs))"
proof -
  define phs where "phs = as @ e # bs"
  let ?off0 = "(length phs + 1) * SIZEOF_PTR" and ?la = "length as" and ?lb = "length bs"
  let ?o = "offs True ?off0 phs"
  note el = elfread_mem [OF assms(1) assms(2) [folded phs_def]]
  have "0 < ?lb" using assms(5) by simp
  have keep: "kept True ph" if "ph \<in> set (as @ bs)" for ph
  proof -
    have "snd (hdr_of ph) \<noteq> 0" using assms(3) that by blast
    then show ?thesis by (auto simp: kept_def hdr_of_def)
  qed
  have kj: "kept True (phs ! j)" if "j < length phs" "j \<noteq> ?la" for j
  proof -
    have "phs ! j \<in> set (as @ bs)" using that by (auto simp: phs_def nth_append nth_Cons')
    then show ?thesis by (rule keep)
  qed
  have nk: "\<not> kept True e" using assms(4) by (simp add: kept_def)
  have "filter (kept True) as = as" "filter (kept True) bs = bs" using keep by (auto simp: filter_id_conv)
  then have sec: "em_section m = ?la + ?lb" using el nk by (simp add: phs_def)
  have twice: "?o ! ?la = ?o ! (?la + 1)"
    using nk \<open>0 < ?lb\<close> by (cases bs) (simp_all add: phs_def offs_append nth_append next_off_def)
  have r: "em_r m j = ?o ! j" if "j \<le> ?la + ?lb" for j using el that by (simp add: phs_def)
  have last: "em_hdr m (?o ! (?la + ?lb)) = (0, 0)" using el r [of "?la + ?lb"] sec by auto
  have hdr: "em_hdr m (?o ! j) = hdr_of (phs ! j)" if "j < ?la + ?lb" "j \<noteq> ?la" for j
  proof -
    have "?o ! j < ?o ! (?la + ?lb)" using that kj [of j] by (intro offs_increase) (simp_all add: phs_def)
    then show ?thesis using el r [of "?la + ?lb"] sec kj [of j] that by (auto simp: phs_def)
  qed
  let ?h = "\<lambda>s. (m_start s, m_len s)"
  have at: "?h (section_at m j) = em_hdr m (?o ! j)" if "j \<le> ?la + ?lb" for j
    using r [OF that] by (simp add: section_at_def Let_def)
  have as: "map (\<lambda>j. em_hdr m (?o ! j)) [0..<?la] = map hdr_of as"
    using hdr by (intro nth_equalityI) (simp_all add: phs_def nth_append)
  have bs: "map (\<lambda>j. em_hdr m (?o ! (?la + 1 + j))) [0..<?lb - 1] = map hdr_of (butlast bs)"
    using hdr by (intro nth_equalityI) (simp_all add: phs_def nth_append nth_butlast)
  have mid: "em_hdr m (?o ! ?la) = (if ?lb = 1 then (0, 0) else hdr_of (hd bs))"
    using last hdr [of "?la + 1"] twice \<open>0 < ?lb\<close> by (cases bs) (auto simp: phs_def nth_append)
  have "map ?h (sections m) = takeWhile (\<lambda>h. snd h \<noteq> 0) (map (\<lambda>j. em_hdr m (?o ! j)) [0..<?la + ?lb + 1])"
  proof -
    have "map ?h (sections m) = takeWhile (\<lambda>h. snd h \<noteq> 0) (map (\<lambda>j. ?h (section_at m j)) [0..<?la + ?lb + 1])"
      unfolding sections_def sec by (simp only: takeWhile_map map_map comp_def snd_conv)
    also have "map (\<lambda>j. ?h (section_at m j)) [0..<?la + ?lb + 1] = map (\<lambda>j. em_hdr m (?o ! j)) [0..<?la + ?lb + 1]"
      using at by simp
    finally show ?thesis .
  qed
  also have "[0..<?la + ?lb + 1] = [0..<?la] @ ?la # map (\<lambda>j. ?la + 1 + j) [0..<?lb - 1] @ [?la + ?lb]"
    using \<open>0 < ?lb\<close> by (intro nth_equalityI) (auto simp: nth_append nth_Cons')
  also have "map (\<lambda>j. em_hdr m (?o ! j)) ([0..<?la] @ ?la # map (\<lambda>j. ?la + 1 + j) [0..<?lb - 1] @ [?la + ?lb])
      = map hdr_of as @ (if ?lb = 1 then (0, 0) else hdr_of (hd bs)) # map hdr_of (butlast bs) @ [(0, 0)]"
    unfolding map_append list.map map_map comp_def as bs mid last ..
  finally have "map ?h (sections m)
    = map hdr_of as @ takeWhile (\<lambda>h. snd h \<noteq> 0) ((if ?lb = 1 then (0, 0) else hdr_of (hd bs)) # map hdr_of (butlast bs) @ [(0, 0)])"
    using assms(3) by (subst (asm) takeWhile_append2) auto
  moreover have "takeWhile (\<lambda>h. snd h \<noteq> 0) (map hdr_of (butlast bs) @ [(0, 0)]) = map hdr_of (butlast bs)"
    using assms(3) by (subst takeWhile_append2) (auto dest: in_set_butlastD)
  ultimately show ?thesis using assms(3,5) by simp
qed

lemma sim_elf_loses_last_witness:
  "\<exists>m. elfread True demo_elf demo_mem = Inr (0x00200000, m) \<and> map (\<lambda>s. (m_start s, m_len s)) (sections m) = [(0x00200000, 4)]"
proof -
  obtain m where m: "elfread True demo_elf demo_mem = Inr (0x00200000, m)" using demo_elf_reads by blast
  have "el_phdrs demo_elf = Some (map Some ([demo_phdr 0 4] @ demo_phdr 4 0 # [demo_phdr 8 4]))" by (simp add: demo_phdrs)
  from sim_elf_loses_last [OF m this] m show ?thesis
    by (auto simp: demo_phdr_def hdr_of_def)
qed

end
