(* ===== verification/Run.thy ===== *)
theory Run
  imports DevBus RegDefs Text
begin

text \<open>
  What the programs of \<^verbatim>\<open>sw/host\<close> share: how a program ends, calls of the bus from it, and the loop over the
  command line that each of them has.
\<close>

section \<open>The program's ends\<close>

text \<open>An exception of the bus code that is not caught, a call of \<^verbatim>\<open>exit\<close>, or undefined behaviour.\<close>

datatype stop = Thrown exn | Exit int | Faulty fault

type_synonym ('b, 'a) run = "'b \<Rightarrow> (stop + 'a) \<times> 'b"

definition call :: "('b, 'a) io \<Rightarrow> ('b, 'a) run" where
  "call m = (\<lambda>s. case m s of (Inl e, s) \<Rightarrow> (Inl (Thrown e), s) | (Inr x, s) \<Rightarrow> (Inr x, s))"

definition catch_buserr :: "('b, 'a) run \<Rightarrow> ('b, 'a) run \<Rightarrow> ('b, 'a) run" where
  "catch_buserr m h = (\<lambda>s. case m s of (Inl (Thrown (BUSERR a)), s) \<Rightarrow> h s | r \<Rightarrow> r)"

definition EXIT_SUCCESS :: int where "EXIT_SUCCESS = 0"
definition EXIT_FAILURE :: int where "EXIT_FAILURE = 1"

section \<open>Programs that come to an end\<close>

text \<open>Like \<open>comes_back\<close>, for a program with exits.\<close>

definition run_keeps :: "bool \<Rightarrow> ('b \<Rightarrow> nat) \<Rightarrow> nat \<Rightarrow> ('b, 'a) run \<Rightarrow> bool" where
  "run_keeps sure traffic N m \<longleftrightarrow>
     (\<forall>s r s'. traffic s \<le> N \<longrightarrow> m s = (r, s') \<longrightarrow>
        traffic s' \<le> traffic s \<and> r \<noteq> Inl (Thrown Out_of_Fuel) \<and> (sure \<longrightarrow> r \<noteq> Inl (Thrown Client_Assert)))"

lemma run_keepsD:
  "run_keeps sure traffic N m \<Longrightarrow> m s = (r, s') \<Longrightarrow> traffic s \<le> N \<Longrightarrow>
   traffic s' \<le> traffic s \<and> r \<noteq> Inl (Thrown Out_of_Fuel) \<and> (sure \<longrightarrow> r \<noteq> Inl (Thrown Client_Assert))"
  by (simp add: run_keeps_def)

lemma run_keeps_call: "comes_back sure traffic N m \<Longrightarrow> run_keeps sure traffic N (call m)"
  by (auto simp: run_keeps_def call_def dest: comes_backD split: prod.splits sum.splits)

lemma run_keeps_ret: "run_keeps sure traffic N (ret x)"
  by (simp add: run_keeps_def)

lemma run_keeps_throw: "(\<And>e. x \<noteq> Thrown e) \<Longrightarrow> run_keeps sure traffic N (throw x)"
  by (simp add: run_keeps_def)

lemma run_keeps_seq:
  assumes "run_keeps sure traffic N m" "\<And>x. run_keeps sure traffic N (f x)"
  shows "run_keeps sure traffic N (seq m f)"
  unfolding run_keeps_def
proof (intro allI impI)
  fix s r s' assume s: "traffic s \<le> N" and run: "seq m f s = (r, s')"
  obtain r1 s1 where 1: "m s = (r1, s1)" by force
  have k: "traffic s1 \<le> traffic s \<and> r1 \<noteq> Inl (Thrown Out_of_Fuel) \<and> (sure \<longrightarrow> r1 \<noteq> Inl (Thrown Client_Assert))"
    using run_keepsD [OF assms(1) 1 s] .
  show "traffic s' \<le> traffic s \<and> r \<noteq> Inl (Thrown Out_of_Fuel) \<and> (sure \<longrightarrow> r \<noteq> Inl (Thrown Client_Assert))"
  proof (cases r1)
    case (Inl e)
    then show ?thesis using run 1 k by (auto simp: seq_def)
  next
    case (Inr x)
    then have "f x s1 = (r, s')" using run 1 by (simp add: seq_def)
    then show ?thesis using run_keepsD [OF assms(2), of x s1 r s'] k s by simp
  qed
qed

lemma run_keeps_catch:
  assumes "run_keeps sure traffic N m" "run_keeps sure traffic N h"
  shows "run_keeps sure traffic N (catch_buserr m h)"
  unfolding run_keeps_def
proof (intro allI impI)
  fix s r s' assume s: "traffic s \<le> N" and run: "catch_buserr m h s = (r, s')"
  obtain r1 s1 where 1: "m s = (r1, s1)" by force
  have k: "traffic s1 \<le> traffic s \<and> r1 \<noteq> Inl (Thrown Out_of_Fuel) \<and> (sure \<longrightarrow> r1 \<noteq> Inl (Thrown Client_Assert))"
    using run_keepsD [OF assms(1) 1 s] .
  have "(r, s') = (r1, s1) \<or> h s1 = (r, s')"
    using run 1 by (auto simp: catch_buserr_def split: sum.splits stop.splits exn.splits)
  then show "traffic s' \<le> traffic s \<and> r \<noteq> Inl (Thrown Out_of_Fuel) \<and> (sure \<longrightarrow> r \<noteq> Inl (Thrown Client_Assert))"
    using k run_keepsD [OF assms(2), of s1 r s'] s by auto
qed

lemma run_keeps_iter: "(\<And>x. run_keeps sure traffic N (f x)) \<Longrightarrow> run_keeps sure traffic N (iter f xs)"
  by (induction xs) (auto intro: run_keeps_seq run_keeps_ret)

lemma run_keeps_if: "(c \<Longrightarrow> run_keeps sure traffic N m) \<Longrightarrow> (\<not> c \<Longrightarrow> run_keeps sure traffic N m') \<Longrightarrow> run_keeps sure traffic N (if c then m else m')"
  by simp

lemmas run_keeps_intros = run_keeps_if run_keeps_seq run_keeps_ret run_keeps_call run_keeps_catch run_keeps_iter

section \<open>The command line\<close>

text \<open>
  The loop over the arguments, the same in \<^verbatim>\<open>zipload\<close>, \<^verbatim>\<open>zipdbg\<close>, \<^verbatim>\<open>zipstate\<close> and \<^verbatim>\<open>wbregs\<close> but for the
  letters of the options.  \<open>cl_opts\<close> collects the options with their arguments, the last one first.  An option
  that has an argument moves \<^verbatim>\<open>skp\<close> and \<^verbatim>\<open>argn\<close> twice; a name that is not an option is stored at
  \<^verbatim>\<open>argv[argn]\<close>.
\<close>

datatype optkind = Flag | Value | Help

record cmdline =
  cl_argv :: "string list"
  cl_skp :: int
  cl_argn :: int
  cl_opts :: "(char \<times> string) list"

definition skip_arg :: "cmdline \<Rightarrow> cmdline" where
  "skip_arg z = z\<lparr>cl_skp := cl_skp z + 1, cl_argn := cl_argn z - 1\<rparr>"

definition arg_step :: "(char \<Rightarrow> optkind option) \<Rightarrow> int \<Rightarrow> cmdline \<Rightarrow> stop + cmdline" where
  "arg_step kinds bad z =
     (let pos = cl_argn z + cl_skp z; arg = cl_argv z ! nat pos; c = char_at arg 1
      in if char_at arg 0 = CHR ''-'' then
           map_sum id skip_arg
             (case kinds c of
                None \<Rightarrow> Inl (Exit bad)
              | Some Help \<Rightarrow> Inl (Exit EXIT_SUCCESS)
              | Some Flag \<Rightarrow> Inr (z\<lparr>cl_opts := (c, []) # cl_opts z\<rparr>)
              | Some Value \<Rightarrow>
                  if pos + 1 \<ge> int (length (cl_argv z)) then Inl (Exit EXIT_SUCCESS)
                  else Inr (skip_arg (z\<lparr>cl_opts := (c, cl_argv z ! nat (pos + 1)) # cl_opts z\<rparr>)))
         else if cl_argn z < 0 then Inl (Faulty Undefined)
         else Inr (z\<lparr>cl_argv := (cl_argv z)[nat (cl_argn z) := arg]\<rparr>))"

lemma arg_step_pos:
  "arg_step kinds bad z = Inr z' \<Longrightarrow>
   cl_argn z' + cl_skp z' = cl_argn z + cl_skp z \<and> length (cl_argv z') = length (cl_argv z)"
  by (auto simp: arg_step_def skip_arg_def Let_def split: if_splits option.splits optkind.splits)

function arg_loop :: "(char \<Rightarrow> optkind option) \<Rightarrow> int \<Rightarrow> cmdline \<Rightarrow> stop + cmdline" where
  "arg_loop kinds bad z =
     (if cl_argn z < int (length (cl_argv z)) - cl_skp z then
        case arg_step kinds bad z of
          Inl e \<Rightarrow> Inl e | Inr z \<Rightarrow> arg_loop kinds bad (z\<lparr>cl_argn := cl_argn z + 1\<rparr>)
      else Inr z)"
  by pat_completeness auto
termination
  by (relation "measure (\<lambda>(_, _, z). nat (int (length (cl_argv z)) - cl_skp z - cl_argn z))") (auto dest!: arg_step_pos)

declare arg_loop.simps [simp del]

definition args_init :: "string list \<Rightarrow> cmdline" where
  "args_init argv = \<lparr>cl_argv = argv, cl_skp = 1, cl_argn = 0, cl_opts = []\<rparr>"

text \<open>The names that are left, and the argument an option was last given.\<close>

definition args_names :: "cmdline \<Rightarrow> string list" where
  "args_names z = take (nat (int (length (cl_argv z)) - cl_skp z)) (cl_argv z)"

definition opt_value :: "cmdline \<Rightarrow> char \<Rightarrow> string option" where
  "opt_value z c = map_of (cl_opts z) c"

lemma arg_step_no_throw: "arg_step kinds bad z \<noteq> Inl (Thrown x)"
  by (auto simp: arg_step_def Let_def split: if_splits option.splits optkind.splits)

lemma arg_loop_no_throw: "arg_loop kinds bad z \<noteq> Inl (Thrown x)"
proof (induction kinds bad z rule: arg_loop.induct)
  case (1 kinds bad z)
  then show ?case
    using arg_step_no_throw [of kinds bad z] by (subst arg_loop.simps) (auto split: sum.split)
qed

text \<open>An option with an argument before the first name: the argument is taken for a name and stored in front of the array.\<close>

lemma value_option_faults:
  assumes "char_at opt 0 = CHR ''-''" "kinds (char_at opt 1) = Some Value" "char_at v 0 \<noteq> CHR ''-''"
  shows "arg_loop kinds bad (args_init (prog # opt # v # rest)) = Inl (Faulty Undefined)"
proof -
  let ?z = "\<lparr>cl_argv = prog # opt # v # rest, cl_skp = 3, cl_argn = - 1, cl_opts = [(char_at opt 1, v)]\<rparr>"
  have 2: "arg_loop kinds bad ?z = Inl (Faulty Undefined)"
    using assms(3) by (subst arg_loop.simps) (simp add: arg_step_def numeral_2_eq_2)
  show ?thesis
    using 2 assms(1,2) by (subst arg_loop.simps) (simp add: arg_step_def args_init_def skip_arg_def Let_def numeral_2_eq_2)
qed

end
