(* ===== verification/ZipLoad.thy ===== *)
theory ZipLoad
  imports ZipElf FlashDrvr Run
begin

text \<open>
  The program loader of the host, \<^verbatim>\<open>sw/host/zipload.cpp\<close>, from its command line to the start of the CPU.  It
  brings together the file reader, the bus and the flash programmer.  The macros that the generated
  \<^verbatim>\<open>design.h\<close> may define are the record \<open>design\<close>, what the file system says of the files the record \<open>files\<close>.
  Messages are left out.
\<close>

record design =
  BKRAM_ACCESS :: bool
  FLASH_ACCESS :: bool

record files =
  fs_bytes :: "string \<Rightarrow> u8 list option"
  fs_readable :: "string \<Rightarrow> bool"
  fs_elf :: "string \<Rightarrow> elf"

section \<open>The command line\<close>

definition zl_kinds :: "char \<Rightarrow> optkind option" where
  "zl_kinds c =
     (if c = CHR ''h'' then Some Help
      else if c = CHR ''n'' \<or> c = CHR ''p'' then Some Value
      else if c = CHR ''r'' \<or> c = CHR ''v'' then Some Flag
      else None)"

definition zl_args :: "string list \<Rightarrow> stop + cmdline" where
  "zl_args argv = arg_loop zl_kinds EXIT_FAILURE (args_init argv)"

text \<open>The names that are left name an executable and up to two bit files.\<close>

fun zl_classify :: "files \<Rightarrow> string list \<Rightarrow> string option \<times> string option \<times> string option \<Rightarrow>
    stop + string option \<times> string option \<times> string option" where
  "zl_classify fs [] r = Inr r"
| "zl_classify fs (f # names) (exec, bitf, altf) =
     (if iself (fs_bytes fs f) then
        (if exec \<noteq> None then Inl (Exit EXIT_FAILURE) else zl_classify fs names (Some f, bitf, altf))
      else if bitf = None then zl_classify fs names (exec, Some f, altf)
      else if altf = None then zl_classify fs names (exec, bitf, Some f)
      else Inl (Exit EXIT_FAILURE))"

definition zl_access :: "files \<Rightarrow> string option \<times> string option \<times> string option \<Rightarrow> bool" where
  "zl_access fs = (\<lambda>(exec, bitf, altf).
     \<not> (exec = None \<and> bitf = None)
     \<and> (\<forall>f\<in>set_option bitf. fs_readable fs f) \<and> (\<forall>f\<in>set_option altf. fs_readable fs f) \<and> (\<forall>f\<in>set_option exec. fs_readable fs f))"

section \<open>Loading\<close>

definition in_bkram :: "elfsection \<Rightarrow> bool" where
  "in_bkram s \<longleftrightarrow> BKRAMBASE \<le> m_start s \<and> m_start s + m_len s \<le> BKRAMBASE + BKRAMLEN"

definition in_flash :: "elfsection \<Rightarrow> bool" where
  "in_flash s \<longleftrightarrow> FLASHBASE \<le> m_start s \<and> m_start s + m_len s \<le> FLASHBASE + FLASHLEN"

definition valid_section :: "design \<Rightarrow> elfsection \<Rightarrow> bool" where
  "valid_section d s \<longleftrightarrow> BKRAM_ACCESS d \<and> in_bkram s
     \<or> FLASH_ACCESS d \<and> RESET_ADDRESS \<le> m_start s \<and> m_start s + m_len s \<le> FLASHBASE + FLASHLEN"

text \<open>The words of a section as the host reads them from memory, swapped.\<close>

definition le_word :: "u8 \<Rightarrow> u8 \<Rightarrow> u8 \<Rightarrow> u8 \<Rightarrow> u32" where
  "le_word b0 b1 b2 b3 = ucast b0 OR push_bit 8 (ucast b1) OR push_bit 16 (ucast b2) OR push_bit 24 (ucast b3)"

definition section_words :: "elfsection \<Rightarrow> u32 list" where
  "section_words s =
     (let ln = (m_len s + 3) AND (- 4); n = unat (drop_bit 2 ln)
      in byteswapbuf n (map (\<lambda>k. le_word (m_data s (4 * k)) (m_data s (4 * k + 1)) (m_data s (4 * k + 2)) (m_data s (4 * k + 3))) [0..<n]))"

text \<open>The image of the flash: a buffer as long as the flash, and the part of it that is to be written.\<close>

record image =
  startaddr :: u32
  codelen :: u32
  fbuf :: "nat \<Rightarrow> u8"

definition new_image :: image where
  "new_image = \<lparr>startaddr = RESET_ADDRESS, codelen = 0, fbuf = (\<lambda>_. 0xff)\<rparr>"

definition flash_section :: "elfsection \<Rightarrow> image \<Rightarrow> image" where
  "flash_section s im =
     (let im = (if m_start s < startaddr im
                then im\<lparr>codelen := codelen im + (startaddr im - m_start s), startaddr := m_start s\<rparr> else im);
          im = (if m_start s + m_len s > startaddr im + codelen im
                then im\<lparr>codelen := m_start s + m_len s - startaddr im\<rparr> else im);
          off = unat (m_start s - FLASHBASE)
      in im\<lparr>fbuf := (\<lambda>i. if off \<le> i \<and> i < off + unat (m_len s) then m_data s (i - off) else fbuf im i)\<rparr>)"

definition load_section :: "design \<Rightarrow> 'b devbus \<Rightarrow> elfsection \<Rightarrow> image \<Rightarrow> ('b, image) run" where
  "load_section d bus s im =
     (if BKRAM_ACCESS d \<and> in_bkram s then seq (call (dv_writei bus (m_start s) (section_words s))) (\<lambda>_. ret im)
      else if FLASH_ACCESS d \<and> in_flash s then
        (if unat (m_start s - FLASHBASE) + unat (m_len s) \<le> unat FLASHLEN then ret (flash_section s im)
         else throw (Faulty Undefined))
      else ret im)"

primrec load_sections :: "design \<Rightarrow> 'b devbus \<Rightarrow> elfsection list \<Rightarrow> image \<Rightarrow> ('b, image) run" where
  "load_sections d bus [] im = ret im"
| "load_sections d bus (s # ss) im = seq (load_section d bus s im) (load_sections d bus ss)"

definition zip_ctrl :: "'b devbus \<Rightarrow> u32 \<Rightarrow> ('b, unit) run" where
  "zip_ctrl bus v = call (dv_writeio bus R_ZIPCTRL v)"

definition zip_data :: "'b devbus \<Rightarrow> u32 \<Rightarrow> ('b, unit) run" where
  "zip_data bus v = call (dv_writeio bus R_ZIPDATA v)"

definition start_cpu :: "'b devbus \<Rightarrow> u32 \<Rightarrow> bool \<Rightarrow> ('b, unit) run" where
  "start_cpu bus entry start =
     seq (iter (\<lambda>i. seq (zip_ctrl bus (CPU_HALT OR of_nat i)) (\<lambda>_. zip_data bus 0)) [0..<32]) (\<lambda>_.
     seq (zip_ctrl bus (CPU_HALT OR CPU_CLRCACHE)) (\<lambda>_.
     seq (zip_ctrl bus (CPU_HALT OR CPU_sPC)) (\<lambda>_.
     seq (zip_data bus entry) (\<lambda>_.
       if start then zip_ctrl bus (CPU_GO OR CPU_sPC) else ret ()))))"

definition write_image :: "design \<Rightarrow> 'b devbus \<Rightarrow> nat \<Rightarrow> indeterminate \<Rightarrow> image \<Rightarrow> ('b, unit) run" where
  "write_image d bus polls junk im =
     (if FLASH_ACCESS d \<and> codelen im > 0 then
        seq (call (flash_write bus polls junk (startaddr im) (codelen im)
                (\<lambda>i. fbuf im (unat (startaddr im - FLASHBASE) + i)) True))
          (\<lambda>ok. if ok then ret () else throw (Exit EXIT_FAILURE))
      else ret ())"

text \<open>The part of \<^verbatim>\<open>main\<close> inside its \<^verbatim>\<open>try\<close>; \<open>m0\<close> is what the memory of the sections holds before.\<close>

definition load_program :: "design \<Rightarrow> files \<Rightarrow> elfmem \<Rightarrow> 'b devbus \<Rightarrow> nat \<Rightarrow> indeterminate \<Rightarrow> string \<Rightarrow> bool \<Rightarrow> ('b, unit) run" where
  "load_program d fs m0 bus polls junk codef start =
     (if \<not> iself (fs_bytes fs codef) then throw (Exit EXIT_FAILURE)
      else case elfread False (fs_elf fs codef) m0 of
             Inl Exited \<Rightarrow> throw (Exit EXIT_FAILURE)
           | Inl e \<Rightarrow> throw (Faulty e)
           | Inr (entry, m) \<Rightarrow>
               if \<not> list_all (valid_section d) (sections m) then throw (Exit EXIT_FAILURE)
               else
                 seq (load_sections d bus (sections m) new_image) (\<lambda>im.
                 seq (write_image d bus polls junk im) (\<lambda>_.
                 seq (call (dv_readio bus R_VERSION)) (\<lambda>_.
                 start_cpu bus entry start))))"

definition talk_to_board :: "'b devbus \<Rightarrow> ('b, unit) run" where
  "talk_to_board bus =
     seq (catch_buserr
            (seq (call (dv_readio bus R_VERSION)) (\<lambda>v. if v < 0x20170000 then throw (Exit EXIT_FAILURE) else ret ()))
            (throw (Exit EXIT_FAILURE)))
       (\<lambda>_. catch_buserr (zip_ctrl bus (CPU_HALT OR CPU_RESET)) (throw (Exit EXIT_FAILURE)))"

definition zipload_main :: "design \<Rightarrow> files \<Rightarrow> elfmem \<Rightarrow> 'b devbus \<Rightarrow> nat \<Rightarrow> indeterminate \<Rightarrow> string list \<Rightarrow> ('b, int) run" where
  "zipload_main d fs m0 bus polls junk argv =
     (if length argv < 2 then throw (Exit EXIT_SUCCESS)
      else case zl_args argv of Inl e \<Rightarrow> throw e
      | Inr z \<Rightarrow>
          (case zl_classify fs (args_names z) (None, None, None) of Inl e \<Rightarrow> throw e
           | Inr names \<Rightarrow>
               if \<not> zl_access fs names then throw (Exit EXIT_FAILURE)
               else
                 seq (talk_to_board bus) (\<lambda>_.
                 seq (case args_names z of [] \<Rightarrow> ret ()
                      | codef # _ \<Rightarrow> catch_buserr (load_program d fs m0 bus polls junk codef (opt_value z (CHR ''r'') \<noteq> None)) (throw (Exit (-2)))) (\<lambda>_.
                 seq (call (dv_readio bus R_ZIPCTRL)) (\<lambda>_. ret EXIT_SUCCESS)))))"

section \<open>The command line faults\<close>

text \<open>
  The options for the host and the port corrupt the loader's own memory.  When one of them comes before
  the file, \<^verbatim>\<open>argn\<close> is moved back twice, and the option's argument is taken for a file name and stored in
  front of the array of arguments.  Nothing has been sent to the board by then.
\<close>
lemma zipload_host_option_faults:
  assumes "opt \<in> {''-n'', ''-p''}" "char_at v 0 \<noteq> CHR ''-''"
  shows "zipload_main d fs m0 bus polls junk (prog # opt # v # rest) b = (Inl (Faulty Undefined), b)"
proof -
  have "arg_loop zl_kinds EXIT_FAILURE (args_init (prog # opt # v # rest)) = Inl (Faulty Undefined)"
    using assms by (intro value_option_faults) (auto simp: char_at_def zl_kinds_def)
  then show ?thesis by (simp add: zipload_main_def zl_args_def)
qed

section \<open>The image of the flash\<close>

text \<open>The sections that go to the flash, and the byte at place \<open>i\<close> of the flash: that of the last one that has it.\<close>

definition to_flash :: "design \<Rightarrow> elfsection \<Rightarrow> bool" where
  "to_flash d s \<longleftrightarrow> FLASH_ACCESS d \<and> \<not> (BKRAM_ACCESS d \<and> in_bkram s) \<and> in_flash s"

definition flash_off :: "elfsection \<Rightarrow> nat" where
  "flash_off s = unat (m_start s - FLASHBASE)"

definition flash_byte :: "elfsection list \<Rightarrow> nat \<Rightarrow> u8" where
  "flash_byte ss i =
     (case find (\<lambda>s. flash_off s \<le> i \<and> i < flash_off s + unat (m_len s)) (rev ss) of
        None \<Rightarrow> 0xff | Some s \<Rightarrow> m_data s (i - flash_off s))"

lemma flash_byte_snoc:
  "flash_byte (ss @ [s]) i
    = (if flash_off s \<le> i \<and> i < flash_off s + unat (m_len s) then m_data s (i - flash_off s) else flash_byte ss i)"
  by (simp add: flash_byte_def)

definition image_of :: "elfsection list \<Rightarrow> image \<Rightarrow> bool" where
  "image_of ss im \<longleftrightarrow> startaddr im = FLASHBASE \<and> fbuf im = flash_byte ss \<and> codelen im \<le> FLASHLEN
     \<and> (\<forall>s\<in>set ss. flash_off s + unat (m_len s) \<le> unat (codelen im))"

lemma flash_section_image:
  assumes "image_of ss im" "FLASHBASE \<le> m_start s" "unat (m_start s - FLASHBASE) + unat (m_len s) \<le> unat FLASHLEN"
  shows "image_of (ss @ [s]) (flash_section s im)"
proof -
  have start: "startaddr im = FLASHBASE" "\<not> m_start s < startaddr im" using assms(1,2) by (simp_all add: image_of_def)
  have off: "unat (m_start s) = 0x200000 + flash_off s"
    using assms(2) by (simp add: flash_off_def unat_sub FLASHBASE_def word_le_nat_alt)
  have fit: "flash_off s + unat (m_len s) \<le> 0x80000" using assms(3) by (simp add: flash_off_def FLASHLEN_def)
  then have end_: "unat (m_start s + m_len s) = 0x200000 + (flash_off s + unat (m_len s))"
    unfolding unat_add_u32 off by simp
  have cl: "unat (codelen im) \<le> 0x80000" using assms(1) by (simp add: image_of_def FLASHLEN_def word_le_nat_alt)
  then have lim: "unat (FLASHBASE + codelen im) = 0x200000 + unat (codelen im)"
    unfolding unat_add_u32 by (simp add: FLASHBASE_def)
  have new: "unat (m_start s + m_len s - FLASHBASE) = flash_off s + unat (m_len s)"
    using end_ by (subst unat_sub) (simp_all add: word_le_nat_alt FLASHBASE_def)
  show ?thesis
  proof (cases "FLASHBASE + codelen im < m_start s + m_len s")
    case True
    then have "unat (codelen im) < flash_off s + unat (m_len s)" unfolding word_less_nat_alt lim end_ by simp
    then show ?thesis
      using True assms(1) start new fit
      by (auto simp: flash_section_def image_of_def Let_def fun_eq_iff flash_byte_snoc flash_off_def [symmetric] word_le_nat_alt FLASHLEN_def
          intro: order.trans)
  next
    case False
    then have "flash_off s + unat (m_len s) \<le> unat (codelen im)" unfolding word_less_nat_alt lim end_ by simp
    then show ?thesis
      using False assms(1) start
      by (auto simp: flash_section_def image_of_def Let_def fun_eq_iff flash_byte_snoc flash_off_def [symmetric])
  qed
qed

lemma load_section_image:
  assumes "image_of pre im" "load_section d bus s im b = (Inr im', b')"
  shows "image_of (pre @ filter (to_flash d) [s]) im'"
  using assms flash_section_image [OF assms(1), of s]
  by (auto simp: load_section_def to_flash_def in_flash_def seq_def split: if_splits prod.splits sum.splits)

lemma load_sections_image:
  assumes "image_of pre im" "load_sections d bus ss im b = (Inr im', b')"
  shows "image_of (pre @ filter (to_flash d) ss) im'"
  using assms
proof (induction ss arbitrary: pre im b)
  case (Cons s ss)
  obtain im1 b1 where 1: "load_section d bus s im b = (Inr im1, b1)" "load_sections d bus ss im1 b1 = (Inr im', b')"
    using Cons.prems(2) by (auto elim: seq_InrE)
  show ?case using Cons.IH [OF load_section_image [OF Cons.prems(1) 1(1)] 1(2)] by (cases "to_flash d s") simp_all
qed simp

text \<open>
  C11: the image that is sent to the flash is that of the program.  When the sections have been gone through,
  every byte of the buffer is that of the last section that has it and the others are ones; and the part
  that is then written starts at the base of the flash, takes in every section that belongs there, and
  does not go beyond the end of the flash.
\<close>
theorem zipload_image:
  assumes "load_sections d bus ss new_image b = (Inr im, b')"
  shows "fbuf im = flash_byte (filter (to_flash d) ss) \<and> startaddr im = FLASHBASE \<and> codelen im \<le> FLASHLEN
    \<and> (\<forall>s\<in>set (filter (to_flash d) ss). flash_off s + unat (m_len s) \<le> unat (codelen im))"
proof -
  have "image_of [] new_image"
    by (simp add: image_of_def new_image_def flash_byte_def RESET_ADDRESS_def FLASHBASE_def fun_eq_iff)
  from load_sections_image [OF this assms] show ?thesis by (simp add: image_of_def)
qed

definition demo_section :: "u32 \<Rightarrow> u8 \<Rightarrow> elfsection" where
  "demo_section a v = \<lparr>m_start = a, m_len = 4, m_data = (\<lambda>_. v)\<rparr>"

lemma zipload_image_witness:
  "\<exists>im. load_sections \<lparr>BKRAM_ACCESS = True, FLASH_ACCESS = True\<rparr> undefined [demo_section 0x200100 7, demo_section 0x200102 9] new_image () = (Inr im, ())
     \<and> fbuf im 0x101 = 7 \<and> fbuf im 0x102 = 9 \<and> fbuf im 0x106 = 0xff \<and> 0x106 \<le> unat (codelen im)"
proof -
  let ?d = "\<lparr>BKRAM_ACCESS = True, FLASH_ACCESS = True\<rparr>" and ?ss = "[demo_section 0x200100 7, demo_section 0x200102 9]"
  have fl: "to_flash ?d s \<and> load_section ?d bus s im () = (Inr (flash_section s im), ())" if "s \<in> set ?ss" for s im and bus :: "unit devbus"
    using that by (auto simp: demo_section_def to_flash_def load_section_def in_flash_def in_bkram_def BKRAMBASE_def BKRAMLEN_def FLASHBASE_def FLASHLEN_def)
  then obtain im where im: "load_sections ?d undefined ?ss new_image () = (Inr im, ())" by (simp add: seq_def)
  have "filter (to_flash ?d) ?ss = ?ss" using fl by simp
  with zipload_image [OF im] im show ?thesis
    by (auto simp: flash_byte_def flash_off_def demo_section_def FLASHBASE_def)
qed

lemma zipload_host_option_faults_witness:
  "zipload_main \<lparr>BKRAM_ACCESS = True, FLASH_ACCESS = True\<rparr> (undefined :: files) demo_mem (undefined :: unit devbus) 1 demo_junk
     [''zipload'', ''-n'', ''board'', ''prog''] () = (Inl (Faulty Undefined), ())"
  by (rule zipload_host_option_faults) (simp_all add: char_at_def)

section \<open>The loader comes to an end\<close>

lemma zl_classify_no_throw: "zl_classify fs names r \<noteq> Inl (Thrown x)"
  by (induction fs names r rule: zl_classify.induct) auto

context devbus_client
begin

lemma load_sections_keeps: "run_keeps sure traffic N (load_sections d bus ss im)"
proof (induction ss arbitrary: im)
  case (Cons s ss)
  then show ?case
    by (auto simp: load_section_def intro!: run_keeps_intros run_keeps_throw keeps_comes_back [OF writei_keeps])
qed (simp add: run_keeps_ret)

lemma start_cpu_keeps: "run_keeps sure traffic N (start_cpu bus entry start)"
  unfolding start_cpu_def zip_ctrl_def zip_data_def by (intro run_keeps_intros keeps_comes_back [OF writeio_keeps])

lemma load_program_keeps:
  assumes "N < polls" "sure \<Longrightarrow> \<forall>l p. inner_len junk l p = l"
  shows "run_keeps sure traffic N (load_program d fs m0 bus polls junk codef start)"
proof -
  have "run_keeps sure traffic N (write_image d bus polls junk im)" for im
    unfolding write_image_def by (intro run_keeps_intros run_keeps_throw flash_write_comes_back assms) simp_all
  then show ?thesis
    unfolding load_program_def
    by (auto split: sum.split fault.split prod.split
        intro!: run_keeps_intros run_keeps_throw load_sections_keeps start_cpu_keeps keeps_comes_back [OF readio_keeps])
qed

lemma zipload_keeps:
  assumes "N < polls" "sure \<Longrightarrow> \<forall>l p. inner_len junk l p = l"
  shows "run_keeps sure traffic N (zipload_main d fs m0 bus polls junk argv)"
proof -
  have "run_keeps sure traffic N (talk_to_board bus)"
    unfolding talk_to_board_def zip_ctrl_def by (intro run_keeps_intros run_keeps_throw keeps_comes_back [OF readio_keeps] keeps_comes_back [OF writeio_keeps]) simp_all
  then show ?thesis
    unfolding zipload_main_def zl_args_def
    by (auto simp: zl_classify_no_throw arg_loop_no_throw simp del: zl_classify.simps split: sum.split list.split
        intro!: run_keeps_intros run_keeps_throw load_program_keeps assms keeps_comes_back [OF readio_keeps])
qed

end

end
