(* ===== verification/ZipDbg.thy ===== *)
theory ZipDbg
  imports Run Zopcodes
begin

text \<open>
  The debugger of \<^verbatim>\<open>sw/host/zipdbg.cpp\<close> and the state printer of \<^verbatim>\<open>sw/host/zipstate.cpp\<close>.  Both halt the CPU
  and read its registers through a control and a data register on the bus.  What the debugger draws is a
  list of texts with the places where they stand; bold and underlined text, the \<^verbatim>\<open>ncurses\<close> calls that set
  the terminal up, and the handler of \<^verbatim>\<open>SIGINT\<close> are left out.  The keys are a list, and the model stops
  with \<open>Waiting\<close> where the code waits for a key beyond its end.
\<close>

section \<open>Reading and writing a register of the CPU\<close>

definition CMD_HALT :: u32 where "CMD_HALT = 0x400"

text \<open>
  The loop that waits for the CPU: \<open>left\<close> is how far \<^verbatim>\<open>errcount\<close> is from \<^verbatim>\<open>MAXERR\<close>.  The condition reads the
  register first, so that it is read once more when \<^verbatim>\<open>errcount\<close> has reached the limit.
\<close>

primrec cmd_poll :: "'d devbus \<Rightarrow> ('d \<Rightarrow> bool) \<Rightarrow> nat \<Rightarrow> ('d, u32 \<times> nat) io" where
  "cmd_poll dev brk 0 = seq (dv_readio dev R_ZIPCTRL) (\<lambda>s. ret (s, 0))"
| "cmd_poll dev brk (Suc left) =
     seq (dv_readio dev R_ZIPCTRL) (\<lambda>s d.
       if s AND CPU_STALL = 0 \<and> \<not> brk d then cmd_poll dev brk left d else ret (s, Suc left) d)"

definition cmd_select :: "'d devbus \<Rightarrow> ('d \<Rightarrow> bool) \<Rightarrow> nat \<Rightarrow> u32 \<Rightarrow> ('d, unit) run" where
  "cmd_select dev brk maxerr a =
     seq (call (dv_writeio dev R_ZIPCTRL (CMD_HALT OR (a AND 0x3f)))) (\<lambda>_.
     seq (call (cmd_poll dev brk maxerr)) (\<lambda>(s, left) d.
       if brk d then throw (Exit EXIT_SUCCESS) d
       else if left = 0 then throw (Exit EXIT_FAILURE) d
       else ret () d))"

definition cmd_read :: "'d devbus \<Rightarrow> ('d \<Rightarrow> bool) \<Rightarrow> nat \<Rightarrow> u32 \<Rightarrow> ('d, u32) run" where
  "cmd_read dev brk maxerr a =
     seq (cmd_select dev brk maxerr a) (\<lambda>_. call (dv_readio dev R_ZIPDATA))"

definition cmd_write :: "'d devbus \<Rightarrow> ('d \<Rightarrow> bool) \<Rightarrow> nat \<Rightarrow> u32 \<Rightarrow> u32 \<Rightarrow> ('d, unit) run" where
  "cmd_write dev brk maxerr a v =
     seq (cmd_select dev brk maxerr a) (\<lambda>_. call (dv_writeio dev R_ZIPDATA v))"

text \<open>A loop that reads several registers into an array.\<close>

fun read_regs :: "('a \<Rightarrow> ('d, 'v) run) \<Rightarrow> 'a list \<Rightarrow> ('d, 'v list) run" where
  "read_regs rd [] = ret []"
| "read_regs rd (a # as) = seq (rd a) (\<lambda>v. seq (read_regs rd as) (\<lambda>vs. ret (v # vs)))"

section \<open>zipstate\<close>

definition zipstate_kinds :: "char \<Rightarrow> optkind option" where
  "zipstate_kinds c =
     (if c = CHR ''n'' \<or> c = CHR ''p'' then Some Value else if c = CHR ''l'' then Some Flag else None)"

text \<open>\<^verbatim>\<open>printf("%-2d", i)\<close> of an index below 14.\<close>

definition fmt_reg :: "nat \<Rightarrow> string" where
  "fmt_reg i = (if i < 10 then [char_of (48 + i), CHR '' ''] else [CHR ''1'', char_of (38 + i)])"

definition short_state :: "u32 \<Rightarrow> string" where
  "short_state v =
     ''0x'' @ hex8 v @ '': '' @ (if v AND 0x80 \<noteq> 0 then ''PINT '' else [])
       @ (if v AND 0x200 = 0 then ''BUSY '' else []) @ (if v AND 0x400 \<noteq> 0 then ''HALTED '' else [])
       @ (if v AND 0x3000 = 0x1000 then ''SW-HALT''
          else (if v AND 0x1000 \<noteq> 0 then ''SLEEPING '' else []) @ (if v AND 0x2000 \<noteq> 0 then ''GIE(UsrMode) '' else []))
       @ [CHR 0x0a]"

definition reg_text :: "char \<Rightarrow> u32 list \<Rightarrow> string" where
  "reg_text m vs =
     concat (map (\<lambda>i. m # CHR ''R'' # fmt_reg i @ '': 0x'' @ hex8 (vs ! i) @ [CHR '' ''] @ (if i mod 4 = 3 then [CHR 0x0a] else []))
               [0..<14])
     @ m # ''CC : 0x'' @ hex8 (vs ! 14) @ '' '' @ m # ''PC : 0x'' @ hex8 (vs ! 15) @ '' '' @ [CHR 0x0a, CHR 0x0a]"

definition zipstate_main :: "'b devbus \<Rightarrow> string list \<Rightarrow> ('b, string) run" where
  "zipstate_main bus argv =
     (case arg_loop zipstate_kinds EXIT_SUCCESS (args_init argv) of
        Inl e \<Rightarrow> throw e
      | Inr z \<Rightarrow>
          if opt_value z (CHR ''l'') = None then
            seq (call (dv_readio bus R_ZIPCTRL)) (\<lambda>v. ret (short_state v))
          else
            (let rd = (\<lambda>i. cmd_read bus (\<lambda>_. False) 1000 (of_nat i))
             in seq (read_regs rd [0..<16]) (\<lambda>sR.
                seq (read_regs rd [16..<32]) (\<lambda>uR.
                ret (''Reading the long-state ...'' @ [CHR 0x0a] @ reg_text (CHR ''s'') sR @ reg_text (CHR ''u'') uR)))))"

section \<open>The debugger's picture of the CPU\<close>

record sparsemem =
  sm_valid :: bool
  sm_a :: u32
  sm_d :: u32

record zipstate =
  zs_valid :: bool
  zs_gie :: bool
  zs_last_pc_valid :: bool
  zs_sR :: "u32 list"
  zs_uR :: "u32 list"
  zs_p :: "u32 list"
  zs_last_pc :: u32
  zs_pc :: u32
  zs_sp :: u32
  zs_smem :: "sparsemem list"
  zs_imem :: "sparsemem list"

definition zipstate_init :: "zipstate \<Rightarrow> zipstate" where
  "zipstate_init raw = raw\<lparr>zs_valid := False, zs_last_pc_valid := False\<rparr>"

definition zipstate_step :: "zipstate \<Rightarrow> zipstate" where
  "zipstate_step z = z\<lparr>zs_last_pc_valid := True, zs_last_pc := zs_pc z\<rparr>"

record 'b zippy =
  zp_fpga :: 'b
  zp_cursor :: int
  zp_state :: zipstate
  zp_user_break :: bool
  zp_show_users_timers :: bool
  zp_show_cc :: bool

definition zippy_init :: "zipstate \<Rightarrow> 'b \<Rightarrow> 'b zippy" where
  "zippy_init raw b =
     \<lparr>zp_fpga = b, zp_cursor = 0, zp_state = zipstate_init raw, zp_user_break = False,
      zp_show_users_timers = False, zp_show_cc = False\<rparr>"

text \<open>\<^verbatim>\<open>ZIPPY\<close> is itself a \<^verbatim>\<open>DEVBUS\<close> whose methods pass the call on.\<close>

definition pass_on :: "('b, 'a) io \<Rightarrow> ('b zippy, 'a) io" where
  "pass_on m = (\<lambda>z. case m (zp_fpga z) of (r, b) \<Rightarrow> (r, z\<lparr>zp_fpga := b\<rparr>))"

definition zippy_dev :: "'b devbus \<Rightarrow> 'b zippy devbus" where
  "zippy_dev bus =
     \<lparr>dv_writeio = (\<lambda>a v. pass_on (dv_writeio bus a v)), dv_readio = (\<lambda>a. pass_on (dv_readio bus a)),
      dv_readi = (\<lambda>a n. pass_on (dv_readi bus a n)), dv_readz = (\<lambda>a n. pass_on (dv_readz bus a n)),
      dv_writei = (\<lambda>a vs. pass_on (dv_writei bus a vs)), dv_writez = (\<lambda>a vs. pass_on (dv_writez bus a vs))\<rparr>"

definition MAXERR :: nat where "MAXERR = 100000"

definition dbg_cmd_read :: "'b devbus \<Rightarrow> nat \<Rightarrow> ('b zippy, u32) run" where
  "dbg_cmd_read bus i = cmd_read (zippy_dev bus) zp_user_break MAXERR (of_nat i)"

definition dbg_ctrl :: "'b devbus \<Rightarrow> u32 \<Rightarrow> ('b zippy, unit) run" where
  "dbg_ctrl bus v = call (dv_writeio (zippy_dev bus) R_ZIPCTRL v)"

definition dbg_reset :: "'b devbus \<Rightarrow> ('b zippy, unit) run" where
  "dbg_reset bus = dbg_ctrl bus (CPU_RESET OR CPU_HALT)"

definition dbg_step :: "'b devbus \<Rightarrow> ('b zippy, unit) run" where
  "dbg_step bus = seq (dbg_ctrl bus CPU_STEP) (\<lambda>_ z. ret () (z\<lparr>zp_state := zipstate_step (zp_state z)\<rparr>))"

definition dbg_halt :: "'b devbus \<Rightarrow> ('b zippy, unit) run" where
  "dbg_halt bus = dbg_ctrl bus CPU_HALT"

definition dbg_stalled :: "'b devbus \<Rightarrow> ('b zippy, bool) run" where
  "dbg_stalled bus = seq (call (dv_readio (zippy_dev bus) R_ZIPCTRL)) (\<lambda>v. ret (v AND CPU_STALL = 0))"

text \<open>A word of memory, marked invalid when the read is a bus error; its old contents are kept then.\<close>

definition read_sparse :: "'d devbus \<Rightarrow> u32 \<Rightarrow> sparsemem \<Rightarrow> ('d, sparsemem) run" where
  "read_sparse dev a m =
     catch_buserr
       (seq (call (dv_readio dev a)) (\<lambda>d. ret (m\<lparr>sm_a := a, sm_d := d, sm_valid := True\<rparr>)))
       (ret (m\<lparr>sm_a := a, sm_valid := False\<rparr>))"

text \<open>The instructions after the current one, each at the address the one before leads to.\<close>

fun read_imem :: "'d devbus \<Rightarrow> sparsemem \<Rightarrow> sparsemem list \<Rightarrow> ('d, sparsemem list) run" where
  "read_imem dev prev [] = ret []"
| "read_imem dev prev (m # ms) =
     seq (if sm_valid prev then read_sparse dev (zop_early_branch (sm_a prev) (sm_d prev)) m
          else ret (m\<lparr>sm_valid := False, sm_a := sm_a prev + 4\<rparr>)) (\<lambda>m.
     seq (read_imem dev m ms) (\<lambda>ms. ret (m # ms)))"

definition set_state :: "(zipstate \<Rightarrow> zipstate) \<Rightarrow> ('b zippy, unit) run" where
  "set_state f = (\<lambda>z. ret () (z\<lparr>zp_state := f (zp_state z)\<rparr>))"

text \<open>The registers first, then the memory around the program counter and the stack pointer they give.\<close>

definition read_cpu :: "'b devbus \<Rightarrow> ('b zippy, unit) run" where
  "read_cpu bus =
     seq (set_state (\<lambda>s. s\<lparr>zs_valid := False\<rparr>)) (\<lambda>_.
     seq (read_regs (dbg_cmd_read bus) [0..<16]) (\<lambda>sR.
     seq (set_state (\<lambda>s. s\<lparr>zs_sR := sR\<rparr>)) (\<lambda>_.
     seq (read_regs (dbg_cmd_read bus) [16..<32]) (\<lambda>uR.
     seq (set_state (\<lambda>s. s\<lparr>zs_uR := uR\<rparr>)) (\<lambda>_.
     seq (read_regs (dbg_cmd_read bus) [32..<52]) (\<lambda>p.
     set_state (\<lambda>s.
       let gie = (zs_sR s ! 14 AND 0x20 \<noteq> 0)
       in s\<lparr>zs_p := p, zs_gie := gie, zs_pc := (if gie then zs_uR s ! 15 else zs_sR s ! 15),
            zs_sp := (if gie then zs_uR s ! 13 else zs_sR s ! 13)\<rparr>)))))))"

definition read_memory :: "'b devbus \<Rightarrow> zipstate \<Rightarrow> ('b zippy, unit) run" where
  "read_memory bus st =
     (let last = (if zs_last_pc_valid st then zs_last_pc st else zs_pc st - 4); im = zs_imem st; sm = zs_smem st
      in seq (read_sparse (zippy_dev bus) last (im ! 0)) (\<lambda>m0.
         seq (read_sparse (zippy_dev bus) (zs_pc st) (im ! 1)) (\<lambda>m1.
         seq (read_imem (zippy_dev bus) m1 (drop 2 im)) (\<lambda>ms.
         seq (read_regs (\<lambda>i. read_sparse (zippy_dev bus) (zs_sp st + 4 * of_nat i) (sm ! i)) [0..<5]) (\<lambda>stk.
         set_state (\<lambda>s. s\<lparr>zs_imem := m0 # m1 # ms, zs_smem := stk, zs_valid := True\<rparr>))))))"

definition read_raw_state :: "'b devbus \<Rightarrow> ('b zippy, unit) run" where
  "read_raw_state bus = seq (read_cpu bus) (\<lambda>_ z. read_memory bus (zp_state z) z)"

section \<open>The screen\<close>

datatype draw = At int int string

definition showval :: "int \<Rightarrow> int \<Rightarrow> string \<Rightarrow> u32 \<Rightarrow> bool \<Rightarrow> draw" where
  "showval y x lbl v c =
     At y x (if c then CHR ''>'' # lbl @ ''> 0x'' @ hex8 v @ ''<'' else CHR '' '' # lbl @ '': 0x'' @ hex8 v @ '' '')"

definition dispreg :: "int \<Rightarrow> int \<Rightarrow> string \<Rightarrow> u32 \<Rightarrow> bool \<Rightarrow> draw" where
  "dispreg y x n v c =
     At y x (if c then CHR ''>'' # n @ ''> 0x'' @ hex8 v @ ''<'' else CHR '' '' # n @ '': 0x'' @ hex8 v @ '' '')"

definition padl :: "nat \<Rightarrow> string \<Rightarrow> string" where
  "padl n t = t @ replicate (n - length t) (CHR '' '')"

text \<open>
  The cells of the screen that the cursor moves over: the row, the label and the value of each, four to
  a row, and the place of a cell from its number.  The first row of registers is row 6.
\<close>

definition periph_cells :: "bool \<Rightarrow> zipstate \<Rightarrow> (string \<times> u32) list" where
  "periph_cells users s =
     zip [''PIC '', ''WDT '', ''WBUS'', ''PIC2'', ''TMRA'', ''TMRB'', ''TMRC'', ''JIF ''] (map ((!) (zs_p s)) [0..<8])
     @ (if users then zip [''UTSK'', ''UMST'', ''UPST'', ''UICT''] (map ((!) (zs_p s)) [12..<16])
        else zip [''MTSK'', ''MOST'', ''MPST'', ''MICT''] (map ((!) (zs_p s)) [8..<12]))"

definition reg_labels :: "char \<Rightarrow> string list" where
  "reg_labels m =
     map ((#) m) [''R0 '', ''R1 '', ''R2 '', ''R3 '', ''R4 '', ''R5 '', ''R6 '', ''R7 '', ''R8 '', ''R9 '', ''R10'', ''R11'',
       ''R12'', ''SP '', ''CC '', ''PC '']"

definition reg_cells :: "zipstate \<Rightarrow> (string \<times> u32) list" where
  "reg_cells s =
     zip (reg_labels (CHR ''s'')) (map ((!) (zs_sR s)) [0..<16]) @ zip (reg_labels (CHR ''u'')) (map ((!) (zs_uR s)) [0..<16])"

definition cell_row :: "nat \<Rightarrow> int" where
  "cell_row c = (let r = int (c div 4) in if r < 3 then r + 1 else if r < 7 then r + 3 else r + 4)"

definition cell_col :: "nat \<Rightarrow> int" where
  "cell_col c = 20 * int (c mod 4)"

text \<open>The flags of a condition code register; the two registers differ in their last ones.\<close>

definition flag :: "u32 \<Rightarrow> u32 \<Rightarrow> string \<Rightarrow> string" where
  "flag cc m t = (if cc AND m \<noteq> 0 then t else [])"

definition cc_cell :: "bool \<Rightarrow> bool \<Rightarrow> string \<Rightarrow> bool \<Rightarrow> nat \<Rightarrow> u32 \<Rightarrow> draw list" where
  "cc_cell show_cc c name gie k cc =
     (let y = cell_row k
      in At y 40 (CHR '' '' # name @ '' :'' @ replicate 16 (CHR '' ''))
         # (if show_cc then [dispreg y 40 (name @ '' '') cc c]
            else
              [At y 40 ((if c then CHR ''>'' else CHR '' '') # name @ '' :'' @ flag cc 0x1000 ''FE'' @ flag cc 0x800 ''DV'' @ flag cc 0x400 ''BE''
                 @ flag cc 0x200 ''TP'' @ flag cc 0x100 ''IL''
                 @ (if k = 26 then flag cc 0x80 ''BK'' @ (if \<not> gie then flag cc 0x10 ''HLT'' else [])
                    else flag cc 0x40 ''ST'' @ (if gie then flag cc 0x10 ''SL'' else []))),
               At y 54 (concat (map (\<lambda>(m, t). if cc AND m \<noteq> 0 then t else '' '') [(8, ''V''), (4, ''N''), (2, ''C''), (1, ''Z'')]))]))"

definition draw_cells :: "'b zippy \<Rightarrow> draw list" where
  "draw_cells z =
     (let s = zp_state z; cells = periph_cells (zp_show_users_timers z) s @ reg_cells s;
          gie = (zs_sR s ! 14 AND 0x20 \<noteq> 0)
      in concat (map (\<lambda>k.
           if k = 26 \<or> k = 42 then cc_cell (zp_show_cc z) (zp_cursor z = int k) (if k = 26 then ''sCC'' else ''uCC'') gie k (snd (cells ! k))
           else if k < 12 then [showval (cell_row k) (cell_col k) (fst (cells ! k)) (snd (cells ! k)) (zp_cursor z = int k)]
           else [dispreg (cell_row k) (cell_col k) (fst (cells ! k)) (snd (cells ! k)) (zp_cursor z = int k)]) [0..<44]))"

definition cpu_text :: "u32 \<Rightarrow> string" where
  "cpu_text v =
     ''0x'' @ hex8 v @ '' ''
       @ (if v AND 0x3000 = 0x3000 then ''Sleeping '' else if v AND 0x1000 \<noteq> 0 then ''Halted ''
          else if v AND 0x2000 \<noteq> 0 then ''User Mode '' else ''Supervisor mode '')
       @ (if v AND 0x200 \<noteq> 0 then [] else ''Stalled '')"

text \<open>An instruction: one line, or two when the word holds two compressed instructions; the line above it is returned.\<close>

definition showins :: "int \<Rightarrow> string \<Rightarrow> sparsemem \<Rightarrow> bool \<Rightarrow> fault + draw list \<times> int" where
  "showins y lbl m ignore_a =
     (let r = y - 1; addr = lbl @ ''0x'' @ hex8 (sm_a m)
      in if \<not> sm_valid m then Inr ([At y 0 (addr @ '' 0x--------  '' @ padl 25 ''(Bus Error)'')], r)
         else case zipi_to_double_string (sm_a m) (sm_d m) of
                (Inl e, _) \<Rightarrow> Inl e
              | (_, Inl e) \<Rightarrow> Inl e
              | (Inr la, Inr lb) \<Rightarrow>
                  let top = At y 0 (addr @ (if lb = [] \<or> \<not> ignore_a then '' 0x'' @ hex8 (sm_d m) @ ''  '' @ padl 25 la else []))
                  in if lb \<noteq> [] then
                       Inr ([top, At r 0 (replicate 11 (CHR '' '')), At r (int (length lbl) + 10 + 3 + 8 + 2) (padl 25 lb)], r - 1)
                     else Inr ([top, At r 0 (replicate 46 (CHR '' ''))], r))"

definition showstack :: "int \<Rightarrow> string \<Rightarrow> sparsemem \<Rightarrow> draw" where
  "showstack y lbl m =
     At y 53 (lbl @ hex8 (sm_a m) @ '' '' @ (if sm_valid m then ''0x'' @ hex8 (sm_d m) else ''(Bus Err)''))"

text \<open>The instructions from the current one on, upwards from row \<open>lclln\<close> while there is room above row \<open>ln\<close>.\<close>

fun draw_ins :: "int \<Rightarrow> int \<Rightarrow> string \<Rightarrow> sparsemem list \<Rightarrow> fault + draw list" where
  "draw_ins ln lclln lbl [] = Inr []"
| "draw_ins ln lclln lbl (m # ms) =
     (if lclln > ln then
        case showins lclln lbl m False of
          Inl e \<Rightarrow> Inl e
        | Inr (ds, lclln) \<Rightarrow> map_sum id (\<lambda>rest. ds @ rest) (draw_ins ln lclln '' '' ms)
      else Inr [])"

definition draw_state :: "u32 \<Rightarrow> 'b zippy \<Rightarrow> fault + draw list" where
  "draw_state v z =
     (let ln = 17; s = zp_state z
      in case showins (ln + 4) '' '' (zs_imem s ! 0) True of
           Inl e \<Rightarrow> Inl e
         | Inr (prev, _) \<Rightarrow>
             map_sum id (\<lambda>ins.
                 [At 0 0 ''Peripherals'', At 0 30 (padl 50 ''CPU State: ''), At 0 41 (cpu_text v), At 5 0 ''Supervisor Registers'',
                  At 10 0 ''User Registers'']
                 @ draw_cells z @ prev @ ins
                 @ map (\<lambda>i. showstack (ln + int i) (if i = 0 then ''>'' else '' '') (zs_smem s ! i)) [0..<5])
               (draw_ins ln (ln + 3) ''>'' (drop 1 (zs_imem s))))"

definition clamp_cursor :: "int \<Rightarrow> int" where
  "clamp_cursor c = (if c < 0 then 0 else if c \<ge> 44 then 43 else c)"

definition read_state :: "'b devbus \<Rightarrow> ('b zippy, draw list) run" where
  "read_state bus =
     seq (read_raw_state bus) (\<lambda>_ z. let z = z\<lparr>zp_cursor := clamp_cursor (zp_cursor z)\<rparr> in
     seq (call (dv_readio (zippy_dev bus) R_ZIPCTRL)) (\<lambda>v z.
       case draw_state v z of Inl e \<Rightarrow> throw (Faulty e) z | Inr ds \<Rightarrow> ret ds z) z)"

section \<open>The cursor and the value under it\<close>

definition cursor_up :: "int \<Rightarrow> int" where "cursor_up c = (if c > 3 then c - 4 else c)"
definition cursor_down :: "int \<Rightarrow> int" where "cursor_down c = (if c < 40 then c + 4 else c)"
definition cursor_left :: "int \<Rightarrow> int" where "cursor_left c = (if c > 0 then c - 1 else 43)"
definition cursor_right :: "int \<Rightarrow> int" where "cursor_right c = (if c < 43 then c + 1 else 0)"

text \<open>The keys: a character, or one of those that \<^verbatim>\<open>ncurses\<close> has a name for.\<close>

datatype key = Chr char | KEY_UP | KEY_DOWN | KEY_LEFT | KEY_RIGHT | KEY_ENTER | KEY_BACKSPACE | KEY_CLEAR
  | KEY_IC | KEY_CANCEL | KEY_CLOSE | KEY_EXIT | KEY_OTHER

definition KEY_ESCAPE :: key where "KEY_ESCAPE = Chr (CHR 0x1b)"
definition KEY_RETURN :: key where "KEY_RETURN = Chr (CHR 0x0a)"

definition prompt_row :: "int \<Rightarrow> int" where
  "prompt_row c =
     (let wy = c div 4; wy = (if wy \<ge> 7 then wy + 1 else wy); wy = (if wy > 3 then wy + 2 else wy) in wy + 1)"

definition prompt_col :: "int \<Rightarrow> int" where
  "prompt_col c = (c mod 4) * 20 + 9 + 1"

definition edit_reg :: "int \<Rightarrow> int" where
  "edit_reg c = (if c \<ge> 12 then c - 12 else c + 32)"

text \<open>One key of the line editor: the buffer \<^verbatim>\<open>str\<close> with its length, \<^verbatim>\<open>pos\<close>, and whether it is done.\<close>

definition edit_key :: "key \<Rightarrow> string \<Rightarrow> string \<times> bool" where
  "edit_key k str =
     (if k = KEY_ESCAPE then ([], True)
      else if k = KEY_RETURN \<or> k = KEY_ENTER \<or> k = KEY_UP \<or> k = KEY_DOWN then (str, True)
      else if k = KEY_LEFT \<or> k = KEY_BACKSPACE then (butlast str, False)
      else if k = KEY_CLEAR then ([], False)
      else case k of
             Chr ch \<Rightarrow>
               (if ch = CHR '' '' then str @ ''0''
                else if digit_val ch < 16 then str @ [if digit_val ch < 10 then ch else char_of (55 + digit_val ch)]
                else str, False)
           | _ \<Rightarrow> (str, False))"

text \<open>The loop over the keys.  \<open>None\<close> is the wait for one more key than there are.\<close>

fun edit_line :: "key list \<Rightarrow> string \<Rightarrow> (string \<times> key list) option" where
  "edit_line [] str = None"
| "edit_line (k # ks) str =
     (let (str, d) = edit_key k str; str = take 8 str in if d then Some (str, ks) else edit_line ks str)"

definition strtoul16 :: "string \<Rightarrow> u64" where
  "strtoul16 str = (let n = digits_val 16 0 str in if n \<ge> 2 ^ 64 then - 1 else of_nat n)"

definition write_value :: "'b devbus \<Rightarrow> string \<Rightarrow> ('b zippy, unit) run" where
  "write_value bus str =
     (if str \<noteq> [] then (\<lambda>z. cmd_write (zippy_dev bus) zp_user_break MAXERR (word_of_int (edit_reg (zp_cursor z))) (ucast (strtoul16 str)) z)
      else ret ())"

section \<open>The program\<close>

definition dbg_kinds :: "char \<Rightarrow> optkind option" where
  "dbg_kinds c = (if c = CHR ''n'' \<or> c = CHR ''p'' then Some Value else None)"

definition stall_screen :: "draw list" where
  "stall_screen = [At 0 0 (''CPU is stalled.  (Q to quit)'' @ [CHR 0x0a])]"

definition refresh :: "'b devbus \<Rightarrow> ('b zippy, draw list) run" where
  "refresh bus = seq (dbg_stalled bus) (\<lambda>st. if st then ret stall_screen else read_state bus)"

text \<open>Up to five looks at the CPU for it to stop.\<close>

fun settle :: "nat \<Rightarrow> 'b devbus \<Rightarrow> ('b zippy, unit) run" where
  "settle 0 bus = ret ()"
| "settle (Suc n) bus = seq (dbg_stalled bus) (\<lambda>st. if st then settle n bus else ret ())"

datatype action = Quit | Edit | Do_Step | Do_Reset | Go | Move "int \<Rightarrow> int" | Toggle_cc | Timers bool | Nothing

definition key_action :: "key \<Rightarrow> action" where
  "key_action k =
     (case k of
        Chr ch \<Rightarrow>
          if ch \<in> set ''cC'' then Toggle_cc else if ch \<in> set ''gG'' then Go
          else if ch \<in> set ''lL'' \<or> ch = CHR 0x0c then Timers False
          else if ch \<in> set ''mM'' then Timers False
          else if ch \<in> set ''qQ'' \<or> ch = CHR 0x03 \<or> k = KEY_ESCAPE then Quit
          else if ch \<in> set ''rR'' then Do_Reset
          else if ch \<in> set ''tTsS'' then Do_Step
          else if ch \<in> set ''uU'' then Timers True
          else if ch = CHR 0x0d \<or> ch = CHR 0x0a then Edit else Nothing
      | KEY_CANCEL \<Rightarrow> Quit | KEY_CLOSE \<Rightarrow> Quit | KEY_EXIT \<Rightarrow> Quit
      | KEY_IC \<Rightarrow> Edit | KEY_ENTER \<Rightarrow> Edit
      | KEY_UP \<Rightarrow> Move cursor_up | KEY_DOWN \<Rightarrow> Move cursor_down
      | KEY_LEFT \<Rightarrow> Move cursor_left | KEY_RIGHT \<Rightarrow> Move cursor_right
      | _ \<Rightarrow> Nothing)"

datatype ending = Finished | Waiting

text \<open>What an action does to the board and to the debugger; \<open>True\<close> says that the loop is left.\<close>

definition perform :: "'b devbus \<Rightarrow> action \<Rightarrow> ('b zippy, bool) run" where
  "perform bus act =
     (case act of
        Quit \<Rightarrow> ret True
      | Go \<Rightarrow> seq (dbg_ctrl bus CPU_GO) (\<lambda>_. ret True)
      | Do_Step \<Rightarrow> seq (dbg_step bus) (\<lambda>_. ret False)
      | Do_Reset \<Rightarrow> seq (dbg_reset bus) (\<lambda>_. ret False)
      | Move f \<Rightarrow> (\<lambda>z. ret False (z\<lparr>zp_cursor := f (zp_cursor z)\<rparr>))
      | Toggle_cc \<Rightarrow> (\<lambda>z. ret False (z\<lparr>zp_show_cc := \<not> zp_show_cc z\<rparr>))
      | Timers v \<Rightarrow> (\<lambda>z. ret False (z\<lparr>zp_show_users_timers := v\<rparr>))
      | _ \<Rightarrow> ret False)"

text \<open>The loop over the keys; \<open>scr\<close> is what the screen was last given.\<close>

lemma edit_line_shorter: "edit_line ks str = Some (str', ks') \<Longrightarrow> length ks' < length ks"
  by (induction ks arbitrary: str) (force split: prod.splits if_splits simp: Let_def)+

function dbg_loop :: "'b devbus \<Rightarrow> key list \<Rightarrow> draw list \<Rightarrow> ('b zippy, ending \<times> draw list) run" where
  "dbg_loop bus [] scr = ret (Waiting, scr)"
| "dbg_loop bus (k # ks) scr =
     (if key_action k = Edit then
        (case edit_line ks [] of
           None \<Rightarrow> ret (Waiting, scr)
         | Some (str, ks') \<Rightarrow>
             seq (write_value bus str) (\<lambda>_. seq (refresh bus) (\<lambda>scr. dbg_loop bus ks' scr)))
      else
        seq (perform bus (key_action k)) (\<lambda>fin.
          if fin then ret (Finished, scr) else seq (refresh bus) (\<lambda>scr. dbg_loop bus ks scr)))"
  by pat_completeness auto
termination
  by (relation "measure (\<lambda>(_, ks, _). length ks)") (auto dest: edit_line_shorter)

definition caught :: "exn \<Rightarrow> bool" where
  "caught e \<longleftrightarrow> (case e of BUSERR a \<Rightarrow> True | Read_Failure \<Rightarrow> True | Write_Failure \<Rightarrow> True | _ \<Rightarrow> False)"

text \<open>\<^verbatim>\<open>main\<close>: every exception is caught, a message printed, and the program returns as if all was well.\<close>

definition zipdbg_main :: "'b devbus \<Rightarrow> key list \<Rightarrow> string list \<Rightarrow> zipstate \<Rightarrow> 'b \<Rightarrow> (stop + ending \<times> draw list) \<times> 'b zippy" where
  "zipdbg_main bus keys argv raw b =
     (case arg_loop dbg_kinds EXIT_SUCCESS (args_init argv) of
        Inl e \<Rightarrow> (Inl e, zippy_init raw b)
      | Inr z \<Rightarrow>
          (case seq (dbg_halt bus) (\<lambda>_. seq (settle 5 bus) (\<lambda>_. seq (refresh bus) (\<lambda>scr. dbg_loop bus keys scr))) (zippy_init raw b) of
             (Inl (Thrown e), z) \<Rightarrow> (if caught e then Inr (Finished, []) else Inl (Thrown e), z)
           | r \<Rightarrow> r))"

end
