(* ===== verification/ZipDbgProps.thy ===== *)
theory ZipDbgProps
  imports ZipDbg HexBusDev
begin

text \<open>
  What the debugger does to the board and shows of it: it reads the registers it says it reads, does nothing
  else to the CPU than halt it, writes what is typed to the register under the cursor, and gives up on
  a CPU that does not stop.
\<close>

section \<open>Programs that return\<close>

text \<open>Started in a state with \<open>P\<close>, the program returns, with a value and a state in \<open>Q\<close>.\<close>

definition returns :: "('s \<Rightarrow> bool) \<Rightarrow> ('s \<Rightarrow> ('e + 'a) \<times> 's) \<Rightarrow> ('a \<Rightarrow> 's \<Rightarrow> bool) \<Rightarrow> bool" where
  "returns P m Q \<longleftrightarrow> (\<forall>s. P s \<longrightarrow> (\<exists>x s'. m s = (Inr x, s') \<and> Q x s'))"

lemma returns_ret: "(\<And>s. P s \<Longrightarrow> Q x s) \<Longrightarrow> returns P (ret x) Q"
  by (simp add: returns_def)

lemma returns_Pair: "(\<And>s. P s \<Longrightarrow> Q x s) \<Longrightarrow> returns P (Pair (Inr x)) Q"
  by (simp add: returns_def)

lemma returns_seq:
  assumes "returns P m R" "\<And>x. returns (R x) (f x) Q"
  shows "returns P (seq m f) Q"
  using assms unfolding returns_def seq_def by fastforce

lemma returns_conseq: "returns P m R \<Longrightarrow> (\<And>x s. R x s \<Longrightarrow> Q x s) \<Longrightarrow> returns P m Q"
  unfolding returns_def by blast

lemma returns_pre: "returns P m Q \<Longrightarrow> (\<And>s. P' s \<Longrightarrow> P s) \<Longrightarrow> returns P' m Q"
  unfolding returns_def by blast

lemma returns_pull: "(b \<Longrightarrow> returns P m Q) \<Longrightarrow> returns (\<lambda>s. b \<and> P s) m Q"
  unfolding returns_def by blast

lemma returns_state: "(\<And>s. P s \<Longrightarrow> returns (\<lambda>t. t = s) (m s) Q) \<Longrightarrow> returns P (\<lambda>s. m s s) Q"
  unfolding returns_def by blast

lemma returns_read_regs:
  assumes "\<And>a. a \<in> set as \<Longrightarrow> returns P (rd a) (\<lambda>v s. R a v \<and> P s)"
  shows "returns P (read_regs rd as) (\<lambda>vs s. list_all2 R as vs \<and> P s)"
  using assms
proof (induction "as")
  case Nil
  then show ?case by (auto intro: returns_Pair)
next
  case (Cons a "as")
  have "returns P (read_regs rd (a # as)) (\<lambda>vs s. list_all2 R (a # as) vs \<and> P s)"
    unfolding read_regs.simps
  proof (rule returns_seq [OF Cons.prems])
    fix v
    show "returns (\<lambda>s. R a v \<and> P s) (seq (read_regs rd as) (\<lambda>vs. ret (v # vs))) (\<lambda>vs s. list_all2 R (a # as) vs \<and> P s)"
      by (rule returns_pull, rule returns_seq [OF Cons.IH]) (auto simp: Cons.prems intro: returns_ret)
  qed simp
  then show ?case .
qed

section \<open>A CPU that answers\<close>

text \<open>
  What the board does: a write to the control register selects a register, the control register says that
  the CPU has stopped, the data register is the register that is selected, and a read of any other address gives the word
  of the memory there, or a bus error where there is none.
\<close>

definition cpu_port :: "'b devbus \<Rightarrow> ('b \<Rightarrow> u32) \<Rightarrow> (u32 \<Rightarrow> u32) \<Rightarrow> (u32 \<Rightarrow> u32 option) \<Rightarrow> bool" where
  "cpu_port bus sel regs mem \<longleftrightarrow>
     (\<forall>v b. \<exists>b'. dv_writeio bus R_ZIPCTRL v b = (Inr (), b') \<and> sel b' = v AND 0x3f)
     \<and> (\<forall>b. \<exists>s b'. dv_readio bus R_ZIPCTRL b = (Inr s, b') \<and> s AND CPU_STALL \<noteq> 0 \<and> sel b' = sel b)
     \<and> (\<forall>b. \<exists>b'. dv_readio bus R_ZIPDATA b = (Inr (regs (sel b)), b'))
     \<and> (\<forall>a b. a \<noteq> R_ZIPCTRL \<longrightarrow> a \<noteq> R_ZIPDATA \<longrightarrow>
          (\<exists>x b'. dv_readio bus a b = (case mem a of None \<Rightarrow> Inl (BUSERR x) | Some w \<Rightarrow> Inr w, b')))"

text \<open>
  A word of the picture is the word of the memory at an address, marked invalid where there is none.  Of the two
  registers of the port, should they be looked at as memory, only the address is said.
\<close>

definition shows_word :: "(u32 \<Rightarrow> u32 option) \<Rightarrow> u32 \<Rightarrow> sparsemem \<Rightarrow> bool" where
  "shows_word mem a m \<longleftrightarrow> sm_a m = a
     \<and> (a \<noteq> R_ZIPCTRL \<and> a \<noteq> R_ZIPDATA \<longrightarrow> (case mem a of None \<Rightarrow> \<not> sm_valid m | Some w \<Rightarrow> sm_valid m \<and> sm_d m = w))"

text \<open>The part of the debugger that reading the board leaves alone.\<close>

definition same_as :: "zipstate \<Rightarrow> 'b zippy \<Rightarrow> bool" where
  "same_as st z \<longleftrightarrow> zp_state z = st \<and> \<not> zp_user_break z"

lemma same_as_fpga [simp]: "same_as st (z\<lparr>zp_fpga := b\<rparr>) = same_as st z"
  by (simp add: same_as_def)

lemma of_nat_small_and:
  assumes "i < 64"
  shows "(CMD_HALT OR (of_nat i AND 0x3f)) AND 0x3f = (of_nat i :: u32)"
proof -
  have "(0x3f :: u32) = mask 6" by (simp add: mask_eq_exp_minus_1)
  then have "of_nat i AND 0x3f = (of_nat i :: u32)"
    using assms by (simp only: take_bit_eq_mask [symmetric] take_bit_of_nat) (simp add: take_bit_eq_mod)
  then show ?thesis by (simp add: bit.conj_disj_distrib2 and.assoc CMD_HALT_def)
qed

lemma dbg_cmd_read_returns:
  fixes bus :: "'b devbus"
  assumes "cpu_port bus sel regs mem" "i < 64"
  shows "returns (same_as st) (dbg_cmd_read bus i) (\<lambda>v z. v = regs (of_nat i) \<and> same_as st z)"
  unfolding returns_def
proof (intro allI impI)
  fix z :: "'b zippy"
  assume z: "same_as st z"
  obtain b1 where w: "dv_writeio bus R_ZIPCTRL (CMD_HALT OR (of_nat i AND 0x3f)) (zp_fpga z) = (Inr (), b1)" "sel b1 = of_nat i"
    using assms of_nat_small_and [OF assms(2)] unfolding cpu_port_def by metis
  obtain s b2 where c: "dv_readio bus R_ZIPCTRL b1 = (Inr s, b2)" "s AND CPU_STALL \<noteq> 0" "sel b2 = of_nat i"
    using assms(1) w(2) unfolding cpu_port_def by metis
  obtain b3 where d: "dv_readio bus R_ZIPDATA b2 = (Inr (regs (of_nat i)), b3)"
    using assms(1) c(3) unfolding cpu_port_def by metis
  obtain n where n: "MAXERR = Suc n" by (auto simp: MAXERR_def intro: that [of 99999])
  have "dbg_cmd_read bus i z = (Inr (regs (of_nat i)), z\<lparr>zp_fpga := b3\<rparr>)"
    using w c d z unfolding dbg_cmd_read_def cmd_read_def cmd_select_def n
    by (simp add: seq_def call_def zippy_dev_def pass_on_def same_as_def)
  then show "\<exists>x s'. dbg_cmd_read bus i z = (Inr x, s') \<and> x = regs (of_nat i) \<and> same_as st s'"
    using z by simp
qed

lemma read_sparse_returns:
  fixes bus :: "'b devbus"
  assumes "cpu_port bus sel regs mem"
  shows "returns (same_as st) (read_sparse (zippy_dev bus) a m) (\<lambda>v z. shows_word mem a v \<and> same_as st z)"
  unfolding returns_def
proof (intro allI impI)
  fix z :: "'b zippy"
  assume z: "same_as st z"
  have "\<exists>r b'. dv_readio bus a (zp_fpga z) = (r, b') \<and> (\<forall>e. r = Inl e \<longrightarrow> (\<exists>x. e = BUSERR x))
    \<and> (a \<noteq> R_ZIPCTRL \<and> a \<noteq> R_ZIPDATA \<longrightarrow> (case mem a of None \<Rightarrow> \<exists>e. r = Inl e | Some w \<Rightarrow> r = Inr w))"
  proof (cases "a = R_ZIPCTRL \<or> a = R_ZIPDATA")
    case True
    then have "\<exists>v b'. dv_readio bus a (zp_fpga z) = (Inr v, b')" using assms unfolding cpu_port_def by metis
    then show ?thesis using True by auto
  next
    case False
    then have "\<exists>x b'. dv_readio bus a (zp_fpga z) = (case mem a of None \<Rightarrow> Inl (BUSERR x) | Some w \<Rightarrow> Inr w, b')"
      using assms unfolding cpu_port_def by blast
    then show ?thesis by (cases "mem a") auto
  qed
  then obtain r b' where r: "dv_readio bus a (zp_fpga z) = (r, b')" "\<forall>e. r = Inl e \<longrightarrow> (\<exists>x. e = BUSERR x)"
    "a \<noteq> R_ZIPCTRL \<and> a \<noteq> R_ZIPDATA \<longrightarrow> (case mem a of None \<Rightarrow> \<exists>e. r = Inl e | Some w \<Rightarrow> r = Inr w)" by blast
  show "\<exists>x s'. read_sparse (zippy_dev bus) a m z = (Inr x, s') \<and> shows_word mem a x \<and> same_as st s'"
    using r z
    by (cases r) (auto simp: read_sparse_def seq_def call_def zippy_dev_def pass_on_def catch_buserr_def shows_word_def split: option.splits)
qed

text \<open>The chain of instructions: each is looked for where the one before leads to.\<close>

fun imem_chain :: "(u32 \<Rightarrow> u32 option) \<Rightarrow> sparsemem \<Rightarrow> sparsemem list \<Rightarrow> bool" where
  "imem_chain mem prev [] \<longleftrightarrow> True"
| "imem_chain mem prev (m # ms) \<longleftrightarrow>
     (if sm_valid prev then shows_word mem (zop_early_branch (sm_a prev) (sm_d prev)) m
      else sm_a m = sm_a prev + 4 \<and> \<not> sm_valid m)
     \<and> imem_chain mem m ms"

lemma read_imem_returns:
  assumes "cpu_port bus sel regs mem"
  shows "returns (same_as st) (read_imem (zippy_dev bus) prev ms)
    (\<lambda>vs z. length vs = length ms \<and> imem_chain mem prev vs \<and> same_as st z)"
proof (induction ms arbitrary: prev)
  case Nil
  then show ?case by (auto intro: returns_Pair)
next
  case (Cons m ms)
  have step: "returns (same_as st)
      (if sm_valid prev then read_sparse (zippy_dev bus) (zop_early_branch (sm_a prev) (sm_d prev)) m
       else ret (m\<lparr>sm_valid := False, sm_a := sm_a prev + 4\<rparr>))
      (\<lambda>v z. imem_chain mem prev [v] \<and> same_as st z)"
    using read_sparse_returns [OF assms] by (auto intro: returns_ret elim: returns_conseq)
  show ?case
    unfolding read_imem.simps
    by (rule returns_seq [OF step], rule returns_pull, rule returns_seq [OF Cons.IH]) (auto intro: returns_ret)
qed

lemma returns_set_state: "returns (same_as st) (set_state f) (\<lambda>_. same_as (f st))"
  by (simp add: returns_def set_state_def same_as_def)

lemma read_regs_returns:
  fixes bus :: "'b devbus"
  assumes "cpu_port bus sel regs mem" "\<forall>i\<in>set is. i < 64"
  shows "returns (same_as st) (read_regs (dbg_cmd_read bus) is) (\<lambda>vs z. vs = map (\<lambda>i. regs (of_nat i)) is \<and> same_as st z)"
proof (rule returns_conseq)
  show "returns (same_as st) (read_regs (dbg_cmd_read bus) is) (\<lambda>vs z. list_all2 (\<lambda>i v. v = regs (of_nat i)) is vs \<and> same_as st z)"
    using assms(2) by (intro returns_read_regs dbg_cmd_read_returns [OF assms(1)]) auto
qed (auto simp: list_all2_conv_all_nth intro!: nth_equalityI)

definition cpu_picture :: "(nat \<Rightarrow> u32) \<Rightarrow> zipstate \<Rightarrow> bool" where
  "cpu_picture r s \<longleftrightarrow>
     zs_sR s = map r [0..<16] \<and> zs_uR s = map r [16..<32] \<and> zs_p s = map r [32..<52]
     \<and> zs_gie s = (r 14 AND 0x20 \<noteq> 0)
     \<and> zs_pc s = (if zs_gie s then r 31 else r 15) \<and> zs_sp s = (if zs_gie s then r 29 else r 13)"

definition memory_picture :: "(u32 \<Rightarrow> u32 option) \<Rightarrow> zipstate \<Rightarrow> bool" where
  "memory_picture mem s \<longleftrightarrow>
     zs_valid s \<and> length (zs_imem s) = 5
     \<and> shows_word mem (if zs_last_pc_valid s then zs_last_pc s else zs_pc s - 4) (zs_imem s ! 0)
     \<and> shows_word mem (zs_pc s) (zs_imem s ! 1) \<and> imem_chain mem (zs_imem s ! 1) (drop 2 (zs_imem s))
     \<and> list_all2 (shows_word mem) (map (\<lambda>i. zs_sp s + 4 * of_nat i) [0..<5]) (zs_smem s)"

lemma read_cpu_returns:
  fixes bus :: "'b devbus"
  assumes port: "cpu_port bus sel regs mem"
  shows "returns (same_as st) (read_cpu bus)
    (\<lambda>_ z. \<exists>st'. cpu_picture (\<lambda>i. regs (of_nat i)) st' \<and> zs_imem st' = zs_imem st \<and> same_as st' z)"
  unfolding read_cpu_def Let_def
  apply (rule returns_seq [OF returns_set_state])
  apply (rule returns_seq [OF read_regs_returns [OF port]], simp)
  apply (rule returns_pull)
  apply (rule returns_seq [OF returns_set_state])
  apply (rule returns_seq [OF read_regs_returns [OF port]], simp)
  apply (rule returns_pull)
  apply (rule returns_seq [OF returns_set_state])
  apply (rule returns_seq [OF read_regs_returns [OF port]], simp)
  apply (rule returns_pull)
  apply (rule returns_conseq [OF returns_set_state])
  apply (rule exI, (rule conjI [rotated])+, assumption)
   apply (simp_all add: cpu_picture_def)
  done

lemma read_memory_returns:
  fixes bus :: "'b devbus"
  assumes port: "cpu_port bus sel regs mem" and len: "length (zs_imem st) = 5"
  shows "returns (same_as st) (read_memory bus st)
    (\<lambda>_ z. \<exists>im sm. memory_picture mem (st\<lparr>zs_imem := im, zs_smem := sm, zs_valid := True\<rparr>)
      \<and> same_as (st\<lparr>zs_imem := im, zs_smem := sm, zs_valid := True\<rparr>) z)"
proof -
  have stack: "returns (same_as st) (read_regs (\<lambda>i. read_sparse (zippy_dev bus) (zs_sp st + 4 * of_nat i) (zs_smem st ! i)) [0..<5])
      (\<lambda>vs z. list_all2 (shows_word mem) (map (\<lambda>i. zs_sp st + 4 * of_nat i) [0..<5]) vs \<and> same_as st z)"
    unfolding list_all2_map1 by (intro returns_read_regs read_sparse_returns [OF port])
  show ?thesis
    unfolding read_memory_def Let_def
    apply (rule returns_seq [OF read_sparse_returns [OF port]], rule returns_pull)
    apply (rule returns_seq [OF read_sparse_returns [OF port]], rule returns_pull)
    apply (rule returns_seq [OF read_imem_returns [OF port]], rule returns_pull, rule returns_pull)
    apply (rule returns_seq [OF stack], rule returns_pull)
    apply (rule returns_conseq [OF returns_set_state])
    apply (rule exI, rule exI, rule conjI [rotated], assumption)
    apply (cases "zs_last_pc_valid st")
     apply (simp_all add: memory_picture_def len del: upt_rec_numeral)
    done
qed

text \<open>
  C19: the debugger shows the CPU.  On a board that answers, refreshing the picture returns, and then the
  picture holds the supervisor's, the user's and the peripheral registers; its program counter and stack
  pointer are those of the mode the CPU is in; the words of the stack are those of the memory from the stack pointer on;
  and the instructions are the words of the memory at the last step or the one before, at the program counter, and
  then each at the address the one before it leads to.  A word where the memory answers with a bus error is marked as
  invalid, and the instructions after one are not looked for.
\<close>
theorem dbg_shows_cpu:
  fixes bus :: "'b devbus"
  assumes "cpu_port bus sel regs mem" "length (zs_imem (zp_state z)) = 5" "\<not> zp_user_break z"
  shows "\<exists>z'. read_raw_state bus z = (Inr (), z') \<and> cpu_picture (\<lambda>i. regs (of_nat i)) (zp_state z') \<and> memory_picture mem (zp_state z')"
proof -
  have "returns (same_as (zp_state z)) (read_raw_state bus)
      (\<lambda>_ z. cpu_picture (\<lambda>i. regs (of_nat i)) (zp_state z) \<and> memory_picture mem (zp_state z))"
    unfolding read_raw_state_def
  proof (rule returns_seq [OF read_cpu_returns [OF assms(1)]], rule returns_state [where m = "\<lambda>s. read_memory bus (zp_state s)"], elim exE conjE)
    fix u :: unit and s :: "'b zippy" and st'
    assume st': "cpu_picture (\<lambda>i. regs (of_nat i)) st'" "zs_imem st' = zs_imem (zp_state z)" "same_as st' s"
    then have s: "zp_state s = st'" by (simp add: same_as_def)
    show "returns (\<lambda>t. t = s) (read_memory bus (zp_state s))
        (\<lambda>_ z. cpu_picture (\<lambda>i. regs (of_nat i)) (zp_state z) \<and> memory_picture mem (zp_state z))"
    proof (rule returns_pre [OF returns_conseq [OF read_memory_returns [OF assms(1)]]])
      show "length (zs_imem (zp_state s)) = 5" using assms(2) st'(2) s by simp
    qed (use st' s in \<open>auto simp: same_as_def cpu_picture_def\<close>)
  qed
  then show ?thesis using assms(3) unfolding returns_def same_as_def by fastforce
qed

section \<open>The cursor and the value under it\<close>

text \<open>The registers behind the cells of the screen, in the order of the cells.\<close>

definition cell_values :: "bool \<Rightarrow> (nat \<Rightarrow> 'r) \<Rightarrow> 'r list" where
  "cell_values users r = map r ([32..<40] @ (if users then [44..<48] else [40..<44]) @ [0..<32])"

lemma map_nth_upt: "i \<le> j \<Longrightarrow> a + j \<le> b \<Longrightarrow> map ((!) (map r [a..<b])) [i..<j] = map r [a + i..<a + j]"
  by (rule nth_equalityI) (auto simp: add.assoc)

lemma cells_values:
  assumes "cpu_picture r s"
  shows "map snd (periph_cells users s @ reg_cells s) = cell_values users r"
  using assms map_nth_upt [of _ _ 32 52 r] map_nth_upt [of 0 16 0 16 r] map_nth_upt [of 0 16 16 32 r] upt_add_eq_append [of 0 16 16]
  by (simp add: cpu_picture_def periph_cells_def reg_cells_def reg_labels_def cell_values_def map_snd_zip_take
      del: upt_rec_numeral)

definition cell_ok :: "bool \<Rightarrow> nat \<Rightarrow> bool" where
  "cell_ok users c \<longleftrightarrow>
     cell_values users id ! c = nat (edit_reg (int c)) + (if users \<and> 8 \<le> c \<and> c < 12 then 4 else 0)
     \<and> prompt_row (int c) = cell_row c - (if 12 \<le> c \<and> c < 16 then 2 else 0)"

lemma cell_table: "c < 44 \<Longrightarrow> cell_ok users c"
proof -
  assume "c < 44"
  moreover have "list_all (cell_ok True) [0..<44]" "list_all (cell_ok False) [0..<44]" by code_simp+
  ultimately show ?thesis by (cases users) (simp_all only: list_all_iff set_upt, auto)
qed

lemma cell_values_map: "c < 44 \<Longrightarrow> cell_values users r ! c = r (cell_values users id ! c)"
proof -
  assume c: "c < 44"
  have "cell_values users r = map r (cell_values users id)" "length (cell_values users id) = 44"
    by (simp_all add: cell_values_def del: upt_rec_numeral)
  then show ?thesis using c by simp
qed

text \<open>
  The cursor, the screen and the register that is written belong together, but for two slips.  The value
  in a cell is that of the register that a value typed there is written to, except in the four cells of the
  user's timers, where the supervisor's counter four places before is written; and the value is typed in the row of the
  cell, except in the first row of registers, where it is typed two rows above.
\<close>
lemma cell_under_cursor:
  assumes "cpu_picture r s" "c < 44"
  shows "snd ((periph_cells users s @ reg_cells s) ! c) = r (nat (edit_reg (int c)) + (if users \<and> 8 \<le> c \<and> c < 12 then 4 else 0))
    \<and> prompt_row (int c) = cell_row c - (if 12 \<le> c \<and> c < 16 then 2 else 0)"
proof -
  have len: "length (periph_cells users s @ reg_cells s) = 44"
    using arg_cong [OF cells_values [OF assms(1), of users], of length] by (simp add: cell_values_def del: upt_rec_numeral)
  have "snd ((periph_cells users s @ reg_cells s) ! c) = cell_values users r ! c"
    using cells_values [OF assms(1), of users] assms(2) len by (metis nth_map)
  then show ?thesis
    using cell_table [OF assms(2), of users] cell_values_map [OF assms(2), of users r] by (simp add: cell_ok_def)
qed

lemma cursor_stays:
  assumes "0 \<le> c" "c < 44" "f \<in> {cursor_up, cursor_down, cursor_left, cursor_right}"
  shows "0 \<le> f c \<and> f c < 44"
  using assms by (auto simp: cursor_up_def cursor_down_def cursor_left_def cursor_right_def)

section \<open>Typing a value\<close>



definition typed :: "char \<Rightarrow> char" where
  "typed ch = (if digit_val ch < 10 then ch else char_of (55 + digit_val ch))"

definition hexd_ok :: "nat \<Rightarrow> bool" where
  "hexd_ok n \<longleftrightarrow>
     (let c = char_of (unat (hex_digit (of_nat n))) in digit_val c = n \<and> digit_val (typed c) = n \<and> c \<noteq> CHR '' '')"

lemma hex_digit_cases:
  fixes d :: u32
  assumes "d < 16"
  shows "hexd_ok (unat d)"
proof -
  have "list_all hexd_ok [0..<16]" by code_simp
  moreover have "unat d \<in> set [0..<16]" using assms by (simp add: word_less_nat_alt)
  ultimately show ?thesis unfolding list_all_iff by blast
qed

lemma hexd_okD:
  fixes d :: u32
  assumes "d < 16"
  shows "digit_val (char_of (unat (hex_digit d))) = unat d" "digit_val (typed (char_of (unat (hex_digit d)))) = unat d"
    "char_of (unat (hex_digit d)) \<noteq> CHR '' ''"
  using hex_digit_cases [OF assms] by (simp_all add: hexd_ok_def Let_def)

lemma and_15_less: "w AND 15 < (16 :: u32)"
  by (rule le_less_trans [of _ 15]) (simp_all add: word_and_le1)

lemma digits_val_append:
  "\<forall>c\<in>set s. digit_val c < base \<Longrightarrow> digits_val base acc (s @ t) = digits_val base (digits_val base acc s) t"
  by (induction s arbitrary: acc) auto

lemma take_bit_of_unat_u32: "take_bit LENGTH(32) (unat (w :: u32)) = unat w"
  by (rule take_bit_nat_eq_self) (rule unsigned_less)

lemma hex_digits_val:
  "(\<forall>c\<in>set (map (\<lambda>b. typed (char_of (unat b))) (hex_digits n w)). digit_val c < 16)
   \<and> digits_val 16 acc (map (\<lambda>b. typed (char_of (unat b))) (hex_digits n w)) = acc * 16 ^ n + unat w mod 16 ^ n"
proof (induction n arbitrary: w)
  case (Suc n)
  have d: "unat (w AND 15) = unat w mod 16"
  proof -
    have "w AND 15 = take_bit 4 w" by (simp add: take_bit_eq_mask mask_eq_exp_minus_1)
    then show ?thesis by (simp only: unsigned_take_bit_eq) (simp add: take_bit_eq_mod)
  qed
  have q: "unat (drop_bit 4 w) = unat w div 16" by (simp only: unsigned_drop_bit_eq take_bit_of_unat_u32) (simp add: drop_bit_eq_div)
  have "acc * 16 ^ Suc n + unat w mod 16 ^ Suc n = (acc * 16 ^ n + (unat w div 16) mod 16 ^ n) * 16 + unat w mod 16"
    by (simp add: mod_mult2_eq algebra_simps)
  moreover have "unat w mod 16 < 16" by simp
  ultimately show ?case
    using Suc.IH [of "drop_bit 4 w"] hexd_okD(2) [OF and_15_less, of w] d q
    by (auto simp: digits_val_append)
qed simp

lemma hex_not_control: "digit_val c < 16 \<Longrightarrow> c \<noteq> CHR 0x1b \<and> c \<noteq> CHR 0x0a"
  by (intro conjI notI) (simp_all add: digit_val_def chr_code_def)

lemma edit_line_hex:
  assumes "\<forall>c\<in>set s. digit_val c < 16 \<and> c \<noteq> CHR '' ''" "length str + length s \<le> 8"
  shows "edit_line (map Chr s @ KEY_RETURN # ks) str = Some (str @ map typed s, ks)"
  using assms
proof (induction s arbitrary: str)
  case Nil
  then show ?case by (simp add: edit_key_def KEY_RETURN_def KEY_ESCAPE_def)
next
  case (Cons c s)
  have "c \<noteq> CHR 0x1b" "c \<noteq> CHR 0x0a" using hex_not_control [of c] Cons.prems(1) by simp_all
  then have "edit_key (Chr c) str = (str @ [typed c], False)"
    using Cons.prems(1) by (simp add: edit_key_def KEY_RETURN_def KEY_ESCAPE_def typed_def)
  then show ?case using Cons.IH [of "str @ [typed c]"] Cons.prems by simp
qed

lemma hex8_chars: "\<forall>c\<in>set (hex8 v). digit_val c < 16 \<and> c \<noteq> CHR '' ''"
proof -
  have "\<forall>b\<in>set (hex_digits n w). \<exists>d<16. b = hex_digit d" for n w
    by (induction n arbitrary: w) (use and_15_less in fastforce)+
  then have "\<exists>d<16. c = char_of (unat (hex_digit d))" if "c \<in> set (hex8 v)" for c
    using that by (fastforce simp: hex8_def fmt_08x_def)
  then show ?thesis using hexd_okD(1,3) by (fastforce simp: word_less_nat_alt)
qed

text \<open>
  The registers of the CPU and of its peripherals, by the numbers the port knows them by; the names are those on the
  screen.
\<close>

definition cpu_reg_names :: "string list" where
  "cpu_reg_names =
     [''sR0 '', ''sR1 '', ''sR2 '', ''sR3 '', ''sR4 '', ''sR5 '', ''sR6 '', ''sR7 '', ''sR8 '', ''sR9 '', ''sR10'', ''sR11'', ''sR12'',
      ''sSP '', ''sCC '', ''sPC '',
      ''uR0 '', ''uR1 '', ''uR2 '', ''uR3 '', ''uR4 '', ''uR5 '', ''uR6 '', ''uR7 '', ''uR8 '', ''uR9 '', ''uR10'', ''uR11'', ''uR12'',
      ''uSP '', ''uCC '', ''uPC '',
      ''PIC '', ''WDT '', ''WBUS'', ''PIC2'', ''TMRA'', ''TMRB'', ''TMRC'', ''JIF '', ''MTSK'', ''MOST'', ''MPST'', ''MICT'',
      ''UTSK'', ''UMST'', ''UPST'', ''UICT'']"

lemma cells_registers:
  assumes "cpu_picture r s"
  shows "periph_cells users s @ reg_cells s = map (\<lambda>i. (cpu_reg_names ! i, r i)) (cell_values users id)"
proof -
  let ?labels = "[''PIC '', ''WDT '', ''WBUS'', ''PIC2'', ''TMRA'', ''TMRB'', ''TMRC'', ''JIF '']
    @ (if users then [''UTSK'', ''UMST'', ''UPST'', ''UICT''] else [''MTSK'', ''MOST'', ''MPST'', ''MICT''])
    @ reg_labels (CHR ''s'') @ reg_labels (CHR ''u'')"
  have "map fst (periph_cells users s @ reg_cells s) = ?labels"
    by (simp add: periph_cells_def reg_cells_def reg_labels_def map_fst_zip_take del: upt_rec_numeral)
  also have "\<dots> = map ((!) cpu_reg_names) (cell_values users id)"
    by (cases users) (simp_all only: if_True if_False, code_simp+)
  finally have n: "map fst (periph_cells users s @ reg_cells s) = map ((!) cpu_reg_names) (cell_values users id)" .
  have v: "map snd (periph_cells users s @ reg_cells s) = map r (cell_values users id)"
    unfolding cells_values [OF assms] by (simp add: cell_values_def del: upt_rec_numeral)
  have p: "zip (map ((!) cpu_reg_names) xs) (map r xs) = map (\<lambda>i. (cpu_reg_names ! i, r i)) xs" for xs
    by (induction xs) simp_all
  have "periph_cells users s @ reg_cells s
      = zip (map fst (periph_cells users s @ reg_cells s)) (map snd (periph_cells users s @ reg_cells s))"
    by (rule zip_map_fst_snd [symmetric])
  also have "\<dots> = map (\<lambda>i. (cpu_reg_names ! i, r i)) (cell_values users id)"
    by (simp only: n v p)
  finally show ?thesis .
qed

text \<open>A board whose registers can be written: what the port does to the registers and to the choice of one.\<close>

definition reg_port :: "'b devbus \<Rightarrow> ('b \<Rightarrow> u32) \<Rightarrow> ('b \<Rightarrow> u32 \<Rightarrow> u32) \<Rightarrow> bool" where
  "reg_port bus sel regs \<longleftrightarrow>
     (\<forall>v b. \<exists>b'. dv_writeio bus R_ZIPCTRL v b = (Inr (), b') \<and> sel b' = v AND 0x3f \<and> regs b' = regs b)
     \<and> (\<forall>b. \<exists>s b'. dv_readio bus R_ZIPCTRL b = (Inr s, b') \<and> s AND CPU_STALL \<noteq> 0 \<and> sel b' = sel b \<and> regs b' = regs b)
     \<and> (\<forall>v b. \<exists>b'. dv_writeio bus R_ZIPDATA v b = (Inr (), b') \<and> regs b' = (regs b)(sel b := v))"

lemma cmd_write_writes:
  assumes "reg_port bus sel regs" "n < 64" "\<not> zp_user_break z"
  shows "\<exists>b'. cmd_write (zippy_dev bus) zp_user_break MAXERR (of_nat n) v z = (Inr (), z\<lparr>zp_fpga := b'\<rparr>)
    \<and> regs b' = (regs (zp_fpga z))(of_nat n := v)"
proof -
  obtain b1 where w: "dv_writeio bus R_ZIPCTRL (CMD_HALT OR (of_nat n AND 0x3f)) (zp_fpga z) = (Inr (), b1)" "sel b1 = of_nat n"
    "regs b1 = regs (zp_fpga z)"
    using assms(1) of_nat_small_and [OF assms(2)] unfolding reg_port_def by metis
  obtain s b2 where c: "dv_readio bus R_ZIPCTRL b1 = (Inr s, b2)" "s AND CPU_STALL \<noteq> 0" "sel b2 = of_nat n" "regs b2 = regs b1"
    using assms(1) w(2) unfolding reg_port_def by metis
  obtain b3 where d: "dv_writeio bus R_ZIPDATA v b2 = (Inr (), b3)" "regs b3 = (regs b2)(sel b2 := v)"
    using assms(1) unfolding reg_port_def by metis
  obtain m where m: "MAXERR = Suc m" by (auto simp: MAXERR_def intro: that [of 99999])
  have "cmd_write (zippy_dev bus) zp_user_break MAXERR (of_nat n) v z = (Inr (), z\<lparr>zp_fpga := b3\<rparr>)"
    using w(1) c(1,2) d(1) assms(3) unfolding cmd_write_def cmd_select_def m
    by (simp add: seq_def call_def zippy_dev_def pass_on_def)
  then show ?thesis using w c d by auto
qed

lemma typed_loop:
  "dbg_loop bus (KEY_ENTER # map Chr (hex8 v) @ KEY_RETURN # ks) scr z
   = seq (cmd_write (zippy_dev bus) zp_user_break MAXERR (word_of_int (edit_reg (zp_cursor z))) v)
       (\<lambda>_. seq (refresh bus) (\<lambda>scr. dbg_loop bus ks scr)) z"
proof -
  let ?s = "map typed (hex8 v)"
  have l: "edit_line (map Chr (hex8 v) @ KEY_RETURN # ks) [] = Some (?s, ks)"
    using edit_line_hex [OF hex8_chars, of "[]" v ks] by (simp add: hex8_def fmt_08x_def)
  have lt: "unat v < 4294967296" using unsigned_less [of v] by simp
  have eq: "?s = map (\<lambda>b. typed (char_of (unat b))) (hex_digits 8 v)" by (simp add: hex8_def fmt_08x_def comp_def)
  have "digits_val 16 0 ?s = unat v"
    unfolding eq using hex_digits_val [of 8 v 0] lt by simp
  then have "ucast (strtoul16 ?s) = v" "?s \<noteq> []"
  proof -
    show "?s \<noteq> []" by (simp add: eq flip: length_0_conv)
    show "ucast (strtoul16 ?s) = v"
      using \<open>digits_val 16 0 ?s = unat v\<close> lt by (simp add: strtoul16_def Let_def ucast_up_down)
  qed
  then have "write_value bus ?s z
      = cmd_write (zippy_dev bus) zp_user_break MAXERR (word_of_int (edit_reg (zp_cursor z))) v z"
    by (simp add: write_value_def)
  then show ?thesis by (simp add: key_action_def l seq_def)
qed

text \<open>
  C21: a value that is typed is written.  On a board that answers, the eight digits of any word, typed after the
  enter key and followed by return, make the debugger write that word to one register, leave all others as they are, and
  draw the screen anew.  The register is the one whose name and value stand in the cell under the cursor, with one
  exception, which is a fault of the program: while the user's timers are shown, a value typed into one of their four
  cells is written to the supervisor's counter four numbers before.
\<close>
theorem typed_value_written:
  assumes "reg_port bus sel regs" "0 \<le> zp_cursor z" "zp_cursor z < 44" "\<not> zp_user_break z"
  shows "\<exists>n b'. dbg_loop bus (KEY_ENTER # map Chr (hex8 v) @ KEY_RETURN # ks) scr z
        = seq (refresh bus) (\<lambda>scr. dbg_loop bus ks scr) (z\<lparr>zp_fpga := b'\<rparr>)
      \<and> regs b' = (regs (zp_fpga z))(of_nat n := v)
      \<and> (let shown = (if zp_show_users_timers z \<and> 8 \<le> zp_cursor z \<and> zp_cursor z < 12 then n + 4 else n)
         in \<forall>r s. cpu_picture r s \<longrightarrow>
              (periph_cells (zp_show_users_timers z) s @ reg_cells s) ! nat (zp_cursor z) = (cpu_reg_names ! shown, r shown))"
proof -
  let ?c = "nat (zp_cursor z)" and ?n = "nat (edit_reg (zp_cursor z))"
  let ?shown = "if zp_show_users_timers z \<and> 8 \<le> zp_cursor z \<and> zp_cursor z < 12 then ?n + 4 else ?n"
  have c: "?c < 44" "int ?c = zp_cursor z" using assms(2,3) by simp_all
  have e: "0 \<le> edit_reg (zp_cursor z)" "edit_reg (zp_cursor z) < 64" using assms(2,3) by (auto simp: edit_reg_def)
  then have n: "?n < 64" "word_of_int (edit_reg (zp_cursor z)) = (of_nat ?n :: u32)" by (simp_all add: nat_less_iff)
  obtain b' where b': "cmd_write (zippy_dev bus) zp_user_break MAXERR (of_nat ?n) v z = (Inr (), z\<lparr>zp_fpga := b'\<rparr>)"
    "regs b' = (regs (zp_fpga z))(of_nat ?n := v)"
    using cmd_write_writes [OF assms(1) n(1) assms(4)] by blast
  have "cell_values (zp_show_users_timers z) id ! ?c = ?shown"
    using cell_table [OF c(1), of "zp_show_users_timers z"] assms(2,3) by (auto simp: cell_ok_def c(2) nat_le_iff le_nat_iff)
  moreover have "length (cell_values (zp_show_users_timers z) id) = 44" by (simp add: cell_values_def del: upt_rec_numeral)
  ultimately have "\<forall>r s. cpu_picture r s \<longrightarrow>
      (periph_cells (zp_show_users_timers z) s @ reg_cells s) ! ?c = (cpu_reg_names ! ?shown, r ?shown)"
    using c(1) by (simp add: cells_registers)
  then show ?thesis
    using b' unfolding typed_loop n(2) Let_def by (intro exI [of _ ?n] exI [of _ b']) (simp add: seq_def)
qed

section \<open>What the debugger leaves alone\<close>

definition preserves :: "('s \<Rightarrow> bool) \<Rightarrow> ('s \<Rightarrow> 'r \<times> 's) \<Rightarrow> bool" where
  "preserves I m \<longleftrightarrow> (\<forall>s. I s \<longrightarrow> I (snd (m s)))"

lemma preserves_ret: "preserves I (ret x)" and preserves_throw: "preserves I (throw e)"
  by (simp_all add: preserves_def)

lemma preserves_Pair: "preserves I (Pair x)"
  by (simp add: preserves_def)

lemma preserves_seq:
  assumes "preserves I m" "\<And>x. preserves I (f x)"
  shows "preserves I (seq m f)"
  unfolding preserves_def
proof (intro allI impI)
  fix s assume "I s"
  then have "I (snd (m s))" using assms(1) by (simp add: preserves_def)
  then show "I (snd (seq m f s))"
    using assms(2) unfolding preserves_def seq_def by (cases "m s") (force split: sum.split)
qed

lemma preserves_call: "preserves I m \<Longrightarrow> preserves I (call m)"
  unfolding preserves_def call_def by (force split: prod.split sum.split)

lemma preserves_catch: "preserves I m \<Longrightarrow> preserves I h \<Longrightarrow> preserves I (catch_buserr m h)"
  unfolding preserves_def catch_buserr_def by (force split: prod.split sum.split stop.split exn.split)

lemma preserves_if: "preserves I m \<Longrightarrow> preserves I n \<Longrightarrow> preserves I (if b then m else n)"
  by simp

lemma preserves_branch: "preserves I m \<Longrightarrow> preserves I n \<Longrightarrow> preserves I (\<lambda>s. if b s then m s else n s)"
  unfolding preserves_def by simp

lemma preserves_with: "(\<And>s. preserves I (m s)) \<Longrightarrow> preserves I (\<lambda>s. m s s)"
  unfolding preserves_def by simp

lemma preserves_read_regs: "(\<And>a. a \<in> set as \<Longrightarrow> preserves I (rd a)) \<Longrightarrow> preserves I (read_regs rd as)"
  by (induction "as") (auto intro!: preserves_seq preserves_ret preserves_Pair)

lemmas preserves_intros = preserves_ret preserves_throw preserves_seq preserves_call preserves_catch preserves_if preserves_Pair

lemma preserves_pass_on: "preserves I m \<Longrightarrow> preserves (\<lambda>z. I (zp_fpga z)) (pass_on m)"
  unfolding preserves_def pass_on_def by (force split: prod.split)

lemma preserves_cmd_poll: "preserves I (dv_readio dev R_ZIPCTRL) \<Longrightarrow> preserves I (cmd_poll dev brk n)"
  by (induction n) (auto intro!: preserves_seq preserves_branch preserves_ret preserves_Pair)

lemma preserves_cmd_select:
  assumes "preserves I (dv_readio dev R_ZIPCTRL)" "preserves I (dv_writeio dev R_ZIPCTRL (CMD_HALT OR (a AND 0x3f)))"
  shows "preserves I (cmd_select dev brk n a)"
proof -
  have "preserves I (\<lambda>d. case x of (s, left) \<Rightarrow>
      if brk d then throw (Exit EXIT_SUCCESS) d else if left = 0 then throw (Exit EXIT_FAILURE) d else ret () d)" for x :: "u32 \<times> nat"
    by (cases x) (auto intro!: preserves_branch preserves_Pair)
  then show ?thesis
    unfolding cmd_select_def
    by (intro preserves_seq preserves_call preserves_cmd_poll assms) (auto simp: case_prod_unfold)
qed

text \<open>What the debugger may do to the board when it looks at it: read, and halt the CPU at one of the registers.\<close>

locale board_view =
  fixes bus :: "'b devbus" and I :: "'b \<Rightarrow> bool"
  assumes read_keeps: "preserves I (dv_readio bus a)"
    and halt_keeps: "preserves I (dv_writeio bus R_ZIPCTRL (CMD_HALT OR (a AND 0x3f)))"
begin

abbreviation "J \<equiv> \<lambda>z. I (zp_fpga z)"

lemma dev_read: "preserves J (dv_readio (zippy_dev bus) a)"
  by (simp add: zippy_dev_def preserves_pass_on read_keeps)

lemma dev_select: "preserves J (cmd_select (zippy_dev bus) brk n a)"
  by (rule preserves_cmd_select [OF dev_read]) (simp add: zippy_dev_def preserves_pass_on halt_keeps)

lemma dev_cmd_read: "preserves J (dbg_cmd_read bus i)"
  unfolding dbg_cmd_read_def cmd_read_def by (intro preserves_intros dev_read dev_select)

lemma dev_sparse: "preserves J (read_sparse (zippy_dev bus) a m)"
  unfolding read_sparse_def by (intro preserves_intros dev_read)

lemma dev_imem: "preserves J (read_imem (zippy_dev bus) prev ms)"
  by (induction ms arbitrary: prev) (auto intro!: preserves_intros dev_sparse)

lemma dev_set: "preserves J (set_state f)"
  by (simp add: preserves_def set_state_def)

lemma dev_read_cpu: "preserves J (read_cpu bus)"
  unfolding read_cpu_def Let_def by (intro preserves_seq preserves_read_regs dev_cmd_read dev_set)

lemma dev_read_memory: "preserves J (read_memory bus st)"
  unfolding read_memory_def Let_def
  by (intro preserves_seq preserves_read_regs dev_sparse dev_imem dev_set)

lemma dev_raw_state: "preserves J (read_raw_state bus)"
  unfolding read_raw_state_def
  by (intro preserves_seq dev_read_cpu preserves_with [where m = "\<lambda>z. read_memory bus (zp_state z)"] dev_read_memory)

lemma dev_read_state: "preserves J (read_state bus)"
  unfolding read_state_def Let_def
proof (intro preserves_seq [OF dev_raw_state])
  have draw: "preserves J (\<lambda>z. case draw_state v z of Inl e \<Rightarrow> throw (Faulty e) z | Inr ds \<Rightarrow> ret ds z)" for v
    by (simp add: preserves_def split: sum.split)
  have "preserves J (seq (call (dv_readio (zippy_dev bus) R_ZIPCTRL)) (\<lambda>v z. case draw_state v z of Inl e \<Rightarrow> throw (Faulty e) z | Inr ds \<Rightarrow> ret ds z))"
    by (intro preserves_seq preserves_call dev_read draw)
  then show "preserves J (\<lambda>z. seq (call (dv_readio (zippy_dev bus) R_ZIPCTRL))
      (\<lambda>v z. case draw_state v z of Inl e \<Rightarrow> throw (Faulty e) z | Inr ds \<Rightarrow> ret ds z) (z\<lparr>zp_cursor := clamp_cursor (zp_cursor z)\<rparr>))" for x :: unit
    by (simp add: preserves_def)
qed

lemma dev_refresh: "preserves J (refresh bus)"
  unfolding refresh_def dbg_stalled_def by (intro preserves_intros dev_read dev_read_state)

end

text \<open>
  C20: looking at the CPU disturbs nothing.  Whatever is kept by every read and by halting the CPU at a register is
  kept by drawing the debugger's screen, which writes nothing else.
\<close>
theorem dbg_only_halts:
  assumes "\<And>a. preserves I (dv_readio bus a)" "\<And>i. i < 64 \<Longrightarrow> preserves I (dv_writeio bus R_ZIPCTRL (CPU_HALT OR i))"
    "I (zp_fpga z)" "refresh bus z = (r, z')"
  shows "I (zp_fpga z')"
proof -
  have "board_view bus I"
  proof
    have "a AND 0x3f < (64 :: u32)" for a
      by (rule le_less_trans [of _ 63]) (simp_all add: word_and_le1)
    then show "preserves I (dv_writeio bus R_ZIPCTRL (CMD_HALT OR (a AND 0x3f)))" for a
      using assms(2) by (simp add: CMD_HALT_def CPU_HALT_def)
  qed (rule assms(1))
  then show ?thesis using board_view.dev_refresh [of bus I] assms(3,4) by (auto simp: preserves_def)
qed

section \<open>On the hex bus\<close>

text \<open>\<^verbatim>\<open>ZIPPY\<close> keeps the contract of the bus it passes its calls on to.\<close>

lemma keeps_pass_on: "keeps traffic N m \<Longrightarrow> keeps (\<lambda>z. traffic (zp_fpga z)) N (pass_on m)"
  unfolding keeps_def pass_on_def by (force split: prod.splits)

context devbus_client
begin

lemma zippy_client: "devbus_client (zippy_dev bus) (\<lambda>z. traffic (zp_fpga z))"
proof unfold_locales
  fix a n w ws and s s' :: "'b zippy"
  show "dv_readio (zippy_dev bus) a s = (Inr w, s') \<Longrightarrow> traffic (zp_fpga s') < traffic (zp_fpga s)"
    using readio_uses by (force simp: zippy_dev_def pass_on_def split: prod.splits)
  show "dv_readi (zippy_dev bus) a n s = (Inr ws, s') \<Longrightarrow> length ws = nat n"
    using readi_fills by (force simp: zippy_dev_def pass_on_def split: prod.splits)
  show "dv_readz (zippy_dev bus) a n s = (Inr ws, s') \<Longrightarrow> length ws = nat n"
    using readz_fills by (force simp: zippy_dev_def pass_on_def split: prod.splits)
qed (simp_all add: zippy_dev_def keeps_pass_on bus_keeps)

end

interpretation dbgdev: devbus_client "zippy_dev hexbus_dev" "\<lambda>z. hex_traffic (zp_fpga z)"
  by (rule devbus_client.zippy_client [OF hexdev.devbus_client_axioms])

lemma keeps_preserves:
  assumes "keeps traffic N m"
  shows "preserves (\<lambda>h. traffic h \<le> N) m"
  unfolding preserves_def
proof (intro allI impI)
  fix h assume h: "traffic h \<le> N"
  show "traffic (snd (m h)) \<le> N"
    using keepsD [OF assms surjective_pairing h] h by linarith
qed

interpretation hexview: board_view hexbus_dev "\<lambda>h. hex_traffic h \<le> N" for N
  by unfold_locales (intro keeps_preserves hexdev.bus_keeps)+

section \<open>A CPU that does not stop\<close>

lemma cmd_poll_stalled:
  assumes "\<And>d. I d \<Longrightarrow> \<exists>s d'. dv_readio dev R_ZIPCTRL d = (Inr s, d') \<and> s AND CPU_STALL = 0 \<and> I d'" "\<And>d. I d \<Longrightarrow> \<not> brk d" "I d"
  shows "\<exists>s d'. cmd_poll dev brk n d = (Inr (s, 0), d') \<and> I d'"
  using assms(3)
proof (induction n arbitrary: d)
  case 0
  then show ?case using assms(1) [of d] by (auto simp: seq_def)
next
  case (Suc n)
  obtain s d' where "dv_readio dev R_ZIPCTRL d = (Inr s, d')" "s AND CPU_STALL = 0" "I d'"
    using assms(1) [OF Suc.prems] by blast
  then show ?case using Suc.IH [of d'] assms(2) [of d'] by (auto simp: seq_def)
qed

text \<open>
  C22: a CPU that never stops is given up.  When the control register never says that the CPU has stopped, reading a
  register and writing one both end the program with a failure after the limit of polls: no value is made up, and none is
  written.
\<close>
theorem stalled_cpu_is_given_up:
  assumes "\<And>v d. I d \<Longrightarrow> \<exists>d'. dv_writeio dev R_ZIPCTRL v d = (Inr (), d') \<and> I d'"
    "\<And>d. I d \<Longrightarrow> \<exists>s d'. dv_readio dev R_ZIPCTRL d = (Inr s, d') \<and> s AND CPU_STALL = 0 \<and> I d'"
    "\<And>d. I d \<Longrightarrow> \<not> brk d" "I d"
  shows "\<exists>d'. I d' \<and> cmd_read dev brk maxerr a d = (Inl (Exit EXIT_FAILURE), d')
    \<and> cmd_write dev brk maxerr a v d = (Inl (Exit EXIT_FAILURE), d')"
proof -
  obtain d1 where w: "dv_writeio dev R_ZIPCTRL (CMD_HALT OR (a AND 0x3f)) d = (Inr (), d1)" "I d1"
    using assms(1,4) by blast
  obtain s d2 where p: "cmd_poll dev brk maxerr d1 = (Inr (s, 0), d2)" "I d2"
    using cmd_poll_stalled [of I dev brk d1 maxerr] assms(2,3) w(2) by blast
  have "cmd_select dev brk maxerr a d = (Inl (Exit EXIT_FAILURE), d2)"
    using w p assms(3) [OF p(2)] by (simp add: cmd_select_def seq_def call_def)
  then show ?thesis using p(2) by (auto simp: cmd_read_def cmd_write_def seq_Inl)
qed

section \<open>Witnesses\<close>

text \<open>A board whose control register shows the CPU stopped, or never; register \<open>i\<close> holds \<open>i\<close>; the writes are logged.\<close>

type_synonym demo_board = "u32 \<times> (u32 \<times> u32) list"

definition demo_bus :: "u32 \<Rightarrow> demo_board devbus" where
  "demo_bus ctrl =
     \<lparr>dv_writeio = (\<lambda>a v (s, l). (Inr (), (if a = R_ZIPCTRL then v AND 0x3f else s, (a, v) # l))),
      dv_readio = (\<lambda>a (s, l). (Inr (if a = R_ZIPCTRL then ctrl else if a = R_ZIPDATA then s else 0), (s, l))),
      dv_readi = (\<lambda>a n d. (Inl Read_Failure, d)), dv_readz = (\<lambda>a n d. (Inl Read_Failure, d)),
      dv_writei = (\<lambda>a vs d. (Inl Write_Failure, d)), dv_writez = (\<lambda>a vs d. (Inl Write_Failure, d))\<rparr>"

definition demo_state :: zipstate where
  "demo_state =
     (let m = \<lparr>sm_valid = False, sm_a = 0, sm_d = 0\<rparr>
      in \<lparr>zs_valid = False, zs_gie = False, zs_last_pc_valid = False, zs_sR = [], zs_uR = [], zs_p = [], zs_last_pc = 0, zs_pc = 0,
          zs_sp = 0, zs_smem = replicate 5 m, zs_imem = replicate 5 m\<rparr>)"

lemma demo_port: "cpu_port (demo_bus CPU_STALL) fst id (\<lambda>_. Some 0)"
  by (auto simp: cpu_port_def demo_bus_def CPU_STALL_def)

lemma dbg_shows_cpu_witness:
  "\<exists>z'. read_raw_state (demo_bus CPU_STALL) (zippy_init demo_state (0, [])) = (Inr (), z')
     \<and> cpu_picture of_nat (zp_state z') \<and> memory_picture (\<lambda>_. Some 0) (zp_state z')"
  using dbg_shows_cpu [OF demo_port, of "zippy_init demo_state (0, [])"]
  by (simp add: zippy_init_def zipstate_init_def demo_state_def id_def Let_def)

definition only_halts :: "demo_board \<Rightarrow> bool" where
  "only_halts = (\<lambda>(s, l). \<forall>(a, v)\<in>set l. a = R_ZIPCTRL \<and> v AND CPU_HALT \<noteq> 0)"

lemma dbg_only_halts_witness:
  "only_halts (zp_fpga (snd (refresh (demo_bus CPU_STALL) (zippy_init demo_state (0, [])))))"
proof (rule dbg_only_halts [OF _ _ _ surjective_pairing])
  show "preserves only_halts (dv_readio (demo_bus CPU_STALL) a)" for a
    by (auto simp: preserves_def only_halts_def demo_bus_def)
  show "preserves only_halts (dv_writeio (demo_bus CPU_STALL) R_ZIPCTRL (CPU_HALT OR i))" for i
    by (auto simp: preserves_def only_halts_def demo_bus_def CPU_HALT_def bit.conj_disj_distrib2)
qed (simp add: only_halts_def zippy_init_def)

lemma stalled_cpu_is_given_up_witness:
  "fst (cmd_read (demo_bus 0) (\<lambda>_. False) 1000 5 (0, [])) = Inl (Exit EXIT_FAILURE)"
  using stalled_cpu_is_given_up [of "\<lambda>_. True" "demo_bus 0" "\<lambda>_. False" "(0, [])" 1000 5 0]
  by (auto simp: demo_bus_def)

text \<open>A board with registers, and the one that is selected.\<close>

definition reg_bus :: "(u32 \<times> (u32 \<Rightarrow> u32)) devbus" where
  "reg_bus =
     \<lparr>dv_writeio = (\<lambda>a v (s, g). (Inr (), if a = R_ZIPCTRL then (v AND 0x3f, g) else if a = R_ZIPDATA then (s, g(s := v)) else (s, g))),
      dv_readio = (\<lambda>a (s, g). (Inr (if a = R_ZIPCTRL then CPU_STALL else if a = R_ZIPDATA then g s else 0), (s, g))),
      dv_readi = (\<lambda>a n d. (Inl Read_Failure, d)), dv_readz = (\<lambda>a n d. (Inl Read_Failure, d)),
      dv_writei = (\<lambda>a vs d. (Inl Write_Failure, d)), dv_writez = (\<lambda>a vs d. (Inl Write_Failure, d))\<rparr>"

lemma reg_bus_port: "reg_port reg_bus fst snd"
  by (auto simp: reg_port_def reg_bus_def CPU_STALL_def)

text \<open>A value typed into the cell of the supervisor's register 1.\<close>

lemma typed_value_written_witness:
  "\<exists>n b'. dbg_loop reg_bus (KEY_ENTER # map Chr (hex8 0xdeadbeef) @ KEY_RETURN # []) [] ((zippy_init demo_state (0, \<lambda>_. 0))\<lparr>zp_cursor := 13\<rparr>)
        = seq (refresh reg_bus) (\<lambda>scr. dbg_loop reg_bus [] scr) ((zippy_init demo_state b')\<lparr>zp_cursor := 13\<rparr>)
     \<and> snd b' = (\<lambda>_. 0)(of_nat n := 0xdeadbeef)
     \<and> (\<forall>r s. cpu_picture r s \<longrightarrow> (periph_cells False s @ reg_cells s) ! 13 = (cpu_reg_names ! n, r n))"
  using typed_value_written [OF reg_bus_port, of "(zippy_init demo_state (0, \<lambda>_. 0))\<lparr>zp_cursor := 13\<rparr>" "0xdeadbeef" "[]" "[]"]
  by (simp add: zippy_init_def)

lemma cell_under_cursor_witness:
  "\<exists>s. snd ((periph_cells True s @ reg_cells s) ! 8) = (44 :: u32) \<and> prompt_row 12 = cell_row 12 - 2"
proof -
  let ?s = "demo_state\<lparr>zs_sR := map of_nat [0..<16], zs_uR := map of_nat [16..<32], zs_p := map of_nat [32..<52],
    zs_pc := 15, zs_sp := 13\<rparr>"
  have p: "cpu_picture of_nat ?s" by (simp add: cpu_picture_def demo_state_def Let_def)
  show ?thesis
    using cell_under_cursor [OF p, of 8 True] cell_under_cursor [OF p, of 12 True] by (auto simp: edit_reg_def)
qed

end
