(* ===== verification/Boot.thy ===== *)
theory Boot
  imports Prelude
begin

text \<open>
  The boot loader of the ZipCPU, \<^verbatim>\<open>_bootloader\<close> of \<^verbatim>\<open>sw/zlib/crt0.c\<close>, in the version that copies with the
  CPU: the macro that selects the one with the DMA controller is not set by the design of this board, which has none.
  The memory is a function from addresses to words, \<^verbatim>\<open>int *\<close> an address; the symbols that the
  linker defines (\<^verbatim>\<open>bootloader.h\<close>) are a record.
\<close>

record linker =
  ld_rom :: u32
  ld_kram :: u32
  ld_ram :: u32
  ld_kram_start :: u32
  ld_kram_end :: u32
  ld_ram_image_end :: u32
  ld_bss_image_end :: u32

type_synonym memory = "u32 \<Rightarrow> u32"

text \<open>\<^verbatim>\<open>p - q\<close> of two pointers to \<^verbatim>\<open>int\<close>, and the loops.  The first two are \<^verbatim>\<open>while\<close> loops and may go on for ever.\<close>

definition ptr_diff :: "u32 \<Rightarrow> u32 \<Rightarrow> int" where
  "ptr_diff p q = sint (p - q) div 4"

partial_function (option) clear_while :: "u32 \<Rightarrow> u32 \<Rightarrow> memory \<Rightarrow> memory option" where
  "clear_while wrp lim m = (if wrp < lim then clear_while (wrp + 4) lim (m(wrp := 0)) else Some m)"

partial_function (option) copy_while :: "u32 \<Rightarrow> u32 \<Rightarrow> u32 \<Rightarrow> memory \<Rightarrow> (u32 \<times> u32 \<times> memory) option" where
  "copy_while wrp lim rdp m =
     (if wrp < lim then copy_while (wrp + 4) lim (rdp + 4) (m(wrp := m rdp)) else Some (wrp, rdp, m))"

primrec copy_words :: "nat \<Rightarrow> u32 \<Rightarrow> u32 \<Rightarrow> memory \<Rightarrow> u32 \<times> u32 \<times> memory" where
  "copy_words 0 wrp rdp m = (wrp, rdp, m)"
| "copy_words (Suc n) wrp rdp m = copy_words n (wrp + 4) (rdp + 4) (m(wrp := m rdp))"

primrec clear_words :: "nat \<Rightarrow> u32 \<Rightarrow> memory \<Rightarrow> memory" where
  "clear_words 0 wrp m = m"
| "clear_words (Suc n) wrp m = clear_words n (wrp + 4) (m(wrp := 0))"

definition bootloader :: "linker \<Rightarrow> memory \<Rightarrow> memory option" where
  "bootloader l m =
     (if ld_rom l = 0 then clear_while (ld_ram_image_end l) (ld_ram_image_end l) m
      else
        (let wrp = (if ld_kram l \<noteq> 0 then ld_kram l else ld_ram l)
         in case (if ld_kram_end l \<noteq> ld_kram_start l then copy_while wrp (ld_kram_end l) (ld_kram_start l) m
                  else Some (wrp, ld_kram_start l, m)) of
              None \<Rightarrow> None
            | Some (wrp, rdp, m) \<Rightarrow>
                let wrp = (if ld_ram l \<noteq> 0 then ld_ram l else wrp);
                    (wrp, rdp, m) = copy_words (nat (ptr_diff (ld_ram_image_end l) (ld_ram l))) wrp rdp m
                in Some (clear_words (nat (ptr_diff (ld_bss_image_end l) (ld_ram_image_end l))) wrp m)))"

section \<open>What the loops do\<close>

text \<open>The word addresses from \<open>w\<close> on.\<close>

definition words_at :: "u32 \<Rightarrow> nat \<Rightarrow> u32 set" where
  "words_at w n = (\<lambda>i. w + 4 * of_nat i) ` {..<n}"

lemma words_at_0 [simp]: "words_at w 0 = {}"
  by (simp add: words_at_def)

lemma words_at_Suc: "words_at w (Suc n) = insert w (words_at (w + 4) n)"
  unfolding words_at_def lessThan_Suc_eq_insert_0 image_insert image_image by (simp add: algebra_simps)

lemma not_in_next: "n < 2 ^ 30 \<Longrightarrow> w \<notin> words_at (w + 4) n"
proof
  assume n: "n < 2 ^ 30" and "w \<in> words_at (w + 4) n"
  then obtain i where i: "i < n" "w = w + 4 + 4 * of_nat i" by (auto simp: words_at_def)
  then have "(of_nat (4 * (i + 1)) :: u32) = 0" by (simp add: algebra_simps)
  then have "2 ^ 32 dvd 4 * (i + 1)" unfolding word_of_nat_eq_0_iff by simp
  then show False using i(1) n by (auto dest: dvd_imp_le)
qed

definition copied :: "u32 \<Rightarrow> u32 \<Rightarrow> nat \<Rightarrow> memory \<Rightarrow> memory" where
  "copied w r n m = (\<lambda>a. if a \<in> words_at w n then m (r + (a - w)) else m a)"

definition cleared :: "u32 \<Rightarrow> nat \<Rightarrow> memory \<Rightarrow> memory" where
  "cleared w n m = (\<lambda>a. if a \<in> words_at w n then 0 else m a)"

lemma copy_words_copied:
  assumes "n < 2 ^ 30" "words_at w n \<inter> words_at r n = {}"
  shows "copy_words n w r m = (w + 4 * of_nat n, r + 4 * of_nat n, copied w r n m)"
  using assms
proof (induction n arbitrary: w r m)
  case 0
  then show ?case by (simp add: copied_def)
next
  case (Suc n)
  have "copied (w + 4) (r + 4) n (m(w := m r)) a = copied w r (Suc n) m a" for a
  proof (cases "a \<in> words_at (w + 4) n")
    case True
    then obtain i where i: "i < n" "a = w + 4 + 4 * of_nat i" by (auto simp: words_at_def)
    then have s: "r + 4 + (a - (w + 4)) = r + (a - w)" "r + (a - w) = r + 4 * of_nat (Suc i)" by (simp_all add: algebra_simps)
    then have "r + (a - w) \<in> words_at r (Suc n)" using i(1) unfolding words_at_def by (intro image_eqI [of _ _ "Suc i"]) simp_all
    then have "r + (a - w) \<noteq> w" using Suc.prems(2) by (metis disjoint_iff insertI1 words_at_Suc)
    then show ?thesis using True s(1) by (simp add: copied_def words_at_Suc)
  next
    case False
    then show ?thesis using not_in_next [of n w] Suc.prems(1) by (auto simp: copied_def words_at_Suc)
  qed
  moreover have "words_at (w + 4) n \<inter> words_at (r + 4) n = {}" using Suc.prems(2) by (auto simp: words_at_Suc)
  ultimately show ?case using Suc.IH [of "w + 4" "r + 4"] Suc.prems(1) by (auto simp: algebra_simps)
qed

lemma clear_words_cleared: "clear_words n w m = cleared w n m"
proof (induction n arbitrary: w m)
  case (Suc n)
  then show ?case by (auto simp: cleared_def words_at_Suc)
qed (simp add: cleared_def)

lemma copy_while_words:
  assumes "unat w + 4 * n < 2 ^ 32"
  shows "copy_while w (w + 4 * of_nat n) r m = Some (copy_words n w r m)"
  using assms
proof (induction n arbitrary: w r m)
  case 0
  then show ?case by (subst copy_while.simps) simp
next
  case (Suc n)
  have "unat (of_nat (4 * Suc n) :: u32) = 4 * Suc n"
    using Suc.prems unfolding unat_of_nat by simp
  then have "unat (4 * of_nat (Suc n) :: u32) = 4 * Suc n" by simp
  then have lt: "w < w + 4 * of_nat (Suc n)"
    using Suc.prems by (simp add: word_less_nat_alt unat_word_ariths)
  have "unat (w + 4) = unat w + 4" using Suc.prems by (simp add: unat_word_ariths)
  then have "copy_while (w + 4) (w + 4 + 4 * of_nat n) (r + 4) (m(w := m r)) = Some (copy_words n (w + 4) (r + 4) (m(w := m r)))"
    using Suc.prems by (intro Suc.IH) simp
  then show ?case using lt by (subst copy_while.simps) (simp add: algebra_simps)
qed

section \<open>The program in its places\<close>

text \<open>
  What the linker scripts of \<^verbatim>\<open>sw/board\<close> promise: the image of the program stands in the flash from \<open>ks\<close> on, first
  \<open>nk\<close> words for the block RAM at \<^verbatim>\<open>_kram\<close> (none if there is none), then \<open>nr\<close> words for \<^verbatim>\<open>_ram\<close>, after which
  \<open>nb\<close> words are to be zero; and these regions are apart.
\<close>

definition image_layout :: "linker \<Rightarrow> u32 \<Rightarrow> nat \<Rightarrow> nat \<Rightarrow> nat \<Rightarrow> bool" where
  "image_layout l ks nk nr nb \<longleftrightarrow>
     ld_rom l \<noteq> 0 \<and> ld_ram l \<noteq> 0 \<and> ld_kram_start l = ks
     \<and> (ld_kram_end l = ks \<and> nk = 0 \<or> ld_kram l \<noteq> 0 \<and> ld_kram_end l \<noteq> ks \<and> ld_kram_end l = ld_kram l + 4 * of_nat nk)
     \<and> ld_ram_image_end l = ld_ram l + 4 * of_nat nr \<and> ld_bss_image_end l = ld_ram_image_end l + 4 * of_nat nb
     \<and> unat (ld_kram l) + 4 * nk < 2 ^ 32 \<and> nk < 2 ^ 29 \<and> nr < 2 ^ 29 \<and> nb < 2 ^ 29
     \<and> words_at (ld_kram l) nk \<inter> words_at ks (nk + nr) = {}
     \<and> words_at (ld_ram l) (nr + nb) \<inter> words_at ks (nk + nr) = {}
     \<and> words_at (ld_kram l) nk \<inter> words_at (ld_ram l) (nr + nb) = {}"

lemma words_at_add: "words_at w (m + n) = words_at w m \<union> words_at (w + 4 * of_nat m) n"
  by (induction m arbitrary: w) (auto simp: words_at_Suc algebra_simps)

lemma words_at_apart:
  assumes "m + n < 2 ^ 30"
  shows "words_at w m \<inter> words_at (w + 4 * of_nat m) n = {}"
  using assms
proof (induction m arbitrary: w)
  case (Suc m)
  have "w \<notin> words_at (w + 4) (m + n)" using not_in_next [of "m + n" w] Suc.prems by simp
  then show ?case using Suc.IH [of "w + 4"] Suc.prems by (auto simp: words_at_Suc words_at_add algebra_simps)
qed simp

lemma ptr_diff_words: "n < 2 ^ 29 \<Longrightarrow> ptr_diff (p + 4 * of_nat n) p = int n"
proof -
  assume n: "n < 2 ^ 29"
  have "p + 4 * of_nat n - p = (word_of_int (4 * int n) :: u32)" by simp
  then have "sint (p + 4 * of_nat n - p) = signed_take_bit 31 (4 * int n)"
    by (simp only: sint_sbintrunc') simp
  also have "\<dots> = 4 * int n" using n by (simp add: signed_take_bit_int_eq_self)
  finally show ?thesis by (simp add: ptr_diff_def)
qed

text \<open>
  C25: the boot loader puts the program in its places.  On a board laid out as the linker scripts do it, the
  loader returns, and then the words of the image stand in the block RAM and in the RAM in their order, the words after
  them are zero, and no other word of the memory has changed.
\<close>
theorem boot_loads_program:
  assumes "image_layout l ks nk nr nb"
  shows "\<exists>m'. bootloader l m = Some m'
    \<and> (\<forall>i<nk. m' (ld_kram l + 4 * of_nat i) = m (ks + 4 * of_nat i))
    \<and> (\<forall>i<nr. m' (ld_ram l + 4 * of_nat i) = m (ks + 4 * of_nat (nk + i)))
    \<and> (\<forall>i<nb. m' (ld_ram l + 4 * of_nat (nr + i)) = 0)
    \<and> (\<forall>a. a \<notin> words_at (ld_kram l) nk \<and> a \<notin> words_at (ld_ram l) (nr + nb) \<longrightarrow> m' a = m a)"
proof -
  let ?k = "ld_kram l" and ?r = "ld_ram l" and ?ks2 = "ks + 4 * of_nat nk" and ?b = "ld_ram l + 4 * of_nat nr"
  define m1 where "m1 = copied ?k ks nk m"
  define m2 where "m2 = copied ?r ?ks2 nr m1"
  note L = assms [unfolded image_layout_def]
  have apart: "words_at ?k nk \<inter> words_at ks nk = {}" "words_at ?r nr \<inter> words_at ?ks2 nr = {}"
    using L unfolding words_at_add by blast+
  have first: "(if ld_kram_end l \<noteq> ld_kram_start l then copy_while (if ?k \<noteq> 0 then ?k else ?r) (ld_kram_end l) (ld_kram_start l) m
      else Some (if ?k \<noteq> 0 then ?k else ?r, ld_kram_start l, m)) = Some (w, ?ks2, m1)" 
    if "w = (if ld_kram_end l \<noteq> ks then ?k + 4 * of_nat nk else if ?k \<noteq> 0 then ?k else ?r)" for w
    using L that copy_while_words [of ?k nk ks m] copy_words_copied [OF _ apart(1), of m]
    by (auto simp: m1_def copied_def)
  have "bootloader l m = Some (cleared ?b nb m2)"
    using L first [OF refl] copy_words_copied [OF _ apart(2), of m1] ptr_diff_words [of nr ?r] ptr_diff_words [of nb ?b]
    by (simp add: bootloader_def clear_words_cleared m2_def split del: if_split)
  moreover have val: "cleared ?b nb m2 a =
      (if a \<in> words_at ?b nb then 0 else if a \<in> words_at ?r nr then m1 (?ks2 + (a - ?r))
       else if a \<in> words_at ?k nk then m (ks + (a - ?k)) else m a)" for a
    by (simp add: cleared_def m2_def m1_def copied_def)
  have sets: "words_at ?r (nr + nb) = words_at ?r nr \<union> words_at ?b nb" "words_at ?r nr \<inter> words_at ?b nb = {}"
    "words_at ?k nk \<inter> words_at ?r (nr + nb) = {}" "words_at ?k nk \<inter> words_at ks (nk + nr) = {}"
    using L words_at_add words_at_apart [of nr nb ?r] by auto
  have mem: "w + 4 * of_nat i \<in> words_at w n" if "i < n" for w i n
    using that by (auto simp: words_at_def)
  have "m1 (?ks2 + 4 * of_nat i) = m (?ks2 + 4 * of_nat i)" if "i < nr" for i
    using sets(4) mem [OF that, of ?ks2] by (auto simp: m1_def copied_def words_at_add)
  then have "cleared ?b nb m2 (?r + 4 * of_nat i) = m (ks + 4 * of_nat (nk + i))" if "i < nr" for i
    using val [of "?r + 4 * of_nat i"] sets mem [OF that, of ?r] that by (auto simp: algebra_simps)
  moreover have "cleared ?b nb m2 (?k + 4 * of_nat i) = m (ks + 4 * of_nat i)" if "i < nk" for i
    using val [of "?k + 4 * of_nat i"] sets mem [OF that, of ?k] by auto
  moreover have "cleared ?b nb m2 (?r + 4 * of_nat (nr + i)) = 0" if "i < nb" for i
    using val [of "?b + 4 * of_nat i"] mem [OF that, of ?b] by (simp add: algebra_simps)
  moreover have "cleared ?b nb m2 a = m a" if "a \<notin> words_at ?k nk \<and> a \<notin> words_at ?r (nr + nb)" for a
    using val [of a] that sets(1) by simp
  ultimately show ?thesis by blast
qed

definition board_linker :: linker where
  "board_linker =
     \<lparr>ld_rom = 0x200000, ld_kram = 0x180000, ld_ram = 0x400000, ld_kram_start = 0x200100, ld_kram_end = 0x180008,
      ld_ram_image_end = 0x40000c, ld_bss_image_end = 0x400014\<rparr>"

lemma boot_loads_program_witness:
  "\<exists>m'. bootloader board_linker id = Some m' \<and> m' 0x180004 = 0x200104 \<and> m' 0x400008 = 0x200110 \<and> m' 0x400010 = 0 \<and> m' 0x300000 = 0x300000"
proof -
  have n: "(2::nat) = Suc (Suc 0)" "(3::nat) = Suc 2" "(5::nat) = Suc (Suc 3)" by simp_all
  have w: "words_at w 2 = {w, w + 4}" "words_at w 5 = {w, w + 4, w + 8, w + 12, w + 16}" for w
    by (simp_all only: n words_at_Suc words_at_0) (simp_all add: add.assoc)
  have l: "image_layout board_linker 0x200100 2 3 2"
    by (simp add: image_layout_def board_linker_def w)
  obtain m' where m': "bootloader board_linker id = Some m'"
    "\<And>i. i < 2 \<Longrightarrow> m' (0x180000 + 4 * of_nat i) = 0x200100 + 4 * of_nat i"
    "\<And>i. i < 3 \<Longrightarrow> m' (0x400000 + 4 * of_nat i) = 0x200100 + 4 * of_nat (2 + i)"
    "\<And>i. i < 2 \<Longrightarrow> m' (0x400000 + 4 * of_nat (3 + i)) = 0"
    "\<And>a. a \<notin> words_at 0x180000 2 \<and> a \<notin> words_at 0x400000 5 \<Longrightarrow> m' a = a"
    using boot_loads_program [OF l, of id] by (auto simp: board_linker_def)
  show ?thesis
    using m'(1) m'(2) [of 1] m'(3) [of 2] m'(4) [of 1] m'(5) [of "0x300000"] by (auto simp: w)
qed

text \<open>
  With no ROM the loop that is to clear the memory starts at its own end: nothing is cleared, and the loader
  returns with the memory as it was.  That is the layout of \<^verbatim>\<open>bkram.ld\<close>.
\<close>

lemma boot_without_rom: "ld_rom l = 0 \<Longrightarrow> bootloader l m = Some m"
  unfolding bootloader_def by (subst clear_while.simps) simp

end
