(* ===== verification/ScopeCls.thy ===== *)
theory ScopeCls
  imports Run
begin

text \<open>
  The reader of the logic scopes inside the design, \<^verbatim>\<open>sw/host/scopecls.cpp\<close>, and the three scopes derived from
  it.  The device gives its length and the place of its trigger in a control register and its samples, one after the
  other, in a data register.  The samples are printed as text and written as a VCD file.  The
  text of a time in nanoseconds, which the code computes in floating point, and the date are parameters:
  a file is a list of lines and of time stamps.
\<close>

section \<open>The state\<close>

record traceinfo =
  tr_name :: string
  tr_key :: string
  tr_nbits :: nat
  tr_nshift :: nat

record 'b scope =
  sc_fpga :: 'b
  sc_addr :: u32
  sc_compressed :: bool
  sc_vector_read :: bool
  sc_scoplen :: u32
  sc_holdoff :: u32
  sc_data :: "u32 list option"
  sc_clkfreq_hz :: u32
  sc_traces :: "traceinfo list"

text \<open>The constructor; \<open>raw\<close> is what \<^verbatim>\<open>m_holdoff\<close> holds before it is set.\<close>

definition scope_init :: "'b \<Rightarrow> u32 \<Rightarrow> bool \<Rightarrow> bool \<Rightarrow> u32 \<Rightarrow> 'b scope" where
  "scope_init fpga addr compressed vecread raw =
     \<lparr>sc_fpga = fpga, sc_addr = addr, sc_compressed = compressed, sc_vector_read = vecread, sc_scoplen = 0,
      sc_holdoff = raw, sc_data = None, sc_clkfreq_hz = 100000000, sc_traces = []\<rparr>"

definition on_bus :: "('b, 'a) io \<Rightarrow> ('b scope, 'a) run" where
  "on_bus m = (\<lambda>s. case call m (sc_fpga s) of (r, b) \<Rightarrow> (r, s\<lparr>sc_fpga := b\<rparr>))"

section \<open>The control register\<close>

definition scope_ready :: "'b devbus \<Rightarrow> ('b scope, bool) run" where
  "scope_ready bus s =
     seq (on_bus (dv_readio bus (sc_addr s))) (\<lambda>v s.
       let s = (if sc_scoplen s = 0
                then s\<lparr>sc_scoplen := push_bit (unat (drop_bit 20 v AND 0x1f)) 1, sc_holdoff := v AND 0xfffff\<rparr> else s)
       in ret (drop_bit 28 v AND 6 = 6) s) s"

definition yes_no :: "u32 \<Rightarrow> u32 \<Rightarrow> string \<Rightarrow> string \<Rightarrow> string" where
  "yes_no v m y n = (if v AND m \<noteq> 0 then y else n)"

definition tab :: string where "tab = [CHR 0x09]"

definition decode_control :: "'b devbus \<Rightarrow> ('b scope, string) run" where
  "decode_control bus s =
     seq (on_bus (dv_readio bus (sc_addr s))) (\<lambda>v s.
       ret (concat (map (\<lambda>(t, w). tab @ t @ '':'' @ tab @ w @ newline)
         [(''CNTRL-REG'', ''0x'' @ hex8 v),
          (''31. RESET'', yes_no v 0x80000000 ''Ongoing'' ''Complete''), (''30. STOPPED'', yes_no v 0x40000000 ''Yes'' ''No''),
          (''29. TRIGGERED'', yes_no v 0x20000000 ''Yes'' ''No''), (''28. PRIMED'', yes_no v 0x10000000 ''Yes'' ''No''),
          (''27. MANUAL'', yes_no v 0x08000000 ''Yes'' ''No''), (''26. DISABLED'', yes_no v 0x04000000 ''Yes'' ''No''),
          (''25. ZERO'', yes_no v 0x02000000 ''Yes'' ''No''),
          (''SCOPLEN'', hex8 (sc_scoplen s) @ '' ('' @ fmt_d (sc_scoplen s) @ '')''), (''HOLDOFF'', hex8 (v AND 0xfffff)),
          (''TRIGLOC'', fmt_d (sc_scoplen s - (v AND 0xfffff)))])) s) s"

definition scoplen :: "'b devbus \<Rightarrow> ('b scope, u32) run" where
  "scoplen bus s =
     (if sc_scoplen s = 0 then
        seq (on_bus (dv_readio bus (sc_addr s))) (\<lambda>v s.
          let s = s\<lparr>sc_holdoff := v AND 0xfffff\<rparr>;
              lgln = unat (drop_bit 20 v AND 0x1f);
              s = (if lgln \<noteq> 0 then s\<lparr>sc_scoplen := push_bit lgln 1\<rparr> else s)
          in ret (sc_scoplen s) s) s
      else ret (sc_scoplen s) s)"

section \<open>The samples\<close>

text \<open>One read per word; what has been read stays in the buffer when a later read fails.\<close>

fun read_words :: "'b devbus \<Rightarrow> nat list \<Rightarrow> ('b scope, unit) run" where
  "read_words bus [] s = ret () s"
| "read_words bus (i # is) s =
     seq (on_bus (dv_readio bus (sc_addr s + 4))) (\<lambda>v s.
       read_words bus is (s\<lparr>sc_data := map_option (\<lambda>d. d[i := v]) (sc_data s)\<rparr>)) s"

text \<open>\<open>junk\<close> is what the buffer holds when it has been allocated.\<close>

definition rawread :: "'b devbus \<Rightarrow> (nat \<Rightarrow> u32) \<Rightarrow> ('b scope, unit) run" where
  "rawread bus junk s =
     (if sc_data s \<noteq> None then ret () s
      else
        seq (scoplen bus) (\<lambda>len s.
          if sint len \<le> 4 then ret () s
          else
            (let s = s\<lparr>sc_data := Some (map junk [0..<unat len])\<rparr>
             in if sc_vector_read s then
                  seq (on_bus (dv_readz bus (sc_addr s + 4) (sint len))) (\<lambda>ws s. ret () (s\<lparr>sc_data := Some ws\<rparr>)) s
                else read_words bus [0..<unat len] s)) s)"

text \<open>\<^verbatim>\<open>m_data[i]\<close> for \<open>i\<close> below \<^verbatim>\<open>(int)m_scoplen\<close>; an access without a buffer, or outside it, is a fault.\<close>

definition samples :: "'b scope \<Rightarrow> fault + u32 list" where
  "samples s =
     (let n = nat (sint (sc_scoplen s))
      in case sc_data s of
           None \<Rightarrow> if n = 0 then Inr [] else Inl Undefined
         | Some d \<Rightarrow> if n \<le> length d then Inr (take n d) else Inl Undefined)"

definition jump :: "u32 \<Rightarrow> bool" where "jump v \<longleftrightarrow> drop_bit 31 v AND 1 \<noteq> 0"

definition jump_len :: "u32 \<Rightarrow> u32" where "jump_len v = v AND 0x7fffffff"

definition getaddresslen :: "'b scope \<Rightarrow> fault + u32" where
  "getaddresslen s =
     (if sc_compressed s then
        map_sum id (\<lambda>d. foldl (\<lambda>alen v. if jump v then alen + jump_len v else alen) (sc_scoplen s) (drop 1 d)) (samples s)
      else Inr (sc_scoplen s))"

text \<open>\<^verbatim>\<open>scope[addr]\<close>.\<close>

definition scope_at :: "'b scope \<Rightarrow> u32 \<Rightarrow> u32" where
  "scope_at s a =
     (case sc_data s of Some d \<Rightarrow> if sc_scoplen s > 0 then d ! unat (a AND (sc_scoplen s - 1)) else 0 | None \<Rightarrow> 0)"

section \<open>Printing\<close>

datatype row = Skip u32 | Stars | Row int u32 bool

text \<open>The loops.  \<open>addrv\<close> has moved on when it is compared with the place of the trigger.\<close>

fun print_compressed :: "int \<Rightarrow> u64 \<Rightarrow> u32 list \<Rightarrow> row list" where
  "print_compressed offset addrv [] = []"
| "print_compressed offset addrv (v # d) =
     (if jump v then Skip (jump_len v) # print_compressed offset (addrv + ucast (jump_len v + 1)) d
      else Row (sint addrv) v (sint (ucast (addrv + 1) :: u32) = offset) # print_compressed offset (addrv + 1) d)"

definition print_one :: "int \<Rightarrow> u32 list \<Rightarrow> nat \<Rightarrow> row list" where
  "print_one offset d i =
     (if i > 0 \<and> d ! i = d ! (i - 1) \<and> i < length d - 1 then
        if i > 2 \<and> d ! i \<noteq> d ! (i - 2) then [Stars] else []
      else [Row (int i) (d ! i) (int i = offset)])"

definition print_plain :: "int \<Rightarrow> u32 list \<Rightarrow> row list" where
  "print_plain offset d = concat (map (print_one offset d) [0..<length d])"

definition trigger_offset :: "u32 \<Rightarrow> u32 \<Rightarrow> int" where
  "trigger_offset alen holdoff = sint (alen - holdoff - 1)"

definition scope_rows :: "'b scope \<Rightarrow> fault + row list" where
  "scope_rows s =
     (case (getaddresslen s, samples s) of
        (Inr alen, Inr d) \<Rightarrow>
          let offset = trigger_offset alen (sc_holdoff s)
          in Inr (if sc_compressed s then print_compressed offset 0 d else print_plain offset d)
      | (Inl e, _) \<Rightarrow> Inl e | (_, Inl e) \<Rightarrow> Inl e)"

text \<open>A decimal number of an \<^verbatim>\<open>int\<close> or a \<^verbatim>\<open>long\<close>, and the line of a row; \<open>decode\<close> is that of the derived class.\<close>

definition dec_int :: "int \<Rightarrow> string" where
  "dec_int n = (if n < 0 then CHR ''-'' # dec_nat (nat (- n)) else dec_nat (nat n))"

definition row_text :: "bool \<Rightarrow> (u32 \<Rightarrow> string) \<Rightarrow> row \<Rightarrow> string" where
  "row_text compressed decode r =
     (case r of
        Skip n \<Rightarrow> '' ** (+0x'' @ hex8 n @ '' = '' @ pad_left 8 (fmt_d n) @ '')'' @ newline
      | Stars \<Rightarrow> '' **** ****'' @ newline
      | Row i v trig \<Rightarrow>
          pad_left (if compressed then 10 else 9) (dec_int i) @ '' '' @ hex8 v @ '': '' @ decode v
            @ (if trig then '' <--- TRIGGER'' else []) @ newline)"

definition lift_fault :: "fault + 'a \<Rightarrow> ('s, 'a) run" where
  "lift_fault r = (case r of Inl e \<Rightarrow> throw (Faulty e) | Inr x \<Rightarrow> ret x)"

definition print_scope :: "'b devbus \<Rightarrow> (nat \<Rightarrow> u32) \<Rightarrow> (u32 \<Rightarrow> string) \<Rightarrow> ('b scope, string) run" where
  "print_scope bus junk decode =
     seq (rawread bus junk) (\<lambda>_ s.
       lift_fault (map_sum id (\<lambda>rows. concat (map (row_text (sc_compressed s) decode) rows)) (scope_rows s)) s)"

section \<open>The VCD file\<close>

text \<open>
  A piece of the file: text, the offset of the trigger as a number of clocks (\<^verbatim>\<open>$timezero\<close>), or the time of
  a clock, of its middle if the flag is set.
\<close>

datatype piece = Txt string | Zero int | At u64 bool

definition write_binary :: "int \<Rightarrow> u32 \<Rightarrow> string \<Rightarrow> fault + string" where
  "write_binary nbits val str =
     (if nbits \<le> 1 then Inr (fmt_d (val AND 1) @ str @ newline)
      else if nbits > 32 then Inl Undefined
      else
        (let val = (if nbits < 32 then val AND NOT (push_bit (nat nbits) (- 1)) else val)
         in Inr (''b'' @ concat (map (\<lambda>i. fmt_d (drop_bit (nat nbits - 1 - i) val AND 1)) [0..<nat nbits]) @ '' '' @ str @ newline)))"

definition write_trace :: "traceinfo \<Rightarrow> u32 \<Rightarrow> fault + string" where
  "write_trace info v =
     (if tr_nshift info \<ge> 32 then Inl Undefined
      else write_binary (int (tr_nbits info)) (drop_bit (tr_nshift info) v) (tr_key info))"

fun write_traces :: "traceinfo list \<Rightarrow> u32 \<Rightarrow> fault + string" where
  "write_traces [] v = Inr []"
| "write_traces (t # ts) v =
     (case write_trace t v of Inl e \<Rightarrow> Inl e | Inr l \<Rightarrow> map_sum id (\<lambda>r. l @ r) (write_traces ts v))"

definition register_trace :: "string \<Rightarrow> nat \<Rightarrow> nat \<Rightarrow> traceinfo list \<Rightarrow> traceinfo list" where
  "register_trace name nbits shift ts =
     (let n = length ts;
          c = (if n < 26 then char_of (97 + n) else if n < 52 then char_of (65 + n - 26) else char_of (48 + n - 52))
      in ts @ [\<lparr>tr_name = name, tr_key = [CHR ''v'', c], tr_nbits = nbits, tr_nshift = shift\<rparr>])"

definition var_line :: "traceinfo \<Rightarrow> string" where
  "var_line t =
     ''  $var wire '' @ pad_left 2 (dec_nat (tr_nbits t)) @ '' '' @ tr_key t @ '' '' @ tr_name t
       @ (if tr_nbits t > 1 \<and> CHR ''['' \<notin> set (tr_name t) then ''['' @ dec_nat (tr_nbits t - 1) @ '':0] $end'' else '' $end'')
       @ newline"

definition write_trace_header :: "string \<Rightarrow> 'b scope \<Rightarrow> int \<Rightarrow> piece list" where
  "write_trace_header date s offset =
     [Txt (''$version Generated by WBScope $end'' @ newline), Txt (''$date '' @ date @ newline @ '' $end'' @ newline),
      Txt (''$timescale 1ns $end'' @ newline @ newline)]
     @ (if offset \<noteq> 0 then [Zero offset] else [])
     @ [Txt ('' $scope module WBSCOPE $end'' @ newline)]
     @ (if sc_compressed s then [Txt (''  $var wire 31 '' @ [CHR 0x27] @ ''R _raw_data [30:0] $end'' @ newline)]
        else [Txt (''  $var wire  1 '' @ [CHR 0x27] @ ''C clk $end'' @ newline),
              Txt (''  $var wire 32 '' @ [CHR 0x27] @ ''R _raw_data [31:0] $end'' @ newline)])
     @ [Txt (''  $var wire  1 '' @ [CHR 0x27] @ ''T _trigger $end'' @ newline)]
     @ map (Txt \<circ> var_line) (sc_traces s)
     @ [Txt ('' $upscope $end'' @ newline), Txt (''$enddefinitions $end'' @ newline)]"

definition mark :: "char \<Rightarrow> char \<Rightarrow> piece" where
  "mark v k = Txt (v # CHR 0x27 # k # newline)"

definition raw_key :: string where
  "raw_key = CHR 0x27 # CHR ''R'' # newline"

text \<open>The loop over the samples of a compressed scope, from sample number \<open>i\<close> on; \<open>last\<close> is \<^verbatim>\<open>last_trigger\<close>.\<close>

fun vcd_compressed :: "traceinfo list \<Rightarrow> u32 \<Rightarrow> int \<Rightarrow> nat \<Rightarrow> u64 \<Rightarrow> bool \<Rightarrow> u32 list \<Rightarrow> fault + piece list" where
  "vcd_compressed ts alen offset i addrv lt [] = Inr []"
| "vcd_compressed ts alen offset i addrv lt (v # d) =
     (if jump v then
        if i \<noteq> 0 then
          map_sum id (\<lambda>ps. (if lt then [At (addrv + 1) False, mark CHR ''0'' CHR ''T''] else []) @ ps)
            (vcd_compressed ts alen offset (Suc i) (addrv + ucast (jump_len v + 1)) lt d)
        else vcd_compressed ts alen offset (Suc i) addrv lt d
      else
        (let trig = (sint (ucast (addrv - ucast alen) :: u32) = offset)
         in case (write_binary 31 v raw_key, write_traces ts v) of
              (Inr r, Inr t) \<Rightarrow>
                map_sum id
                  (\<lambda>ps. [At addrv False] @ (if trig then [mark CHR ''1'' CHR ''T''] else if lt then [mark CHR ''0'' CHR ''T''] else [])
                     @ [Txt r, Txt t] @ ps)
                  (vcd_compressed ts alen offset (Suc i) (addrv + 1) (lt \<or> trig) d)
            | (Inl e, _) \<Rightarrow> Inl e | (_, Inl e) \<Rightarrow> Inl e))"

fun vcd_plain :: "traceinfo list \<Rightarrow> int \<Rightarrow> nat \<Rightarrow> u32 list \<Rightarrow> fault + piece list" where
  "vcd_plain ts offset i [] = Inr []"
| "vcd_plain ts offset i (v # d) =
     (case (write_binary 32 v raw_key, write_traces ts v) of
        (Inr r, Inr t) \<Rightarrow>
          map_sum id
            (\<lambda>ps. [At (of_nat i) False, mark CHR ''1'' CHR ''C'', Txt r, mark (if int i = offset then CHR ''1'' else CHR ''0'') CHR ''T'',
                   Txt t, At (of_nat i) True, mark CHR ''0'' CHR ''C''] @ ps)
            (vcd_plain ts offset (Suc i) d)
      | (Inl e, _) \<Rightarrow> Inl e | (_, Inl e) \<Rightarrow> Inl e)"

text \<open>\<^verbatim>\<open>writevcd(FILE *)\<close>; \<open>define\<close> is \<^verbatim>\<open>define_traces\<close> of the derived class.\<close>

definition vcd_body :: "'b scope \<Rightarrow> u32 \<Rightarrow> u32 list \<Rightarrow> fault + piece list" where
  "vcd_body s alen d =
     (let offset = trigger_offset alen (sc_holdoff s)
      in if sc_compressed s then vcd_compressed (sc_traces s) alen offset 0 0 True d
         else vcd_plain (sc_traces s) offset 0 d)"

definition writevcd :: "'b devbus \<Rightarrow> (nat \<Rightarrow> u32) \<Rightarrow> string \<Rightarrow> (traceinfo list \<Rightarrow> traceinfo list) \<Rightarrow> ('b scope, piece list) run" where
  "writevcd bus junk date define =
     seq (\<lambda>s. if sc_data s = None then rawread bus junk s else ret () s) (\<lambda>_ s.
       let s = (if sc_traces s = [] then s\<lparr>sc_traces := define []\<rparr> else s)
       in lift_fault
            (case (getaddresslen s, samples s) of
               (Inr alen, Inr d) \<Rightarrow>
                 map_sum id (\<lambda>body. write_trace_header date s (trigger_offset alen (sc_holdoff s)) @ body) (vcd_body s alen d)
             | (Inl e, _) \<Rightarrow> Inl e | (_, Inl e) \<Rightarrow> Inl e) s)"

end
