(* ===== verification/Scopes.thy ===== *)
theory Scopes
  imports ScopeCls
begin

text \<open>
  The three scopes derived from \<open>ScopeCls\<close>: \<^verbatim>\<open>sw/host/sdramscope.cpp\<close>, \<^verbatim>\<open>dbgscope.cpp\<close> and \<^verbatim>\<open>spixscope.cpp\<close>, each
  with the text it gives for a sample, the traces it defines, and its program.  A design that has the scope gives
  its address, here an argument; the design of this repository has none of them.
\<close>

definition bit_on :: "u32 \<Rightarrow> nat \<Rightarrow> bool" where
  "bit_on v n \<longleftrightarrow> drop_bit n v AND 1 \<noteq> 0"

definition either_text :: "bool \<Rightarrow> string \<Rightarrow> string \<Rightarrow> string" where
  "either_text b x y = (if b then x else y)"

text \<open>\<^verbatim>\<open>%x\<close>, and \<^verbatim>\<open>%02x\<close>, \<^verbatim>\<open>%03x\<close> of values that fit.\<close>

definition hex_min :: "u32 \<Rightarrow> string" where
  "hex_min w = map (\<lambda>b. char_of (unat b)) (fmt_x w)"

definition hex_width :: "nat \<Rightarrow> u32 \<Rightarrow> string" where
  "hex_width n w = map (\<lambda>b. char_of (unat b)) (hex_digits n w)"

section \<open>The SDRAM scope\<close>

definition SDRAM_COMPRESSED :: bool where "SDRAM_COMPRESSED \<longleftrightarrow> True"

definition sdram_cmd_text :: "u32 \<Rightarrow> string" where
  "sdram_cmd_text cmd =
     (if cmd AND 8 \<noteq> 0 then ''(inactive)'' else [])
     @ (if cmd = 1 then ''Refresh'' else if cmd = 2 then ''Precharge'' else if cmd = 3 then ''Activate''
        else if cmd = 4 then ''Write'' else if cmd = 5 then ''Read'' else if cmd = 7 then ''NoOp'' else [])"

definition sdram_decode :: "u32 \<Rightarrow> string" where
  "sdram_decode val =
     (let b = (\<lambda>m x y. either_text (val AND m \<noteq> 0) x y)
      in ''S('' @ hex_min (drop_bit 27 val AND 0xf) @ '') '' @ b 0x10000000 ''W '' ''R ''
         @ ''WB('' @ b 0x40000000 ''CYC'' ''   '' @ b 0x20000000 ''STB'' ''   '' @ b 0x10000000 ''WE'' ''  ''
         @ b 0x08000000 ''ACK'' ''   '' @ b 0x04000000 ''STL'' ''   ''
         @ either_text (val AND 0x64000000 = 0x60000000) ''*'' '' ''
         @ '')-SD['' @ b 0x02000000 ''1'' ''0'' @ b 0x01000000 ''1'' ''0'' @ b 0x00800000 ''1'' ''0'' @ b 0x00400000 ''1'' ''0''
         @ '',B'' @ fmt_d (drop_bit 19 (val AND 0x00080000)) @ '']'' @ b 0x00200000 ''<- '' ''-> '' @ b 0x00010000 ''P'' '' ''
         @ ''@'' @ pad_left 3 (hex_min (drop_bit 8 val AND 0xffc)) @ '','' @ '':'' @ fmt_d (drop_bit 8 val AND 3) @ '',''
         @ ''/'' @ hex_width 2 (val AND 0xff) @ '' '' @ sdram_cmd_text (drop_bit 22 val AND 0xf))"

definition sdram_traces :: "traceinfo list \<Rightarrow> traceinfo list" where
  "sdram_traces ts =
     foldl (\<lambda>ts (name, nbits, shift). register_trace name nbits shift ts)
       (if \<not> SDRAM_COMPRESSED then register_trace ''trigger'' 1 31 ts else ts)
       [(''i_wb_cyc'', 1, 30), (''i_wb_stb'', 1, 29), (''i_wb_we'', 1, 28), (''o_wb_ack'', 1, 27), (''o_wb_stall'', 1, 26),
        (''o_ram_cs_n'', 1, 25), (''o_ram_ras_n'', 1, 24), (''o_ram_cas_n'', 1, 23), (''o_ram_we_n'', 1, 22),
        (''o_ram_dmod'', 1, 21), (''addr'', 10, 11), (''dqm'', 2, 8), (''data'', 8, 0)]"

definition sdramscope_init :: "'b \<Rightarrow> u32 \<Rightarrow> bool \<Rightarrow> u32 \<Rightarrow> 'b scope" where
  "sdramscope_init fpga addr vecread raw = scope_init fpga addr SDRAM_COMPRESSED vecread raw"

section \<open>The debugging scope\<close>

definition dbg_decode :: "u32 \<Rightarrow> string" where
  "dbg_decode val =
     (let b = (\<lambda>n x y. either_text (bit_on val n) x y)
      in b 31 ''ER'' ''  '' @ '' -- '' @ b 25 ''CE'' ''  '' @ '' '' @ b 24 ''SLP'' ''   '' @ '' '' @ b 24 ''SLP'' ''   '' @ '' ''
         @ b 23 ''GIE'' ''   '' @ '' '' @ b 22 ''INT'' ''   '' @ '' '' @ b 20 ''CYC'' ''   '' @ b 19 ''STB'' ''   '' @ b 18 ''W'' ''   ''
         @ fmt_d (drop_bit 16 val AND 2) @ '' '' @ hex_width 2 (drop_bit 16 val AND 0xff) @ '':'' @ hex_width 2 (val AND 0xff))"

text \<open>The constructors of these two take no notice of their argument and choose single reads.\<close>

definition dbgscope_init :: "'b \<Rightarrow> u32 \<Rightarrow> bool \<Rightarrow> u32 \<Rightarrow> 'b scope" where
  "dbgscope_init fpga addr vecread raw = scope_init fpga addr False False raw"

section \<open>The flash scope\<close>

definition spix_decode :: "u32 \<Rightarrow> string" where
  "spix_decode val =
     (let b = (\<lambda>n x y. either_text (bit_on val n) x y); n = (\<lambda>i. if bit_on val i then ''1'' else ''0'')
      in ''WB['' @ b 30 ''CYC'' ''   '' @ b 29 ''STB'' ''   '' @ b 28 ''CFG'' ''   '' @ b 27 ''WE'' ''  '' @ '',''
         @ hex_width 3 (drop_bit 16 val AND 0x1f) @ '' -> '' @ b 25 ''ACK'' ''   '' @ b 26 ''STALL'' ''     '' @ ''/''
         @ hex_width 3 (drop_bit 7 val AND 0x1f) @ ''] ''
         @ ''SPI['' @ b 3 ''   '' ''CSN'' @ b 2 ''   '' ''SCK'' @ '' '' @ n 1 @ ''-'' @ n 0 @ '']'' @ newline)"

definition spixscope_init :: "'b \<Rightarrow> u32 \<Rightarrow> bool \<Rightarrow> u32 \<Rightarrow> 'b scope" where
  "spixscope_init fpga addr vecread raw = scope_init fpga addr False False raw"

section \<open>The programs\<close>

text \<open>The same program for each scope: what it prints, and the file it writes if the scope is ready.\<close>

definition scope_program :: "'b devbus \<Rightarrow> (nat \<Rightarrow> u32) \<Rightarrow> string \<Rightarrow> (u32 \<Rightarrow> string) \<Rightarrow> (traceinfo list \<Rightarrow> traceinfo list)
    \<Rightarrow> ('b scope, string \<times> piece list option) run" where
  "scope_program bus junk date decode define =
     seq (scope_ready bus) (\<lambda>ready.
       if \<not> ready then
         seq (decode_control bus) (\<lambda>t. ret (''Scope is not yet ready:'' @ newline @ t, None))
       else
         seq (print_scope bus junk decode) (\<lambda>t.
         seq (writevcd bus junk date define) (\<lambda>f. ret (t, Some f))))"

definition sdramscope_main :: "'b devbus \<Rightarrow> (nat \<Rightarrow> u32) \<Rightarrow> string \<Rightarrow> u32 \<Rightarrow> u32 \<Rightarrow> u32 \<Rightarrow> 'b \<Rightarrow> (stop + string \<times> piece list option) \<times> 'b scope" where
  "sdramscope_main bus junk date addr clk raw b =
     scope_program bus junk date sdram_decode sdram_traces ((sdramscope_init b addr True raw)\<lparr>sc_clkfreq_hz := clk\<rparr>)"

text \<open>The command line of the other two: \<^verbatim>\<open>-n\<close> and \<^verbatim>\<open>-p\<close> with an argument, and nothing else.\<close>

fun scope_args :: "string list \<Rightarrow> stop + unit" where
  "scope_args [] = Inr ()"
| "scope_args (a # as) =
     (if char_at a 0 = CHR ''-'' then
        (if char_at a 1 = CHR ''h'' then Inl (Exit EXIT_SUCCESS)
         else if char_at a 1 = CHR ''n'' \<or> char_at a 1 = CHR ''p'' then
           (case as of [] \<Rightarrow> Inl (Exit EXIT_SUCCESS) | _ # as \<Rightarrow> scope_args as)
         else Inl (Exit EXIT_SUCCESS))
      else Inl (Exit EXIT_FAILURE))"

definition dbgscope_main :: "'b devbus \<Rightarrow> (nat \<Rightarrow> u32) \<Rightarrow> string \<Rightarrow> u32 \<Rightarrow> u32 \<Rightarrow> string list \<Rightarrow> 'b \<Rightarrow> (stop + string \<times> piece list option) \<times> 'b scope" where
  "dbgscope_main bus junk date addr raw argv b =
     (case scope_args (drop 1 argv) of
        Inl e \<Rightarrow> (Inl e, dbgscope_init b addr False raw)
      | Inr _ \<Rightarrow> scope_program bus junk date dbg_decode id (dbgscope_init b addr False raw))"

definition spixscope_main :: "'b devbus \<Rightarrow> (nat \<Rightarrow> u32) \<Rightarrow> string \<Rightarrow> u32 \<Rightarrow> u32 \<Rightarrow> string list \<Rightarrow> 'b \<Rightarrow> (stop + string \<times> piece list option) \<times> 'b scope" where
  "spixscope_main bus junk date addr raw argv b =
     (case scope_args (drop 1 argv) of
        Inl e \<Rightarrow> (Inl e, spixscope_init b addr False raw)
      | Inr _ \<Rightarrow> scope_program bus junk date spix_decode id (spixscope_init b addr False raw))"

end
