(* ===== verification/HexWire.thy ===== *)
theory HexWire
  imports HexBusProps
begin

text \<open>
  The responses as the board puts them on the wire.  A packet is followed by white space when the board has nothing
  more to say, carriage return and line feed, but the next packet may also follow at once; and a read is answered
  first of all with the address it was set to.  \<open>readv_wire\<close> is about block reads of that traffic.
\<close>

section \<open>Packets without a separator of their own\<close>

type_synonym wire_packet = "u8 \<times> u8 list \<times> u8 list"

definition wire_ok :: "wire_packet \<Rightarrow> bool" where
  "wire_ok = (\<lambda>(c, ds, ss). \<not> hex_char c \<and> \<not> isspace8 c \<and> list_all hex_char ds \<and> list_all isspace8 ss)"

definition wire_bytes :: "wire_packet \<Rightarrow> u8 list" where
  "wire_bytes = (\<lambda>(c, ds, ss). c # ds @ ss)"

definition wire_response :: "wire_packet \<Rightarrow> response" where
  "wire_response = (\<lambda>(c, ds, ss). response_of (c, ds, NL))"

text \<open>
  The driver between two packets: it has read white space and skips what is left of it, or it has
  already read the letter of the next packet.
\<close>

definition ready :: "hexbus \<Rightarrow> u8 list \<Rightarrow> u8 list \<Rightarrow> bool" where
  "ready h cs tx \<longleftrightarrow>
     (if m_isspace h then \<exists>ws. list_all isspace8 ws \<and> at_stream h (ws @ cs) tx
      else \<not> hex_char (m_cmd h) \<and> \<not> isspace8 (m_cmd h) \<and> cs \<noteq> [] \<and> hd cs = m_cmd h \<and> at_stream h (tl cs) tx)"

lemma ready_at_stream: "m_isspace h \<Longrightarrow> at_stream h cs tx \<Longrightarrow> ready h cs tx"
  unfolding ready_def by (auto intro: exI [of _ "[]"])

lemma space_not_hex: "isspace8 c \<Longrightarrow> \<not> hex_char c"
  by (auto simp: isspace8_def hex_char_def isdigit8_def word_le_nat_alt)

lemma readword_skips:
  assumes "list_all isspace8 ws" "at_stream h (ws @ cs) tx" "m_isspace h"
  shows "\<exists>l n. at_stream (relink l n h) cs tx \<and> readword_loop 0 abort h = readword_loop 0 abort (relink l n h)"
  using assms
proof (induction ws arbitrary: h)
  case Nil
  have "relink (m_dev h) (m_total_nread h) h = h" by (simp add: relink_def)
  with Nil show ?case by (metis append_Nil)
next
  case (Cons c ws)
  from Cons.prems(2) have "at_stream h (c # (ws @ cs)) tx" by simp
  from readword_step [OF this, of 0 abort] obtain l n where
    1: "at_stream (relink l n h) (ws @ cs) tx"
    and 2: "readword_loop 0 abort h = readword_loop 0 abort ((relink l n h)\<lparr>m_isspace := True\<rparr>)"
    using Cons.prems(1,3) space_not_hex [of c] by (auto simp: readword_char_def readword_cmd_def)
  have 3: "(relink l n h)\<lparr>m_isspace := True\<rparr> = relink l n h" using Cons.prems(3) by (simp add: relink_def)
  from Cons.IH [OF _ 1] Cons.prems obtain l' n' where
    "at_stream (relink l' n' (relink l n h)) cs tx"
    "readword_loop 0 abort (relink l n h) = readword_loop 0 abort (relink l' n' (relink l n h))"
    by auto
  with 2 3 show ?case by auto
qed

text \<open>The letter of a packet, whether it is still to come or has been read already.\<close>

lemma readword_letter:
  assumes "ready h (c # cs) tx" "\<not> hex_char c" "\<not> isspace8 c"
  shows "\<exists>l n. at_stream (relink l n h) cs tx
    \<and> readword_loop 0 abort h = readword_loop 0 abort ((relink l n h)\<lparr>m_cmd := c, m_isspace := False\<rparr>)"
proof (cases "m_isspace h")
  case True
  then obtain ws where "list_all isspace8 ws" "at_stream h (ws @ c # cs) tx" using assms(1) by (auto simp: ready_def)
  from readword_skips [OF this True] obtain l n where
    1: "at_stream (relink l n h) (c # cs) tx" "readword_loop 0 abort h = readword_loop 0 abort (relink l n h)" by blast
  from readword_step [OF 1(1), of 0 abort] obtain l' n' where
    "at_stream (relink l' n' (relink l n h)) cs tx"
    "readword_loop 0 abort (relink l n h) = readword_loop 0 abort ((relink l' n' (relink l n h))\<lparr>m_cmd := c, m_isspace := False\<rparr>)"
    using assms(2,3) True by (auto simp: readword_char_def readword_cmd_def)
  then show ?thesis using 1(2) by auto
next
  case False
  then have "m_cmd h = c" "at_stream h cs tx" using assms(1) by (auto simp: ready_def)
  moreover have "relink (m_dev h) (m_total_nread h) h = h" by (simp add: relink_def)
  moreover have "h\<lparr>m_cmd := m_cmd h, m_isspace := False\<rparr> = h" using False by (cases h) simp
  ultimately show ?thesis by (intro exI [of _ "m_dev h"] exI [of _ "m_total_nread h"]) simp
qed

text \<open>The character that ends a packet, white space or the next letter.\<close>

lemma readword_cmd_result:
  assumes "\<not> m_isspace h" "await_data (response_of (m_cmd h, ds, NL) # rs) n (view h) = Some (r, v, rs')"
  shows "case readword_cmd c (hex_value ds) n h of
      (Done w, h') \<Rightarrow> r = Inr w \<and> view h' = v \<and> rs' = rs
    | (Raise e, h') \<Rightarrow> r = Inl e \<and> view h' = v \<and> rs' = rs
    | (More w' n', h') \<Rightarrow> w' = 0 \<and> await_data rs n' (view h') = Some (r, v, rs')"
  using assms
  by (auto simp: readword_cmd_def response_of_def view_def v_advance_def Let_def split: if_splits)

definition ended :: "u8 \<Rightarrow> hexbus \<Rightarrow> hexbus" where
  "ended c h = (if isspace8 c then h\<lparr>m_isspace := True\<rparr> else h\<lparr>m_cmd := c, m_isspace := False\<rparr>)"

lemma ended_simps [simp]: "m_dev (ended c h) = m_dev h" "view (ended c h) = view h"
  by (simp_all add: ended_def view_def)

lemma readword_wire_packet:
  assumes "ready h (c # ds @ e # cs) tx" "\<not> hex_char c" "\<not> isspace8 c" "list_all hex_char ds" "\<not> hex_char e"
  shows "\<exists>h1. \<not> m_isspace h1 \<and> m_cmd h1 = c \<and> view h1 = view h \<and> at_stream h1 cs tx \<and>
    readword_loop 0 abort h =
      (case readword_cmd e (hex_value ds) abort h1 of
         (More word abort, h) \<Rightarrow> readword_loop word abort (ended e h)
       | (Done result, h) \<Rightarrow> (Inr result, ended e h)
       | (Raise x, h) \<Rightarrow> (Inl x, h))"
proof -
  from readword_letter [OF assms(1-3), of abort] obtain l n where
    1: "at_stream (relink l n h) (ds @ e # cs) tx"
    and 2: "readword_loop 0 abort h = readword_loop 0 abort ((relink l n h)\<lparr>m_cmd := c, m_isspace := False\<rparr>)" by blast
  let ?h = "(relink l n h)\<lparr>m_cmd := c, m_isspace := False\<rparr>"
  have "at_stream ?h (ds @ e # cs) tx" using 1 by (simp add: at_stream_def)
  from readword_digits [OF assms(4) this, of 0 abort] obtain l' n' where
    3: "at_stream (relink l' n' ?h) (e # cs) tx"
    and 4: "readword_loop 0 abort ?h = readword_loop (hex_value ds) abort (relink l' n' ?h)"
    by (auto simp: hex_value_def)
  from readword_step [OF 3, of "hex_value ds" abort] obtain l'' n'' where
    5: "at_stream (relink l'' n'' ?h) cs tx"
    and 6: "readword_loop (hex_value ds) abort (relink l' n' ?h) =
      (case readword_char e (hex_value ds) abort (relink l'' n'' ?h) of
         (More word abort, h) \<Rightarrow> readword_loop word abort h
       | (Done result, h) \<Rightarrow> (Inr result, h)
       | (Raise x, h) \<Rightarrow> (Inl x, h))"
    by auto
  have v: "view (relink l'' n'' ?h) = view h" by (simp add: view_def relink_def)
  show ?thesis
    using 2 4 5 6 v assms(5)
    by (intro exI [of _ "relink l'' n'' ?h"]) (auto simp: readword_char_def ended_def split: prod.splits rw.splits)
qed

text \<open>
  The packets as they come.  What follows a packet, on the wire and in the driver, is the next one; only the last of
  them needs white space behind it.
\<close>

lemma ready_ended:
  assumes "at_stream h cs tx"
    and "isspace8 e \<and> (\<exists>ws. list_all isspace8 ws \<and> cs = ws @ rest) \<or> \<not> isspace8 e \<and> \<not> hex_char e \<and> rest = e # cs"
  shows "ready (ended e h) rest tx"
  using assms by (auto simp: ready_def ended_def at_stream_def)

lemma wire_refines:
  assumes "ready h (concat (map wire_bytes ps) @ cs) tx" "list_all wire_ok ps" "ps \<noteq> [] \<longrightarrow> snd (snd (last ps)) \<noteq> []"
    and "await_data (map wire_response ps) n (view h) = Some (r, v, rs)"
  shows "\<exists>h' k. readword_loop 0 n h = (r, h') \<and> view h' = v \<and> rs = map wire_response (drop k ps)
    \<and> (isl r \<or> ready h' (concat (map wire_bytes (drop k ps)) @ cs) tx)"
  using assms
proof (induction ps arbitrary: n h)
  case Nil
  then show ?case by simp
next
  case (Cons p ps)
  obtain c ds ss where p: "p = (c, ds, ss)" by (cases p)
  let ?rest = "concat (map wire_bytes ps) @ cs"
  have ok: "\<not> hex_char c" "\<not> isspace8 c" "list_all hex_char ds" "list_all isspace8 ss" and oks: "list_all wire_ok ps"
    using Cons.prems(2) p by (auto simp: wire_ok_def)
  have last: "ps \<noteq> [] \<longrightarrow> snd (snd (last ps)) \<noteq> []" using Cons.prems(3) by (cases "ps = []") simp_all
  have "\<exists>e cs'. ss @ ?rest = e # cs' \<and> \<not> hex_char e
      \<and> (isspace8 e \<and> (\<exists>ws. list_all isspace8 ws \<and> cs' = ws @ ?rest) \<or> \<not> isspace8 e \<and> ?rest = e # cs')"
  proof (cases ss)
    case Nil
    then have "ps \<noteq> []" using Cons.prems(3) p by auto
    then obtain c' ds' ss' qs where "ps = (c', ds', ss') # qs" by (cases ps) auto
    then show ?thesis using oks Nil by (simp add: wire_bytes_def wire_ok_def)
  next
    case (Cons s ss')
    then show ?thesis using ok(4) space_not_hex by auto
  qed
  then obtain e cs' where e: "ss @ ?rest = e # cs'" "\<not> hex_char e"
    "isspace8 e \<and> (\<exists>ws. list_all isspace8 ws \<and> cs' = ws @ ?rest) \<or> \<not> isspace8 e \<and> ?rest = e # cs'" by blast
  have "ready h (c # ds @ e # cs') tx" using Cons.prems(1) e(1) by (simp add: p wire_bytes_def)
  from readword_wire_packet [OF this ok(1-3) e(2), of n] obtain h1 where
    1: "\<not> m_isspace h1" "m_cmd h1 = c" "view h1 = view h" "at_stream h1 cs' tx"
    and eq: "readword_loop 0 n h =
      (case readword_cmd e (hex_value ds) n h1 of
         (More word abort, h) \<Rightarrow> readword_loop word abort (ended e h)
       | (Done result, h) \<Rightarrow> (Inr result, ended e h)
       | (Raise x, h) \<Rightarrow> (Inl x, h))" by blast
  obtain out h2 where out: "readword_cmd e (hex_value ds) n h1 = (out, h2)" by force
  have "m_dev h2 = m_dev h1" using out readword_cmd_dev [of e "hex_value ds" n h1] by simp
  then have "at_stream h2 cs' tx" using 1(4) by (simp add: at_stream_def)
  then have rd: "ready (ended e h2) ?rest tx" using e(2,3) by (intro ready_ended) auto
  have aw: "await_data (response_of (m_cmd h1, ds, NL) # map wire_response ps) n (view h1) = Some (r, v, rs)"
    using Cons.prems(4) by (simp add: p wire_response_def 1(2,3))
  note cmd = readword_cmd_result [OF 1(1) aw, of e]
  show ?case
  proof (cases out)
    case (More w n')
    then have w: "w = 0" "await_data (map wire_response ps) n' (view (ended e h2)) = Some (r, v, rs)"
      using cmd out by auto
    from Cons.IH [OF rd oks last w(2)] obtain h' k where
      "readword_loop 0 n' (ended e h2) = (r, h')" "view h' = v" "rs = map wire_response (drop k ps)"
      "isl r \<or> ready h' (concat (map wire_bytes (drop k ps)) @ cs) tx" by blast
    then show ?thesis using eq out More w(1) by (intro exI [of _ h'] exI [of _ "Suc k"]) simp
  next
    case (Done w)
    then show ?thesis using cmd out eq rd by (intro exI [of _ "ended e h2"] exI [of _ 1]) auto
  next
    case (Raise x)
    then show ?thesis using cmd out eq by (intro exI [of _ h2] exI [of _ 1]) auto
  qed
qed

section \<open>Block reads\<close>

text \<open>
  What may come before the words of a block: before each of them interrupt notices and packets the driver does
  not know, before the first one also the address the read was set to, as the board echoes it.
\<close>

definition quiet_wire :: "wire_packet \<Rightarrow> bool" where
  "quiet_wire p \<longleftrightarrow> wire_ok p \<and> wire_response p \<in> {Interrupt, Other}"

definition address_echo :: "u32 \<Rightarrow> bool \<Rightarrow> wire_packet \<Rightarrow> bool" where
  "address_echo a inc p \<longleftrightarrow> wire_ok p \<and> (\<exists>x. wire_response p = Addr x \<and> x AND (- 4) = a \<and> (x AND 1 = 0) = inc)"

definition before_first :: "u32 \<Rightarrow> bool \<Rightarrow> wire_packet \<Rightarrow> bool" where
  "before_first a inc p \<longleftrightarrow> quiet_wire p \<or> address_echo a inc p"

type_synonym wire_word = "wire_packet list \<times> u32 \<times> u8 list"

definition word_packets :: "wire_word \<Rightarrow> wire_packet list" where
  "word_packets = (\<lambda>(ps, w, ss). ps @ [(HEXB_READ, fmt_08x w, ss)])"

definition answer_bytes :: "wire_word list \<Rightarrow> u8 list" where
  "answer_bytes ws = concat (map (\<lambda>w. concat (map wire_bytes (word_packets w))) ws)"

text \<open>A word is followed by white space: the board has nothing more to say until it is asked for the next one.\<close>

definition word_ok :: "(wire_packet \<Rightarrow> bool) \<Rightarrow> wire_word \<Rightarrow> bool" where
  "word_ok P = (\<lambda>(ps, w, ss). list_all P ps \<and> ss \<noteq> [] \<and> list_all isspace8 ss)"

fun read_answer :: "u32 \<Rightarrow> bool \<Rightarrow> wire_word list \<Rightarrow> bool" where
  "read_answer a inc [] \<longleftrightarrow> False"
| "read_answer a inc (w # ws) \<longleftrightarrow> word_ok (before_first a inc) w \<and> list_all (word_ok quiet_wire) ws"

definition word_of_wire :: "wire_word \<Rightarrow> u32" where
  "word_of_wire = (\<lambda>(ps, w, ss). w)"

lemma await_before_first:
  assumes "list_all (before_first (v_lastaddr v) (v_inc v)) ps" "v_addr_set v"
  shows "\<exists>v'. (\<forall>rs. await_data (map wire_response ps @ rs) n v = await_data rs n v')
    \<and> v_addr_set v' \<and> v_inc v' = v_inc v \<and> v_lastaddr v' = v_lastaddr v"
  using assms
proof (induction ps arbitrary: v)
  case Nil
  then show ?case by auto
next
  case (Cons p ps)
  have "\<exists>v1. (\<forall>rs. await_data (wire_response p # rs) n v = await_data rs n v1)
      \<and> v_addr_set v1 \<and> v_inc v1 = v_inc v \<and> v_lastaddr v1 = v_lastaddr v"
  proof -
    have "before_first (v_lastaddr v) (v_inc v) p" using Cons.prems(1) by simp
    then consider "wire_response p = Interrupt" | "wire_response p = Other"
      | x where "wire_response p = Addr x" "x AND (- 4) = v_lastaddr v" "(x AND 1 = 0) = v_inc v"
      by (auto simp: before_first_def quiet_wire_def address_echo_def)
    then show ?thesis using Cons.prems(2) by cases auto
  qed
  then obtain v1 where 1: "\<forall>rs. await_data (wire_response p # rs) n v = await_data rs n v1"
    "v_addr_set v1" "v_inc v1 = v_inc v" "v_lastaddr v1 = v_lastaddr v" by blast
  have "list_all (before_first (v_lastaddr v1) (v_inc v1)) ps" using Cons.prems(1) 1(3,4) by simp
  from Cons.IH [OF this 1(2)] obtain v' where 2: "\<forall>rs. await_data (map wire_response ps @ rs) n v1 = await_data rs n v'"
    "v_addr_set v'" "v_inc v' = v_inc v1" "v_lastaddr v' = v_lastaddr v1" by blast
  show ?case by (rule exI [of _ v']) (simp add: 1 2)
qed

lemma data_wire: "list_all isspace8 ss \<Longrightarrow> wire_ok (HEXB_READ, fmt_08x w, ss)" "wire_response (HEXB_READ, fmt_08x w, ss) = Data w"
  using data_packet_ok [of w] data_packet_response [of w]
  by (simp_all add: wire_ok_def packet_ok_def data_packet_def wire_response_def)

lemma before_first_ok: "list_all (before_first a inc) ps \<Longrightarrow> list_all wire_ok ps"
  by (auto simp: list_all_iff before_first_def quiet_wire_def address_echo_def)

lemma wire_word_read:
  assumes "ready h (concat (map wire_bytes (word_packets ww)) @ cs) tx"
    "word_ok (before_first (m_lastaddr h) (m_inc h)) ww" "m_addr_set h"
  shows "\<exists>h'. seq (dev_write (cmd @ read_cmd)) (\<lambda>_. readword) h = (Inr (word_of_wire ww), h') \<and> ready h' cs (tx @ cmd @ read_cmd)
    \<and> m_addr_set h' \<and> m_inc h' = m_inc h \<and> m_lastaddr h' = m_lastaddr h + (if m_inc h then 4 else 0)"
proof -
  obtain ps w ss where ww: "ww = (ps, w, ss)" by (cases ww)
  let ?qs = "word_packets ww"
  have ok: "list_all (before_first (m_lastaddr h) (m_inc h)) ps" "ss \<noteq> []" "list_all isspace8 ss"
    using assms(2) by (simp_all add: ww word_ok_def)
  let ?h = "h\<lparr>m_dev := (m_dev h)\<lparr>ll_tx := ll_tx (m_dev h) @ cmd @ read_cmd,
    ll_total_nwrit := ll_total_nwrit (m_dev h) + length (cmd @ read_cmd)\<rparr>\<rparr>"
  have open_link: "ll_open (m_dev h)" using assms(1) by (auto simp: ready_def at_stream_def split: if_splits)
  obtain h1 where 1: "dev_write (cmd @ read_cmd) h = (Inr (), h1)" "view h1 = view h"
    "ready h1 (concat (map wire_bytes ?qs) @ cs) (tx @ cmd @ read_cmd)"
    using assms(1) open_link
    by (auto simp: dev_write_def ll_write_def read_cmd_def ready_def at_stream_def rx_stream_def view_def split: if_splits)
  obtain v' where v': "\<forall>rs. await_data (map wire_response ps @ rs) 3 (view h1) = await_data rs 3 v'"
    "v_addr_set v'" "v_inc v' = m_inc h" "v_lastaddr v' = m_lastaddr h"
    using await_before_first [of "view h" ps 3] ok(1) assms(3) 1(2) by (auto simp: view_def)
  have "await_data (map wire_response ?qs) 3 (view h1) = Some (Inr w, v_advance v', [])"
    using v'(1) by (simp add: ww word_packets_def data_wire)
  moreover have "list_all wire_ok ?qs" using before_first_ok [OF ok(1)] data_wire(1) [OF ok(3)] by (simp add: ww word_packets_def)
  moreover have "?qs \<noteq> [] \<longrightarrow> snd (snd (last ?qs)) \<noteq> []" using ok(2) by (simp add: ww word_packets_def)
  ultimately obtain h' k where h': "readword h1 = (Inr w, h')" "view h' = v_advance v'" "[] = map wire_response (drop k ?qs)"
    "ready h' (concat (map wire_bytes (drop k ?qs)) @ cs) (tx @ cmd @ read_cmd)"
    using wire_refines [OF 1(3), of 3] unfolding readword_def by fastforce
  have "drop k ?qs = []" using h'(3) by (metis map_is_Nil_conv)
  then have "ready h' cs (tx @ cmd @ read_cmd)" using h'(4) by simp
  moreover have "m_addr_set h' = v_addr_set (v_advance v')" "m_inc h' = v_inc (v_advance v')"
    "m_lastaddr h' = v_lastaddr (v_advance v')"
    unfolding h'(2) [symmetric] by (simp_all add: view_def)
  then have "m_addr_set h'" "m_inc h' = m_inc h" "m_lastaddr h' = m_lastaddr h + (if m_inc h then 4 else 0)"
    using v'(2-4) by (simp_all add: v_advance_def)
  ultimately show ?thesis
    using 1(1) h'(1) by (intro exI [of _ h']) (simp add: seq_Inr ww word_of_wire_def)
qed

lemma quiet_before_first: "word_ok quiet_wire ww \<Longrightarrow> word_ok (before_first a inc) ww"
  by (auto simp: word_ok_def list_all_iff before_first_def split: prod.splits)

lemma readv_loop_wire:
  assumes "ready h (answer_bytes ws @ cs) tx" "list_all (word_ok quiet_wire) ws" "m_addr_set h"
  shows "\<exists>h' tx'. readv_loop a inc cmd nread (length ws) h = (Inr (map word_of_wire ws), h') \<and> ready h' cs tx'
    \<and> m_lastaddr h' = m_lastaddr h + (if m_inc h then 4 * of_nat (length ws) else 0)"
  using assms
proof (induction ws arbitrary: h tx cmd nread)
  case Nil
  then show ?case by (auto simp: answer_bytes_def)
next
  case (Cons ww ws)
  have "ready h (concat (map wire_bytes (word_packets ww)) @ answer_bytes ws @ cs) tx"
    using Cons.prems(1) by (simp add: answer_bytes_def)
  from wire_word_read [OF this quiet_before_first Cons.prems(3), of cmd] Cons.prems(2) obtain h1 where
    1: "seq (dev_write (cmd @ read_cmd)) (\<lambda>_. readword) h = (Inr (word_of_wire ww), h1)"
    "ready h1 (answer_bytes ws @ cs) (tx @ cmd @ read_cmd)" "m_addr_set h1" "m_inc h1 = m_inc h"
    "m_lastaddr h1 = m_lastaddr h + (if m_inc h then 4 else 0)" by auto
  from Cons.IH [OF 1(2) _ 1(3), of "[]" "Suc nread"] Cons.prems(2) obtain h' tx' where
    2: "readv_loop a inc [] (Suc nread) (length ws) h1 = (Inr (map word_of_wire ws), h')" "ready h' cs tx'"
    "m_lastaddr h' = m_lastaddr h1 + (if m_inc h1 then 4 * of_nat (length ws) else 0)" by auto
  show ?case
    using 1 2 by (intro exI [of _ h'] exI [of _ tx']) (auto simp: read_cmd_def algebra_simps)
qed

lemma ready_upd: "ready (h\<lparr>m_lastaddr := a, m_addr_set := b, m_inc := i\<rparr>) cs tx = ready h cs tx"
  by (simp add: ready_def at_stream_def)

lemma readv_wire:
  assumes "ready h (answer_bytes ws @ cs) tx" "read_answer a inc ws"
  shows "\<exists>h' tx'. readv a inc (int (length ws)) h = (Inr (map word_of_wire ws), h') \<and> ready h' cs tx'"
proof -
  obtain ww ws' where ws: "ws = ww # ws'" "word_ok (before_first a inc) ww" "list_all (word_ok quiet_wire) ws'"
    using assms(2) by (cases ws) auto
  let ?h = "h\<lparr>m_lastaddr := a, m_addr_set := True, m_inc := inc\<rparr>"
  let ?cmd = "encode_address (a OR (if inc then 0 else 1)) h"
  have "ready ?h (concat (map wire_bytes (word_packets ww)) @ answer_bytes ws' @ cs) tx"
    using assms(1) by (simp add: ws(1) answer_bytes_def ready_upd)
  from wire_word_read [OF this, of ?cmd] ws(2) obtain h1 where
    1: "seq (dev_write (?cmd @ read_cmd)) (\<lambda>_. readword) ?h = (Inr (word_of_wire ww), h1)"
    "ready h1 (answer_bytes ws' @ cs) (tx @ ?cmd @ read_cmd)" "m_addr_set h1" "m_inc h1 = inc"
    "m_lastaddr h1 = a + (if inc then 4 else 0)" by auto
  from readv_loop_wire [OF 1(2) ws(3) 1(3), of a inc "[]" 1] obtain h' tx' where
    2: "readv_loop a inc [] 1 (length ws') h1 = (Inr (map word_of_wire ws'), h')" "ready h' cs tx'"
    "m_lastaddr h' = m_lastaddr h1 + (if inc then 4 * of_nat (length ws') else 0)" using 1(4) by auto
  have r: "readv_loop a inc ?cmd 0 (length ws) ?h = (Inr (map word_of_wire ws), h')"
    using 1(1) 2(1) by (simp add: ws(1) read_cmd_def)
  have "push_bit 2 (of_nat (length ws)) = (4 * of_nat (length ws) :: u32)" by (simp add: push_bit_eq_mult)
  then have "m_lastaddr h' = a + (if inc then push_bit 2 (of_nat (length ws)) else 0)"
    using 1(5) 2(3) by (simp add: ws(1) algebra_simps)
  moreover have "\<not> int (length ws) \<le> 0" using ws(1) by simp
  ultimately show ?thesis
    using r 2(2) by (intro exI [of _ h'] exI [of _ tx']) (simp add: readv_def Let_def)
qed

end
