(* ===== verification/ScopeProps.thy ===== *)
theory ScopeProps
  imports Scopes HexBusDev HexWire
begin

text \<open>
  What the scope reader promises: the buffer is full before it is looked at, the printed rows and the lines of
  the file give the samples back, and the trigger of a compressed scope is never marked in the file.
\<close>

section \<open>A value and its bits\<close>

definition bits_of :: "nat \<Rightarrow> u32 \<Rightarrow> string" where
  "bits_of n v = map (\<lambda>i. if bit v (n - 1 - i) then CHR ''1'' else CHR ''0'') [0..<n]"

definition read_bits :: "string \<Rightarrow> nat" where
  "read_bits s = foldl (\<lambda>acc c. 2 * acc + (if c = CHR ''1'' then 1 else 0)) 0 s"

lemma chr_digits: "(char_of (48 :: nat) :: char) = CHR ''0''" "(char_of (49 :: nat) :: char) = CHR ''1''"
  by code_simp+

lemma fmt_d_bit: "fmt_d (drop_bit k v AND 1) = [if bit v k then CHR ''1'' else CHR ''0'']"
proof -
  have "drop_bit k v AND 1 = of_bool (bit v k)"
    by (simp add: and_one_eq mod_2_eq_odd bit_iff_odd_drop_bit)
  then show ?thesis by (simp add: fmt_d_def dec_nat.simps chr_digits)
qed

lemma bits_of_Suc: "bits_of (Suc n) v = (if bit v n then CHR ''1'' else CHR ''0'') # bits_of n v"
  unfolding bits_of_def upt_conv_Cons [OF zero_less_Suc] map_Suc_upt [symmetric] by simp

lemma read_bits_acc: "foldl (\<lambda>acc c. 2 * acc + (if c = CHR ''1'' then 1 else 0)) a s = a * 2 ^ length s + read_bits s"
proof (induction s arbitrary: a)
  case (Cons c s)
  have "read_bits (c # s) = foldl (\<lambda>acc c. 2 * acc + (if c = CHR ''1'' then 1 else 0)) (if c = CHR ''1'' then 1 else 0) s"
    by (simp add: read_bits_def)
  then show ?case
    using Cons.IH [of "2 * a + (if c = CHR ''1'' then 1 else 0)"] Cons.IH [of "if c = CHR ''1'' then 1 else 0"]
    by (simp add: algebra_simps)
qed (simp add: read_bits_def)

lemma read_bits_of: "n \<le> 32 \<Longrightarrow> read_bits (bits_of n v) = unat (take_bit n v)"
proof (induction n)
  case 0
  then show ?case by (simp add: bits_of_def read_bits_def)
next
  case (Suc n)
  have len: "length (bits_of n v) = n" by (simp add: bits_of_def)
  have "unat (take_bit (Suc n) v) = take_bit (Suc n) (unat v)" "unat (take_bit n v) = take_bit n (unat v)"
    by (simp_all add: unsigned_take_bit_eq)
  moreover have "bit (unat v) n = bit v n" using Suc.prems by (simp add: bit_unsigned_iff)
  ultimately show ?case
    using Suc read_bits_acc [of "if bit v n then 1 else 0" "bits_of n v"] len
    by (cases "bit v n") (simp_all add: bits_of_Suc take_bit_Suc_from_most read_bits_def)
qed

lemma write_binary_bits:
  assumes "2 \<le> n" "n \<le> 32"
  shows "write_binary (int n) v str = Inr (CHR ''b'' # bits_of n v @ '' '' @ str @ newline)"
proof -
  define w where "w = (if n < 32 then v AND NOT (push_bit n (- 1)) else v)"
  have "bit w k = bit v k" if "k < n" for k
    using that assms(2) by (auto simp: w_def bit_simps)
  then have "concat (map (\<lambda>i. fmt_d (drop_bit (n - 1 - i) w AND 1)) [0..<n]) = bits_of n v"
    by (simp add: fmt_d_bit bits_of_def concat_map_singleton)
  moreover have "write_binary (int n) v str
      = Inr (''b'' @ concat (map (\<lambda>i. fmt_d (drop_bit (n - 1 - i) w AND 1)) [0..<n]) @ '' '' @ str @ newline)"
    using assms by (cases "n < 32") (simp_all add: write_binary_def w_def Let_def)
  ultimately show ?thesis by simp
qed

section \<open>The samples in the file\<close>

text \<open>The sample lines of a file end with the key of the raw data and an empty line; the sample is in their bits.\<close>

definition ends_raw :: "string \<Rightarrow> bool" where
  "ends_raw t \<longleftrightarrow> drop (length t - 4) t = CHR 0x27 # CHR ''R'' # newline @ newline"

definition file_samples :: "piece list \<Rightarrow> u32 list" where
  "file_samples ps =
     concat (map (\<lambda>p. case p of Txt t \<Rightarrow> if ends_raw t then [of_nat (read_bits (takeWhile (\<lambda>c. c \<noteq> CHR '' '') (drop 1 t)))] else [] | _ \<Rightarrow> []) ps)"

text \<open>Keys as \<^verbatim>\<open>register_trace\<close> makes them.\<close>

definition registered :: "traceinfo list \<Rightarrow> bool" where
  "registered ts \<longleftrightarrow> (\<forall>t\<in>set ts. \<exists>c. tr_key t = [CHR ''v'', c] \<and> c \<noteq> CHR 0x0a)"

lemma ends_rawD: "ends_raw t \<Longrightarrow> \<exists>p. t = p @ [CHR 0x27, CHR ''R'', CHR 0x0a, CHR 0x0a]"
  unfolding ends_raw_def by (metis append_take_drop_id append_Cons append_Nil newline_def)

lemma write_trace_ends:
  assumes "write_trace info v = Inr l" "tr_key info = [CHR ''v'', c]"
  shows "\<exists>p. l = p @ [c, CHR 0x0a]"
  using assms
  by (auto simp: write_trace_def write_binary_def Let_def newline_def split: if_splits
      intro: exI [of _ "CHR ''b'' # _ @ CHR '' '' # [CHR ''v'']"] exI [of _ "_ @ [CHR ''v'']"])

lemma write_traces_end:
  assumes "registered ts" "write_traces ts v = Inr t" "t \<noteq> []"
  shows "\<exists>p c. t = p @ [c, CHR 0x0a] \<and> c \<noteq> CHR 0x0a"
  using assms
proof (induction ts arbitrary: t)
  case (Cons a ts)
  obtain c where c: "tr_key a = [CHR ''v'', c]" "c \<noteq> CHR 0x0a" using Cons.prems(1) by (auto simp: registered_def)
  obtain l r where lr: "write_trace a v = Inr l" "write_traces ts v = Inr r" "t = l @ r"
    using Cons.prems(2) by (auto split: sum.splits)
  show ?case
  proof (cases "r = []")
    case True
    then show ?thesis using write_trace_ends [OF lr(1) c(1)] lr(3) c(2) by auto
  next
    case False
    then obtain p c' where "r = p @ [c', CHR 0x0a]" "c' \<noteq> CHR 0x0a"
      using Cons.IH [OF _ lr(2)] Cons.prems(1) by (auto simp: registered_def)
    then show ?thesis using lr(3) by (intro exI [of _ "l @ p"]) auto
  qed
qed simp

lemma traces_not_raw: "registered ts \<Longrightarrow> write_traces ts v = Inr t \<Longrightarrow> \<not> ends_raw t"
  using write_traces_end ends_rawD by fastforce

lemma mark_not_raw: "k \<noteq> CHR 0x0a \<Longrightarrow> file_samples (mark v k # ps) = file_samples ps"
  by (simp add: file_samples_def mark_def ends_raw_def newline_def)

lemma raw_line:
  assumes "write_binary (int n) v raw_key = Inr r" "2 \<le> n" "n \<le> 32"
  shows "file_samples (Txt r # ps) = take_bit n v # file_samples ps"
proof -
  have r: "r = CHR ''b'' # bits_of n v @ '' '' @ raw_key @ newline"
    using assms(1) write_binary_bits [OF assms(2,3)] by simp
  have "takeWhile (\<lambda>c. c \<noteq> CHR '' '') (bits_of n v @ '' '' @ raw_key @ newline) = bits_of n v"
    by (subst takeWhile_append2) (auto simp: bits_of_def)
  moreover have "ends_raw r" by (simp add: r ends_raw_def raw_key_def newline_def)
  ultimately show ?thesis using read_bits_of [OF assms(3), of v] by (simp add: file_samples_def r)
qed

lemma file_samples_Nil [simp]: "file_samples [] = []"
  and file_samples_At [simp]: "file_samples (At a h # ps) = file_samples ps"
  by (simp_all add: file_samples_def)

lemma jump_bit: "jump v = bit v 31"
  by (simp add: jump_def and_one_eq mod_2_eq_odd bit_iff_odd_drop_bit)

lemma no_jump_take: "\<not> jump v \<Longrightarrow> take_bit 31 v = v"
proof (rule bit_word_eqI)
  fix n assume "\<not> jump v" "n < LENGTH(32)"
  then have "\<not> bit v 31" "n = 31 \<or> n < 31" by (simp_all add: jump_bit) linarith
  then show "bit (take_bit 31 v) n = bit v n" by (auto simp: bit_take_bit_iff)
qed

lemma take_32: "take_bit 32 (v :: u32) = v"
  by (rule bit_word_eqI) (simp add: bit_take_bit_iff)

lemma traces_line: "registered ts \<Longrightarrow> write_traces ts v = Inr t \<Longrightarrow> file_samples (Txt t # ps) = file_samples ps"
  using traces_not_raw by (simp add: file_samples_def)

lemma vcd_plain_samples:
  "registered ts \<Longrightarrow> vcd_plain ts offset i d = Inr ps \<Longrightarrow> file_samples ps = d"
proof (induction d arbitrary: i ps)
  case (Cons v d)
  obtain r t qs where q: "write_binary 32 v raw_key = Inr r" "write_traces ts v = Inr t" "vcd_plain ts offset (Suc i) d = Inr qs"
    "ps = [At (of_nat i) False, mark CHR ''1'' CHR ''C'', Txt r, mark (if int i = offset then CHR ''1'' else CHR ''0'') CHR ''T'',
       Txt t, At (of_nat i) True, mark CHR ''0'' CHR ''C''] @ qs"
    using Cons.prems(2) by (auto split: sum.splits)
  have "file_samples (Txt r # ps) = v # file_samples ps" for ps using raw_line [of 32 v r ps] q(1) by (simp add: take_32)
  then show ?case
    using Cons.IH [OF Cons.prems(1) q(3)] mark_not_raw traces_line [OF Cons.prems(1) q(2)]
    by (simp add: q(4))
qed simp

lemma vcd_compressed_samples:
  "registered ts \<Longrightarrow> vcd_compressed ts alen offset i addrv lt d = Inr ps \<Longrightarrow> file_samples ps = filter (\<lambda>v. \<not> jump v) d"
proof (induction ts alen offset i addrv lt d arbitrary: ps rule: vcd_compressed.induct)
  case (2 ts alen offset i addrv lt v d)
  show ?case
  proof (cases "jump v")
    case True
    show ?thesis
    proof (cases "i = 0")
      case i: True
      then have "vcd_compressed ts alen offset (Suc i) addrv lt d = Inr ps" using 2(5) True by simp
      then show ?thesis using 2(2) [OF True] i 2(4) True by simp
    next
      case i: False
      obtain qs where q: "vcd_compressed ts alen offset (Suc i) (addrv + ucast (jump_len v + 1)) lt d = Inr qs"
        "ps = (if lt then [At (addrv + 1) False, mark CHR ''0'' CHR ''T''] else []) @ qs"
        using 2(5) True i by (auto split: sum.splits)
      then show ?thesis using 2(1) [OF True i 2(4) q(1)] True mark_not_raw by simp
    qed
  next
    case False
    let ?trig = "sint (ucast (addrv - ucast alen) :: u32) = offset"
    obtain r t qs where q: "write_binary 31 v raw_key = Inr r" "write_traces ts v = Inr t"
      "vcd_compressed ts alen offset (Suc i) (addrv + 1) (lt \<or> ?trig) d = Inr qs"
      "ps = [At addrv False] @ (if ?trig then [mark CHR ''1'' CHR ''T''] else if lt then [mark CHR ''0'' CHR ''T''] else []) @ [Txt r, Txt t] @ qs"
      using 2(5) False by (auto simp: Let_def split: sum.splits)
    have "file_samples (Txt r # ps) = v # file_samples ps" for ps using raw_line [of 31 v r ps] q(1) no_jump_take [OF False] by simp
    moreover have "file_samples qs = filter (\<lambda>v. \<not> jump v) d" using 2(3) False q(1-3) 2(4) by simp
    ultimately show ?thesis
      using False mark_not_raw traces_line [OF 2(4) q(2)]
      by (simp add: q(4))
  qed
qed simp

lemma vcd_holds_samples:
  assumes "registered (sc_traces s)" "vcd_body s alen d = Inr ps"
  shows "file_samples ps = (if sc_compressed s then filter (\<lambda>v. \<not> jump v) d else d)"
  using assms vcd_compressed_samples vcd_plain_samples by (auto simp: vcd_body_def Let_def split: if_splits)

section \<open>Traces that can be written\<close>

definition traces_fit :: "traceinfo list \<Rightarrow> bool" where
  "traces_fit ts \<longleftrightarrow> (\<forall>t\<in>set ts. tr_nbits t \<le> 32 \<and> tr_nshift t < 32)"

lemma write_binary_ok: "n \<le> 32 \<Longrightarrow> \<exists>t. write_binary n v str = Inr t"
  by (simp add: write_binary_def Let_def)

lemma write_traces_ok: "traces_fit ts \<Longrightarrow> \<exists>t. write_traces ts v = Inr t"
proof (induction ts)
  case (Cons t ts)
  then obtain r where r: "write_traces ts v = Inr r" by (auto simp: traces_fit_def)
  have "\<exists>l. write_trace t v = Inr l"
    using Cons.prems write_binary_ok [of "int (tr_nbits t)"] by (simp add: traces_fit_def write_trace_def)
  then show ?case using r by auto
qed simp

lemma vcd_plain_ok: "traces_fit ts \<Longrightarrow> \<exists>ps. vcd_plain ts offset i d = Inr ps"
proof (induction d arbitrary: i)
  case (Cons v d)
  obtain qs where "vcd_plain ts offset (Suc i) d = Inr qs" using Cons by blast
  then show ?case using write_traces_ok [OF Cons.prems, of v] write_binary_ok [of 32 v raw_key] by auto
qed simp

lemma vcd_compressed_ok: "traces_fit ts \<Longrightarrow> \<exists>ps. vcd_compressed ts alen offset i addrv lt d = Inr ps"
proof (induction d arbitrary: i addrv lt)
  case (Cons v d)
  obtain t where t: "write_traces ts v = Inr t" using write_traces_ok [OF Cons.prems] by blast
  obtain r where r: "write_binary 31 v raw_key = Inr r" using write_binary_ok by force
  have "\<exists>ps. map_sum id g (vcd_compressed ts alen offset i addrv lt d) = Inr ps"
    for i addrv lt and g :: "piece list \<Rightarrow> piece list"
    using Cons.IH [OF Cons.prems, of i addrv lt] by auto
  then show ?case using Cons.IH [OF Cons.prems] t r by (simp add: Let_def)
qed simp

lemma vcd_body_ok: "traces_fit (sc_traces s) \<Longrightarrow> \<exists>ps. vcd_body s alen d = Inr ps"
  using vcd_compressed_ok vcd_plain_ok by (simp add: vcd_body_def Let_def)

section \<open>The trigger in the file\<close>

text \<open>The clocks that samples stand for, and the number \<^verbatim>\<open>getaddresslen\<close> gives.\<close>

definition span :: "u32 list \<Rightarrow> nat" where
  "span d = (\<Sum>v\<leftarrow>d. if jump v then unat (jump_len v) + 1 else 1)"

lemma span_simps: "span [] = 0" "span (v # d) = (if jump v then unat (jump_len v) + 1 else 1) + span d"
  by (simp_all add: span_def)

lemma addresslen_fold:
  assumes "unat a + span d < 2 ^ 32 + length d"
  shows "unat (foldl (\<lambda>alen v. if jump v then alen + jump_len v else alen) a d) + length d = unat a + span d"
  using assms
proof (induction d arbitrary: a)
  case (Cons v d)
  have l: "length d \<le> span d" by (induction d) (auto simp: span_simps)
  show ?case
  proof (cases "jump v")
    case True
    then have "unat a + unat (jump_len v) < 2 ^ 32" using Cons.prems l by (simp add: span_simps)
    then have "unat (a + jump_len v) = unat a + unat (jump_len v)" by (simp add: unat_add_u32)
    then show ?thesis using Cons.IH [of "a + jump_len v"] Cons.prems True by (simp add: span_simps)
  next
    case False
    then show ?thesis using Cons by (simp add: span_simps)
  qed
qed (simp add: span_simps)

lemma address_span:
  assumes "sc_compressed s" "getaddresslen s = Inr alen" "samples s = Inr (v # d)" "span d < 2 ^ 31"
  shows "unat alen = 1 + span d"
proof -
  have n: "nat (sint (sc_scoplen s)) = Suc (length d)"
    using assms(3) by (auto simp: samples_def Let_def split: option.splits if_splits) (metis length_Cons length_take min.absorb2)
  then have "unat (sc_scoplen s) = Suc (length d)"
    using nat_sint_u32 [of "sc_scoplen s"] by (cases "0 \<le> sint (sc_scoplen s)") simp_all
  then show ?thesis
    using assms addresslen_fold [of "sc_scoplen s" d] by (simp add: getaddresslen_def)
qed

definition marks_trigger :: "piece list \<Rightarrow> bool" where
  "marks_trigger ps \<longleftrightarrow> mark CHR ''1'' CHR ''T'' \<in> set ps"

lemma raw_not_mark: "write_binary 31 v raw_key = Inr r \<Longrightarrow> Txt r \<noteq> mark CHR ''1'' CHR ''T''"
  using write_binary_bits [of 31 v raw_key] by (auto simp: mark_def)

lemma write_traces_not_mark:
  assumes "registered ts" "write_traces ts v = Inr t"
  shows "Txt t \<noteq> mark CHR ''1'' CHR ''T''"
proof (cases ts)
  case Nil
  then show ?thesis using assms(2) by (simp add: mark_def)
next
  case (Cons a as)
  obtain c where c: "tr_key a = [CHR ''v'', c]" using assms(1) Cons by (auto simp: registered_def)
  obtain l r where lr: "write_trace a v = Inr l" "t = l @ r" using assms(2) Cons by (auto split: sum.splits)
  have one: "fmt_d (w AND 1) = ''0'' \<or> fmt_d (w AND 1) = ''1''" for w using fmt_d_bit [of 0 w] by (auto split: if_splits)
  have "\<exists>x y. l = x # y \<and> (x = CHR ''b'' \<or> y \<noteq> [] \<and> hd y = CHR ''v'')"
    using lr(1) c one by (auto simp: write_trace_def write_binary_def Let_def split: if_splits) (metis append_Cons append_Nil list.sel(1) list.distinct(1))
  then show ?thesis using lr(2) by (auto simp: mark_def append_eq_Cons_conv)
qed

lemma trigger_unreached:
  assumes "unat addrv < unat alen" "unat alen < 2 ^ 31" "holdoff < alen"
  shows "sint (ucast (addrv - ucast alen :: u64) :: u32) \<noteq> trigger_offset alen holdoff"
proof
  have c: "ucast (addrv - ucast alen :: u64) = (ucast addrv - alen :: u32)"
    by (simp add: ucast_diff_64 ucast_up_down)
  assume "sint (ucast (addrv - ucast alen :: u64) :: u32) = trigger_offset alen holdoff"
  then have "ucast addrv - alen = alen - holdoff - 1"
    unfolding c trigger_offset_def by (rule signed_word_eqI)
  then have eq: "(ucast addrv :: u32) = alen + (alen - holdoff - 1)" by (simp add: algebra_simps)
  have h: "unat (alen - holdoff - 1) = unat alen - unat holdoff - 1"
  proof -
    have 1: "unat (alen - holdoff) = unat alen - unat holdoff"
      using assms(3) by (intro unat_sub) simp
    then have "1 \<le> alen - holdoff" using assms(3) by (simp add: word_le_nat_alt word_less_nat_alt)
    then show ?thesis using 1 by (simp add: unat_sub)
  qed
  have "unat addrv = unat (ucast addrv :: u32)"
    using assms by (simp add: unat_ucast_64)
  also have "\<dots> = (unat alen + unat (alen - holdoff - 1)) mod 2 ^ 32"
    unfolding eq unat_add_u32 ..
  also have "\<dots> = unat alen + (unat alen - unat holdoff - 1)"
    unfolding h using assms(2) by simp
  finally show False using assms(1) by simp
qed

lemma unat_add_u64: "unat a + unat b < 2 ^ 64 \<Longrightarrow> unat (a + b :: u64) = unat a + unat b"
  by (simp add: unat_word_ariths)

lemma unat_jump_len: "unat (ucast (jump_len v + 1) :: u64) = unat (jump_len v) + 1"
proof -
  have "jump_len v \<le> 0x7fffffff" by (simp add: jump_len_def word_and_le1)
  then have "unat (jump_len v + 1) = unat (jump_len v) + 1" by (simp add: unat_add_u32 word_le_nat_alt)
  then show ?thesis by (simp add: unsigned_ucast_eq take_bit_nat_eq_self unat_add_u32 order.strict_trans [OF unsigned_less])
qed

lemma vcd_compressed_trigger:
  assumes "registered ts" "vcd_compressed ts alen (trigger_offset alen holdoff) i addrv lt d = Inr ps"
    "unat addrv + span d \<le> unat alen" "unat alen < 2 ^ 31" "holdoff < alen"
  shows "\<not> marks_trigger ps"
  using assms(2,3)
proof (induction d arbitrary: i addrv lt ps)
  case Nil
  then show ?case by (simp add: marks_trigger_def)
next
  case (Cons v d)
  show ?case
  proof (cases "jump v")
    case True
    show ?thesis
    proof (cases "i = 0")
      case i: True
      then show ?thesis using Cons.IH [of "Suc i" addrv lt ps] Cons.prems True by (simp add: span_simps)
    next
      case i: False
      obtain qs where q: "vcd_compressed ts alen (trigger_offset alen holdoff) (Suc i) (addrv + ucast (jump_len v + 1)) lt d = Inr qs"
        "ps = (if lt then [At (addrv + 1) False, mark CHR ''0'' CHR ''T''] else []) @ qs"
        using Cons.prems(1) True i by (auto split: sum.splits)
      have "unat (addrv + ucast (jump_len v + 1)) = unat addrv + unat (jump_len v) + 1"
        using Cons.prems(2) assms(4) True by (subst unat_add_u64) (simp_all add: unat_jump_len span_simps)
      then have "\<not> marks_trigger qs" using Cons.IH [OF q(1)] Cons.prems(2) True by (simp add: span_simps)
      then show ?thesis unfolding q(2) by (auto simp: marks_trigger_def mark_def)
    qed
  next
    case False
    then have lt: "unat addrv < unat alen" using Cons.prems(2) by (simp add: span_simps)
    note no = trigger_unreached [OF this assms(4,5)]
    obtain r t qs where q: "write_binary 31 v raw_key = Inr r" "write_traces ts v = Inr t"
      "vcd_compressed ts alen (trigger_offset alen holdoff) (Suc i) (addrv + 1) lt d = Inr qs"
      "ps = [At addrv False] @ (if lt then [mark CHR ''0'' CHR ''T''] else []) @ [Txt r, Txt t] @ qs"
      using Cons.prems(1) False no by (auto simp: Let_def split: sum.splits)
    have "unat (addrv + 1) = unat addrv + 1" using lt assms(4) by (subst unat_add_u64) simp_all
    then have "\<not> marks_trigger qs" using Cons.IH [OF q(3)] Cons.prems(2) False by (simp add: span_simps)
    then show ?thesis
      using raw_not_mark [OF q(1)] write_traces_not_mark [OF assms(1) q(2)] unfolding q(4) marks_trigger_def by (auto simp: mark_def)
  qed
qed

lemma compressed_body_no_trigger:
  assumes "sc_compressed s" "registered (sc_traces s)" "getaddresslen s = Inr alen" "samples s = Inr d"
    "vcd_body s alen d = Inr ps" "span (drop 1 d) + 1 < 2 ^ 31" "sc_holdoff s < alen"
  shows "\<not> marks_trigger ps"
proof (cases d)
  case Nil
  then show ?thesis using assms(1,5) by (simp add: vcd_body_def marks_trigger_def)
next
  case (Cons v d')
  have alen: "unat alen = 1 + span d'" using address_span [OF assms(1,3) assms(4) [unfolded Cons]] assms(6) Cons by simp
  have run: "vcd_compressed (sc_traces s) alen (trigger_offset alen (sc_holdoff s)) 0 0 True (v # d') = Inr ps"
    using assms(1,5) Cons by (simp add: vcd_body_def Let_def del: vcd_compressed.simps)
  show ?thesis
  proof (cases "jump v")
    case True
    then show ?thesis
      using run vcd_compressed_trigger [OF assms(2), of alen "sc_holdoff s" 1 0 True d' ps] alen assms(6,7) Cons by simp
  next
    case False
    then show ?thesis
      using vcd_compressed_trigger [OF assms(2) run] alen assms(6,7) Cons by (simp add: span_simps)
  qed
qed

lemma header_no_mark: "mark v k \<notin> set (write_trace_header date s offset)"
  by (auto simp: write_trace_header_def mark_def var_line_def newline_def)

text \<open>
  C24: a compressed scope's file never marks the trigger.  Whatever samples a compressed scope has, with a
  trigger inside its time, the file is written and no line of it sets the trigger trace: the loop compares the
  place of the trigger with \<open>addrv - alen\<close>, and \<open>addrv\<close> stays below \<open>alen\<close>.
\<close>
theorem compressed_vcd_has_no_trigger:
  assumes "sc_data s = Some d" "length d = unat (sc_scoplen s)" "sc_compressed s" "0 < sint (sc_scoplen s)"
    "registered (sc_traces s)" "traces_fit (sc_traces s)" "sc_traces s \<noteq> []"
    "span (drop 1 d) + 1 < 2 ^ 31" "unat (sc_holdoff s) < 1 + span (drop 1 d)"
  shows "\<exists>ps. writevcd bus junk date define s = (Inr ps, s) \<and> \<not> marks_trigger ps"
proof -
  have sam: "samples s = Inr d" using assms(1,2,4) nat_sint_u32 [of "sc_scoplen s"] by (simp add: samples_def)
  obtain alen where alen: "getaddresslen s = Inr alen" using assms(3) sam by (simp add: getaddresslen_def)
  obtain v d' where d: "d = v # d'" using assms(2,4) nat_sint_u32 [of "sc_scoplen s"] by (cases d) auto
  have "unat alen = 1 + span d'" using address_span [OF assms(3) alen sam [unfolded d]] assms(8) d by simp
  then have h: "sc_holdoff s < alen" using assms(9) d by (simp add: word_less_nat_alt)
  obtain ps where ps: "vcd_body s alen d = Inr ps" using vcd_body_ok [OF assms(6)] by blast
  have "writevcd bus junk date define s = (Inr (write_trace_header date s (trigger_offset alen (sc_holdoff s)) @ ps), s)"
    using assms(1,7) alen sam ps by (simp add: writevcd_def seq_def ret_def lift_fault_def)
  then show ?thesis
    using compressed_body_no_trigger [OF assms(3,5) alen sam ps assms(8) h] by (simp add: marks_trigger_def header_no_mark)
qed

lemma sdram_traces_ok: "registered (sdram_traces [])" "traces_fit (sdram_traces [])" "sdram_traces [] \<noteq> []"
proof -
  have "list_all (\<lambda>t. length (tr_key t) = 2 \<and> hd (tr_key t) = CHR ''v'' \<and> last (tr_key t) \<noteq> CHR 0x0a) (sdram_traces [])"
    "list_all (\<lambda>t. tr_nbits t \<le> 32 \<and> tr_nshift t < 32) (sdram_traces [])" "length (sdram_traces []) = 13"
    by code_simp+
  then show "registered (sdram_traces [])" "traces_fit (sdram_traces [])" "sdram_traces [] \<noteq> []"
    by (auto simp: registered_def traces_fit_def list_all_iff length_Suc_conv numeral_2_eq_2)
qed

theorem compressed_vcd_has_no_trigger_witness:
  "\<exists>ps. writevcd hexbus_dev (\<lambda>_. 0) [] id
      ((sdramscope_init (demo_link []) 0x1000 True 0)\<lparr>sc_scoplen := 4, sc_holdoff := 3, sc_data := Some [5, 0x80000004, 6, 7],
         sc_traces := sdram_traces []\<rparr>)
    = (Inr ps, (sdramscope_init (demo_link []) 0x1000 True 0)\<lparr>sc_scoplen := 4, sc_holdoff := 3, sc_data := Some [5, 0x80000004, 6, 7],
         sc_traces := sdram_traces []\<rparr>) \<and> \<not> marks_trigger ps"
proof (rule compressed_vcd_has_no_trigger)
  have s: "span (drop 1 [5, 0x80000004, 6, 7]) = 7" by code_simp
  show "span (drop 1 [5, 0x80000004, 6, 7]) + 1 < 2 ^ 31" unfolding s by simp
  show "unat (sc_holdoff ((sdramscope_init (demo_link []) 0x1000 True 0)\<lparr>sc_scoplen := 4, sc_holdoff := 3,
      sc_data := Some [5, 0x80000004, 6, 7], sc_traces := sdram_traces []\<rparr>)) < 1 + span (drop 1 [5, 0x80000004, 6, 7])"
    unfolding s by simp
qed (use sdram_traces_ok in \<open>simp_all add: sdramscope_init_def scope_init_def SDRAM_COMPRESSED_def\<close>)

section \<open>The printed rows\<close>

lemma Row_in_plain:
  "Row j v t \<in> set (print_plain offset d) \<longleftrightarrow>
     (\<exists>i<length d. j = int i \<and> v = d ! i \<and> t = (int i = offset) \<and> \<not> (i > 0 \<and> d ! i = d ! (i - 1) \<and> i < length d - 1))"
  by (auto simp: print_plain_def print_one_def)

lemma Row_at:
  "Row (int i) v t \<in> set (print_plain offset d) \<longleftrightarrow>
     i < length d \<and> v = d ! i \<and> t = (int i = offset) \<and> \<not> (i > 0 \<and> d ! i = d ! (i - 1) \<and> i < length d - 1)"
  by (auto simp: Row_in_plain)

text \<open>
  The printed rows give every sample.  The rows of a scope that is not compressed leave samples out, but
  the last row printed at or before a sample has its value, and says of the sample it stands for whether the trigger is there.
\<close>
lemma printed_rows_give_samples:
  assumes "i < length d"
  shows "\<exists>j\<le>i. Row (int j) (d ! i) (int j = offset) \<in> set (print_plain offset d)
    \<and> (\<forall>k v t. j < k \<and> k \<le> i \<longrightarrow> Row (int k) v t \<notin> set (print_plain offset d))"
  using assms
proof (induction i)
  case 0
  then show ?case by (intro exI [of _ 0]) (auto simp: Row_at [of 0, simplified])
next
  case (Suc i)
  let ?skip = "d ! Suc i = d ! i \<and> Suc i < length d - 1"
  show ?case
  proof (cases ?skip)
    case True
    then have no: "Row (int (Suc i)) v t \<notin> set (print_plain offset d)" for v t unfolding Row_at by auto
    obtain j where "j \<le> i" "Row (int j) (d ! i) (int j = offset) \<in> set (print_plain offset d)"
      "\<forall>k v t. j < k \<and> k \<le> i \<longrightarrow> Row (int k) v t \<notin> set (print_plain offset d)"
      using Suc by auto
    then show ?thesis using True no by (intro exI [of _ j]) (auto simp: le_Suc_eq)
  next
    case False
    then show ?thesis using Suc.prems unfolding Row_at by (intro exI [of _ "Suc i"]) auto
  qed
qed

theorem printed_rows_give_samples_witness:
  "\<exists>j\<le>3. Row (int j) ([5, 5, 5, 5, 7] ! 3) (int j = 2) \<in> set (print_plain 2 [5, 5, 5, 5, 7])
    \<and> (\<forall>k v t. j < k \<and> k \<le> 3 \<longrightarrow> Row (int k) v t \<notin> set (print_plain 2 [5, 5, 5, 5, 7]))"
  by (rule printed_rows_give_samples) simp

text \<open>The trigger is marked where its sample is printed, and a run of equal samples is only announced from the third on.\<close>

lemma trigger_printed:
  "(\<exists>v. Row offset v True \<in> set (print_plain offset d)) \<longleftrightarrow>
     (\<exists>i<length d. offset = int i \<and> \<not> (i > 0 \<and> d ! i = d ! (i - 1) \<and> i < length d - 1))"
  by (auto simp: Row_in_plain)

lemma stars_late:
  assumes "Stars \<in> set (print_plain offset d)"
  shows "\<exists>i>2. i < length d - 1 \<and> d ! i = d ! (i - 1) \<and> d ! i \<noteq> d ! (i - 2)"
  using assms by (auto simp: print_plain_def print_one_def split: if_splits)

section \<open>The buffer is full\<close>

lemma on_bus_scoplen: "on_bus m s = (r, s') \<Longrightarrow> s' = s\<lparr>sc_fpga := sc_fpga s'\<rparr>"
  by (auto simp: on_bus_def split: prod.splits)

lemma on_bus_fields [simp]:
  assumes "on_bus m s = (r, s')"
  shows "sc_scoplen s' = sc_scoplen s" "sc_data s' = sc_data s"
  using assms by (auto simp: on_bus_def split: prod.splits)

lemma read_words_keeps:
  "read_words bus is s = (r, s') \<Longrightarrow> sc_scoplen s' = sc_scoplen s \<and> map_option length (sc_data s') = map_option length (sc_data s)"
proof (induction "is" arbitrary: s)
  case (Cons i "is")
  obtain r1 s1 where 1: "on_bus (dv_readio bus (sc_addr s + 4)) s = (r1, s1)" by force
  show ?case
  proof (cases r1)
    case (Inl e)
    then show ?thesis using Cons.prems 1 on_bus_fields [OF 1] by (auto simp: seq_def)
  next
    case (Inr v)
    then have "read_words bus is (s1\<lparr>sc_data := map_option (\<lambda>d. d[i := v]) (sc_data s1)\<rparr>) = (r, s')"
      using Cons.prems 1 by (simp add: seq_def)
    from Cons.IH [OF this] show ?thesis
      using on_bus_fields [OF 1] by (simp add: option.map_comp comp_def)
  qed
qed simp

definition buffer_full :: "'b scope \<Rightarrow> bool" where
  "buffer_full s \<longleftrightarrow>
     (if sint (sc_scoplen s) \<le> 4 then sc_data s = None
      else \<exists>d. sc_data s = Some d \<and> length d = unat (sc_scoplen s) \<and> samples s = Inr d)"

lemma full_samples: "4 < sint (sc_scoplen s) \<Longrightarrow> sc_data s = Some d \<Longrightarrow> length d = unat (sc_scoplen s) \<Longrightarrow> buffer_full s"
  using nat_sint_u32 [of "sc_scoplen s"] by (auto simp: buffer_full_def samples_def)

lemma scoplen_result:
  assumes "scoplen bus s = (Inr len, s')"
  shows "len = sc_scoplen s' \<and> sc_data s' = sc_data s"
  using assms on_bus_fields(2)
  by (fastforce simp: scoplen_def seq_def Let_def split: if_splits prod.splits sum.splits)

context devbus_client
begin

lemma rawread_fills:
  assumes "rawread bus junk s = (Inr u, s')" "sc_data s = None"
  shows "buffer_full s'"
proof -
  obtain len s1 where 1: "scoplen bus s = (Inr len, s1)"
    "(if sint len \<le> 4 then ret () s1
      else let s = s1\<lparr>sc_data := Some (map junk [0..<unat len])\<rparr>
           in if sc_vector_read s then
                seq (on_bus (dv_readz bus (sc_addr s + 4) (sint len))) (\<lambda>ws s. ret () (s\<lparr>sc_data := Some ws\<rparr>)) s
              else read_words bus [0..<unat len] s) = (Inr u, s')"
    using assms by (auto simp: rawread_def elim: seq_InrE)
  have len: "len = sc_scoplen s1" "sc_data s1 = None" using scoplen_result [OF 1(1)] assms(2) by auto
  show ?thesis
  proof (cases "sint len \<le> 4")
    case True
    then show ?thesis using 1(2) len by (simp add: buffer_full_def)
  next
    case False
    let ?s = "s1\<lparr>sc_data := Some (map junk [0..<unat len])\<rparr>"
    have n: "nat (sint len) = unat len" using False by (intro nat_sint_u32) simp
    show ?thesis
    proof (cases "sc_vector_read ?s")
      case True
      obtain ws s2 where 2: "on_bus (dv_readz bus (sc_addr ?s + 4) (sint len)) ?s = (Inr ws, s2)" "s' = s2\<lparr>sc_data := Some ws\<rparr>"
        using 1(2) False True by (auto simp: Let_def elim: seq_InrE)
      have "length ws = unat len"
        using 2(1) readz_fills n by (fastforce simp: on_bus_def call_def split: prod.splits sum.splits)
      moreover have "sc_scoplen s2 = len" using on_bus_fields(1) [OF 2(1)] len by simp
      ultimately show ?thesis using full_samples [of s' ws] False 2(2) by simp
    next
      case v: False
      then have "read_words bus [0..<unat len] ?s = (Inr u, s')" using 1(2) False by (simp add: Let_def)
      from read_words_keeps [OF this] show ?thesis using full_samples [of s'] False len by auto
    qed
  qed
qed

end

section \<open>From the device to the file\<close>

lemma ends_raw_rev: "ends_raw t \<Longrightarrow> take 2 (rev t) = [CHR 0x0a, CHR 0x0a]"
  by (drule ends_rawD) auto

lemma text_line: "take 2 (rev t) \<noteq> [CHR 0x0a, CHR 0x0a] \<Longrightarrow> file_samples (Txt t # ps) = file_samples ps"
  using ends_raw_rev by (auto simp: file_samples_def)

lemma file_samples_append: "file_samples (ps @ qs) = file_samples ps @ file_samples qs"
  by (simp add: file_samples_def)

lemma header_no_samples: "file_samples (write_trace_header date s offset) = []"
proof -
  have "file_samples (map (Txt \<circ> var_line) ts) = []" for ts
  proof (induction ts)
    case (Cons t ts)
    have "take 2 (rev (var_line t)) \<noteq> [CHR 0x0a, CHR 0x0a]" by (simp add: var_line_def newline_def)
    then show ?case using Cons by (simp add: text_line)
  qed simp
  moreover have "file_samples (Zero offset # ps) = file_samples ps" for ps by (simp add: file_samples_def)
  moreover have "file_samples [Txt (''$timescale 1ns $end'' @ newline @ newline)] = []"
    by (simp add: file_samples_def ends_raw_def newline_def)
  ultimately show ?thesis
    unfolding write_trace_header_def by (simp add: file_samples_append text_line newline_def file_samples_def ends_raw_def)
qed

text \<open>
  C23: a scope's file holds what the device sent.  A scope that reads its samples as a block over the hex bus,
  from a device that answers with the words \<open>ws\<close>, writes a file whose sample lines give exactly these words, in their
  order.  The device echoes the address of the read before the first word, as the board does, sends interrupt notices
  between the words, and ends its lines with any white space, or with none before the next packet.
\<close>
theorem scope_file_over_hexbus:
  assumes "ready (sc_fpga s) (answer_bytes ws @ cs) tx" "read_answer (sc_addr s + 4) False ws"
    and "sc_data s = None" "sc_vector_read s" "\<not> sc_compressed s" "unat (sc_scoplen s) = length ws" "4 < length ws" "length ws < 2 ^ 31"
    and "registered (if sc_traces s = [] then define [] else sc_traces s)" "traces_fit (if sc_traces s = [] then define [] else sc_traces s)"
  shows "\<exists>ps s'. writevcd hexbus_dev junk date define s = (Inr ps, s') \<and> file_samples ps = map word_of_wire ws"
proof -
  let ?n = "sc_scoplen s" and ?d = "map word_of_wire ws"
  have n: "sint ?n = int (length ws)" "?n \<noteq> 0"
  proof -
    show "sint ?n = int (length ws)" using sint_small_u32 [of ?n] assms(6,8) by simp
    show "?n \<noteq> 0" using assms(6,7) by auto
  qed
  obtain h' where h': "readv (sc_addr s + 4) False (int (length ws)) (sc_fpga s) = (Inr ?d, h')"
    using readv_wire [OF assms(1,2)] by blast
  define s1 where "s1 = s\<lparr>sc_fpga := h', sc_data := Some ?d\<rparr>"
  have raw: "rawread hexbus_dev junk s = (Inr (), s1)"
    using h' n assms(3,4,7) by (simp add: rawread_def seq_def scoplen_def on_bus_def call_def hexbus_dev_def readz_def s1_def)
  let ?s2 = "if sc_traces s1 = [] then s1\<lparr>sc_traces := define []\<rparr> else s1"
  have s2: "samples ?s2 = Inr ?d" "getaddresslen ?s2 = Inr ?n" "\<not> sc_compressed ?s2"
    "sc_traces ?s2 = (if sc_traces s = [] then define [] else sc_traces s)"
    using assms(5) n(1) by (simp_all add: samples_def getaddresslen_def s1_def)
  obtain ps where ps: "vcd_body ?s2 ?n ?d = Inr ps"
    using vcd_plain_ok [OF assms(10), of "trigger_offset ?n (sc_holdoff ?s2)" 0 ?d] s2(3,4)
    by (elim exE) (simp add: vcd_body_def Let_def del: if_split)
  have "writevcd hexbus_dev junk date define s
      = (Inr (write_trace_header date ?s2 (trigger_offset ?n (sc_holdoff ?s2)) @ ps), ?s2)"
    using raw s2(1,2) ps assms(3) by (simp add: writevcd_def seq_def lift_fault_def Let_def del: if_split)
  moreover have "file_samples ps = ?d"
    using vcd_holds_samples [OF _ ps] assms(9) s2(3,4) by simp
  ultimately show ?thesis by (auto simp: file_samples_append header_no_samples)
qed

text \<open>The traffic of a scope at \<open>0x1000\<close>: its data register is at \<open>0x1004\<close>, and the low bit of the echo says that the address does not count up.\<close>

definition scope_answer :: "wire_word list" where
  "scope_answer =
     [([(HEXB_ADDR, fmt_08x 0x1005, [])], 1, [0x0d, 0x0a]), ([], 2, [0x0d, 0x0a]), ([(HEXB_INT, [], [0x0d, 0x0a])], 3, [0x0d, 0x0a]),
      ([], 0xbeef, [0x0d, 0x0a]), ([], 5, [0x0d, 0x0a]), ([], 5, [0x0d, 0x0a]), ([], 5, [0x0d, 0x0a]), ([], 8, [0x0d, 0x0a])]"

lemma fmt_08x_hex: "list_all hex_char (fmt_08x w)"
  by (auto simp: list_all_iff fmt_08x_def hex_char_digits)

lemma scope_answer_ok: "read_answer 0x1004 False scope_answer"
proof -
  have e: "address_echo 0x1004 False (HEXB_ADDR, fmt_08x 0x1005, [])"
    unfolding address_echo_def by (simp add: wire_ok_def wire_response_def response_of_def hex_value_08x fmt_08x_hex)
      (simp add: hex_char_def isdigit8_def isspace8_def)
  have i: "quiet_wire (HEXB_INT, [], [0x0d, 0x0a])"
    by (simp add: quiet_wire_def wire_ok_def wire_response_def response_of_def hex_char_def isdigit8_def isspace8_def)
  have c: "isspace8 0x0d" "isspace8 0x0a" by (simp_all add: isspace8_def)
  show ?thesis by (simp add: scope_answer_def word_ok_def before_first_def e i c)
qed

theorem scope_file_over_hexbus_witness:
  "\<exists>ps s'. writevcd hexbus_dev (\<lambda>_. 0) [] (register_trace ''x'' 3 2)
      ((scope_init (demo_link [answer_bytes scope_answer]) 0x1000 False True 0)\<lparr>sc_scoplen := 8, sc_holdoff := 4\<rparr>) = (Inr ps, s')
    \<and> file_samples ps = [1, 2, 3, 0xbeef, 5, 5, 5, 8]"
proof -
  let ?h = "demo_link [answer_bytes scope_answer]"
  have "at_stream ?h (answer_bytes scope_answer @ []) []"
    by (simp add: demo_link_def hexbus_init_def bufalloc_def at_stream_def rx_stream_def)
  moreover have "m_isspace ?h" by (simp add: demo_link_def hexbus_init_def bufalloc_def)
  ultimately have "ready ?h (answer_bytes scope_answer @ []) []" by (simp only: ready_at_stream)
  moreover have "map word_of_wire scope_answer = [1, 2, 3, 0xbeef, 5, 5, 5, 8]" "length scope_answer = 8"
    by (simp_all add: scope_answer_def word_of_wire_def)
  moreover have "registered (register_trace ''x'' 3 2 [])" "traces_fit (register_trace ''x'' 3 2 [])"
    by (simp_all add: register_trace_def registered_def traces_fit_def) code_simp
  ultimately show ?thesis
    using scope_file_over_hexbus [of "(scope_init ?h 0x1000 False True 0)\<lparr>sc_scoplen := 8, sc_holdoff := 4\<rparr>" scope_answer "[]" "[]"
        "register_trace ''x'' 3 2" "\<lambda>_. 0" "[]"] scope_answer_ok
    by (simp add: scope_init_def)
qed

lemma short_scope_faults:
  assumes "dv_readio bus addr b = (Inr v, b')" "drop_bit 28 v AND 6 = 6" "drop_bit 20 v AND 0x1f \<in> {0, 1, 2}"
  shows "\<exists>s. scope_program bus junk date decode define (scope_init b addr compressed vecread raw) = (Inl (Faulty Undefined), s)"
proof -
  define L where "L = (push_bit (unat (drop_bit 20 v AND 0x1f)) 1 :: u32)"
  have "unat (drop_bit 20 v AND 0x1f) \<in> {0, 1, 2}" using assms(3) by auto
  then have L: "L \<in> {1, 2, 4}" by (auto simp: L_def)
  let ?s = "scope_init b addr compressed vecread raw"
  let ?s1 = "?s\<lparr>sc_fpga := b', sc_scoplen := L, sc_holdoff := v AND 0xfffff\<rparr>"
  have r: "scope_ready bus ?s = (Inr True, ?s1)"
    using assms(1,2) by (simp add: scope_ready_def seq_def on_bus_def call_def scope_init_def Let_def L_def)
  have "rawread bus junk ?s1 = (Inr (), ?s1)"
    using L by (auto simp: rawread_def seq_def scoplen_def scope_init_def)
  moreover have "scope_rows ?s1 = Inl Undefined"
    using L by (cases compressed) (auto simp: scope_rows_def getaddresslen_def samples_def scope_init_def)
  ultimately have "print_scope bus junk decode ?s1 = (Inl (Faulty Undefined), ?s1)"
    by (simp add: print_scope_def seq_def lift_fault_def)
  then show ?thesis using r by (auto simp: scope_program_def seq_def)
qed

section \<open>The keys of the traces\<close>

definition trace_key :: "nat \<Rightarrow> string" where
  "trace_key n = [CHR ''v'', if n < 26 then char_of (97 + n) else if n < 52 then char_of (65 + n - 26) else char_of (48 + n - 52)]"

lemma register_trace_key: "map tr_key (register_trace name nbits shift ts) = map tr_key ts @ [trace_key (length ts)]"
  and register_trace_length: "length (register_trace name nbits shift ts) = Suc (length ts)"
  by (simp_all add: register_trace_def trace_key_def Let_def)

definition register_all :: "(string \<times> nat \<times> nat) list \<Rightarrow> traceinfo list" where
  "register_all xs = foldl (\<lambda>ts (name, nbits, shift). register_trace name nbits shift ts) [] xs"

lemma register_all_keys: "map tr_key (register_all xs) = map trace_key [0..<length xs]"
proof -
  have "map tr_key (foldl (\<lambda>ts (name, nbits, shift). register_trace name nbits shift ts) ts xs)
      = map tr_key ts @ map trace_key [length ts..<length ts + length xs]" for ts
  proof (induction xs arbitrary: ts)
    case (Cons x xs)
    then show ?case
      by (cases x) (simp add: register_trace_key register_trace_length upt_conv_Cons del: upt_rec_numeral upt_Suc)
  qed simp
  from this [of "[]"] show ?thesis by (simp add: register_all_def)
qed

definition key_ok :: "string \<Rightarrow> bool" where
  "key_ok k \<longleftrightarrow> length k = 2 \<and> hd k = CHR ''v'' \<and> last k \<noteq> CHR 0x0a"

lemma key_okD: "key_ok k \<Longrightarrow> \<exists>c. k = [CHR ''v'', c] \<and> c \<noteq> CHR 0x0a"
  by (auto simp: key_ok_def numeral_2_eq_2 length_Suc_conv)

lemma trace_keys_distinct:
  assumes "length xs \<le> 62"
  shows "distinct (map tr_key (register_all xs)) \<and> registered (register_all xs)"
proof -
  have d: "distinct (map trace_key [0..<62])" and k: "list_all key_ok (map trace_key [0..<62])" by code_simp+
  have t: "map tr_key (register_all xs) = take (length xs) (map trace_key [0..<62])"
    using assms by (simp add: register_all_keys take_map del: upt_rec_numeral)
  have "key_ok (tr_key t)" if "t \<in> set (register_all xs)" for t
  proof -
    have "tr_key t \<in> set (take (length xs) (map trace_key [0..<62]))" using that unfolding t [symmetric] by simp
    then show ?thesis using k unfolding list_all_iff by (blast dest: in_set_takeD)
  qed
  then show ?thesis using distinct_take [OF d] key_okD unfolding t registered_def by blast
qed

end
