(* ===== verification/MainTb.thy ===== *)
theory MainTb
  imports ZipLoad FlashSim SdramSim SdSpiSim UartSim
begin

text \<open>
  The simulation of the whole board, \<^verbatim>\<open>sim/main_tb.cpp\<close> on \<^verbatim>\<open>testb.h\<close>, and its program \<^verbatim>\<open>automaster_tb.cpp\<close>: it
  puts the chips together around the design.  The design itself is compiled from Verilog by Verilator and is a
  parameter: the members of its class that the bench reads and writes are the record \<open>vmain\<close>, whose other members are
  the type of its extensions, and one evaluation of it is a function \<open>eval\<close>.  The trace file is left out.
\<close>

section \<open>The design and the bench\<close>

record vmain =
  i_clk :: bool
  i_reset :: bool
  o_sd_data :: u8
  o_sd_sck :: bool
  o_sd_cmd :: bool
  i_sd_data :: u8
  i_sd_detect :: bool
  i_ram_data :: u16
  o_spi_cs_n :: bool
  o_spi_sck :: u32
  o_spi_mosi :: u32
  i_spi_miso :: bool
  i_uart_rx :: bool
  o_uart_tx :: bool
  block_ram :: "u32 list"
  cpu_reset :: bool
  cpu_break :: bool
  cpu_cmd_halt :: bool
  cpu_ipc :: u32
  cpu_upc :: u32
  cpu_pf_pc :: u32
  cpu_gie :: bool
  cpu_iflags :: u32
  cpu_uflags :: u32
  cpu_regs :: "u32 list"
  cpu_op_sim :: bool
  cpu_op_valid :: bool
  cpu_alu_ce :: bool
  cpu_new_pc :: bool
  cpu_sim_immv :: u32
  cpu_alu_pc_valid :: bool
  cpu_mem_pc_valid :: bool
  cpu_alu_phase :: bool
  cpu_alu_pc :: u32
  cpu_wr_ce :: bool
  cpu_wr_reg_id :: nat
  cpu_wr_gpreg :: u32
  cpu_alu_reg :: nat
  cpu_dbgv :: bool
  cpu_dbg_val :: u32
  cpu_dbg_clear_pipe :: bool

record ('m, 'w) maintb =
  m_core :: "'m vmain_scheme"
  m_done :: bool
  m_time_ps :: u64
  m_sdcard :: sdspisim
  m_cpu_bombed :: int
  m_sdram :: sdramsim
  m_flash :: flashsim
  m_hb :: dbluartsim
  m_net :: 'w

text \<open>The macros of the generated \<^verbatim>\<open>design.h\<close> that select parts of the bench.\<close>

record sim_design = design +
  SDSPI_ACCESS :: bool
  SDRAM_ACCESS :: bool
  INCLUDE_ZIPCPU :: bool

text \<open>
  What the bench is connected to.  The SDRAM is called with one argument fewer than its operator has, so what this call
  does to it is a parameter.
\<close>

record ('m, 'w) board =
  bd_design :: sim_design
  bd_eval :: "'m vmain_scheme \<Rightarrow> 'm vmain_scheme"
  bd_finish :: "'m vmain_scheme \<Rightarrow> bool"
  bd_sdram :: "'m vmain_scheme \<Rightarrow> sdramsim \<Rightarrow> fault + u16 \<times> sdramsim"
  bd_net :: "'w net"

section \<open>Loading\<close>

text \<open>\<^verbatim>\<open>start\<close>, \<^verbatim>\<open>offset\<close> and \<^verbatim>\<open>wlen\<close> of an access that starts in a component of \<open>adrln\<close> bytes at \<open>base\<close>.\<close>

definition bus_hit :: "u32 \<Rightarrow> u32 \<Rightarrow> u32 \<Rightarrow> bool" where
  "bus_hit base adrln addr \<longleftrightarrow> base \<le> addr \<and> addr < base + adrln"

definition load_start :: "u32 \<Rightarrow> u32 \<Rightarrow> u32" where
  "load_start base addr = (if addr > base then addr - base else 0)"

definition load_offset :: "u32 \<Rightarrow> u32 \<Rightarrow> u32" where
  "load_offset base addr = load_start base addr + base - addr"

definition load_wlen :: "u32 \<Rightarrow> u32 \<Rightarrow> u32 \<Rightarrow> u32 \<Rightarrow> u32" where
  "load_wlen base adrln addr len =
     (if len - load_offset base addr > adrln - load_start base addr then adrln - load_start base addr
      else len - load_offset base addr)"

text \<open>
  The block RAM is an array of words, \<^verbatim>\<open>start\<close> an offset in bytes: it is used as an index all the same.  The first
  \<^verbatim>\<open>len>>2\<close> words of the copy are swapped.
\<close>

definition buf_word :: "bool \<Rightarrow> (nat \<Rightarrow> u8) \<Rightarrow> u32" where
  "buf_word swapped b = (if swapped then le_word (b 3) (b 2) (b 1) (b 0) else le_word (b 0) (b 1) (b 2) (b 3))"

definition load_bkram :: "u32 \<Rightarrow> u32 \<Rightarrow> (nat \<Rightarrow> u8) \<Rightarrow> u32 \<Rightarrow> ('m, 'w) maintb \<Rightarrow> fault + ('m, 'w) maintb" where
  "load_bkram start wlen buf len tb =
     (let n = unat wlen div 4; at = unat start; ram = block_ram (m_core tb)
      in if at + n > length ram then Inl Undefined
         else Inr (tb\<lparr>m_core := (m_core tb)\<lparr>block_ram :=
                take at ram @ map (\<lambda>k. buf_word (k < unat (drop_bit 2 len)) (\<lambda>j. buf (4 * k + j))) [0..<n] @ drop (at + n) ram\<rparr>\<rparr>))"

definition load_sdram :: "u32 \<Rightarrow> u32 \<Rightarrow> (nat \<Rightarrow> u8) \<Rightarrow> ('m, 'w) maintb \<Rightarrow> fault + ('m, 'w) maintb" where
  "load_sdram start wlen buf tb =
     map_sum id (\<lambda>s. tb\<lparr>m_sdram := s\<rparr>) (sdram_load start (map buf [0..<unat wlen]) (m_sdram tb))"

definition load_flash :: "u32 \<Rightarrow> u32 \<Rightarrow> (nat \<Rightarrow> u8) \<Rightarrow> ('m, 'w) maintb \<Rightarrow> fault + ('m, 'w) maintb" where
  "load_flash start wlen buf tb =
     (case load_data start (map buf [0..<unat wlen]) (m_flash tb) of
        None \<Rightarrow> Inl Undefined | Some s \<Rightarrow> Inr (tb\<lparr>m_flash := s\<rparr>))"

text \<open>What is left to be loaded behind a component, or that nothing is and whether that was a success.\<close>

datatype load_rest = Loaded bool | Rest u32 "nat \<Rightarrow> u8" u32

definition load_more :: "u32 \<Rightarrow> u32 \<Rightarrow> u32 \<Rightarrow> (nat \<Rightarrow> u8) \<Rightarrow> u32 \<Rightarrow> u32 \<Rightarrow> load_rest" where
  "load_more limit addr offset buf len wlen =
     (if addr + len > limit then Rest limit (\<lambda>i. buf (unat (offset + wlen) + i)) (len - wlen) else Loaded True)"

definition load_step :: "sim_design \<Rightarrow> u32 \<Rightarrow> (nat \<Rightarrow> u8) \<Rightarrow> u32 \<Rightarrow> ('m, 'w) maintb \<Rightarrow> fault + load_rest \<times> ('m, 'w) maintb" where
  "load_step d addr buf len tb =
     (if bus_hit 0x180000 0x1000 addr then
        (if \<not> BKRAM_ACCESS d then Inr (Loaded False, tb)
         else
           let start = load_start 0x180000 addr AND (- 4); offset = load_offset 0x180000 addr;
               wlen = (load_wlen 0x180000 0x1000 addr len + 3) AND (- 4)
           in map_sum id (Pair (load_more 0x181000 addr offset buf len wlen))
                (load_bkram start wlen (\<lambda>i. buf (unat offset + i)) len tb))
      else if bus_hit 0x400000 0x200000 addr then
        (if \<not> SDRAM_ACCESS d then Inr (Loaded False, tb)
         else
           let offset = load_offset 0x400000 addr; wlen = load_wlen 0x400000 0x200000 addr len
           in map_sum id (Pair (load_more 0x600000 addr offset buf len wlen))
                (load_sdram (load_start 0x400000 addr) wlen (\<lambda>i. buf (unat offset + i)) tb))
      else if bus_hit 0x200000 0x80000 addr then
        (if \<not> FLASH_ACCESS d then Inr (Loaded False, tb)
         else
           let offset = load_offset 0x200000 addr; wlen = load_wlen 0x200000 0x80000 addr len
           in map_sum id (Pair (load_more 0x280000 addr offset buf len wlen))
                (load_flash (load_start 0x200000 addr) wlen (\<lambda>i. buf (unat offset + i)) tb))
      else Inr (Loaded False, tb))"

definition loadable :: "u32 \<Rightarrow> bool" where
  "loadable addr \<longleftrightarrow> bus_hit 0x180000 0x1000 addr \<or> bus_hit 0x400000 0x200000 addr \<or> bus_hit 0x200000 0x80000 addr"

lemma load_step_rest:
  "load_step d addr buf len tb = Inr (Rest a b l, tb') \<Longrightarrow> loadable addr \<and> \<not> loadable a"
  by (auto simp: load_step_def load_more_def loadable_def bus_hit_def Let_def map_sum_id_Inr split: if_splits)

text \<open>\<^verbatim>\<open>MAINTB::load\<close>.\<close>

function tb_load :: "sim_design \<Rightarrow> u32 \<Rightarrow> (nat \<Rightarrow> u8) \<Rightarrow> u32 \<Rightarrow> ('m, 'w) maintb \<Rightarrow> fault + bool \<times> ('m, 'w) maintb" where
  "tb_load d addr buf len tb =
     (case load_step d addr buf len tb of
        Inl e \<Rightarrow> Inl e
      | Inr (Loaded b, tb) \<Rightarrow> Inr (b, tb)
      | Inr (Rest addr buf len, tb) \<Rightarrow> tb_load d addr buf len tb)"
  by pat_completeness auto
termination
  by (relation "measure (\<lambda>(_, addr, _). if loadable addr then 1 else 0)") (auto dest: load_step_rest)

declare tb_load.simps [simp del]

text \<open>\<^verbatim>\<open>loadelf\<close>: a section for which there is no memory is only reported.\<close>

fun load_elf_sections :: "sim_design \<Rightarrow> elfsection list \<Rightarrow> ('m, 'w) maintb \<Rightarrow> fault + ('m, 'w) maintb" where
  "load_elf_sections d [] tb = Inr tb"
| "load_elf_sections d (s # ss) tb =
     (case tb_load d (m_start s) (m_data s) (m_len s) tb of Inl e \<Rightarrow> Inl e | Inr (_, tb) \<Rightarrow> load_elf_sections d ss tb)"

definition loadelf :: "sim_design \<Rightarrow> elf \<Rightarrow> elfmem \<Rightarrow> ('m, 'w) maintb \<Rightarrow> fault + ('m, 'w) maintb" where
  "loadelf d f m0 tb =
     (case elfread True f m0 of Inl e \<Rightarrow> Inl e | Inr (_, m) \<Rightarrow> load_elf_sections d (sections m) tb)"

text \<open>\<^verbatim>\<open>setsdcard\<close>, \<^verbatim>\<open>close\<close>.\<close>

definition setsdcard :: "u8 list option \<Rightarrow> ('m, 'w) maintb \<Rightarrow> ('m, 'w) maintb" where
  "setsdcard file tb = tb\<lparr>m_sdcard := sdspi_load file (m_sdcard tb)\<rparr>"

definition tb_close :: "('m, 'w) maintb \<Rightarrow> ('m, 'w) maintb" where
  "tb_close tb = tb\<lparr>m_done := True\<rparr>"

section \<open>Instructions for the simulator\<close>

text \<open>A register of the CPU, or what is being written to it.  The mask is applied to the register only.\<close>

definition sim_reg :: "'m vmain_scheme \<Rightarrow> nat \<Rightarrow> u32 \<Rightarrow> u32" where
  "sim_reg c rnum m = (if cpu_wr_ce c \<and> cpu_wr_reg_id c = rnum then cpu_wr_gpreg c else cpu_regs c ! rnum AND m)"

definition dump_text :: "'m vmain_scheme \<Rightarrow> string" where
  "dump_text c =
     (let r = (\<lambda>n i. n @ '': '' @ hex8 (cpu_regs c ! i) @ '' ''); nl = (\<lambda>n i. n @ '': '' @ hex8 (cpu_regs c ! i) @ newline)
      in ''ZIPM--DUMP: '' @ (if cpu_gie c then ''Interrupts-enabled'' else ''Supervisor mode'') @ newline @ newline
         @ r ''sR0 '' 0 @ r ''sR1 '' 1 @ r ''sR2 '' 2 @ nl ''sR3 '' 3 @ r ''sR4 '' 4 @ r ''sR5 '' 5 @ r ''sR6 '' 6 @ nl ''sR7 '' 7
         @ r ''sR8 '' 8 @ r ''sR9 '' 9 @ r ''sR10'' 10 @ nl ''sR11'' 11 @ r ''sR12'' 12 @ r ''sSP '' 13
         @ ''sCC : '' @ hex8 (cpu_iflags c) @ '' '' @ nl ''sPC '' 15 @ newline
         @ r ''uR0 '' 16 @ r ''uR1 '' 17 @ r ''uR2 '' 18 @ nl ''uR3 '' 19 @ r ''uR4 '' 20 @ r ''uR5 '' 21 @ r ''uR6 '' 22 @ nl ''uR7 '' 23
         @ r ''uR8 '' 24 @ r ''uR9 '' 25 @ r ''uR10'' 26 @ nl ''uR11'' 27 @ r ''uR12'' 28 @ r ''uSP '' 29
         @ ''uCC : '' @ hex8 (cpu_uflags c) @ '' '' @ nl ''uPC '' 31 @ newline)"

definition out_char :: "u32 \<Rightarrow> string" where
  "out_char v = [char_of (unat (v AND 0xff))]"

definition reg_line :: "u64 \<Rightarrow> 'm vmain_scheme \<Rightarrow> string \<Rightarrow> nat \<Rightarrow> u32 \<Rightarrow> string" where
  "reg_line now c name rnum v =
     pad_left 8 (dec_nat (unat now div 1000)) @ '' @'' @ hex8 (cpu_ipc c) @ '' '' @ name @ ''['' @ pad_left 2 (dec_nat rnum)
       @ ''] = 0x'' @ hex8 v @ newline"

definition execsim :: "u64 \<Rightarrow> 'm vmain_scheme \<Rightarrow> u32 \<Rightarrow> stop + string" where
  "execsim now c imm =
     (let rbase = (if cpu_gie c then 16 else 0); ru = unat (imm AND 0xf) + 16; rn = unat (imm AND 0xf) + rbase
      in if imm AND 0x3fffff = 0 then Inr []
         else if imm AND 0xfffff = 0x100 then Inl (Exit 0)
         else if imm AND 0xffff0 = 0x310 then Inl (Exit (sint (sim_reg c ru 0xff)))
         else if imm AND 0xffff0 = 0x300 then Inl (Exit (sint (sim_reg c rn 0xff)))
         else if imm AND 0xfff00 = 0x100 then Inl (Exit (sint (imm AND 0xff)))
         else if imm AND 0xfffff = 0x2ff then Inr (''SIM-DUMP'' @ newline @ dump_text c)
         else if imm AND 0xffff0 = 0x200 then Inr (reg_line now c ''R'' rn (sim_reg c rn (- 1)))
         else if imm AND 0xffff0 = 0x210 then Inr (reg_line now c ''uR'' ru (sim_reg c ru 0xff))
         else if imm AND 0xffff0 = 0x230 then Inr (out_char (sim_reg c ru (- 1)))
         else if imm AND 0xfffe0 = 0x220 then Inr (out_char (sim_reg c rn (- 1)))
         else if imm AND 0xfff00 = 0x400 then Inr (out_char (imm AND 0xff))
         else Inr (''SIM 0x'' @ hex8 (imm AND 0x3fffff) @ '' (ipc = '' @ hex8 (cpu_ipc c) @ '', upc = '' @ hex8 (cpu_upc c) @ '')'' @ newline))"

section \<open>A clock\<close>

definition chip :: "('s \<Rightarrow> fault + 's) \<Rightarrow> ('s, unit) run" where
  "chip f = (\<lambda>s. case f s of Inl e \<Rightarrow> (Inl (Faulty e), s) | Inr s \<Rightarrow> (Inr (), s))"

definition tick_sdcard :: "sim_design \<Rightarrow> ('m, 'w) maintb \<Rightarrow> fault + ('m, 'w) maintb" where
  "tick_sdcard d tb =
     (let c = m_core tb
      in if \<not> SDSPI_ACCESS d then Inr tb
         else map_sum id (\<lambda>(miso, s). tb\<lparr>m_sdcard := s, m_core := c\<lparr>i_sd_data := (if miso then 1 else 0) OR (o_sd_data c AND 0x0e), i_sd_detect := True\<rparr>\<rparr>)
                (sdspi_tick (o_sd_data c AND 8 \<noteq> 0) (o_sd_sck c) (o_sd_cmd c) (m_sdcard tb)))"

definition tick_cpu :: "sim_design \<Rightarrow> (('m, 'w) maintb, string) run" where
  "tick_cpu d tb =
     (let c = m_core tb
      in if \<not> INCLUDE_ZIPCPU d then (Inr [], tb)
         else case (if cpu_op_sim c \<and> cpu_op_valid c \<and> cpu_alu_ce c \<and> \<not> cpu_new_pc c then execsim (m_time_ps tb) c (cpu_sim_immv c) else Inr []) of
           Inl (Exit r) \<Rightarrow> (Inl (Exit r), tb_close tb)
         | Inl e \<Rightarrow> (Inl e, tb)
         | Inr out \<Rightarrow>
             if m_cpu_bombed tb \<noteq> 0 then (Inr out, tb\<lparr>m_cpu_bombed := m_cpu_bombed tb + 1, m_done := m_done tb \<or> m_cpu_bombed tb > 12\<rparr>)
             else if cpu_break c then
               (Inr (out @ newline @ newline @ ''BOMB : CPU BREAK RECEIVED'' @ newline @ dump_text c), tb\<lparr>m_cpu_bombed := 1\<rparr>)
             else (Inr out, tb))"

definition tick_sdram :: "('m, 'w) board \<Rightarrow> ('m, 'w) maintb \<Rightarrow> fault + ('m, 'w) maintb" where
  "tick_sdram b tb =
     (if \<not> SDRAM_ACCESS (bd_design b) then Inr tb
      else map_sum id (\<lambda>(v, s). tb\<lparr>m_sdram := s, m_core := (m_core tb)\<lparr>i_ram_data := v\<rparr>\<rparr>) (bd_sdram b (m_core tb) (m_sdram tb)))"

definition tick_flash :: "sim_design \<Rightarrow> ('m, 'w) maintb \<Rightarrow> fault + ('m, 'w) maintb" where
  "tick_flash d tb =
     (let c = m_core tb
      in if \<not> FLASH_ACCESS d then Inr tb
         else map_sum id (\<lambda>(v, s). tb\<lparr>m_flash := s, m_core := c\<lparr>i_spi_miso := v AND 2 \<noteq> 0\<rparr>\<rparr>)
                (flash_simtick (o_spi_cs_n c) (o_spi_sck c) (o_spi_mosi c) 0 (m_flash tb)))"

definition tick_hb :: "'w net \<Rightarrow> ('m, 'w) maintb \<Rightarrow> fault + ('m, 'w) maintb" where
  "tick_hb net tb =
     map_sum id (\<lambda>(rx, s, w). tb\<lparr>m_hb := s, m_net := w, m_core := (m_core tb)\<lparr>i_uart_rx := rx\<rparr>\<rparr>)
       (uart_tick net (o_uart_tx (m_core tb)) (m_hb tb, m_net tb))"

definition sim_clk_tick :: "('m, 'w) board \<Rightarrow> (('m, 'w) maintb, string) run" where
  "sim_clk_tick b =
     seq (chip (tick_sdcard (bd_design b))) (\<lambda>_.
     seq (tick_cpu (bd_design b)) (\<lambda>out.
     seq (chip (tick_sdram b)) (\<lambda>_.
     seq (chip (tick_flash (bd_design b))) (\<lambda>_.
     seq (chip (tick_hb (bd_net b))) (\<lambda>_. ret out)))))"

text \<open>\<^verbatim>\<open>TESTB::done\<close> and \<^verbatim>\<open>tick\<close>: one period of the clock, its length in two halves.\<close>

definition tb_done :: "('m, 'w) board \<Rightarrow> ('m, 'w) maintb \<Rightarrow> bool \<times> ('m, 'w) maintb" where
  "tb_done b tb =
     (if m_done tb then (True, tb)
      else let tb = (if bd_finish b (m_core tb) then tb\<lparr>m_done := True\<rparr> else tb) in (m_done tb, tb))"

definition clock_to :: "('m, 'w) board \<Rightarrow> bool \<Rightarrow> ('m, 'w) maintb \<Rightarrow> ('m, 'w) maintb" where
  "clock_to b v tb =
     tb\<lparr>m_core := bd_eval b ((m_core tb)\<lparr>i_clk := v\<rparr>), m_time_ps := m_time_ps tb + 10000\<rparr>"

definition tb_tick :: "('m, 'w) board \<Rightarrow> (('m, 'w) maintb, string) run" where
  "tb_tick b tb =
     (case tb_done b tb of (d, tb) \<Rightarrow>
        if d then (Inr [], tb)
        else
          let tb = tb\<lparr>m_core := bd_eval b (m_core tb)\<rparr>
          in sim_clk_tick b (clock_to b False (clock_to b True tb)))"

definition set_core :: "('m vmain_scheme \<Rightarrow> 'm vmain_scheme) \<Rightarrow> (('m, 'w) maintb, unit) run" where
  "set_core f tb = (Inr (), tb\<lparr>m_core := f (m_core tb)\<rparr>)"

definition tb_reset :: "('m, 'w) board \<Rightarrow> (('m, 'w) maintb, string) run" where
  "tb_reset b =
     seq (set_core (\<lambda>c. c\<lparr>cpu_reset := True, i_reset := True\<rparr>)) (\<lambda>_.
     seq (tb_tick b) (\<lambda>out.
     seq (set_core (\<lambda>c. c\<lparr>i_reset := False, cpu_reset := False\<rparr>)) (\<lambda>_. ret out)))"

section \<open>The program\<close>

record tb_options =
  to_trace :: "string option"
  to_debug :: bool
  to_profile :: bool
  to_elf :: "string option"

text \<open>
  The letters behind a \<^verbatim>\<open>-\<close>, at most 511 of them; \<open>next\<close> is the argument that follows.  The first result says that it
  has been taken.
\<close>

fun tb_flags :: "string \<Rightarrow> string option \<Rightarrow> tb_options \<Rightarrow> stop + bool \<times> tb_options" where
  "tb_flags [] nxt z = Inr (False, z)"
| "tb_flags (c # cs) nxt z =
     (if c \<in> {CHR ''d'', CHR ''D''} then
        tb_flags cs nxt (z\<lparr>to_debug := True, to_trace := (if to_trace z = None then Some ''trace.vcd'' else to_trace z)\<rparr>)
      else if c \<in> {CHR ''f'', CHR ''F''} then tb_flags cs nxt (z\<lparr>to_profile := True\<rparr>)
      else if c \<in> {CHR ''t'', CHR ''T''} then Inr (True, z\<lparr>to_trace := nxt\<rparr>)
      else if c \<in> {CHR ''h'', CHR ''H''} then Inl (Exit EXIT_SUCCESS)
      else tb_flags cs nxt z)"

fun tb_args :: "files \<Rightarrow> string list \<Rightarrow> tb_options \<Rightarrow> stop + tb_options" where
  "tb_args fs [] z = Inr z"
| "tb_args fs (a # argv) z =
     (if char_at a 0 = CHR ''-'' then
        case tb_flags (drop 1 (take 512 a)) (case argv of [] \<Rightarrow> None | x # _ \<Rightarrow> Some x) z of
          Inl e \<Rightarrow> Inl e
        | Inr (taken, z) \<Rightarrow> tb_args fs (if taken then drop 1 argv else argv) z
      else if iself (fs_bytes fs a) then tb_args fs argv (z\<lparr>to_elf := Some a\<rparr>)
      else Inl (Exit EXIT_FAILURE))"

text \<open>The bench as it is constructed; \<open>raw\<close> are the chips and the design as their own constructors leave them.\<close>

definition maintb_init :: "('m, 'w) maintb \<Rightarrow> ('m, 'w) maintb" where
  "maintb_init raw =
     raw\<lparr>m_done := False, m_time_ps := 0, m_cpu_bombed := 0, m_hb := uart_setup 50 (m_hb raw)\<rparr>"

text \<open>The design is started at the entry of the program.\<close>

definition start_at :: "('m, 'w) board \<Rightarrow> u32 \<Rightarrow> (('m, 'w) maintb, string) run" where
  "start_at b entry =
     seq (set_core (\<lambda>c. c\<lparr>cpu_ipc := entry, cpu_cmd_halt := False, cpu_reset := False\<rparr>)) (\<lambda>_.
     seq (tb_tick b) (\<lambda>t1.
     seq (set_core (\<lambda>c. c\<lparr>cpu_ipc := entry, cpu_new_pc := True, cpu_pf_pc := entry, cpu_cmd_halt := True, cpu_reset := False,
                           cpu_alu_reg := 15, cpu_dbgv := True, cpu_dbg_val := entry, cpu_dbg_clear_pipe := True\<rparr>)) (\<lambda>_.
     seq (tb_tick b) (\<lambda>t2.
     seq (set_core (\<lambda>c. c\<lparr>cpu_cmd_halt := False, cpu_reset := False\<rparr>)) (\<lambda>_. ret (t1 @ t2))))))"

text \<open>
  The loops, \<open>willexit\<close> if a program has been loaded: the number of clocks is an argument.  With \<^verbatim>\<open>-f\<close> each
  instruction that has been retired is written out with the clocks since the one before.
\<close>

primrec sim_loop :: "('m, 'w) board \<Rightarrow> bool \<Rightarrow> nat \<Rightarrow> (('m, 'w) maintb, string) run" where
  "sim_loop b willexit 0 = throw (Thrown Out_of_Fuel)"
| "sim_loop b willexit (Suc n) = (\<lambda>tb.
     case (if willexit then tb_done b tb else (False, tb)) of (d, tb) \<Rightarrow>
       if d then (Inr [], tb)
       else seq (tb_tick b) (\<lambda>out. seq (sim_loop b willexit n) (\<lambda>rest. ret (out @ rest))) tb)"

definition retired :: "'m vmain_scheme \<Rightarrow> bool" where
  "retired c \<longleftrightarrow> (cpu_alu_pc_valid c \<or> cpu_mem_pc_valid c) \<and> \<not> cpu_alu_phase c \<and> \<not> cpu_new_pc c"

primrec profile_loop :: "('m, 'w) board \<Rightarrow> bool \<Rightarrow> u64 \<Rightarrow> u64 \<Rightarrow> nat \<Rightarrow> (('m, 'w) maintb, (u32 \<times> u32) list) run" where
  "profile_loop b willexit prev now 0 = throw (Thrown Out_of_Fuel)"
| "profile_loop b willexit prev now (Suc n) = (\<lambda>tb.
     case (if willexit then tb_done b tb else (False, tb)) of (d, tb) \<Rightarrow>
       if d then (Inr [], tb)
       else seq (tb_tick b) (\<lambda>_ tb.
              let now = now + 1; c = m_core tb
              in if retired c then
                   seq (profile_loop b willexit now now n) (\<lambda>rest. ret ((cpu_alu_pc c, ucast (now - prev)) # rest)) tb
                 else profile_loop b willexit prev now n tb) tb)"

text \<open>
  \<^verbatim>\<open>main\<close>: what it has printed by itself is left out, and \<open>pfile\<close> says whether the file of the profile can be opened.
  The result is the text of the simulation, or the profile.
\<close>

definition sim_main :: "('m, 'w) board \<Rightarrow> files \<Rightarrow> elfmem \<Rightarrow> bool \<Rightarrow> nat \<Rightarrow> string list \<Rightarrow> (('m, 'w) maintb, string + (u32 \<times> u32) list) run" where
  "sim_main b fs m0 pfile clocks argv raw =
     (let tb = maintb_init raw in
      case tb_args fs (drop 1 argv) \<lparr>to_trace = None, to_debug = False, to_profile = False, to_elf = None\<rparr> of
        Inl e \<Rightarrow> (Inl e, tb)
      | Inr z \<Rightarrow>
          if to_profile z \<and> (\<not> INCLUDE_ZIPCPU (bd_design b) \<or> \<not> pfile) then (Inl (Exit EXIT_FAILURE), tb)
          else
            seq (tb_reset b) (\<lambda>t0.
            seq (case to_elf z of
                   None \<Rightarrow> ret []
                 | Some f \<Rightarrow>
                     if \<not> INCLUDE_ZIPCPU (bd_design b) then throw (Exit EXIT_FAILURE)
                     else
                       seq (chip (loadelf (bd_design b) (fs_elf fs f) m0)) (\<lambda>_.
                       case elfread True (fs_elf fs f) m0 of
                         Inl e \<Rightarrow> throw (Faulty e)
                       | Inr (entry, _) \<Rightarrow> start_at b entry)) (\<lambda>t1.
            if to_profile z then seq (profile_loop b (to_elf z \<noteq> None) 0 0 clocks) (\<lambda>p. ret (Inr p))
            else seq (sim_loop b (to_elf z \<noteq> None) clocks) (\<lambda>t2. ret (Inl (t0 @ t1 @ t2))))) tb)"

end
