(* ===== verification/MainTbProps.thy ===== *)
theory MainTbProps
  imports MainTb
begin

text \<open>
  What the bench promises: the chips hold the program that has been loaded, the flash the same as the loader of the
  host would write, and the simulation ends when the CPU has stopped at a break.
\<close>

section \<open>The memory of the board\<close>

text \<open>What the chips hold at an address of the bus.\<close>

definition board_byte :: "('m, 'w) maintb \<Rightarrow> u32 \<Rightarrow> u8 option" where
  "board_byte tb a =
     (if bus_hit 0x180000 0x1000 a then
        (let o' = unat (a - 0x180000) in Some (ucast (drop_bit (24 - 8 * (o' mod 4)) (block_ram (m_core tb) ! (o' div 4)))))
      else if bus_hit 0x400000 0x200000 a then
        (let h = sdramsim.m_mem (m_sdram tb) (drop_bit 1 (a - 0x400000)) in Some (if bit a 0 then ucast h else ucast (drop_bit 8 h)))
      else if bus_hit 0x200000 0x80000 a then Some (flashsim.m_mem (m_flash tb) (a - 0x200000))
      else None)"

definition board_ok :: "('m, 'w) maintb \<Rightarrow> bool" where
  "board_ok tb \<longleftrightarrow> length (block_ram (m_core tb)) = 1024 \<and> m_membytes (m_flash tb) = 0x80000 \<and> m_memmask (m_flash tb) = 0x7ffff"

text \<open>A section that lies in a component of \<open>n\<close> bytes at \<open>base\<close>, and an address in a section.\<close>

definition lies_in :: "u32 \<Rightarrow> u32 \<Rightarrow> elfsection \<Rightarrow> bool" where
  "lies_in base n s \<longleftrightarrow> base \<le> m_start s \<and> unat (m_start s - base) + unat (m_len s) \<le> unat n \<and> m_len s \<noteq> 0"

definition has_byte :: "elfsection \<Rightarrow> u32 \<Rightarrow> bool" where
  "has_byte s a \<longleftrightarrow> m_start s \<le> a \<and> unat (a - m_start s) < unat (m_len s)"

lemma lies_in_frame:
  assumes "lies_in base n s" "unat base + unat n < 2 ^ 32"
  shows "bus_hit base n (m_start s)" "load_start base (m_start s) = m_start s - base" "load_offset base (m_start s) = 0"
    "load_wlen base n (m_start s) (m_len s) = m_len s" "\<not> m_start s + m_len s > base + n"
proof -
  define o' where "o' = unat (m_start s - base)"
  have o: "unat (m_start s) = unat base + o'" "o' + unat (m_len s) \<le> unat n" "0 < unat (m_len s)"
    using assms by (auto simp: lies_in_def o'_def unat_sub word_le_nat_alt unat_gt_0)
  have lim: "unat (base + n) = unat base + unat n" using assms(2) by (simp add: unat_add_u32)
  show "bus_hit base n (m_start s)"
    using o lim by (simp add: bus_hit_def word_le_nat_alt word_less_nat_alt)
  show st: "load_start base (m_start s) = m_start s - base"
    using assms(1) by (auto simp: load_start_def lies_in_def)
  then show off: "load_offset base (m_start s) = 0" by (simp add: load_offset_def)
  have "unat (n - (m_start s - base)) = unat n - o'"
    unfolding o'_def using o by (intro unat_sub) (simp add: word_le_nat_alt o'_def)
  then show "load_wlen base n (m_start s) (m_len s) = m_len s"
    using o by (auto simp: load_wlen_def st off word_less_nat_alt)
  have "unat (m_start s + m_len s) = unat base + o' + unat (m_len s)"
    using o assms(2) by (simp add: unat_add_u32)
  then show "\<not> m_start s + m_len s > base + n" using o lim by (simp add: word_less_nat_alt)
qed

lemma lies_in_bytes:
  assumes "lies_in base n s" "unat base + unat n < 2 ^ 32" "has_byte s a"
  shows "bus_hit base n a" "unat (a - base) = unat (m_start s - base) + unat (a - m_start s)"
proof -
  have s: "unat (m_start s) = unat base + unat (m_start s - base)"
    using assms(1) by (simp add: lies_in_def unat_sub word_le_nat_alt)
  have a: "unat a = unat (m_start s) + unat (a - m_start s)"
    using assms(3) by (simp add: has_byte_def unat_sub word_le_nat_alt)
  have "base \<le> a" using s a by (simp add: word_le_nat_alt)
  then show "unat (a - base) = unat (m_start s - base) + unat (a - m_start s)" using s a by (simp add: unat_sub)
  have "unat (base + n) = unat base + unat n" using assms(2) by (simp add: unat_add_u32)
  then show "bus_hit base n a"
    using s a assms(1,3) by (simp add: bus_hit_def lies_in_def has_byte_def word_le_nat_alt word_less_nat_alt)
qed

lemma has_byte_off:
  assumes "lies_in base n s" "unat base + unat n < 2 ^ 32" "bus_hit base n a"
  shows "has_byte s a \<longleftrightarrow> m_start s - base \<le> a - base \<and> unat (a - base - (m_start s - base)) < unat (m_len s)"
proof -
  have s: "unat (m_start s) = unat base + unat (m_start s - base)"
    using assms(1) by (simp add: lies_in_def unat_sub word_le_nat_alt)
  have a: "unat a = unat base + unat (a - base)" using assms(3) by (simp add: bus_hit_def unat_sub word_le_nat_alt)
  have "a - base - (m_start s - base) = a - m_start s" by simp
  then show ?thesis using s a by (simp add: has_byte_def word_le_nat_alt)
qed

section \<open>A section is loaded\<close>

text \<open>What the simulated components can take: half words of the SDRAM, the whole of the block RAM from its start.\<close>

definition fits_board :: "sim_design \<Rightarrow> elfsection \<Rightarrow> bool" where
  "fits_board d s \<longleftrightarrow>
     FLASH_ACCESS d \<and> lies_in 0x200000 0x80000 s
     \<or> SDRAM_ACCESS d \<and> lies_in 0x400000 0x200000 s \<and> even (unat (m_start s)) \<and> even (unat (m_len s))
     \<or> BKRAM_ACCESS d \<and> lies_in 0x180000 0x1000 s \<and> m_start s = 0x180000 \<and> 4 dvd unat (m_len s)"

definition with_section :: "elfsection \<Rightarrow> (u32 \<Rightarrow> u8 option) \<Rightarrow> u32 \<Rightarrow> u8 option" where
  "with_section s f a = (if has_byte s a then Some (m_data s (unat (a - m_start s))) else f a)"

lemma and_mask_small: "unat w < 2 ^ n \<Longrightarrow> w AND mask n = (w :: u32)"
  by (simp add: word_and_mask_eq_take_bit word_unat_eq_iff unat_take_bit_u32)

lemma loaded_at:
  assumes "lies_in base n s" "unat base + unat n < 2 ^ 32"
  shows "load_more (base + n) (m_start s) off buf (m_len s) wl = Loaded True"
  using lies_in_frame(5) [OF assms] by (simp add: load_more_def)

lemma hit_apart:
  "bus_hit 0x200000 0x80000 a \<Longrightarrow> \<not> bus_hit 0x180000 0x1000 a \<and> \<not> bus_hit 0x400000 0x200000 a"
  "bus_hit 0x400000 0x200000 a \<Longrightarrow> \<not> bus_hit 0x180000 0x1000 a \<and> \<not> bus_hit 0x200000 0x80000 a"
  "bus_hit 0x180000 0x1000 a \<Longrightarrow> \<not> bus_hit 0x400000 0x200000 a \<and> \<not> bus_hit 0x200000 0x80000 a"
  by (auto simp: bus_hit_def word_le_nat_alt word_less_nat_alt)

lemma load_flash_section:
  assumes "board_ok tb" "FLASH_ACCESS d" "lies_in 0x200000 0x80000 s"
  shows "\<exists>tb'. tb_load d (m_start s) (m_data s) (m_len s) tb = Inr (True, tb') \<and> board_ok tb'
    \<and> board_byte tb' = with_section s (board_byte tb)"
proof -
  let ?o = "m_start s - 0x200000 :: u32"
  have o: "unat ?o + unat (m_len s) \<le> 0x80000" "m_len s \<noteq> 0" using assms(3) by (simp_all add: lies_in_def)
  then have "unat ?o < 2 ^ 19" by (simp add: unat_gt_0 [symmetric] del: unat_gt_0)
  moreover have "(0x7ffff :: u32) = mask 19" by (simp add: mask_eq_exp_minus_1)
  ultimately have m: "?o AND 0x7ffff = ?o" by (simp only: and_mask_small)
  have n: "unat (0x200000 :: u32) + unat (0x80000 :: u32) < 2 ^ 32" by simp
  note fr = lies_in_frame [OF assms(3) n] and by' = lies_in_bytes [OF assms(3) n] and off = has_byte_off [OF assms(3) n]
  define fl where "fl = flashsim.m_mem_update (\<lambda>_ a. if ?o \<le> a \<and> unat (a - ?o) < unat (m_len s)
      then map (m_data s) [0..<unat (m_len s)] ! unat (a - ?o) else flashsim.m_mem (m_flash tb) a) (m_flash tb)"
  have "load_data ?o (map (m_data s) [0..<unat (m_len s)]) (m_flash tb) = Some fl"
    using assms(1) o(1) m by (auto simp: load_data_def fl_def Let_def board_ok_def)
  then have "load_step d (m_start s) (m_data s) (m_len s) tb = Inr (Loaded True, tb\<lparr>m_flash := fl\<rparr>)"
    using assms(2) fr(1-4) hit_apart(1) [OF fr(1)] loaded_at [OF assms(3) n] by (simp add: load_step_def load_flash_def)
  moreover have "board_ok (tb\<lparr>m_flash := fl\<rparr>)" using assms(1) by (simp add: board_ok_def fl_def)
  moreover have "board_byte (tb\<lparr>m_flash := fl\<rparr>) a = with_section s (board_byte tb) a" for a
  proof (cases "bus_hit 0x200000 0x80000 a")
    case True
    then show ?thesis
      using hit_apart(1) [OF True] off [OF True] by (auto simp: board_byte_def with_section_def fl_def)
  next
    case False
    then show ?thesis using by'(1) [of a] by (auto simp: board_byte_def with_section_def Let_def)
  qed
  ultimately show ?thesis by (subst tb_load.simps) (auto simp: fun_eq_iff)
qed

lemma even_unat: "even (unat w) \<longleftrightarrow> even (w :: u32)"
proof -
  have "bit (unat w) 0 = bit w 0" by (simp only: bit_unsigned_iff possible_bit_nat simp_thms)
  then show ?thesis by (simp add: bit_0)
qed

lemma even_and_1: "even (unat w) \<Longrightarrow> w AND 1 = (0 :: u32)"
  by (simp add: even_unat and_one_eq mod_2_eq_odd)

lemma half_bytes:
  "ucast (push_bit 8 (ucast (x :: u8)) OR ucast (y :: u8) :: u16) = y"
  "ucast (drop_bit 8 (push_bit 8 (ucast (x :: u8)) :: u16) OR drop_bit 8 (ucast (y :: u8) :: u16)) = x"
  by (rule bit_word_eqI; auto simp: bit_simps dest: bit_imp_le_length)+

lemma bit_0_odd: "bit w 0 \<longleftrightarrow> odd (unat (w :: u32))"
  by (simp add: bit_0 even_unat)

lemma unat_drop_bit_1: "unat (drop_bit 1 w :: u32) = unat w div 2"
proof -
  have "unat (drop_bit 1 w) = drop_bit 1 (unat w)"
    unfolding unsigned_drop_bit_eq using unat_bound_u32 [of w] by (simp add: take_bit_nat_eq_self)
  then show ?thesis by (simp only: drop_bit_eq_div power_one_right)
qed

lemma half_arith:
  fixes p q l :: nat
  assumes "even q" "even l"
  shows "q div 2 \<le> p div 2 \<and> 2 * (p div 2 - q div 2) + 1 < l \<longleftrightarrow> q \<le> p \<and> p - q < l"
    "q \<le> p \<Longrightarrow> 2 * (p div 2 - q div 2) = (if odd p then p - q - 1 else p - q)"
proof -
  obtain q2 l2 where e: "q = 2 * q2" "l = 2 * l2" using assms by (elim evenE)
  obtain r where "p = 2 * r \<or> p = 2 * r + 1" by (metis oddE evenE)
  then show "q div 2 \<le> p div 2 \<and> 2 * (p div 2 - q div 2) + 1 < l \<longleftrightarrow> q \<le> p \<and> p - q < l"
    "q \<le> p \<Longrightarrow> 2 * (p div 2 - q div 2) = (if odd p then p - q - 1 else p - q)"
    unfolding e by (auto; presburger)+
qed

text \<open>The bytes of the SDRAM after a load, which stores big-endian half words.\<close>

lemma sdram_load_byte:
  assumes "even (unat b)" "even (length data)" "unat b + length data \<le> 0x200000"
  shows "\<exists>f. sdram_load b data sd = Inr (sdramsim.m_mem_update (\<lambda>_. f) sd)
    \<and> (\<forall>w. (if odd (unat w) then ucast (f (drop_bit 1 w)) else ucast (drop_bit 8 (f (drop_bit 1 w))))
       = (if unat b \<le> unat w \<and> unat w - unat b < length data then data ! (unat w - unat b)
          else if odd (unat w) then ucast (sdramsim.m_mem sd (drop_bit 1 w)) else ucast (drop_bit 8 (sdramsim.m_mem sd (drop_bit 1 w)))))"
proof (intro exI conjI allI)
  let ?f = "\<lambda>i. let k = unat i - unat (drop_bit 1 b) in
      if drop_bit 1 b \<le> i \<and> 2 * k + 1 < length data
      then push_bit 8 (ucast (data ! (2 * k))) OR ucast (data ! (2 * k + 1)) else sdramsim.m_mem sd i"
  have "unat b < 2 ^ 24" using assms(3) by simp
  moreover have "(0xffffff :: u32) = mask 24" by (simp add: mask_eq_exp_minus_1)
  ultimately have "b AND 0xffffff = b" by (simp only: and_mask_small)
  then show "sdram_load b data sd = Inr (sdramsim.m_mem_update (\<lambda>_. ?f) sd)"
    using assms even_and_1 [OF assms(1)] by (auto simp: sdram_load_def Let_def SDRAMSZB_def fun_eq_iff)
  fix w :: u32
  let ?p = "unat w" and ?q = "unat b"
  let ?k = "?p div 2 - ?q div 2"
  note half = half_arith [OF assms(1,2), of ?p]
  have f: "?f (drop_bit 1 w) = (if ?q \<le> ?p \<and> ?p - ?q < length data
      then push_bit 8 (ucast (data ! (2 * ?k))) OR ucast (data ! (2 * ?k + 1)) else sdramsim.m_mem sd (drop_bit 1 w))"
    using half(1) unfolding Let_def word_le_nat_alt unat_drop_bit_1 by (simp only:)
  have "Suc (?p - Suc ?q) = ?p - ?q" if "odd ?p" "?q \<le> ?p"
    using that assms(1) by (cases "?p = ?q") auto
  then show "(if odd ?p then ucast (?f (drop_bit 1 w)) else ucast (drop_bit 8 (?f (drop_bit 1 w))))
       = (if ?q \<le> ?p \<and> ?p - ?q < length data then data ! (?p - ?q)
          else if odd ?p then ucast (sdramsim.m_mem sd (drop_bit 1 w)) else ucast (drop_bit 8 (sdramsim.m_mem sd (drop_bit 1 w))))"
    unfolding f using half(2) by (auto simp: half_bytes)
qed

lemma load_sdram_section:
  assumes "board_ok tb" "SDRAM_ACCESS d" "lies_in 0x400000 0x200000 s" "even (unat (m_start s))" "even (unat (m_len s))"
  shows "\<exists>tb'. tb_load d (m_start s) (m_data s) (m_len s) tb = Inr (True, tb') \<and> board_ok tb'
    \<and> board_byte tb' = with_section s (board_byte tb)"
proof -
  let ?o = "m_start s - 0x400000 :: u32" and ?l = "unat (m_len s)"
  have n: "unat (0x400000 :: u32) + unat (0x200000 :: u32) < 2 ^ 32" by simp
  note fr = lies_in_frame [OF assms(3) n] and by' = lies_in_bytes [OF assms(3) n] and off = has_byte_off [OF assms(3) n]
  have "unat ?o = unat (m_start s) - 0x400000" using assms(3) by (simp add: lies_in_def unat_sub word_le_nat_alt)
  then have "even (unat ?o)" using assms(4) by simp
  moreover have "unat ?o + ?l \<le> 0x200000" using assms(3) by (simp add: lies_in_def)
  ultimately obtain f where f: "sdram_load ?o (map (m_data s) [0..<?l]) (m_sdram tb) = Inr (sdramsim.m_mem_update (\<lambda>_. f) (m_sdram tb))"
    and mem: "(if odd (unat w) then ucast (f (drop_bit 1 w)) else ucast (drop_bit 8 (f (drop_bit 1 w))))
       = (if unat ?o \<le> unat w \<and> unat w - unat ?o < ?l then m_data s (unat w - unat ?o)
          else if odd (unat w) then ucast (sdramsim.m_mem (m_sdram tb) (drop_bit 1 w))
          else ucast (drop_bit 8 (sdramsim.m_mem (m_sdram tb) (drop_bit 1 w))))" for w
    using sdram_load_byte [of ?o "map (m_data s) [0..<?l]" "m_sdram tb"] assms(5) by auto
  let ?tb = "tb\<lparr>m_sdram := sdramsim.m_mem_update (\<lambda>_. f) (m_sdram tb)\<rparr>"
  have "load_step d (m_start s) (m_data s) (m_len s) tb = Inr (Loaded True, ?tb)"
    using assms(2) fr(1-4) hit_apart(2) [OF fr(1)] loaded_at [OF assms(3) n] f by (simp add: load_step_def load_sdram_def)
  moreover have "board_ok ?tb" using assms(1) by (simp add: board_ok_def)
  moreover have "board_byte ?tb a = with_section s (board_byte tb) a" for a
  proof (cases "bus_hit 0x400000 0x200000 a")
    case True
    have e: "a - m_start s = a - 0x400000 - ?o" by simp
    have sub: "unat (a - m_start s) = unat (a - 0x400000) - unat ?o" if "unat ?o \<le> unat (a - 0x400000)"
      using that unfolding e by (intro unat_sub) (simp add: word_le_nat_alt)
    have odd_a: "bit a 0 \<longleftrightarrow> odd (unat (a - 0x400000))"
      using True by (simp add: bit_0_odd bus_hit_def unat_sub word_le_nat_alt)
    have here: "has_byte s a \<longleftrightarrow> unat ?o \<le> unat (a - 0x400000) \<and> unat (a - 0x400000) - unat ?o < ?l"
      using off [OF True] sub unfolding e [symmetric] word_le_nat_alt by auto
    show ?thesis
      using hit_apart(2) [OF True] True mem [of "a - 0x400000"] here sub
      by (auto simp: board_byte_def with_section_def odd_a Let_def)
  next
    case False
    then show ?thesis using by'(1) [of a] by (auto simp: board_byte_def with_section_def Let_def)
  qed
  ultimately show ?thesis by (subst tb_load.simps) (auto simp: fun_eq_iff)
qed

lemma word_bytes:
  "j < 4 \<Longrightarrow> ucast (drop_bit (24 - 8 * j) (buf_word True b)) = b j"
proof -
  assume "j < 4"
  then have "j = 0 \<or> j = 1 \<or> j = 2 \<or> j = 3" by arith
  then show ?thesis
    by (elim disjE; hypsubst; intro bit_word_eqI; auto simp: buf_word_def le_word_def bit_simps dest: bit_imp_le_length)
qed

lemma aligned_word: "4 dvd unat w \<Longrightarrow> (w + 3) AND (- 4) = (w :: u32)"
proof -
  assume "4 dvd unat w"
  then obtain k where k: "unat w = 4 * k" by blast
  then have lt: "4 * k < 2 ^ 32" using unat_bound_u32 [of w] by simp
  have "unat (w + 3) = 4 * k + 3" using k lt by (simp add: unat_add_u32)
  then have "unat ((w + 3) AND NOT (mask 2)) = 4 * k"
    unfolding unat_and_not_mask_u32 by simp
  moreover have "NOT (mask 2) = (- 4 :: u32)" by (simp add: mask_eq_exp_minus_1)
  ultimately show ?thesis using k by (simp add: word_unat_eq_iff)
qed

lemma load_bkram_section:
  assumes "board_ok tb" "BKRAM_ACCESS d" "lies_in 0x180000 0x1000 s" "m_start s = 0x180000" "4 dvd unat (m_len s)"
  shows "\<exists>tb'. tb_load d (m_start s) (m_data s) (m_len s) tb = Inr (True, tb') \<and> board_ok tb'
    \<and> board_byte tb' = with_section s (board_byte tb)"
proof -
  let ?l = "unat (m_len s)"
  have n: "unat (0x180000 :: u32) + unat (0x1000 :: u32) < 2 ^ 32" by simp
  note fr = lies_in_frame [OF assms(3) n] and by' = lies_in_bytes [OF assms(3) n]
  have l: "?l \<le> 0x1000" using assms(3,4) by (simp add: lies_in_def)
  obtain k where k: "?l = 4 * k" using assms(5) by blast
  have len: "unat (drop_bit 2 (m_len s)) = k"
  proof -
    have "unat (drop_bit 2 (m_len s)) = drop_bit 2 ?l"
      unfolding unsigned_drop_bit_eq using unat_bound_u32 [of "m_len s"] by (simp add: take_bit_nat_eq_self)
    then show ?thesis using k by (simp only: drop_bit_eq_div) simp
  qed
  define ram where "ram = map (\<lambda>i. buf_word True (\<lambda>j. m_data s (4 * i + j))) [0..<k] @ drop k (block_ram (m_core tb))"
  let ?tb = "tb\<lparr>m_core := (m_core tb)\<lparr>block_ram := ram\<rparr>\<rparr>"
  have "map (\<lambda>i. buf_word (i < k) (\<lambda>j. m_data s (4 * i + j))) [0..<k] = map (\<lambda>i. buf_word True (\<lambda>j. m_data s (4 * i + j))) [0..<k]"
    by simp
  then have "load_bkram 0 (m_len s) (m_data s) (m_len s) tb = Inr ?tb"
    using assms(1) k l len by (simp add: load_bkram_def board_ok_def ram_def Let_def)
  then have "load_step d (m_start s) (m_data s) (m_len s) tb = Inr (Loaded True, ?tb)"
    using assms(2,4) fr(1-4) loaded_at [OF assms(3) n] aligned_word [OF assms(5)] by (simp add: load_step_def)
  moreover have "board_ok ?tb" using assms(1) k l by (simp add: board_ok_def ram_def)
  moreover have "board_byte ?tb a = with_section s (board_byte tb) a" for a
  proof (cases "bus_hit 0x180000 0x1000 a")
    case True
    define p where "p = unat (a - 0x180000)"
    have pos: "p = 4 * (p div 4) + p mod 4" "p div 4 < k \<longleftrightarrow> p < ?l" using k by auto
    have here: "has_byte s a \<longleftrightarrow> p < ?l" "unat (a - m_start s) = p"
      using True assms(4) by (simp_all add: has_byte_def bus_hit_def p_def)
    have p: "p < 4096" using True by (simp add: p_def bus_hit_def unat_sub word_le_nat_alt word_less_nat_alt) arith
    have "ram ! (p div 4) = (if p < ?l then buf_word True (\<lambda>j. m_data s (4 * (p div 4) + j)) else block_ram (m_core tb) ! (p div 4))"
      using pos assms(1) k l p by (auto simp: ram_def nth_append board_ok_def)
    then show ?thesis
      using here True word_bytes [of "p mod 4"] pos(1)
      by (auto simp: board_byte_def with_section_def Let_def p_def [symmetric])
  next
    case False
    then show ?thesis using by'(1) [of a] by (auto simp: board_byte_def with_section_def Let_def)
  qed
  ultimately show ?thesis by (subst tb_load.simps) (auto simp: fun_eq_iff)
qed

section \<open>A program is loaded\<close>

lemma load_section:
  assumes "board_ok tb" "fits_board d s"
  shows "\<exists>tb'. tb_load d (m_start s) (m_data s) (m_len s) tb = Inr (True, tb') \<and> board_ok tb'
    \<and> board_byte tb' = with_section s (board_byte tb)"
  using assms(2) load_flash_section [OF assms(1), of d s] load_sdram_section [OF assms(1), of d s] load_bkram_section [OF assms(1), of d s]
  unfolding fits_board_def by blast

lemma load_elf_sections_board:
  "board_ok tb \<Longrightarrow> \<forall>s\<in>set ss. fits_board d s \<Longrightarrow>
   \<exists>tb'. load_elf_sections d ss tb = Inr tb' \<and> board_ok tb' \<and> board_byte tb' = fold with_section ss (board_byte tb)"
proof (induction ss arbitrary: tb)
  case (Cons s ss)
  then obtain tb1 where 1: "tb_load d (m_start s) (m_data s) (m_len s) tb = Inr (True, tb1)" "board_ok tb1"
    "board_byte tb1 = with_section s (board_byte tb)"
    using load_section [of tb d s] by auto
  then show ?case using Cons.IH [OF 1(2)] Cons.prems(2) by simp
qed simp

text \<open>The byte that the program has at an address: that of the last section that has it.\<close>

definition program_byte :: "elfsection list \<Rightarrow> u32 \<Rightarrow> u8 option" where
  "program_byte ss a = map_option (\<lambda>s. m_data s (unat (a - m_start s))) (find (\<lambda>s. has_byte s a) (rev ss))"

lemma fold_with_section:
  "fold with_section ss f a = (case program_byte ss a of None \<Rightarrow> f a | Some b \<Rightarrow> Some b)"
proof (induction ss rule: rev_induct)
  case (snoc s ss)
  then show ?case by (simp add: with_section_def program_byte_def)
qed (simp add: program_byte_def)

text \<open>
  C26: a program that has been loaded stands on the simulated board.  If every section of the file lies in the flash, in
  half words of the SDRAM, or in words from the start of the block RAM, then \<^verbatim>\<open>loadelf\<close> succeeds and the chips
  hold, at every address of the bus, the byte that the program has there, and where it has none what they held before.
\<close>
theorem loadelf_fills_board:
  assumes "elfread True f m0 = Inr (entry, m)" "\<forall>s\<in>set (sections m). fits_board d s" "board_ok tb"
  shows "\<exists>tb'. loadelf d f m0 tb = Inr tb' \<and> (\<forall>a. board_byte tb' a =
    (case program_byte (sections m) a of None \<Rightarrow> board_byte tb a | Some b \<Rightarrow> Some b))"
  using load_elf_sections_board [OF assms(3,2)] assms(1) by (auto simp: loadelf_def fold_with_section)

lemma not_in_program: "\<forall>s\<in>set ss. \<not> has_byte s a \<Longrightarrow> program_byte ss a = None"
  by (simp add: program_byte_def find_None_iff)

definition demo_design :: sim_design where
  "demo_design = \<lparr>BKRAM_ACCESS = True, FLASH_ACCESS = True, SDSPI_ACCESS = True, SDRAM_ACCESS = False, INCLUDE_ZIPCPU = True\<rparr>"

definition demo_tb :: "(unit, unit) maintb" where
  "demo_tb = undefined\<lparr>m_core := undefined\<lparr>block_ram := replicate 1024 0\<rparr>, m_flash := flashsim_init 19 (\<lambda>_. 0) 0 0 None, m_cpu_bombed := 0\<rparr>"

lemma demo_tb_ok: "board_ok demo_tb"
  by (simp add: board_ok_def demo_tb_def flashsim_init_def)

theorem loadelf_fills_board_witness:
  "\<exists>tb'. loadelf demo_design demo_elf demo_mem demo_tb = Inr tb' \<and> board_byte tb' 0x200004 = Some 0xff"
proof -
  obtain m where m: "elfread True demo_elf demo_mem = Inr (0x00200000, m)" using demo_elf_reads by blast
  have "map (\<lambda>s. (m_start s, m_len s)) (sections m) = [hdr_of (demo_phdr 0 4)]"
    using sim_elf_loses_last [OF m, of "[demo_phdr 0 4]" "demo_phdr 4 0" "[demo_phdr 8 4]"] demo_phdrs
    by (auto simp: hdr_of_def demo_phdr_def)
  then have s: "m_start s = 0x200000 \<and> m_len s = 4" if "s \<in> set (sections m)" for s
    using that by (auto simp: map_eq_Cons_conv hdr_of_def demo_phdr_def)
  have "\<forall>s\<in>set (sections m). fits_board demo_design s"
    using s by (auto simp: fits_board_def lies_in_def demo_design_def)
  moreover have "program_byte (sections m) 0x200004 = None"
    using s by (intro not_in_program) (auto simp: has_byte_def)
  moreover have "board_byte demo_tb 0x200004 = Some 0xff"
    by (simp add: board_byte_def bus_hit_def demo_tb_def flashsim_init_def)
  ultimately show ?thesis using loadelf_fills_board [OF m _ demo_tb_ok, of demo_design] by auto
qed

text \<open>The same program on the host: the simulated flash holds what \<open>ZipLoad\<close> would write to the real one.\<close>

lemma simulated_flash_byte:
  assumes "\<forall>s\<in>set ss. lies_in 0x200000 0x80000 s" "i < 0x80000"
  shows "ZipLoad.flash_byte ss i = (case program_byte ss (0x200000 + of_nat i) of None \<Rightarrow> 0xff | Some b \<Rightarrow> b)"
proof -
  let ?a = "0x200000 + of_nat i :: u32"
  have ui: "unat (of_nat i :: u32) = i" using assms(2) by (simp add: unat_of_nat_u32)
  have ua: "unat ?a = 0x200000 + i" using assms(2) ui by (simp add: unat_add_u32)
  have hit: "bus_hit 0x200000 0x80000 ?a" using ua assms(2) by (simp add: bus_hit_def word_le_nat_alt word_less_nat_alt)
  have n: "unat (0x200000 :: u32) + unat (0x80000 :: u32) < 2 ^ 32" by simp
  have in_s: "has_byte s ?a \<longleftrightarrow> flash_off s \<le> i \<and> i < flash_off s + unat (m_len s)"
    and at: "has_byte s ?a \<Longrightarrow> unat (?a - m_start s) = i - flash_off s" if "s \<in> set ss" for s
  proof -
    have l: "lies_in 0x200000 0x80000 s" using assms(1) that by blast
    have f: "flash_off s = unat (m_start s - 0x200000)" by (simp add: flash_off_def FLASHBASE_def)
    have m: "m_start s - 0x200000 \<le> of_nat i \<longleftrightarrow> flash_off s \<le> i" unfolding word_le_nat_alt f ui ..
    have d: "unat (of_nat i - (m_start s - 0x200000)) = i - flash_off s" if "flash_off s \<le> i"
      using that ui unfolding f by (subst unat_sub) (simp_all add: word_le_nat_alt)
    have e: "?a - 0x200000 = of_nat i" "?a - m_start s = of_nat i - (m_start s - 0x200000)" by simp_all
    show h: "has_byte s ?a \<longleftrightarrow> flash_off s \<le> i \<and> i < flash_off s + unat (m_len s)"
      using has_byte_off [OF l n hit] d unfolding e(1) m by auto
    show "has_byte s ?a \<Longrightarrow> unat (?a - m_start s) = i - flash_off s"
      using d h unfolding e(2) by blast
  qed
  have "find (\<lambda>s. has_byte s ?a) (rev ss) = find (\<lambda>s. flash_off s \<le> i \<and> i < flash_off s + unat (m_len s)) (rev ss)"
    using in_s by (intro find_cong) auto
  moreover have "s \<in> set ss \<and> has_byte s ?a" if "find (\<lambda>s. has_byte s ?a) (rev ss) = Some s" for s
    using that by (auto simp: find_Some_iff) (metis length_rev nth_mem set_rev)
  ultimately show ?thesis
    using at by (auto simp: program_byte_def ZipLoad.flash_byte_def split: option.split)
qed

lemma lies_in_to_flash: "FLASH_ACCESS d \<Longrightarrow> lies_in 0x200000 0x80000 s \<Longrightarrow> to_flash d s"
  using lies_in_frame(5) [of "0x200000" "0x80000" s]
  by (auto simp: to_flash_def in_flash_def in_bkram_def lies_in_def BKRAMBASE_def BKRAMLEN_def FLASHBASE_def FLASHLEN_def
      not_less word_le_nat_alt unat_add_u32 unat_sub)

lemma load_sections_flash:
  assumes "FLASH_ACCESS d" "\<forall>s\<in>set ss. lies_in 0x200000 0x80000 s"
  shows "\<exists>im'. load_sections d bus ss im b = (Inr im', b)"
  using assms(2)
proof (induction ss arbitrary: im)
  case (Cons s ss)
  then have s: "lies_in 0x200000 0x80000 s" by simp
  have "load_section d bus s im b = (Inr (flash_section s im), b)"
    using lies_in_to_flash [OF assms(1) s] s
    by (auto simp: load_section_def to_flash_def lies_in_def FLASHBASE_def FLASHLEN_def)
  then show ?case using Cons by (simp add: seq_def)
qed simp

text \<open>
  C27: the simulation and the loader give the flash the same program.  For sections that lie in the flash, the flash
  of an erased board after the bench has loaded them is, byte for byte, the buffer that the loader of the
  host fills for the real one.
\<close>
theorem simulation_agrees_with_loader:
  assumes "\<forall>s\<in>set ss. lies_in 0x200000 0x80000 s" "FLASH_ACCESS d" "FLASH_ACCESS dh"
    "board_ok tb" "\<forall>a. flashsim.m_mem (m_flash tb) a = 0xff"
  shows "\<exists>im tb'. load_sections dh bus ss new_image b = (Inr im, b) \<and> load_elf_sections d ss tb = Inr tb'
    \<and> (\<forall>i<0x80000. flashsim.m_mem (m_flash tb') (of_nat i) = fbuf im i)"
proof -
  obtain im where im: "load_sections dh bus ss new_image b = (Inr im, b)"
    using load_sections_flash [OF assms(3,1), of bus new_image b] by blast
  have f: "fbuf im = ZipLoad.flash_byte ss"
    using load_sections_image [OF _ im, of "[]"] lies_in_to_flash [OF assms(3)] assms(1)
    by (simp add: image_of_def new_image_def ZipLoad.flash_byte_def RESET_ADDRESS_def FLASHBASE_def fun_eq_iff filter_id_conv)
  have fits: "\<forall>s\<in>set ss. fits_board d s" using assms(1,2) by (auto simp: fits_board_def)
  obtain tb' where tb': "load_elf_sections d ss tb = Inr tb'" "board_byte tb' = fold with_section ss (board_byte tb)"
    using load_elf_sections_board [OF assms(4) fits] by blast
  have "flashsim.m_mem (m_flash tb') (of_nat i) = fbuf im i" if i: "i < 0x80000" for i
  proof -
    let ?a = "0x200000 + of_nat i :: u32"
    have "unat ?a = 0x200000 + i" using i by (simp add: unat_add_u32 unat_of_nat_u32)
    then have hit: "bus_hit 0x200000 0x80000 ?a" using i by (simp add: bus_hit_def word_le_nat_alt word_less_nat_alt)
    have b: "board_byte t ?a = Some (flashsim.m_mem (m_flash t) (of_nat i))" for t :: "('a, 'b) maintb"
      using hit hit_apart(1) [OF hit] by (simp add: board_byte_def)
    show ?thesis
      using fun_cong [OF tb'(2), of ?a] simulated_flash_byte [OF assms(1) i] assms(5)
      by (simp add: fold_with_section b f split: option.splits)
  qed
  then show ?thesis using im tb'(1) by blast
qed

theorem simulation_agrees_with_loader_witness:
  "\<exists>im tb'. load_sections \<lparr>BKRAM_ACCESS = True, FLASH_ACCESS = True\<rparr> (undefined :: unit devbus) [demo_section 0x200100 7, demo_section 0x200102 9] new_image ()
      = (Inr im, ())
    \<and> load_elf_sections demo_design [demo_section 0x200100 7, demo_section 0x200102 9] demo_tb = Inr tb'
    \<and> (\<forall>i<0x80000. flashsim.m_mem (m_flash tb') (of_nat i) = fbuf im i)"
  by (rule simulation_agrees_with_loader)
    (simp_all add: lies_in_def demo_section_def demo_design_def demo_tb_ok, simp add: demo_tb_def flashsim_init_def)

section \<open>The end of a simulation\<close>

text \<open>The chips leave the bench's own state alone and stop it only with faults.\<close>

definition same_bench :: "('m, 'w) maintb \<Rightarrow> ('m, 'w) maintb \<Rightarrow> bool" where
  "same_bench tb tb' \<longleftrightarrow> m_cpu_bombed tb' = m_cpu_bombed tb \<and> m_done tb' = m_done tb \<and> cpu_break (m_core tb') = cpu_break (m_core tb)"

lemma chip_same:
  assumes "\<And>tb tb'. f tb = Inr tb' \<Longrightarrow> same_bench tb tb'" "chip f tb = (r, tb')"
  shows "same_bench tb tb' \<and> (\<forall>x. r \<noteq> Inl (Thrown x))"
  using assms by (auto simp: chip_def same_bench_def split: sum.splits)

lemma chips_same:
  "tick_sdcard d tb = Inr tb' \<Longrightarrow> same_bench tb tb'" "tick_sdram b tb = Inr tb' \<Longrightarrow> same_bench tb tb'"
  "tick_flash d tb = Inr tb' \<Longrightarrow> same_bench tb tb'" "tick_hb net tb = Inr tb' \<Longrightarrow> same_bench tb tb'"
  by (auto simp: tick_sdcard_def tick_sdram_def tick_flash_def tick_hb_def same_bench_def Let_def map_sum_id_Inr split: if_splits)

lemma execsim_no_throw: "execsim now c imm \<noteq> Inl (Thrown x)"
  by (simp add: execsim_def Let_def)

lemma tick_cpu_bombed:
  assumes "tick_cpu d tb = (r, tb')" "INCLUDE_ZIPCPU d"
  shows "(\<forall>x. r \<noteq> Inl (Thrown x)) \<and> (\<forall>out. r = Inr out \<longrightarrow>
    (if m_cpu_bombed tb \<noteq> 0 then m_cpu_bombed tb' = m_cpu_bombed tb + 1 \<and> (m_done tb' \<longleftrightarrow> m_done tb \<or> m_cpu_bombed tb > 12)
     else m_done tb' = m_done tb \<and> m_cpu_bombed tb' = (if cpu_break (m_core tb) then 1 else 0)))"
  using assms execsim_no_throw by (auto simp: tick_cpu_def Let_def split: sum.splits if_splits stop.splits)

definition bombed_on :: "('m, 'w) maintb \<Rightarrow> ('m, 'w) maintb \<Rightarrow> bool" where
  "bombed_on tb tb' \<longleftrightarrow>
     (if m_cpu_bombed tb \<noteq> 0 then m_cpu_bombed tb' = m_cpu_bombed tb + 1 \<and> (m_done tb' \<longleftrightarrow> m_done tb \<or> m_cpu_bombed tb > 12)
      else m_done tb' = m_done tb \<and> m_cpu_bombed tb' = (if cpu_break (m_core tb) then 1 else 0))"

lemma seq_chip:
  "seq (chip f) (\<lambda>_. g) tb = (r, tb') \<Longrightarrow> (\<exists>e. r = Inl (Faulty e)) \<or> (\<exists>t. f tb = Inr t \<and> g t = (r, tb'))"
  by (auto simp: seq_def chip_def split: sum.splits)

lemma later_chips_same:
  assumes "seq (chip (tick_sdram b)) (\<lambda>_. seq (chip (tick_flash d)) (\<lambda>_. seq (chip (tick_hb net)) (\<lambda>_. ret out))) tb = (r, tb')"
  shows "(\<exists>e. r = Inl (Faulty e)) \<or> r = Inr out \<and> same_bench tb tb'"
  using assms chips_same(2-4) by (fastforce dest!: seq_chip simp: same_bench_def)

lemma sim_clk_tick_bombed:
  assumes "sim_clk_tick b tb = (r, tb')" "INCLUDE_ZIPCPU (bd_design b)"
  shows "(\<forall>x. r \<noteq> Inl (Thrown x)) \<and> (\<forall>out. r = Inr out \<longrightarrow> bombed_on tb tb')"
proof (cases "\<exists>e. r = Inl (Faulty e)")
  case False
  obtain t1 where t1: "tick_sdcard (bd_design b) tb = Inr t1"
    "seq (tick_cpu (bd_design b)) (\<lambda>out. seq (chip (tick_sdram b)) (\<lambda>_. seq (chip (tick_flash (bd_design b)))
       (\<lambda>_. seq (chip (tick_hb (bd_net b))) (\<lambda>_. ret out)))) t1 = (r, tb')"
    using seq_chip [OF assms(1) [unfolded sim_clk_tick_def]] False by blast
  obtain r2 t2 where 2: "tick_cpu (bd_design b) t1 = (r2, t2)" by force
  note k = tick_cpu_bombed [OF 2 assms(2)] chips_same(1) [OF t1(1)]
  show ?thesis
  proof (cases r2)
    case (Inl e)
    then have "r = Inl e" using t1(2) 2 by (simp add: seq_def)
    then show ?thesis using k(1) Inl by simp
  next
    case (Inr out)
    then have "seq (chip (tick_sdram b)) (\<lambda>_. seq (chip (tick_flash (bd_design b)))
       (\<lambda>_. seq (chip (tick_hb (bd_net b))) (\<lambda>_. ret out))) t2 = (r, tb')"
      using t1(2) 2 by (simp add: seq_def [of "tick_cpu _"])
    from later_chips_same [OF this] False have r: "r = Inr out" "same_bench t2 tb'" by auto
    show ?thesis using k Inr r(2) unfolding r(1) by (simp add: bombed_on_def same_bench_def)
  qed
qed auto

definition next_core :: "('m, 'w) board \<Rightarrow> 'm vmain_scheme \<Rightarrow> 'm vmain_scheme" where
  "next_core b c = bd_eval b ((bd_eval b ((bd_eval b c)\<lparr>i_clk := True\<rparr>))\<lparr>i_clk := False\<rparr>)"

lemma tb_tick_bombed:
  assumes "tb_tick b tb = (r, tb')" "INCLUDE_ZIPCPU (bd_design b)"
  shows "(\<forall>x. r \<noteq> Inl (Thrown x)) \<and> (\<forall>out. r = Inr out \<longrightarrow>
    m_done tb' \<or> bombed_on (tb\<lparr>m_done := False, m_core := next_core b (m_core tb)\<rparr>) tb')"
proof (cases "m_done tb \<or> bd_finish b (m_core tb)")
  case True
  then show ?thesis using assms(1) by (auto simp: tb_tick_def tb_done_def Let_def split: if_splits)
next
  case False
  let ?t = "clock_to b False (clock_to b True (tb\<lparr>m_core := bd_eval b (m_core tb)\<rparr>))"
  have t: "sim_clk_tick b ?t = (r, tb')" using assms(1) False by (simp add: tb_tick_def tb_done_def Let_def)
  have "m_cpu_bombed ?t = m_cpu_bombed tb" "\<not> m_done ?t" "m_core ?t = next_core b (m_core tb)"
    using False by (simp_all add: clock_to_def next_core_def)
  then show ?thesis using sim_clk_tick_bombed [OF t assms(2)] by (auto simp: bombed_on_def)
qed

lemma sim_loop_done: "m_done tb \<Longrightarrow> 0 < n \<Longrightarrow> fst (sim_loop b True n tb) \<noteq> Inl (Thrown Out_of_Fuel)"
  by (cases n) (simp_all add: tb_done_def)

lemma sim_loop_step:
  assumes "INCLUDE_ZIPCPU (bd_design b)"
    "\<And>tb'. m_done tb' \<or> bombed_on (tb\<lparr>m_done := False, m_core := next_core b (m_core tb)\<rparr>) tb'
       \<Longrightarrow> fst (sim_loop b True n tb') \<noteq> Inl (Thrown Out_of_Fuel)"
  shows "fst (sim_loop b True (Suc n) tb) \<noteq> Inl (Thrown Out_of_Fuel)"
proof (cases "fst (tb_done b tb)")
  case True
  then show ?thesis by (auto split: prod.split)
next
  case False
  then have d: "tb_done b tb = (False, tb)" by (auto simp: tb_done_def Let_def split: if_splits)
  obtain r tb' where t: "tb_tick b tb = (r, tb')" by force
  obtain r2 t2 where l: "sim_loop b True n tb' = (r2, t2)" by force
  show ?thesis
    using tb_tick_bombed [OF t assms(1)] assms(2) [of tb'] d t l
    by (cases r; cases r2) (auto simp: seq_def)
qed

lemma bombed_sim_ends:
  assumes "INCLUDE_ZIPCPU (bd_design b)"
  shows "0 < m_cpu_bombed tb \<Longrightarrow> 15 \<le> int n + m_cpu_bombed tb \<Longrightarrow> 2 \<le> n \<Longrightarrow> fst (sim_loop b True n tb) \<noteq> Inl (Thrown Out_of_Fuel)"
proof (induction n arbitrary: tb)
  case (Suc n)
  show ?case
  proof (rule sim_loop_step [OF assms])
    fix tb' assume "m_done tb' \<or> bombed_on (tb\<lparr>m_done := False, m_core := next_core b (m_core tb)\<rparr>) tb'"
    then have "m_done tb' \<or> m_cpu_bombed tb \<le> 12 \<and> m_cpu_bombed tb' = m_cpu_bombed tb + 1"
      using Suc.prems(1) by (auto simp: bombed_on_def)
    then show "fst (sim_loop b True n tb') \<noteq> Inl (Thrown Out_of_Fuel)"
      using Suc.IH [of tb'] Suc.prems sim_loop_done [of tb' n b] by auto
  qed
qed simp

text \<open>
  C28: a break of the CPU ends the simulation.  When the design raises \<^verbatim>\<open>cpu_break\<close> in a clock, the loop of the program
  comes to its end within sixteen clocks, that one included, whatever the design does then: the simulation is done, or
  it has been stopped by an exit instruction or by a chip.
\<close>
theorem break_ends_simulation:
  assumes "INCLUDE_ZIPCPU (bd_design b)" "0 \<le> m_cpu_bombed tb" "cpu_break (next_core b (m_core tb))" "16 \<le> clocks"
  shows "fst (sim_loop b True clocks tb) \<noteq> Inl (Thrown Out_of_Fuel)"
proof -
  obtain n where n: "clocks = Suc n" "15 \<le> n" using assms(4) by (cases clocks) auto
  show ?thesis
    unfolding n(1)
  proof (rule sim_loop_step [OF assms(1)])
    fix tb' assume "m_done tb' \<or> bombed_on (tb\<lparr>m_done := False, m_core := next_core b (m_core tb)\<rparr>) tb'"
    then have "m_done tb' \<or> 0 < m_cpu_bombed tb'" using assms(2,3) by (auto simp: bombed_on_def split: if_splits)
    then show "fst (sim_loop b True n tb') \<noteq> Inl (Thrown Out_of_Fuel)"
      using bombed_sim_ends [OF assms(1), of tb' n] sim_loop_done [of tb' n b] n(2) by auto
  qed
qed

text \<open>A design that does nothing but break, and the bench with it.\<close>

definition broken_board :: "(unit, unit) board" where
  "broken_board = \<lparr>bd_design = demo_design, bd_eval = (\<lambda>c. c\<lparr>cpu_break := True\<rparr>), bd_finish = (\<lambda>_. False), bd_sdram = (\<lambda>_ _. Inl Undefined),
     bd_net = \<lparr>net_poll = (\<lambda>_ w. ((0, []), w)), net_accept = (\<lambda>_ w. (-1, w)), net_recv = (\<lambda>_ _ w. (None, w)), net_send = (\<lambda>_ _ w. (-1, w)),
       net_close = (\<lambda>_ w. w)\<rparr>\<rparr>"

theorem break_ends_simulation_witness:
  "fst (sim_loop broken_board True 16 demo_tb) \<noteq> Inl (Thrown Out_of_Fuel)"
  by (rule break_ends_simulation) (simp_all add: broken_board_def demo_design_def demo_tb_def next_core_def)

section \<open>The block RAM\<close>

text \<open>
  A section for the block RAM that does not begin at its start.  Its offset is in bytes and is used as an index of
  words, so that the words go to four times the offset, or outside the array.
\<close>

lemma bkram_section_misplaced:
  assumes "board_ok tb" "BKRAM_ACCESS d" "lies_in 0x180000 0x1000 s" "4 dvd unat (m_start s - 0x180000)" "4 dvd unat (m_len s)"
  shows "tb_load d (m_start s) (m_data s) (m_len s) tb =
    (let at = unat (m_start s - 0x180000); n = unat (m_len s) div 4; ram = block_ram (m_core tb)
     in if at + n > 1024 then Inl Undefined
        else Inr (True, tb\<lparr>m_core := (m_core tb)\<lparr>block_ram := take at ram
               @ map (\<lambda>k. buf_word True (\<lambda>j. m_data s (4 * k + j))) [0..<n] @ drop (at + n) ram\<rparr>\<rparr>))"
proof -
  let ?o = "m_start s - 0x180000 :: u32"
  have n: "unat (0x180000 :: u32) + unat (0x1000 :: u32) < 2 ^ 32" by simp
  note fr = lies_in_frame [OF assms(3) n]
  have o: "?o AND (- 4) = ?o"
  proof -
    have "unat (?o AND NOT (mask 2)) = unat ?o" unfolding unat_and_not_mask_u32 using assms(4) by simp
    moreover have "NOT (mask 2) = (- 4 :: u32)" by (simp add: mask_eq_exp_minus_1)
    ultimately show ?thesis by (simp add: word_unat_eq_iff)
  qed
  have len: "unat (drop_bit 2 (m_len s)) = unat (m_len s) div 4"
  proof -
    have "unat (drop_bit 2 (m_len s)) = drop_bit 2 (unat (m_len s))"
      unfolding unsigned_drop_bit_eq using unat_bound_u32 [of "m_len s"] by (simp add: take_bit_nat_eq_self)
    then show ?thesis by (simp only: drop_bit_eq_div) simp
  qed
  have w: "map (\<lambda>k. buf_word (k < unat (m_len s) div 4) (\<lambda>j. m_data s (4 * k + j))) [0..<unat (m_len s) div 4]
      = map (\<lambda>k. buf_word True (\<lambda>j. m_data s (4 * k + j))) [0..<unat (m_len s) div 4]" by simp
  have "load_step d (m_start s) (m_data s) (m_len s) tb =
      map_sum id (Pair (Loaded True)) (load_bkram ?o (m_len s) (m_data s) (m_len s) tb)"
    using assms(2) fr(1-4) loaded_at [OF assms(3) n] aligned_word [OF assms(5)] o by (simp add: load_step_def)
  then show ?thesis
    using assms(1) w by (subst tb_load.simps) (simp add: load_bkram_def len board_ok_def Let_def)
qed

end
