(* ===== verification/HostTools.thy ===== *)
theory HostTools
  imports Scopes HexBusDev HexBusProps
begin

text \<open>
  The small programs of the host: \<^verbatim>\<open>sw/host/wbregs.cpp\<close>, which reads or writes one register, \<^verbatim>\<open>dumpflash.cpp\<close>, which
  copies the flash into a file, and \<^verbatim>\<open>flashid.cpp\<close>, which asks the flash chip for its identification.  The files
  they read are arguments; what they print is their result.  The flash scope that \<^verbatim>\<open>flashid\<close> starts if there is one
  is not in the design of this repository.
\<close>

section \<open>Names of a map file\<close>

definition isdigit_c :: "char \<Rightarrow> bool" where
  "isdigit_c c \<longleftrightarrow> 0x30 \<le> chr_code c \<and> chr_code c \<le> 0x39"

definition isgraph_c :: "u32 \<Rightarrow> bool" where
  "isgraph_c c \<longleftrightarrow> 0x21 \<le> c \<and> c \<le> 0x7e"

definition skip_char :: "char set \<Rightarrow> string \<Rightarrow> string" where
  "skip_char cs s = (if s \<noteq> [] \<and> hd s \<in> cs then tl s else s)"

definition isvalue :: "string \<Rightarrow> bool" where
  "isvalue v =
     (let p = skip_char {CHR ''+''} (skip_char {CHR ''+'', CHR ''-''} (dropWhile isspace_c v));
          p = (if p \<noteq> [] \<and> hd p = CHR ''0'' then skip_char {CHR ''x'', CHR ''X''} (tl p) else p)
      in p \<noteq> [] \<and> isdigit_c (hd p))"

text \<open>\<^verbatim>\<open>strtok\<close> with blanks, tabs and newlines, and the lines as \<^verbatim>\<open>fgets\<close> with a buffer of 512 bytes delivers them.\<close>

definition is_delim :: "char \<Rightarrow> bool" where
  "is_delim c \<longleftrightarrow> c = CHR '' '' \<or> c = CHR 0x09 \<or> c = CHR 0x0a"

function tokens :: "string \<Rightarrow> string list" where
  "tokens s =
     (case dropWhile is_delim s of
        [] \<Rightarrow> []
      | c # cs \<Rightarrow> (c # takeWhile (\<lambda>c. \<not> is_delim c) cs) # tokens (dropWhile (\<lambda>c. \<not> is_delim c) cs))"
  by pat_completeness auto
termination
proof (relation "measure length")
  fix s c cs assume s: "dropWhile is_delim s = c # cs"
  have "length (dropWhile (\<lambda>c. \<not> is_delim c) cs) \<le> length cs" by (rule length_dropWhile_le)
  also have "length cs < length s" using length_dropWhile_le [of is_delim s] s by simp
  finally show "(dropWhile (\<lambda>c. \<not> is_delim c) cs, s) \<in> measure length" by simp
qed simp

declare tokens.simps [simp del]

definition line_len :: "string \<Rightarrow> nat" where
  "line_len s = (let n = length (takeWhile (\<lambda>c. c \<noteq> CHR 0x0a) s) in min 511 (if n < length s then n + 1 else n))"

lemma line_len_pos: "s \<noteq> [] \<Longrightarrow> 0 < line_len s"
  using length_takeWhile_le [of "\<lambda>c. c \<noteq> CHR 0x0a" s] by (cases s) (auto simp: line_len_def Let_def)

function file_lines :: "string \<Rightarrow> string list" where
  "file_lines s = (if s = [] then [] else take (line_len s) s # file_lines (drop (line_len s) s))"
  by pat_completeness auto
termination
  by (relation "measure length") (simp_all add: line_len_pos)

declare file_lines.simps [simp del]

definition map_entry :: "string \<Rightarrow> (string \<times> string) option" where
  "map_entry line =
     (case tokens (takeWhile (\<lambda>c. c \<noteq> CHR 0x00) line) of
        [astr, nstr] \<Rightarrow> if isvalue astr then Some (astr, nstr) else None
      | _ \<Rightarrow> None)"

definition getmap_address :: "string option \<Rightarrow> string \<Rightarrow> stop + u32" where
  "getmap_address file name =
     (case file of None \<Rightarrow> Inl (Exit EXIT_FAILURE)
      | Some t \<Rightarrow>
          (case find (\<lambda>(a, n). strcaseeq n name) (List.map_filter map_entry (file_lines t)) of
             None \<Rightarrow> Inr 0 | Some (a, n) \<Rightarrow> Inr (ucast (strtoul a))))"

definition getmap_name :: "string option \<Rightarrow> u32 \<Rightarrow> stop + string option" where
  "getmap_name file val =
     (case file of None \<Rightarrow> Inl (Exit EXIT_FAILURE)
      | Some t \<Rightarrow> Inr (map_option snd (find (\<lambda>(a, n). strtoul a = ucast val) (List.map_filter map_entry (file_lines t)))))"

section \<open>wbregs\<close>

definition wb_kinds :: "char \<Rightarrow> optkind option" where
  "wb_kinds c =
     (if c = CHR ''d'' then Some Flag
      else if c = CHR ''m'' \<or> c = CHR ''n'' \<or> c = CHR ''p'' then Some Value else None)"

text \<open>The address and the name that the argument stands for.\<close>

definition wb_address :: "(string \<Rightarrow> string option) \<Rightarrow> string option \<Rightarrow> string \<Rightarrow> stop + u32 \<times> string option" where
  "wb_address fs map_file named =
     (if isvalue named then
        (let a = ucast (strtoul named)
         in case (case map_file of None \<Rightarrow> Inr None | Some f \<Rightarrow> getmap_name (fs f) a) of
              Inl e \<Rightarrow> Inl e
            | Inr nm \<Rightarrow> Inr (a, if nm = None then addrname a else nm))
      else
        (case map_file of
           None \<Rightarrow> Inr (addrdecode named, addrname (addrdecode named))
         | Some f \<Rightarrow>
             (case getmap_address (fs f) named of
                Inl e \<Rightarrow> Inl e
              | Inr a \<Rightarrow>
                  (case getmap_name (fs f) a of
                     Inl e \<Rightarrow> Inl e
                   | Inr None \<Rightarrow> Inr (addrdecode named, addrname (addrdecode named))
                   | Inr (Some nm) \<Rightarrow> Inr (a, Some nm)))))"

definition graph_or_dot :: "u32 \<Rightarrow> string" where
  "graph_or_dot c = [if isgraph_c c then char_of (unat c) else CHR ''.'']"

definition wb_head :: "u32 \<Rightarrow> string \<Rightarrow> string" where
  "wb_head a nm = hex8 a @ '' ('' @ pad_left 8 nm @ '')''"

definition wb_value_text :: "bool \<Rightarrow> u32 \<Rightarrow> string \<Rightarrow> u32 \<Rightarrow> string" where
  "wb_value_text use_decimal a nm v =
     (if use_decimal then fmt_d v @ newline
      else wb_head a nm @ '' : ['' @ graph_or_dot (drop_bit 24 v AND 0xff) @ graph_or_dot (drop_bit 16 v AND 0xff)
        @ graph_or_dot (drop_bit 8 v AND 0xff) @ graph_or_dot (v AND 0xff) @ ''] '' @ hex8 v @ newline)"

text \<open>\<^verbatim>\<open>catch(BUSERR b)\<close> and \<^verbatim>\<open>catch(const char *er)\<close>.\<close>

definition catch_bus :: "('b, 'a) run \<Rightarrow> ('b, 'a) run \<Rightarrow> ('b, 'a) run" where
  "catch_bus m on_err =
     (\<lambda>s. case m s of
        (Inl (Thrown (BUSERR a)), s) \<Rightarrow> on_err s
      | (Inl (Thrown Read_Failure), s) \<Rightarrow> (Inl (Exit EXIT_FAILURE), s)
      | (Inl (Thrown Write_Failure), s) \<Rightarrow> (Inl (Exit EXIT_FAILURE), s)
      | r \<Rightarrow> r)"

definition wb_access :: "'b devbus \<Rightarrow> bool \<Rightarrow> u32 \<Rightarrow> string \<Rightarrow> string option \<Rightarrow> ('b, string) run" where
  "wb_access bus use_decimal a nm val =
     (case val of
        None \<Rightarrow> catch_bus (seq (call (dv_readio bus a)) (\<lambda>v. ret (wb_value_text use_decimal a nm v)))
                  (ret (wb_head a nm @ '' : BUS-ERROR'' @ newline))
      | Some t \<Rightarrow>
          let v = ucast (strtoul t)
          in catch_bus (seq (call (dv_writeio bus a v)) (\<lambda>_. ret (wb_head a nm @ ''-> '' @ hex8 v @ newline)))
               (throw (Exit EXIT_FAILURE)))"

text \<open>\<open>polled\<close> is \<^verbatim>\<open>m_fpga->poll()\<close>, \<open>fs\<close> the text of a file that can be read.\<close>

definition wbregs_main :: "'b devbus \<Rightarrow> ('b \<Rightarrow> bool) \<Rightarrow> (string \<Rightarrow> string option) \<Rightarrow> string list \<Rightarrow> ('b, string) run" where
  "wbregs_main bus polled fs argv =
     (case arg_loop wb_kinds EXIT_SUCCESS (args_init argv) of
        Inl e \<Rightarrow> throw e
      | Inr z \<Rightarrow>
          (case args_names z of
             named # rest \<Rightarrow>
               if length rest > 1 then throw (Exit (- 1))
               else
                 let map_file = opt_value z (CHR ''m'')
                 in if \<exists>f\<in>set_option map_file. fs f = None then throw (Exit EXIT_FAILURE)
                    else
                      (case wb_address fs map_file named of
                         Inl e \<Rightarrow> throw e
                       | Inr (a, nm) \<Rightarrow>
                           seq (wb_access bus (opt_value z (CHR ''d'') \<noteq> None) a (case nm of None \<Rightarrow> [] | Some n \<Rightarrow> n)
                                 (case rest of [] \<Rightarrow> None | t # _ \<Rightarrow> Some t)) (\<lambda>t b.
                             ret (t @ (if polled b then ''FPGA was interrupted'' @ newline else [])) b))
           | [] \<Rightarrow> throw (Exit (- 1))))"

section \<open>dumpflash\<close>

definition DUMPWORDS :: nat where "DUMPWORDS = unat (drop_bit 2 FLASHLEN)"

text \<open>The command line: one name is the file.\<close>

fun dump_args :: "string list \<Rightarrow> string option \<Rightarrow> stop + string option" where
  "dump_args [] fname = Inr fname"
| "dump_args (a # as) fname =
     (if char_at a 0 = CHR ''-'' then
        (if char_at a 1 = CHR ''h'' then Inl (Exit EXIT_SUCCESS)
         else if char_at a 1 = CHR ''n'' \<or> char_at a 1 = CHR ''p'' then
           (case as of [] \<Rightarrow> Inl (Exit EXIT_SUCCESS) | _ # as \<Rightarrow> dump_args as fname)
         else Inl (Exit EXIT_SUCCESS))
      else if fname = None then dump_args as (Some a)
      else Inl (Exit EXIT_FAILURE))"

text \<open>The last word that is not erased, or the first word.\<close>

primrec dump_end :: "u32 list \<Rightarrow> nat \<Rightarrow> nat" where
  "dump_end buf 0 = 0"
| "dump_end buf (Suc n) = (if buf ! Suc n = 0xffffffff then dump_end buf n else Suc n)"

definition le_bytes :: "u32 \<Rightarrow> u8 list" where
  "le_bytes w = map (\<lambda>i. ucast (drop_bit (8 * i) w)) [0..<4]"

text \<open>\<open>can_write\<close> says that the file can be opened; the result is its name and its bytes.\<close>

definition dumpflash_main :: "'b devbus \<Rightarrow> (string \<Rightarrow> bool) \<Rightarrow> string list \<Rightarrow> ('b, string \<times> u8 list) run" where
  "dumpflash_main bus can_write argv =
     (case dump_args (drop 1 argv) None of
        Inl e \<Rightarrow> throw e
      | Inr None \<Rightarrow> throw (Exit EXIT_FAILURE)
      | Inr (Some fname) \<Rightarrow>
          seq (catch_bus (call (dv_readi bus FLASHBASE (int DUMPWORDS))) (throw (Exit EXIT_FAILURE))) (\<lambda>buf.
            let sz = dump_end buf (DUMPWORDS - 1) + 1
            in if \<not> can_write fname then throw (Exit EXIT_FAILURE)
               else ret (fname, concat (map le_bytes (take sz buf)))))"

section \<open>flashid\<close>

definition hex2 :: "u32 \<Rightarrow> string" where
  "hex2 v = hex_width 2 (v AND 0xff)"

primrec id_bytes :: "'b devbus \<Rightarrow> bool \<Rightarrow> nat \<Rightarrow> ('b, string) run" where
  "id_bytes bus first 0 = ret []"
| "id_bytes bus first (Suc n) =
     seq (call (dv_readio bus R_FLASHCFG)) (\<lambda>v.
     seq (call (dv_writeio bus R_FLASHCFG 0)) (\<lambda>_.
     seq (id_bytes bus False n) (\<lambda>rest. ret ((if first then CHR '' '' else CHR '':'') # hex2 v @ rest))))"

definition flashid_main :: "'b devbus \<Rightarrow> string list \<Rightarrow> ('b, string) run" where
  "flashid_main bus argv =
     (case scope_args (drop 1 argv) of
        Inl e \<Rightarrow> throw e
      | Inr _ \<Rightarrow>
          seq (call (dv_writeio bus R_FLASHCFG 0x100)) (\<lambda>_.
          seq (call (dv_writeio bus R_FLASHCFG 0x09f)) (\<lambda>_.
          seq (call (dv_writeio bus R_FLASHCFG 0)) (\<lambda>_.
          seq (id_bytes bus True 12) (\<lambda>t.
          seq (call (dv_writeio bus R_FLASHCFG 0x100)) (\<lambda>_. ret (''ID:'' @ t @ newline)))))))"

section \<open>What the tools deliver\<close>

text \<open>Numbers that \<^verbatim>\<open>isvalue\<close> does not see: zero, and the ones that begin with a letter behind \<^verbatim>\<open>0x\<close>.\<close>

lemma isvalue_zero: "\<not> isvalue ''0''"
  by code_simp

lemma isvalue_hex: "isvalue (CHR ''0'' # CHR ''x'' # c # s) \<longleftrightarrow> isdigit_c c"
proof -
  have "\<not> isspace_c (CHR ''0'')" by code_simp
  then show ?thesis by (simp add: isvalue_def skip_char_def)
qed

lemma alpha_not_value:
  assumes "name \<noteq> []" "isalpha_c (hd name)"
  shows "\<not> isvalue name \<and> char_at name 0 \<noteq> CHR ''-''"
proof -
  obtain c cs where n: "name = c # cs" using assms(1) by (cases name) auto
  have c: "0x41 \<le> chr_code c" using assms(2) n by (auto simp: isalpha_c_def Let_def)
  then have "\<not> isspace_c c" "\<not> isdigit_c c" by (auto simp: isspace_c_def isdigit_c_def Let_def)
  moreover have "c \<noteq> CHR ''0''" "c \<noteq> CHR ''-''" "c \<noteq> CHR ''+''" using c by (auto simp: chr_code_def)
  ultimately show ?thesis by (simp add: isvalue_def n skip_char_def char_at_def)
qed

lemma wb_args_name: "char_at name 0 \<noteq> CHR ''-'' \<Longrightarrow>
    arg_loop wb_kinds EXIT_SUCCESS (args_init [prog, name])
    = Inr \<lparr>cl_argv = [name, name], cl_skp = 1, cl_argn = 1, cl_opts = []\<rparr>"
  by (simp add: args_init_def arg_loop.simps arg_step_def Let_def)

text \<open>
  C29: \<^verbatim>\<open>wbregs\<close> reads the register that it is given the name of.  For a name of the table, in either case, it
  makes one read of the address of that register and prints the address, a name that stands for it, and the value
  the bus returned; if the bus reports an error it says so and ends as well.
\<close>
theorem wbregs_reads_register:
  assumes "(a, n) \<in> set raw_bregs" "strcaseeq name n" "dv_readio bus a b = (r, b')" "\<not> polled b'"
    "r = Inr v \<or> r = Inl (BUSERR x)"
  shows "\<exists>nm. addrdecode nm = a \<and> wbregs_main bus polled fs [prog, name] b =
    (Inr (case r of Inr v \<Rightarrow> wb_value_text False a nm v | Inl _ \<Rightarrow> wb_head a nm @ '' : BUS-ERROR'' @ newline), b')"
proof -
  obtain m where m: "addrdecode name = a" "addrname a = Some m" "addrdecode m = a"
    using register_names [OF assms(1,2)] by blast
  have "isalpha_c (hd n)" "n \<noteq> []" using table_names assms(1) by (auto simp: list_all_iff)
  then have al: "\<not> isvalue name" "char_at name 0 \<noteq> CHR ''-''"
    using alpha_not_value [of name] strcaseeq_hd [OF assms(2)] by auto
  have addr: "wb_address fs None name = Inr (a, Some m)" using al(1) m(1,2) by (simp add: wb_address_def)
  have main: "wbregs_main bus polled fs [prog, name] =
      seq (wb_access bus False a m None) (\<lambda>t b. ret (t @ (if polled b then ''FPGA was interrupted'' @ newline else [])) b)"
    using wb_args_name [OF al(2)] addr by (simp add: wbregs_main_def args_names_def opt_value_def)
  show ?thesis
    unfolding main using assms(3-5) m(3)
    by (intro exI [of _ m]) (auto simp: wb_access_def catch_bus_def seq_def call_def)
qed

text \<open>
  A name that the map file does not have stands for address 0 if the file has a symbol there, and is then not looked
  up in the table of registers.
\<close>

lemma map_name_at_zero:
  assumes "\<not> isvalue name" "fs f = Some t" "getmap_address (Some t) name = Inr 0" "getmap_name (Some t) 0 = Inr (Some nm)"
  shows "wb_address fs (Some f) name = Inr (0, Some nm)"
  using assms by (simp add: wb_address_def)

lemma dump_end_erased:
  "n < length buf \<Longrightarrow> dump_end buf n \<le> n \<and> (\<forall>i. dump_end buf n < i \<and> i \<le> n \<longrightarrow> buf ! i = 0xffffffff)"
  by (induction n) (auto simp: le_Suc_eq)

lemma dump_end_used: "dump_end buf n \<noteq> 0 \<Longrightarrow> buf ! dump_end buf n \<noteq> 0xffffffff"
  by (induction n) auto

text \<open>The words of a file as this program writes them.\<close>

fun le_words :: "u8 list \<Rightarrow> u32 list" where
  "le_words (a # b # c # d # bs) = (ucast a OR push_bit 8 (ucast b) OR push_bit 16 (ucast c) OR push_bit 24 (ucast d)) # le_words bs"
| "le_words bs = []"

lemma le_words_bytes: "le_words (le_bytes w @ bs) = w # le_words bs"
proof -
  have "ucast (ucast w :: u8) OR push_bit 8 (ucast (ucast (drop_bit 8 w) :: u8)) OR push_bit 16 (ucast (ucast (drop_bit 16 w) :: u8))
      OR push_bit 24 (ucast (ucast (drop_bit 24 w) :: u8)) = w"
  proof (rule bit_word_eqI)
    fix n assume "n < LENGTH(32)"
    then have "n < 32" by simp
    then have "n < 8 \<or> (\<exists>k<8. n = 8 + k) \<or> (\<exists>k<8. n = 16 + k) \<or> (\<exists>k<8. n = 24 + k)" by presburger
    then show "bit (ucast (ucast w :: u8) OR push_bit 8 (ucast (ucast (drop_bit 8 w) :: u8)) OR push_bit 16 (ucast (ucast (drop_bit 16 w) :: u8))
      OR push_bit 24 (ucast (ucast (drop_bit 24 w) :: u8)) :: u32) n = bit w n"
      by (elim disjE exE conjE) (auto simp: bit_simps dest: bit_imp_le_length)
  qed
  then show ?thesis by (simp add: le_bytes_def upt_rec numeral_eq_Suc)
qed

lemma le_words_all: "le_words (concat (map le_bytes ws)) = ws"
  by (induction ws) (simp_all add: le_words_bytes)

lemma dump_refills:
  assumes "buf \<noteq> []"
  shows "take (dump_end buf (length buf - 1) + 1) buf @ replicate (length buf - (dump_end buf (length buf - 1) + 1)) 0xffffffff = buf"
proof -
  let ?e = "dump_end buf (length buf - 1)"
  have e: "?e < length buf" "\<And>i. ?e < i \<Longrightarrow> i < length buf \<Longrightarrow> buf ! i = 0xffffffff"
    using dump_end_erased [of "length buf - 1" buf] assms by (cases buf; auto simp: less_Suc_eq_le)+
  show ?thesis
    using e by (intro nth_equalityI) (auto simp: nth_append min_def)
qed

lemma DUMPWORDS_value: "DUMPWORDS = 131072"
  by (simp add: DUMPWORDS_def FLASHLEN_def)

text \<open>
  A dump gives the flash back.  When the board answers with the words of its flash, whatever interrupt notices come
  between them, \<^verbatim>\<open>dumpflash\<close> writes a file whose words are those of the flash up to where it is erased: filled up
  with ones they are the flash.
\<close>
lemma dumpflash_gives_flash:
  assumes "at_stream h (words_bytes ws @ cs) tx" "m_isspace h" "\<forall>(ps, w)\<in>set ws. list_all quiet_packet ps"
    and "length ws = DUMPWORDS" "can_write fname" "char_at fname 0 \<noteq> CHR ''-''"
  shows "\<exists>bytes h'. dumpflash_main hexbus_dev can_write [prog, fname] h = (Inr (fname, bytes), h')
    \<and> le_words bytes @ replicate (DUMPWORDS - length (le_words bytes)) 0xffffffff = map snd ws"
proof -
  let ?buf = "map snd ws"
  have ne: "ws \<noteq> []" using assms(4) DUMPWORDS_value by auto
  obtain h' where "readv FLASHBASE True (int (length ws)) h = (Inr ?buf, h')"
    using readv_words [OF assms(1-3) ne, of FLASHBASE True] by blast
  then have r: "dv_readi hexbus_dev FLASHBASE (int DUMPWORDS) h = (Inr ?buf, h')"
    by (simp add: hexbus_dev_def readi_def assms(4))
  let ?sz = "dump_end ?buf (DUMPWORDS - 1) + 1"
  define bytes where "bytes = concat (map le_bytes (take ?sz ?buf))"
  have "dumpflash_main hexbus_dev can_write [prog, fname] h = (Inr (fname, bytes), h')"
    using r assms(5,6) by (simp add: dumpflash_main_def catch_bus_def call_def seq_def Let_def bytes_def)
  moreover have "le_words bytes = take ?sz ?buf" unfolding bytes_def by (rule le_words_all)
  moreover have "take ?sz ?buf @ replicate (DUMPWORDS - length (take ?sz ?buf)) 0xffffffff = ?buf"
    using dump_refills [of ?buf] ne assms(4) dump_end_erased [of "DUMPWORDS - 1" ?buf] DUMPWORDS_value by (simp add: min_def)
  ultimately show ?thesis by auto
qed

theorem dumpflash_gives_flash_witness:
  "\<exists>bytes h'. dumpflash_main hexbus_dev (\<lambda>_. True) [''dumpflash'', ''out''] (demo_link [words_bytes (replicate DUMPWORDS ([], 0xffffffff))])
      = (Inr (''out'', bytes), h')
    \<and> le_words bytes @ replicate (DUMPWORDS - length (le_words bytes)) 0xffffffff = replicate DUMPWORDS 0xffffffff"
proof -
  let ?ws = "replicate DUMPWORDS ([], 0xffffffff) :: (packet list \<times> u32) list"
  have "at_stream (demo_link [words_bytes ?ws]) (words_bytes ?ws @ []) []" "m_isspace (demo_link [words_bytes ?ws])"
    by (simp_all add: demo_link_def hexbus_init_def bufalloc_def at_stream_def rx_stream_def)
  from dumpflash_gives_flash [OF this, of "\<lambda>_. True" "''out''" "''dumpflash''"] show ?thesis
    by (simp add: char_at_def)
qed

definition demo_bus :: "unit devbus" where
  "demo_bus = \<lparr>dv_writeio = (\<lambda>_ _. ret ()), dv_readio = (\<lambda>_. ret 0x41), dv_readi = (\<lambda>_ _. ret []), dv_readz = (\<lambda>_ _. ret []),
     dv_writei = (\<lambda>_ _. ret ()), dv_writez = (\<lambda>_ _. ret ())\<rparr>"

theorem wbregs_reads_register_witness:
  "\<exists>nm. addrdecode nm = R_FLASHCFG \<and> wbregs_main demo_bus (\<lambda>_. False) (\<lambda>_. None) [''wbregs'', ''flashcfg''] () =
    (Inr (wb_value_text False R_FLASHCFG nm 0x41), ())"
proof -
  have "strcaseeq ''flashcfg'' ''FLASHCFG''" by code_simp
  moreover have "(R_FLASHCFG, ''FLASHCFG'') \<in> set raw_bregs" by (simp add: raw_bregs_def)
  ultimately show ?thesis
    using wbregs_reads_register [of R_FLASHCFG "''FLASHCFG''" "''flashcfg''" demo_bus "()" "Inr 0x41" "()" "\<lambda>_. False" "0x41" 0 "\<lambda>_. None" "''wbregs''"]
    by (simp add: demo_bus_def)
qed

end
