(* ===== verification/NetUart.thy ===== *)
theory NetUart
  imports Run
begin

text \<open>
  The bridge of \<^verbatim>\<open>sw/host/netuart.cpp\<close>: it carries the bytes of one serial line to two clients on the network and
  back, those of the command client with bit 7 set on the line.  What the operating system answers is a script: the results of
  \<^verbatim>\<open>poll\<close>, of the reads from the line and from the clients, of \<^verbatim>\<open>accept\<close> and of \<^verbatim>\<open>write\<close>; what has been
  written is a log of bytes with their descriptors.  Opening the line and the listening sockets is in \<open>Sockets\<close>.
\<close>

section \<open>The operating system\<close>

text \<open>
  A read delivers bytes, the end, or an error; a write takes at least one byte, is to be tried again, or fails.
  A script that has come to its end stands for nothing to read and for writes that take everything.
\<close>

datatype rd = Got "u8 list" | At_end | Rd_error
datatype wr = Wrote nat | Again | Wr_error
datatype event = Quiet | Readable | Strange

record world =
  w_polls :: "(event \<times> event \<times> event) option list"
  w_tty :: "rd list"
  w_cmd :: "rd list"
  w_con :: "rd list"
  w_accepts :: "int list"
  w_writes :: "wr list"
  w_out :: "(int \<times> u8) list"

text \<open>\<^verbatim>\<open>read\<close> into a buffer of 256 bytes: the result and what is left of the script.\<close>

definition BUFSZ :: nat where "BUFSZ = 256"

definition read_script :: "rd list \<Rightarrow> rd \<times> rd list" where
  "read_script s =
     (case s of
        [] \<Rightarrow> (Rd_error, [])
      | Got bs # rest \<Rightarrow>
          if bs = [] then (At_end, rest)
          else (Got (take BUFSZ bs), if length bs > BUFSZ then Got (drop BUFSZ bs) # rest else rest)
      | r # rest \<Rightarrow> (r, rest))"

fun script_size :: "rd list \<Rightarrow> nat" where
  "script_size [] = 0"
| "script_size (Got bs # s) = Suc (length bs) + script_size s"
| "script_size (r # s) = Suc (script_size s)"

lemma read_script_smaller: "read_script s = (Got bs, s') \<Longrightarrow> script_size s' < script_size s"
  by (cases s rule: script_size.cases) (auto simp: read_script_def BUFSZ_def split: if_splits)

section \<open>The buffers of a client\<close>

text \<open>\<open>lb_iline\<close> and \<open>lb_oline\<close> are the first \<^verbatim>\<open>m_ilen\<close> and \<^verbatim>\<open>m_olen\<close> bytes of their buffers of 512.\<close>

record linbufs =
  lb_iline :: "u8 list"
  lb_oline :: "u8 list"
  lb_buf :: "u8 list"
  lb_fd :: int
  lb_connected :: bool

definition linbufs_init :: "u8 list \<Rightarrow> linbufs" where
  "linbufs_init raw = \<lparr>lb_iline = [], lb_oline = [], lb_buf = raw, lb_fd = -1, lb_connected = False\<rparr>"

definition lb_close :: "linbufs \<Rightarrow> linbufs" where
  "lb_close b =
     (if \<not> lb_connected b then b\<lparr>lb_fd := -1\<rparr>
      else if lb_fd b < 0 then b\<lparr>lb_connected := False\<rparr>
      else b\<lparr>lb_fd := -1, lb_connected := False\<rparr>)"

definition lb_accept :: "int list \<Rightarrow> linbufs \<Rightarrow> stop + linbufs" where
  "lb_accept fds b =
     (case fds of
        [] \<Rightarrow> Inl (Exit EXIT_FAILURE)
      | fd # _ \<Rightarrow> if fd < 0 then Inl (Exit EXIT_FAILURE) else Inr (b\<lparr>lb_fd := fd, lb_connected := True\<rparr>))"

text \<open>The first bytes of the buffer are overwritten.\<close>

definition put_buf :: "u8 list \<Rightarrow> linbufs \<Rightarrow> linbufs" where
  "put_buf bs b = b\<lparr>lb_buf := bs @ drop (length bs) (lb_buf b)\<rparr>"

text \<open>The loop of \<^verbatim>\<open>write\<close>: it goes on until everything has been written.\<close>

function write_all :: "int \<Rightarrow> u8 list \<Rightarrow> world \<Rightarrow> stop + world" where
  "write_all fd bs w =
     (let out = (\<lambda>n. w_out w @ map (Pair fd) (take n bs))
      in case w_writes w of
           [] \<Rightarrow> if bs = [] then Inl (Exit EXIT_SUCCESS) else Inr (w\<lparr>w_out := out (length bs)\<rparr>)
         | Again # ws \<Rightarrow>
             if bs = [] then Inr (w\<lparr>w_writes := ws\<rparr>) else write_all fd bs (w\<lparr>w_writes := ws\<rparr>)
         | Wr_error # ws \<Rightarrow> Inl (Exit EXIT_FAILURE)
         | Wrote n # ws \<Rightarrow>
             if n = 0 \<or> bs = [] then Inl (Exit EXIT_SUCCESS)
             else if n < length bs then write_all fd (drop n bs) (w\<lparr>w_writes := ws, w_out := out n\<rparr>)
             else Inr (w\<lparr>w_writes := ws, w_out := out (length bs)\<rparr>))"
  by pat_completeness auto
termination
  by (relation "measure (\<lambda>(_, _, w). length (w_writes w))") auto

declare write_all.simps [simp del]

definition lb_write :: "int \<Rightarrow> nat \<Rightarrow> u8 \<Rightarrow> linbufs \<Rightarrow> world \<Rightarrow> stop + nat \<times> linbufs \<times> world" where
  "lb_write fd ln mask_bits b w =
     (let b = (if mask_bits \<noteq> 0 then b\<lparr>lb_buf := map (\<lambda>c. c OR mask_bits) (take ln (lb_buf b)) @ drop ln (lb_buf b)\<rparr> else b)
      in map_sum id (\<lambda>w. (ln, b, w)) (write_all fd (take ln (lb_buf b)) w))"

text \<open>
  A byte is put behind a line of 512 bytes; when the line is at its end, or the buffer full, it is
  printed and begun again.
\<close>

definition line_byte :: "u8 \<Rightarrow> u8 list \<Rightarrow> fault + u8 list \<times> u8 list list" where
  "line_byte c line =
     (if length line \<ge> 512 then Inl Undefined
      else
        (let line = line @ [c]; full = length line \<ge> 511
         in if c = 0x0a \<or> c = 0x0d \<or> full then
              if full \<and> length line \<ge> 512 then Inl Undefined
              else Inr ([], if length line > 1 then [takeWhile (\<lambda>c. c \<noteq> 0) (if full then line else butlast line)] else [])
            else Inr (line, [])))"

fun line_bytes :: "u8 list \<Rightarrow> u8 list \<Rightarrow> fault + u8 list \<times> u8 list list" where
  "line_bytes [] line = Inr (line, [])"
| "line_bytes (c # cs) line =
     (case line_byte c line of Inl e \<Rightarrow> Inl e
      | Inr (line, t) \<Rightarrow> map_sum id (\<lambda>(line, ts). (line, t @ ts)) (line_bytes cs line))"

definition print_in :: "nat \<Rightarrow> linbufs \<Rightarrow> fault + linbufs \<times> u8 list list" where
  "print_in ln b =
     (if ln = 0 then Inl Assertion
      else map_sum id (\<lambda>(line, ts). (b\<lparr>lb_iline := line\<rparr>, ts)) (line_bytes (take ln (lb_buf b)) (lb_iline b)))"

text \<open>The other direction loses bit 7, and asserts that no byte is zero after it has been put into the line.\<close>

fun out_bytes :: "u8 list \<Rightarrow> u8 list \<Rightarrow> fault + u8 list \<times> u8 list list" where
  "out_bytes [] line = Inr (line, [])"
| "out_bytes (c # cs) line =
     (if length line \<ge> 512 then Inl Undefined
      else if c = 0 then Inl Assertion
      else case line_byte (c AND 0x7f) line of Inl e \<Rightarrow> Inl e
        | Inr (line, t) \<Rightarrow> map_sum id (\<lambda>(line, ts). (line, t @ ts)) (out_bytes cs line))"

definition print_out :: "nat \<Rightarrow> linbufs \<Rightarrow> fault + linbufs \<times> u8 list list" where
  "print_out ln b =
     map_sum id (\<lambda>(line, ts). (b\<lparr>lb_oline := line\<rparr>, ts)) (out_bytes (take ln (lb_buf b)) (lb_oline b))"

definition flush_out :: "linbufs \<Rightarrow> linbufs \<times> u8 list list" where
  "flush_out b = (if lb_oline b \<noteq> [] then (b\<lparr>lb_oline := []\<rparr>, [takeWhile (\<lambda>c. c \<noteq> 0) (lb_oline b)]) else (b, []))"

section \<open>The bridge\<close>

text \<open>\<open>nu_text\<close> are the lines that have been printed, with their prefixes.\<close>

record netuart =
  nu_cmd :: linbufs
  nu_con :: linbufs
  nu_world :: world
  nu_text :: "(string \<times> u8 list) list"

definition say :: "string \<Rightarrow> u8 list list \<Rightarrow> netuart \<Rightarrow> netuart" where
  "say prefix ts s = s\<lparr>nu_text := nu_text s @ map (Pair prefix) ts\<rparr>"

definition high :: "u8 \<Rightarrow> bool" where
  "high c \<longleftrightarrow> c AND 0x80 \<noteq> 0"

text \<open>The bytes of one read are divided between the clients; a client that is there gets its part.\<close>

definition to_client :: "u8 list \<Rightarrow> linbufs \<Rightarrow> world \<Rightarrow> stop + linbufs \<times> world" where
  "to_client bs b w =
     (let b = put_buf bs b
      in if lb_fd b \<ge> 0 \<and> bs \<noteq> [] then
           map_sum id (\<lambda>(nw, b, w). (if nw \<noteq> length bs then lb_close b else b, w)) (lb_write (lb_fd b) (length bs) 0 b w)
         else Inr (b, w))"

definition show_in :: "u8 list \<Rightarrow> linbufs \<Rightarrow> stop + linbufs \<times> u8 list list" where
  "show_in bs b = (if bs \<noteq> [] then map_sum Faulty id (print_in (length bs) b) else Inr (b, []))"

definition share_out :: "u8 list \<Rightarrow> netuart \<Rightarrow> stop + netuart" where
  "share_out raw s =
     (let cmd = map (\<lambda>c. c AND 0x7f) (filter high raw); con = filter (\<lambda>c. \<not> high c) raw
      in case to_client cmd (nu_cmd s) (nu_world s) of Inl e \<Rightarrow> Inl e
      | Inr (bcmd, w) \<Rightarrow>
          (case to_client con (nu_con s) w of Inl e \<Rightarrow> Inl e
           | Inr (bcon, w) \<Rightarrow>
               (case show_in cmd bcmd of Inl e \<Rightarrow> Inl e
                | Inr (bcmd', t1) \<Rightarrow>
                    (case show_in con bcon of Inl e \<Rightarrow> Inl e
                     | Inr (bcon, t2) \<Rightarrow>
                         Inr (say [] t2 (say (if lb_fd bcmd \<ge> 0 then ''> '' else ''# '') t1
                           (s\<lparr>nu_cmd := bcmd', nu_con := bcon, nu_world := w\<rparr>)))))))"

lemma share_out_world: "share_out raw s = Inr s' \<Longrightarrow> w_tty (nu_world s') = w_tty (nu_world s)"
proof -
  have all: "write_all fd bs w = Inr w' \<Longrightarrow> w_tty w' = w_tty w" for fd bs w w'
  proof (induction fd bs w rule: write_all.induct)
    case (1 fd bs w)
    show ?case
      using 1(3) 1(1) [OF refl] 1(2) [OF refl]
      by (subst (asm) write_all.simps) (auto simp: Let_def split: list.splits wr.splits if_splits)
  qed
  have "to_client bs b w = Inr (b', w') \<Longrightarrow> w_tty w' = w_tty w" for bs b w b' w'
    using all by (auto simp: to_client_def lb_write_def Let_def map_sum_id_Inr split: if_splits)
  moreover assume "share_out raw s = Inr s'"
  ultimately show ?thesis by (fastforce simp: share_out_def say_def Let_def split: sum.splits)
qed

text \<open>The line is read until there is nothing more to read.\<close>

function drain_tty :: "rd \<Rightarrow> netuart \<Rightarrow> stop + netuart" where
  "drain_tty r s =
     (case r of
        Got raw \<Rightarrow>
          (case share_out raw s of Inl e \<Rightarrow> Inl e
           | Inr s \<Rightarrow> case read_script (w_tty (nu_world s)) of (r, rest) \<Rightarrow>
               drain_tty r (s\<lparr>nu_world := (nu_world s)\<lparr>w_tty := rest\<rparr>\<rparr>))
      | _ \<Rightarrow> Inr s)"
  by pat_completeness auto
termination
  by (relation "measure (\<lambda>(r, s). case r of Got _ \<Rightarrow> Suc (script_size (w_tty (nu_world s))) | _ \<Rightarrow> 0)")
    (auto dest!: share_out_world split: rd.split dest: read_script_smaller [OF sym])

declare drain_tty.simps [simp del]

definition tty_event :: "event \<Rightarrow> netuart \<Rightarrow> stop + netuart" where
  "tty_event e s =
     (case e of
        Quiet \<Rightarrow> Inr s
      | Strange \<Rightarrow> Inl (Exit EXIT_FAILURE)
      | Readable \<Rightarrow>
          (case read_script (w_tty (nu_world s)) of
             (At_end, rest) \<Rightarrow> Inl (Exit EXIT_SUCCESS)
           | (Rd_error, rest) \<Rightarrow> Inl (Exit EXIT_FAILURE)
           | (Got raw, rest) \<Rightarrow> drain_tty (Got raw) (s\<lparr>nu_world := (nu_world s)\<lparr>w_tty := rest\<rparr>\<rparr>)))"

text \<open>
  A client's turn: a connection is accepted, or what the client has sent goes to the line with the bits of \<open>m\<close>.  \<open>conn\<close> says
  which of the two descriptors was polled.
\<close>

definition from_client :: "int \<Rightarrow> u8 \<Rightarrow> rd \<Rightarrow> linbufs \<Rightarrow> world \<Rightarrow> stop + u8 list list \<times> linbufs \<times> world" where
  "from_client tty m r b w =
     (case r of
        Rd_error \<Rightarrow> Inr ([], b, w)
      | At_end \<Rightarrow> (case flush_out b of (b, t) \<Rightarrow> Inr (t, lb_close b, w))
      | Got bs \<Rightarrow>
          (case lb_write tty (length bs) m (put_buf bs b) w of Inl e \<Rightarrow> Inl e
           | Inr (_, b, w) \<Rightarrow> map_sum Faulty (\<lambda>(b, t). (t, b, w)) (print_out (length bs) b)))"

definition client_event :: "int \<Rightarrow> u8 \<Rightarrow> bool \<Rightarrow> event \<Rightarrow> (world \<Rightarrow> rd list) \<Rightarrow> (rd list \<Rightarrow> world \<Rightarrow> world) \<Rightarrow> linbufs \<Rightarrow> world
    \<Rightarrow> stop + u8 list list \<times> linbufs \<times> world" where
  "client_event tty m conn e script put b w =
     (if e \<noteq> Readable then Inr ([], b, w)
      else if \<not> conn then map_sum id (\<lambda>b. ([], b, w\<lparr>w_accepts := drop 1 (w_accepts w)\<rparr>)) (lb_accept (w_accepts w) b)
      else if lb_fd b < 0 then Inr ([], b, w)
      else case read_script (script w) of (r, rest) \<Rightarrow> from_client tty m r b (put rest w))"

definition cmd_event :: "int \<Rightarrow> bool \<Rightarrow> event \<Rightarrow> netuart \<Rightarrow> stop + netuart" where
  "cmd_event tty conn e s =
     map_sum id (\<lambda>(t, b, w). say ''< '' t (s\<lparr>nu_cmd := b, nu_world := w\<rparr>))
       (client_event tty 0x80 conn e w_cmd (\<lambda>r w. w\<lparr>w_cmd := r\<rparr>) (nu_cmd s) (nu_world s))"

definition con_event :: "int \<Rightarrow> bool \<Rightarrow> event \<Rightarrow> netuart \<Rightarrow> stop + netuart" where
  "con_event tty conn e s =
     map_sum id (\<lambda>(t, b, w). say [] t (s\<lparr>nu_con := b, nu_world := w\<rparr>))
       (client_event tty 0 conn e w_con (\<lambda>r w. w\<lparr>w_con := r\<rparr>) (nu_con s) (nu_world s))"

text \<open>One turn of the loop of \<^verbatim>\<open>main\<close>, which waits for an event; \<open>None\<close> if there is none any more.  The loop has no other end.\<close>

definition netuart_turn :: "int \<Rightarrow> netuart \<Rightarrow> (stop + netuart) option" where
  "netuart_turn tty s =
     (case w_polls (nu_world s) of
        [] \<Rightarrow> None
      | None # _ \<Rightarrow> Some (Inl (Exit (- 1)))
      | Some (e0, e1, e2) # polls \<Rightarrow>
          let c1 = lb_connected (nu_cmd s); c2 = lb_connected (nu_con s);
              s = s\<lparr>nu_world := (nu_world s)\<lparr>w_polls := polls\<rparr>\<rparr>
          in Some (case tty_event e0 s of Inl x \<Rightarrow> Inl x
               | Inr s \<Rightarrow> (case cmd_event tty c1 e1 s of Inl x \<Rightarrow> Inl x | Inr s \<Rightarrow> con_event tty c2 e2 s)))"

primrec netuart_turns :: "int \<Rightarrow> nat \<Rightarrow> netuart \<Rightarrow> stop + netuart" where
  "netuart_turns tty 0 s = Inr s"
| "netuart_turns tty (Suc n) s =
     (case netuart_turn tty s of None \<Rightarrow> Inr s | Some (Inl e) \<Rightarrow> Inl e | Some (Inr s) \<Rightarrow> netuart_turns tty n s)"

section \<open>The lines fit their buffers\<close>

lemma line_byte_fits: "length line \<le> 510 \<Longrightarrow> \<exists>line' t. line_byte c line = Inr (line', t) \<and> length line' \<le> 510"
  by (auto simp: line_byte_def Let_def)

lemma line_bytes_fit: "length line \<le> 510 \<Longrightarrow> \<exists>line' t. line_bytes cs line = Inr (line', t) \<and> length line' \<le> 510"
proof (induction cs arbitrary: line)
  case (Cons c cs)
  then obtain line1 t1 where 1: "line_byte c line = Inr (line1, t1)" "length line1 \<le> 510" using line_byte_fits by blast
  then show ?case using Cons.IH [OF 1(2)] by auto
qed simp

lemma out_bytes_fit:
  "length line \<le> 510 \<Longrightarrow> out_bytes cs line = Inl Assertion \<and> 0 \<in> set cs \<or> (\<exists>line' t. out_bytes cs line = Inr (line', t) \<and> length line' \<le> 510)"
proof (induction cs arbitrary: line)
  case (Cons c cs)
  obtain line1 t1 where 1: "line_byte (c AND 0x7f) line = Inr (line1, t1)" "length line1 \<le> 510"
    using line_byte_fits [OF Cons.prems] by blast
  then show ?case using Cons.IH [OF 1(2)] Cons.prems by auto
qed simp

definition lines_fit :: "linbufs \<Rightarrow> bool" where
  "lines_fit b \<longleftrightarrow> length (lb_iline b) \<le> 510 \<and> length (lb_oline b) \<le> 510"

end
