(* ===== verification/NetUartProps.thy ===== *)
theory NetUartProps
  imports NetUart
begin

text \<open>
  What the bridge promises: its buffers are never overrun, the bytes of the line are shared out by their bit 7 without
  loss and in their order, and what the clients of one bridge send is delivered to the clients of another.
\<close>

section \<open>Writing\<close>

text \<open>What has been written to a descriptor, and the writes that make progress.\<close>

definition out_to :: "int \<Rightarrow> world \<Rightarrow> u8 list" where
  "out_to fd w = map snd (filter (\<lambda>p. fst p = fd) (w_out w))"

definition same_scripts :: "world \<Rightarrow> world \<Rightarrow> bool" where
  "same_scripts w w' \<longleftrightarrow> w_tty w' = w_tty w \<and> w_cmd w' = w_cmd w \<and> w_con w' = w_con w \<and> w_polls w' = w_polls w"

definition writes_ok :: "world \<Rightarrow> bool" where
  "writes_ok w \<longleftrightarrow> (\<forall>x\<in>set (w_writes w). x \<noteq> Wr_error \<and> x \<noteq> Wrote 0)"

text \<open>The outcomes of an operation that writes \<open>bs\<close> to \<open>fd\<close>: the program ends, or the bytes have gone out.\<close>

definition sent :: "int \<Rightarrow> u8 list \<Rightarrow> world \<Rightarrow> world \<Rightarrow> bool" where
  "sent fd bs w w' \<longleftrightarrow>
     w_out w' = w_out w @ map (Pair fd) bs \<and> same_scripts w w' \<and> (writes_ok w \<longrightarrow> writes_ok w')"

lemma write_all_out:
  "write_all fd bs w = r \<Longrightarrow>
   (\<exists>x. r = Inl (Exit x)) \<and> (bs = [] \<or> \<not> writes_ok w) \<or> (\<exists>w'. r = Inr w' \<and> sent fd bs w w')"
proof (induction fd bs w arbitrary: r rule: write_all.induct)
  case (1 fd bs w)
  note r = 1(3) [unfolded write_all.simps [of fd bs w] Let_def]
  note sent = sent_def same_scripts_def writes_ok_def
  show ?case
  proof (cases "w_writes w")
    case Nil
    then show ?thesis using r by (auto simp: sent split: if_splits)
  next
    case (Cons x ws)
    show ?thesis
    proof (cases x)
      case (Wrote n)
      show ?thesis
      proof (cases "n \<noteq> 0 \<and> n < length bs")
        case True
        then have "write_all fd (drop n bs) (w\<lparr>w_writes := ws, w_out := w_out w @ map (Pair fd) (take n bs)\<rparr>) = r"
          using r Cons Wrote by auto
        moreover have "\<not> (n = 0 \<or> bs = [])" "n < length bs" using True by auto
        ultimately show ?thesis
          using 1(1) [OF refl Cons Wrote, of r] Cons Wrote by (auto simp: sent simp flip: map_append)
      next
        case False
        then show ?thesis using r Cons Wrote by (auto simp: sent split: if_splits)
      qed
    next
      case Again
      then show ?thesis using 1(2) [OF refl Cons Again _ refl] r Cons by (auto simp: sent split: if_splits)
    next
      case Wr_error
      then show ?thesis using r Cons by (auto simp: sent)
    qed
  qed
qed

lemma out_to_sent: "sent fd bs w w' \<Longrightarrow> out_to f w' = out_to f w @ (if f = fd then bs else [])"
  by (auto simp: sent_def out_to_def filter_map comp_def)

section \<open>The buffers\<close>

definition client_fits :: "linbufs \<Rightarrow> bool" where
  "client_fits b \<longleftrightarrow> lines_fit b \<and> length (lb_buf b) = BUFSZ"

definition bridge_fits :: "netuart \<Rightarrow> bool" where
  "bridge_fits s \<longleftrightarrow> client_fits (nu_cmd s) \<and> client_fits (nu_con s)"

definition same_socket :: "linbufs \<Rightarrow> linbufs \<Rightarrow> bool" where
  "same_socket b b' \<longleftrightarrow> lb_fd b' = lb_fd b \<and> lb_connected b' = lb_connected b"

text \<open>No operation of the bridge runs over a buffer: it ends the program, or the buffers of its result fit.\<close>

definition in_bounds :: "('a \<Rightarrow> bool) \<Rightarrow> stop + 'a \<Rightarrow> bool" where
  "in_bounds P r \<longleftrightarrow> (case r of Inl e \<Rightarrow> e \<noteq> Faulty Undefined | Inr x \<Rightarrow> P x)"

lemma in_bounds_simps [simp]: "in_bounds P (Inl e) \<longleftrightarrow> e \<noteq> Faulty Undefined" "in_bounds P (Inr x) \<longleftrightarrow> P x"
  by (simp_all add: in_bounds_def)

lemma put_buf_simps [simp]:
  "lb_fd (put_buf bs b) = lb_fd b" "lb_connected (put_buf bs b) = lb_connected b"
  "lb_buf (put_buf bs b) = bs @ drop (length bs) (lb_buf b)"
  "lb_iline (put_buf bs b) = lb_iline b" "lb_oline (put_buf bs b) = lb_oline b"
  by (simp_all add: put_buf_def)

lemma in_bounds_map: "in_bounds P (map_sum id f r) \<longleftrightarrow> in_bounds (\<lambda>x. P (f x)) r"
  by (simp add: in_bounds_def split: sum.split)

lemma in_bounds_mono: "in_bounds P r \<Longrightarrow> (\<And>x. P x \<Longrightarrow> Q x) \<Longrightarrow> in_bounds Q r"
  by (simp add: in_bounds_def split: sum.splits)

lemma in_bounds_bind:
  "in_bounds P r \<Longrightarrow> (\<And>x. P x \<Longrightarrow> in_bounds Q (f x)) \<Longrightarrow> in_bounds Q (case r of Inl e \<Rightarrow> Inl e | Inr x \<Rightarrow> f x)"
  by (cases r) simp_all

lemma client_fits_put: "client_fits b \<Longrightarrow> length bs \<le> BUFSZ \<Longrightarrow> client_fits (put_buf bs b)"
  by (simp add: client_fits_def lines_fit_def put_buf_def)

lemma to_client_cases:
  assumes "to_client bs b w = r"
  shows "(\<exists>x. r = Inl (Exit x)) \<and> \<not> writes_ok w
    \<or> (\<exists>w'. r = Inr (put_buf bs b, w') \<and> sent (lb_fd b) (if lb_fd b \<ge> 0 then bs else []) w w')"
proof (cases "0 \<le> lb_fd b \<and> bs \<noteq> []")
  case True
  then have "r = map_sum id (\<lambda>w. (put_buf bs b, w)) (write_all (lb_fd b) bs w)"
    using assms by (cases "write_all (lb_fd b) bs w") (auto simp: to_client_def lb_write_def put_buf_def)
  then show ?thesis using True write_all_out [OF refl, of "lb_fd b" bs w] by auto
next
  case False
  then show ?thesis using assms by (auto simp: to_client_def Let_def sent_def same_scripts_def)
qed

lemma show_in_fits:
  assumes "client_fits b" "lb_buf b = bs @ rest"
  shows "\<exists>b' ts. show_in bs b = Inr (b', ts) \<and> client_fits b' \<and> same_socket b b'"
proof (cases "bs = []")
  case True
  then show ?thesis using assms by (simp add: show_in_def same_socket_def)
next
  case False
  obtain line ts where "line_bytes bs (lb_iline b) = Inr (line, ts)" "length line \<le> 510"
    using line_bytes_fit [of "lb_iline b" bs] assms by (auto simp: client_fits_def lines_fit_def)
  then show ?thesis
    using False assms by (auto simp: show_in_def print_in_def client_fits_def lines_fit_def same_socket_def)
qed

lemma shown:
  assumes "client_fits b" "length bs \<le> BUFSZ"
  shows "\<exists>b' ts. show_in bs (put_buf bs b) = Inr (b', ts) \<and> client_fits b' \<and> same_socket b b'"
proof -
  obtain b' ts where "show_in bs (put_buf bs b) = Inr (b', ts)" "client_fits b'" "same_socket (put_buf bs b) b'"
    using show_in_fits [OF client_fits_put [OF assms] put_buf_simps(3)] by blast
  then show ?thesis by (simp add: same_socket_def)
qed

text \<open>What one read of the line does.\<close>

definition for_cmd :: "u8 list \<Rightarrow> u8 list" where "for_cmd raw = map (\<lambda>c. c AND 0x7f) (filter high raw)"
definition for_con :: "u8 list \<Rightarrow> u8 list" where "for_con raw = filter (\<lambda>c. \<not> high c) raw"

lemma for_append [simp]: "for_cmd (a @ b) = for_cmd a @ for_cmd b" "for_con (a @ b) = for_con a @ for_con b"
  by (simp_all add: for_cmd_def for_con_def)

lemma for_Nil [simp]: "for_cmd [] = []" "for_con [] = []"
  by (simp_all add: for_cmd_def for_con_def)

definition shared :: "u8 list \<Rightarrow> netuart \<Rightarrow> netuart \<Rightarrow> bool" where
  "shared raw s s' \<longleftrightarrow>
     bridge_fits s' \<and> same_socket (nu_cmd s) (nu_cmd s') \<and> same_socket (nu_con s) (nu_con s')
     \<and> (writes_ok (nu_world s) \<longrightarrow> writes_ok (nu_world s'))
     \<and> (lb_fd (nu_cmd s) \<noteq> lb_fd (nu_con s) \<longrightarrow>
          (0 \<le> lb_fd (nu_cmd s) \<longrightarrow>
             out_to (lb_fd (nu_cmd s)) (nu_world s') = out_to (lb_fd (nu_cmd s)) (nu_world s) @ for_cmd raw)
          \<and> (0 \<le> lb_fd (nu_con s) \<longrightarrow>
             out_to (lb_fd (nu_con s)) (nu_world s') = out_to (lb_fd (nu_con s)) (nu_world s) @ for_con raw))"

lemma share_out_cases:
  assumes "bridge_fits s" "length raw \<le> BUFSZ"
  shows "(\<exists>x. share_out raw s = Inl (Exit x)) \<and> \<not> writes_ok (nu_world s)
    \<or> (\<exists>s'. share_out raw s = Inr s' \<and> shared raw s s' \<and> same_scripts (nu_world s) (nu_world s'))"
proof -
  let ?w = "nu_world s"
  have len: "length (for_cmd raw) \<le> BUFSZ" "length (for_con raw) \<le> BUFSZ"
    using assms(2) by (auto simp: for_cmd_def for_con_def intro: le_trans [OF length_filter_le])
  have share: "share_out raw s = (case to_client (for_cmd raw) (nu_cmd s) ?w of Inl e \<Rightarrow> Inl e
      | Inr (bcmd, w) \<Rightarrow>
          (case to_client (for_con raw) (nu_con s) w of Inl e \<Rightarrow> Inl e
           | Inr (bcon, w) \<Rightarrow>
               (case show_in (for_cmd raw) bcmd of Inl e \<Rightarrow> Inl e
                | Inr (bcmd', t1) \<Rightarrow>
                    (case show_in (for_con raw) bcon of Inl e \<Rightarrow> Inl e
                     | Inr (bcon, t2) \<Rightarrow>
                         Inr (say [] t2 (say (if lb_fd bcmd \<ge> 0 then ''> '' else ''# '') t1
                           (s\<lparr>nu_cmd := bcmd', nu_con := bcon, nu_world := w\<rparr>)))))))"
    unfolding share_out_def for_cmd_def for_con_def Let_def by (rule refl)
  consider (exit) x where "to_client (for_cmd raw) (nu_cmd s) ?w = Inl (Exit x)" "\<not> writes_ok ?w"
    | (ok) w1 where "to_client (for_cmd raw) (nu_cmd s) ?w = Inr (put_buf (for_cmd raw) (nu_cmd s), w1)"
        "sent (lb_fd (nu_cmd s)) (if lb_fd (nu_cmd s) \<ge> 0 then for_cmd raw else []) ?w w1"
    using to_client_cases [OF refl, of "for_cmd raw" "nu_cmd s" ?w] by blast
  then show ?thesis
  proof cases
    case exit
    then show ?thesis by (simp add: share)
  next
    case ok
    consider (exit2) x where "to_client (for_con raw) (nu_con s) w1 = Inl (Exit x)" "\<not> writes_ok w1"
      | (ok2) w2 where "to_client (for_con raw) (nu_con s) w1 = Inr (put_buf (for_con raw) (nu_con s), w2)"
          "sent (lb_fd (nu_con s)) (if lb_fd (nu_con s) \<ge> 0 then for_con raw else []) w1 w2"
      using to_client_cases [OF refl, of "for_con raw" "nu_con s" w1] by blast
    then show ?thesis
    proof cases
      case exit2
      then show ?thesis using ok(2) by (simp add: share ok(1) sent_def)
    next
      case ok2
      obtain b1 t1 where 1: "show_in (for_cmd raw) (put_buf (for_cmd raw) (nu_cmd s)) = Inr (b1, t1)"
          "client_fits b1" "same_socket (nu_cmd s) b1"
        using shown [OF _ len(1), of "nu_cmd s"] assms(1) unfolding bridge_fits_def by blast
      obtain b2 t2 where 2: "show_in (for_con raw) (put_buf (for_con raw) (nu_con s)) = Inr (b2, t2)"
          "client_fits b2" "same_socket (nu_con s) b2"
        using shown [OF _ len(2), of "nu_con s"] assms(1) unfolding bridge_fits_def by blast
      have out: "out_to f w2 = out_to f ?w @ (if f = lb_fd (nu_cmd s) \<and> 0 \<le> f then for_cmd raw else [])
          @ (if f = lb_fd (nu_con s) \<and> 0 \<le> f then for_con raw else [])" for f
        by (simp add: out_to_sent [OF ok(2)] out_to_sent [OF ok2(2)])
      have scripts: "same_scripts ?w w2" "writes_ok ?w \<longrightarrow> writes_ok w2"
        using ok(2) ok2(2) by (simp_all add: sent_def same_scripts_def)
      have "shared raw s s'" if "nu_cmd s' = b1" "nu_con s' = b2" "nu_world s' = w2" for s'
        unfolding shared_def bridge_fits_def that
        using 1(2,3) 2(2,3) scripts(2) by (simp add: out)
      with scripts(1) have "shared raw s (say [] t2 (say p t1 (s\<lparr>nu_cmd := b1, nu_con := b2, nu_world := w2\<rparr>)))
          \<and> same_scripts ?w (nu_world (say [] t2 (say p t1 (s\<lparr>nu_cmd := b1, nu_con := b2, nu_world := w2\<rparr>))))" for p
        by (simp add: say_def)
      then show ?thesis using ok(1) ok2(1) 1(1) 2(1) by (simp add: share)
    qed
  qed
qed

section \<open>The line\<close>

text \<open>The bytes that can be read before the line has nothing more.\<close>

fun tty_bytes :: "rd list \<Rightarrow> u8 list" where
  "tty_bytes (Got bs # s) = (if bs = [] then [] else bs @ tty_bytes s)"
| "tty_bytes _ = []"

lemma read_script_bytes:
  "read_script s = (r, s') \<Longrightarrow>
   (case r of Got bs \<Rightarrow> tty_bytes s = bs @ tty_bytes s' \<and> 0 < length bs \<and> length bs \<le> BUFSZ | _ \<Rightarrow> tty_bytes s = [])"
  by (cases s rule: tty_bytes.cases) (auto simp: read_script_def BUFSZ_def split: if_splits)

lemma shared_trans: "shared r1 s s1 \<Longrightarrow> shared r2 s1 s2 \<Longrightarrow> shared (r1 @ r2) s s2"
  by (auto simp: shared_def same_socket_def)

lemma shared_refl: "bridge_fits s \<Longrightarrow> shared [] s s"
  by (simp add: shared_def same_socket_def)

lemma shared_polls: "shared raw (s\<lparr>nu_world := (nu_world s)\<lparr>w_polls := p\<rparr>\<rparr>) s' \<longleftrightarrow> shared raw s s'"
  by (simp add: shared_def writes_ok_def out_to_def)

lemma shared_tty [simp]: "shared raw (s\<lparr>nu_world := (nu_world s)\<lparr>w_tty := t\<rparr>\<rparr>) s' \<longleftrightarrow> shared raw s s'"
  by (simp add: shared_def writes_ok_def out_to_def)

definition rd_bytes :: "rd \<Rightarrow> u8 list" where "rd_bytes r = (case r of Got bs \<Rightarrow> bs | _ \<Rightarrow> [])"

lemma drain_tty_cases:
  assumes "bridge_fits s" "length (rd_bytes r) \<le> BUFSZ"
  shows "(\<exists>x. drain_tty r s = Inl (Exit x)) \<and> \<not> writes_ok (nu_world s)
    \<or> (\<exists>s'. drain_tty r s = Inr s'
        \<and> shared (case r of Got raw \<Rightarrow> raw @ tty_bytes (w_tty (nu_world s)) | _ \<Rightarrow> []) s s'
        \<and> w_polls (nu_world s') = w_polls (nu_world s) \<and> w_cmd (nu_world s') = w_cmd (nu_world s)
        \<and> w_con (nu_world s') = w_con (nu_world s))"
  using assms
proof (induction r s rule: drain_tty.induct)
  case (1 r s)
  show ?case
  proof (cases r)
    case (Got raw)
    have len: "length raw \<le> BUFSZ" using 1(3) Got by (simp add: rd_bytes_def)
    show ?thesis
    proof (cases "share_out raw s")
      case (Inl e)
      then show ?thesis using share_out_cases [OF 1(2) len] Got by (auto simp: drain_tty.simps)
    next
      case (Inr s1)
      then have s1: "shared raw s s1" "same_scripts (nu_world s) (nu_world s1)"
        using share_out_cases [OF 1(2) len] by auto
      obtain r2 rest where rd: "read_script (w_tty (nu_world s1)) = (r2, rest)" by fastforce
      have step: "drain_tty r s = drain_tty r2 (s1\<lparr>nu_world := (nu_world s1)\<lparr>w_tty := rest\<rparr>\<rparr>)"
        by (subst drain_tty.simps) (simp add: Got Inr rd)
      have fits: "bridge_fits (s1\<lparr>nu_world := (nu_world s1)\<lparr>w_tty := rest\<rparr>\<rparr>)" "length (rd_bytes r2) \<le> BUFSZ"
        using s1(1) read_script_bytes [OF rd] by (auto simp: shared_def bridge_fits_def rd_bytes_def split: rd.splits)
      have bytes: "tty_bytes (w_tty (nu_world s)) = (case r2 of Got raw \<Rightarrow> raw @ tty_bytes rest | _ \<Rightarrow> [])"
        using read_script_bytes [OF rd] s1(2) by (auto simp: same_scripts_def split: rd.splits)
      have ok: "writes_ok (nu_world s1\<lparr>w_tty := rest\<rparr>)" if "writes_ok (nu_world s)"
        using s1(1) that by (simp add: shared_def writes_ok_def)
      let ?s1 = "s1\<lparr>nu_world := (nu_world s1)\<lparr>w_tty := rest\<rparr>\<rparr>"
      consider (exit) x where "drain_tty r2 ?s1 = Inl (Exit x)" "\<not> writes_ok (nu_world s1\<lparr>w_tty := rest\<rparr>)"
        | (ok) s' where "drain_tty r2 ?s1 = Inr s'" "shared (tty_bytes (w_tty (nu_world s))) s1 s'"
            "w_polls (nu_world s') = w_polls (nu_world s1)" "w_cmd (nu_world s') = w_cmd (nu_world s1)"
            "w_con (nu_world s') = w_con (nu_world s1)"
        using 1(1) [OF Got Inr rd [symmetric] fits] by (auto simp: bytes cong: rd.case_cong)
      then show ?thesis
      proof cases
        case exit
        show ?thesis unfolding step using exit ok by blast
      next
        case ok
        show ?thesis unfolding step using ok s1(2) shared_trans [OF s1(1) ok(2)] by (simp add: Got same_scripts_def)
      qed
    qed
  qed (auto simp: drain_tty.simps shared_refl 1(2))
qed

lemma tty_event_cases:
  assumes "bridge_fits s"
  shows "(\<exists>x. tty_event e s = Inl (Exit x)) \<and> \<not> (e = Readable \<and> tty_bytes (w_tty (nu_world s)) \<noteq> [] \<and> writes_ok (nu_world s))
      \<and> e \<noteq> Quiet
    \<or> (\<exists>s'. tty_event e s = Inr s' \<and> shared (if e = Readable then tty_bytes (w_tty (nu_world s)) else []) s s'
        \<and> w_polls (nu_world s') = w_polls (nu_world s) \<and> w_cmd (nu_world s') = w_cmd (nu_world s)
        \<and> w_con (nu_world s') = w_con (nu_world s))"
proof (cases e)
  case Readable
  obtain r rest where rd: "read_script (w_tty (nu_world s)) = (r, rest)" by fastforce
  show ?thesis
  proof (cases r)
    case (Got raw)
    let ?s = "s\<lparr>nu_world := (nu_world s)\<lparr>w_tty := rest\<rparr>\<rparr>"
    have fits: "bridge_fits ?s" "length (rd_bytes (Got raw)) \<le> BUFSZ"
      using assms read_script_bytes [OF rd] Got by (simp_all add: bridge_fits_def rd_bytes_def)
    have ok: "writes_ok (nu_world s\<lparr>w_tty := rest\<rparr>) = writes_ok (nu_world s)" by (simp add: writes_ok_def)
    show ?thesis
      using drain_tty_cases [OF fits] read_script_bytes [OF rd] Readable Got
      by (auto simp: tty_event_def rd ok)
  next
    case At_end
    then show ?thesis using read_script_bytes [OF rd] Readable by (simp add: tty_event_def rd)
  next
    case Rd_error
    then show ?thesis using read_script_bytes [OF rd] Readable by (simp add: tty_event_def rd)
  qed
next
  case Quiet
  then show ?thesis by (simp add: tty_event_def shared_refl assms)
next
  case Strange
  then show ?thesis by (simp add: tty_event_def)
qed

section \<open>The clients\<close>

text \<open>A client's bytes go to the line, unless there is a zero among those of the console.\<close>

lemma from_client_cases:
  assumes "client_fits b" "length bs \<le> BUFSZ" "bs \<noteq> []" "from_client tty m (Got bs) b w = r"
  defines "out \<equiv> map (\<lambda>c. c OR m) bs"
  shows "(\<exists>x. r = Inl (Exit x)) \<and> \<not> writes_ok w \<or> r = Inl (Faulty Assertion) \<and> 0 \<in> set out
    \<or> (\<exists>t b' w'. r = Inr (t, b', w') \<and> client_fits b' \<and> same_socket b b' \<and> sent tty out w w')"
proof -
  define b1 where "b1 = put_buf out b"
  have len: "length out = length bs" by (simp add: out_def)
  have writing: "lb_write tty (length bs) m (put_buf bs b) w = map_sum id (\<lambda>w. (length bs, b1, w)) (write_all tty out w)"
    by (simp add: lb_write_def put_buf_def b1_def out_def len)
  have b1: "client_fits b1" unfolding b1_def by (rule client_fits_put [OF assms(1)]) (simp add: len assms(2))
  have po: "print_out (length bs) b1 = map_sum id (\<lambda>(line, ts). (b1\<lparr>lb_oline := line\<rparr>, ts)) (out_bytes out (lb_oline b1))"
    by (simp add: print_out_def b1_def len)
  consider (exit) x where "write_all tty out w = Inl (Exit x)" "\<not> writes_ok w"
    | (ok) w' where "write_all tty out w = Inr w'" "sent tty out w w'"
    using write_all_out [OF refl, of tty out w] assms(3) out_def by auto
  then show ?thesis
  proof cases
    case exit
    then show ?thesis using assms(4) by (auto simp: from_client_def writing)
  next
    case ok
    consider "out_bytes out (lb_oline b1) = Inl Assertion" "0 \<in> set out"
      | line t where "out_bytes out (lb_oline b1) = Inr (line, t)" "length line \<le> 510"
      using out_bytes_fit [of "lb_oline b1" out] b1 by (auto simp: client_fits_def lines_fit_def)
    then show ?thesis
    proof cases
      case 1
      then show ?thesis using assms(4) ok by (simp add: from_client_def writing po)
    next
      case 2
      have "r = Inr (t, b1\<lparr>lb_oline := line\<rparr>, w')"
        using assms(4) ok(1) 2(1) by (simp add: from_client_def writing po)
      moreover have "client_fits (b1\<lparr>lb_oline := line\<rparr>)" "same_socket b (b1\<lparr>lb_oline := line\<rparr>)"
        using b1 2(2) by (simp_all add: client_fits_def lines_fit_def same_socket_def b1_def)
      ultimately show ?thesis using ok(2) by blast
    qed
  qed
qed

lemma close_fits: "client_fits b \<Longrightarrow> client_fits (lb_close b)"
  by (simp add: client_fits_def lines_fit_def lb_close_def)

lemma client_event_in_bounds:
  assumes "client_fits b"
  shows "in_bounds (\<lambda>(t, b', w'). client_fits b') (client_event tty m conn e script put b w)"
proof -
  obtain r rest where rd: "read_script (script w) = (r, rest)" by fastforce
  have "in_bounds (\<lambda>(t, b', w'). client_fits b') (from_client tty m r b w')" for w'
  proof (cases r)
    case (Got bs)
    then show ?thesis
      using from_client_cases [OF assms _ _ refl, of bs tty m w'] read_script_bytes [OF rd] by auto
  next
    case At_end
    then show ?thesis
      using close_fits [OF assms] close_fits [of "b\<lparr>lb_oline := []\<rparr>"] assms
      by (auto simp: from_client_def flush_out_def client_fits_def lines_fit_def)
  next
    case Rd_error
    then show ?thesis using assms by (simp add: from_client_def)
  qed
  moreover have "in_bounds (\<lambda>b. client_fits b) (lb_accept fds b)" for fds
    using assms by (cases fds) (auto simp: lb_accept_def client_fits_def lines_fit_def)
  ultimately show ?thesis
    using assms by (auto simp: client_event_def rd in_bounds_map)
qed

lemma netuart_turn_in_bounds:
  assumes "bridge_fits s" "netuart_turn tty s = Some r"
  shows "in_bounds bridge_fits r"
proof -
  have cmd: "in_bounds bridge_fits (cmd_event tty c e s)" if "bridge_fits s" for c e s
    unfolding cmd_event_def in_bounds_map
    using that by (intro in_bounds_mono [OF client_event_in_bounds]) (auto simp: bridge_fits_def say_def)
  have con: "in_bounds bridge_fits (con_event tty c e s)" if "bridge_fits s" for c e s
    unfolding con_event_def in_bounds_map
    using that by (intro in_bounds_mono [OF client_event_in_bounds]) (auto simp: bridge_fits_def say_def)
  have tty: "in_bounds bridge_fits (tty_event e s)" if "bridge_fits s" for e s
    using tty_event_cases [OF that, of e] by (auto simp: shared_def)
  show ?thesis
  proof (cases "w_polls (nu_world s)")
    case (Cons p polls)
    have fits: "bridge_fits (s\<lparr>nu_world := w\<rparr>)" for w using assms(1) by (simp add: bridge_fits_def)
    show ?thesis
    proof (cases p)
      case (Some es)
      obtain e0 e1 e2 where es: "es = (e0, e1, e2)" by (cases es)
      show ?thesis
        using assms(2) Cons Some
        by (auto simp: netuart_turn_def Let_def es intro!: in_bounds_bind [of bridge_fits] tty cmd con fits)
    qed (use assms Cons in \<open>auto simp: netuart_turn_def\<close>)
  qed (use assms in \<open>simp add: netuart_turn_def\<close>)
qed

lemma turns_in_bounds: "bridge_fits s \<Longrightarrow> in_bounds bridge_fits (netuart_turns tty n s)"
proof (induction n arbitrary: s)
  case (Suc n)
  show ?case
  proof (cases "netuart_turn tty s")
    case None
    then show ?thesis using Suc.prems by simp
  next
    case (Some r)
    then show ?thesis using netuart_turn_in_bounds [OF Suc.prems Some] Suc.IH by (cases r) simp_all
  qed
qed simp

definition demo_client :: "int \<Rightarrow> linbufs" where
  "demo_client fd = \<lparr>lb_iline = [], lb_oline = [], lb_buf = replicate 256 0, lb_fd = fd, lb_connected = True\<rparr>"

definition demo_bridge :: "(event \<times> event \<times> event) list \<Rightarrow> rd list \<Rightarrow> rd list \<Rightarrow> rd list \<Rightarrow> netuart" where
  "demo_bridge polls tty cmd con =
     \<lparr>nu_cmd = demo_client 5, nu_con = demo_client 6,
      nu_world = \<lparr>w_polls = map Some polls, w_tty = tty, w_cmd = cmd, w_con = con, w_accepts = [], w_writes = [Wrote 1, Again],
        w_out = []\<rparr>, nu_text = []\<rparr>"

lemma demo_bridge_fits: "bridge_fits (demo_bridge polls tty cmd con)"
  by (simp add: bridge_fits_def client_fits_def lines_fit_def demo_bridge_def demo_client_def BUFSZ_def)

text \<open>C33:
  No sequence of events, reads and writes makes the bridge run over one of its buffers: the two lines of a client hold at most
  510 of their 512 bytes between two bytes, the buffer stays at its 256, and whatever ends the program is not an access
  out of bounds.
\<close>

theorem bridge_stays_in_bounds:
  assumes "bridge_fits s"
  shows "netuart_turns tty n s \<noteq> Inl (Faulty Undefined)
    \<and> (case netuart_turns tty n s of Inr s' \<Rightarrow> bridge_fits s' | Inl e \<Rightarrow> True)"
  using turns_in_bounds [OF assms, of tty n] by (auto simp: in_bounds_def split: sum.splits)

theorem bridge_stays_in_bounds_witness:
  "netuart_turns 4 9 (demo_bridge [(Readable, Readable, Readable), (Quiet, Readable, Quiet)] [Got [0x41, 0xc2]] [Got [0x52]] [])
     \<noteq> Inl (Faulty Undefined)"
  using bridge_stays_in_bounds [OF demo_bridge_fits] by blast

section \<open>Two bridges\<close>

definition seven_bits :: "u8 list \<Rightarrow> bool" where
  "seven_bits bs \<longleftrightarrow> (\<forall>c\<in>set bs. \<not> high c)"

lemma high_or: "high (c OR 0x80)"
proof -
  have "(c OR 0x80) AND 0x80 = (0x80 :: u8)"
    by (rule bit_word_eqI) (auto simp: bit_simps)
  then show ?thesis by (simp add: high_def)
qed

lemma or_high_nonzero: "(c :: u8) OR 0x80 \<noteq> 0"
  using high_or [of c] unfolding high_def by (metis bit.conj_zero_left)

lemma seven_or: "\<not> high c \<Longrightarrow> (c OR 0x80) AND 0x7f = c"
proof -
  assume "\<not> high c"
  then have "c AND 0x80 = 0" by (simp add: high_def)
  moreover have "(0x7f OR 0x80 :: u8) = -1" by code_simp
  ultimately have "c = c AND 0x7f" by (metis bit.conj_disj_distrib bit.conj_one_right bit.disj_zero_right)
  then show ?thesis by (simp add: bit.conj_disj_distrib2)
qed

lemma shares_of_both:
  assumes "seven_bits cs" "seven_bits ks"
  shows "for_cmd (map (\<lambda>c. c OR 0x80) cs @ ks) = cs" "for_con (map (\<lambda>c. c OR 0x80) cs @ ks) = ks"
proof -
  have f: "filter (\<lambda>c. \<not> high c) ks = ks" "filter high ks = []"
    using assms(2) by (auto simp: seven_bits_def filter_empty_conv intro: filter_True)
  have m: "map (\<lambda>c. (c OR 0x80) AND 0x7f) cs = cs"
    using assms(1) by (intro map_idI) (simp add: seven_bits_def seven_or)
  show "for_cmd (map (\<lambda>c. c OR 0x80) cs @ ks) = cs" "for_con (map (\<lambda>c. c OR 0x80) cs @ ks) = ks"
    using f m by (simp_all add: for_cmd_def for_con_def filter_map comp_def high_or)
qed

lemma quiet_clients [simp]: "cmd_event tty c Quiet s = Inr s" "con_event tty c Quiet s = Inr s"
  by (simp_all add: cmd_event_def con_event_def client_event_def say_def)

text \<open>A turn in which only the line, or only the two clients, have something.\<close>

lemma turn_shares:
  assumes "bridge_fits s" "w_polls (nu_world s) = Some (Readable, Quiet, Quiet) # ps"
    and "tty_bytes (w_tty (nu_world s)) \<noteq> []" "writes_ok (nu_world s)"
  shows "\<exists>s'. netuart_turn tty s = Some (Inr s') \<and> shared (tty_bytes (w_tty (nu_world s))) s s'"
proof -
  let ?s = "s\<lparr>nu_world := (nu_world s)\<lparr>w_polls := ps\<rparr>\<rparr>"
  have "bridge_fits ?s" using assms(1) by (simp add: bridge_fits_def)
  moreover have "writes_ok (nu_world ?s)" "w_tty (nu_world ?s) = w_tty (nu_world s)"
    using assms(4) by (simp_all add: writes_ok_def)
  ultimately obtain s' where
      tty: "tty_event Readable ?s = Inr s'" and out: "shared (tty_bytes (w_tty (nu_world s))) ?s s'"
    using tty_event_cases [of ?s Readable] assms(3) by metis
  have "netuart_turn tty s = Some (Inr s')"
    unfolding netuart_turn_def assms(2) by (simp only: Let_def list.case option.case prod.case tty sum.case quiet_clients)
  moreover have "shared (tty_bytes (w_tty (nu_world s))) s s'"
    using out unfolding shared_polls .
  ultimately show ?thesis by blast
qed

lemma turn_sends:
  assumes "bridge_fits s" "w_polls (nu_world s) = Some (Quiet, Readable, Readable) # ps"
    and "w_cmd (nu_world s) = Got cs # rest1" "w_con (nu_world s) = Got ks # rest2"
    and "cs \<noteq> []" "length cs \<le> 256" "ks \<noteq> []" "length ks \<le> 256" "0 \<notin> set ks"
    and "lb_connected (nu_cmd s)" "lb_connected (nu_con s)" "0 \<le> lb_fd (nu_cmd s)" "0 \<le> lb_fd (nu_con s)"
    and "writes_ok (nu_world s)"
  shows "\<exists>s'. netuart_turn tty s = Some (Inr s')
    \<and> out_to tty (nu_world s') = out_to tty (nu_world s) @ map (\<lambda>c. c OR 0x80) cs @ ks"
proof -
  let ?w = "(nu_world s)\<lparr>w_polls := ps, w_cmd := rest1\<rparr>"
  have fits: "client_fits (nu_cmd s)" "client_fits (nu_con s)" using assms(1) by (simp_all add: bridge_fits_def)
  have rd: "read_script (Got cs # rest1) = (Got cs, rest1)" "read_script (Got ks # rest2) = (Got ks, rest2)"
    using assms(5-8) by (simp_all add: read_script_def BUFSZ_def)
  have ok: "writes_ok ?w" using assms(14) by (simp add: writes_ok_def)
  have nz: "0 \<notin> set (map (\<lambda>c. c OR 0x80) cs)" "0 \<notin> set (map (\<lambda>c. c OR 0) ks)"
    using assms(9) or_high_nonzero by auto
  have len: "length cs \<le> BUFSZ" "length ks \<le> BUFSZ" using assms(6,8) by (simp_all add: BUFSZ_def)
  obtain t1 b1 w1 where 1: "from_client tty 0x80 (Got cs) (nu_cmd s) ?w = Inr (t1, b1, w1)"
      "sent tty (map (\<lambda>c. c OR 0x80) cs) ?w w1"
    using from_client_cases [OF fits(1) len(1) assms(5) refl, where m = "0x80" and tty = tty and w = ?w] ok nz(1) by blast
  have sent1: "same_scripts ?w w1" "writes_ok w1" using 1(2) ok unfolding sent_def by blast+
  have w1: "writes_ok (w1\<lparr>w_con := rest2\<rparr>)" "w_con w1 = Got ks # rest2"
    using sent1 assms(4) by (simp_all add: same_scripts_def writes_ok_def)
  obtain t2 b2 w2 where 2: "from_client tty 0 (Got ks) (nu_con s) (w1\<lparr>w_con := rest2\<rparr>) = Inr (t2, b2, w2)"
      "sent tty (map (\<lambda>c. c OR 0) ks) (w1\<lparr>w_con := rest2\<rparr>) w2"
    using from_client_cases [OF fits(2) len(2) assms(7) refl, where m = 0 and tty = tty and w = "w1\<lparr>w_con := rest2\<rparr>"]
      w1(1) nz(2) by blast
  have "out_to tty w2 = out_to tty w1 @ ks" using out_to_sent [OF 2(2), of tty] by (simp add: out_to_def)
  moreover have "out_to tty w1 = out_to tty (nu_world s) @ map (\<lambda>c. c OR 0x80) cs"
    using out_to_sent [OF 1(2), of tty] by (simp add: out_to_def)
  ultimately show ?thesis
    using assms(2-4,10-13) rd 1(1) 2(1) w1(2)
    by (simp add: netuart_turn_def tty_event_def cmd_event_def con_event_def client_event_def say_def)
qed

text \<open>C34:
  Two bridges carry what the clients of one send to the clients of the other: when both clients have sent bytes of seven bits,
  the console client no zero, one turn puts them on the line; and a bridge that reads from its line just these bytes, in
  pieces of any sizes, hands to its command client exactly what the command client of the first has sent, and to its console
  client what the console client has, in their order.
\<close>

theorem bridges_carry_clients:
  assumes "bridge_fits a" "w_polls (nu_world a) = Some (Quiet, Readable, Readable) # ps"
    and "w_cmd (nu_world a) = Got cs # rest1" "w_con (nu_world a) = Got ks # rest2"
    and "cs \<noteq> []" "length cs \<le> 256" "ks \<noteq> []" "length ks \<le> 256" "seven_bits (cs @ ks)" "0 \<notin> set ks"
    and "lb_connected (nu_cmd a)" "lb_connected (nu_con a)" "0 \<le> lb_fd (nu_cmd a)" "0 \<le> lb_fd (nu_con a)"
    and "writes_ok (nu_world a)" "out_to tty (nu_world a) = []"
    and "bridge_fits b" "w_polls (nu_world b) = Some (Readable, Quiet, Quiet) # qs" "writes_ok (nu_world b)"
    and "tty_bytes (w_tty (nu_world b)) = map (\<lambda>c. c OR 0x80) cs @ ks"
    and "0 \<le> lb_fd (nu_cmd b)" "0 \<le> lb_fd (nu_con b)" "lb_fd (nu_cmd b) \<noteq> lb_fd (nu_con b)"
  shows "\<exists>a' b'. netuart_turn tty a = Some (Inr a') \<and> netuart_turn tty' b = Some (Inr b')
    \<and> out_to tty (nu_world a') = tty_bytes (w_tty (nu_world b))
    \<and> out_to (lb_fd (nu_cmd b)) (nu_world b') = out_to (lb_fd (nu_cmd b)) (nu_world b) @ cs
    \<and> out_to (lb_fd (nu_con b)) (nu_world b') = out_to (lb_fd (nu_con b)) (nu_world b) @ ks"
proof -
  let ?line = "map (\<lambda>c. c OR 0x80) cs @ ks"
  obtain a' where a': "netuart_turn tty a = Some (Inr a')" "out_to tty (nu_world a') = ?line"
    using turn_sends [OF assms(1-8,10-15), of tty] assms(16) by auto
  have parts: "for_cmd ?line = cs" "for_con ?line = ks"
    using shares_of_both assms(9) by (auto simp: seven_bits_def)
  have "tty_bytes (w_tty (nu_world b)) \<noteq> []" using assms(5,20) by simp
  then obtain b' where "netuart_turn tty' b = Some (Inr b')" "shared ?line b b'"
    using turn_shares [OF assms(17,18) _ assms(19)] unfolding assms(20) by blast
  then show ?thesis using a' assms(20-23) unfolding shared_def parts by auto
qed

theorem bridges_carry_clients_witness:
  "\<exists>a' b'. netuart_turn 4 (demo_bridge [(Quiet, Readable, Readable)] [] [Got [0x52, 0]] [Got [0x41]]) = Some (Inr a')
    \<and> netuart_turn 4 (demo_bridge [(Readable, Quiet, Quiet)] [Got [0xd2], Got [0x80, 0x41]] [] []) = Some (Inr b')
    \<and> out_to 5 (nu_world b') = [0x52, 0] \<and> out_to 6 (nu_world b') = [0x41]"
proof -
  let ?a = "demo_bridge [(Quiet, Readable, Readable)] [] [Got [0x52, 0]] [Got [0x41]]"
  let ?b = "demo_bridge [(Readable, Quiet, Quiet)] [Got [0xd2], Got [0x80, 0x41]] [] []"
  have demo: "lb_fd (nu_cmd (demo_bridge p t c k)) = 5" "lb_fd (nu_con (demo_bridge p t c k)) = 6"
    "lb_connected (nu_cmd (demo_bridge p t c k))" "lb_connected (nu_con (demo_bridge p t c k))"
    "w_polls (nu_world (demo_bridge p t c k)) = map Some p" "w_tty (nu_world (demo_bridge p t c k)) = t"
    "w_cmd (nu_world (demo_bridge p t c k)) = c" "w_con (nu_world (demo_bridge p t c k)) = k"
    "writes_ok (nu_world (demo_bridge p t c k))" "out_to f (nu_world (demo_bridge p t c k)) = []" for p t c k f
    by (simp_all add: demo_bridge_def demo_client_def writes_ok_def out_to_def)
  have "seven_bits ([0x52, 0] @ [0x41])" by (simp add: seven_bits_def high_def)
  then have "\<exists>a' b'. netuart_turn 4 ?a = Some (Inr a') \<and> netuart_turn 4 ?b = Some (Inr b')
    \<and> out_to 4 (nu_world a') = tty_bytes (w_tty (nu_world ?b))
    \<and> out_to (lb_fd (nu_cmd ?b)) (nu_world b') = out_to (lb_fd (nu_cmd ?b)) (nu_world ?b) @ [0x52, 0]
    \<and> out_to (lb_fd (nu_con ?b)) (nu_world b') = out_to (lb_fd (nu_con ?b)) (nu_world ?b) @ [0x41]"
    by (intro bridges_carry_clients [where ps = "[]" and ?rest1.0 = "[]" and ?rest2.0 = "[]" and qs = "[]"])
      (simp_all only: demo_bridge_fits demo, simp_all)
  then show ?thesis unfolding demo by auto
qed

text \<open>A zero byte from the console client is put on the line, and then ends the program by an assertion.\<close>

lemma console_zero_aborts:
  assumes "bridge_fits s" "w_polls (nu_world s) = Some (Quiet, Quiet, Readable) # ps" "w_con (nu_world s) = [Got [0]]"
    and "w_writes (nu_world s) = []" "lb_connected (nu_con s)" "0 \<le> lb_fd (nu_con s)"
  shows "netuart_turn tty s = Some (Inl (Faulty Assertion))"
  using assms
  by (simp add: netuart_turn_def tty_event_def con_event_def client_event_def read_script_def BUFSZ_def from_client_def
      lb_write_def write_all.simps print_out_def bridge_fits_def client_fits_def lines_fit_def)

end
