(* ===== verification/Sockets.thy ===== *)
theory Sockets
  imports NetUartProps UartSim
begin

text \<open>
  The opening and the closing of descriptors: the sockets on which the bridge (\<^verbatim>\<open>sw/host/netuart.cpp\<close>) and the serial port of
  the simulation (\<^verbatim>\<open>sim/dbluartsim.cpp\<close>) listen, the line of the bridge, and the two links of \<^verbatim>\<open>sw/host/llcomms.cpp\<close>.
  The calls of the operating system are a record \<open>os\<close> of functions on a world of type \<open>'w\<close>; a call that fails gives a negative
  number, or \<open>None\<close>.
\<close>

section \<open>The operating system\<close>

datatype speed = B2400 | B9600 | B19200 | B38400 | B57600 | B115200 | B1000000 | B2000000 | B2500000 | B3000000 | B3500000 | B4000000

text \<open>The attributes of a terminal that the code sets; \<^verbatim>\<open>cfmakeraw\<close> sets eight bits without parity, among others.\<close>

record termios =
  tm_raw :: bool
  tm_parity :: bool
  tm_bits :: nat
  tm_rtscts :: bool
  tm_two_stop :: bool
  tm_in :: "speed option"
  tm_out :: "speed option"

definition cfmakeraw :: "termios \<Rightarrow> termios" where
  "cfmakeraw tb = tb\<lparr>tm_raw := True, tm_parity := False, tm_bits := 8\<rparr>"

record 'w os =
  os_socket :: "'w \<Rightarrow> int \<times> 'w"
  os_reuse :: "int \<Rightarrow> 'w \<Rightarrow> int \<times> 'w"
  os_bind :: "int \<Rightarrow> 16 word \<Rightarrow> 'w \<Rightarrow> int \<times> 'w"
  os_listen :: "int \<Rightarrow> 'w \<Rightarrow> int \<times> 'w"
  os_host :: "string \<Rightarrow> 'w \<Rightarrow> u8 list option \<times> 'w"
  os_connect :: "int \<Rightarrow> u8 list \<Rightarrow> 16 word \<Rightarrow> 'w \<Rightarrow> int \<times> 'w"
  os_open :: "string \<Rightarrow> 'w \<Rightarrow> int \<times> 'w"
  os_isatty :: "int \<Rightarrow> 'w \<Rightarrow> bool \<times> 'w"
  os_getattr :: "int \<Rightarrow> 'w \<Rightarrow> termios option \<times> 'w"
  os_setattr :: "int \<Rightarrow> termios \<Rightarrow> 'w \<Rightarrow> int \<times> 'w"
  os_flow_on :: "int \<Rightarrow> 'w \<Rightarrow> int \<times> 'w"
  os_read :: "int \<Rightarrow> nat \<Rightarrow> 'w \<Rightarrow> int \<times> 'w"
  os_send :: "int \<Rightarrow> u8 list \<Rightarrow> 'w \<Rightarrow> int \<times> 'w"
  os_write :: "int \<Rightarrow> u8 list \<Rightarrow> 'w \<Rightarrow> int \<times> 'w"
  os_shutdown :: "int \<Rightarrow> 'w \<Rightarrow> 'w"
  os_close :: "int \<Rightarrow> 'w \<Rightarrow> 'w"

definition sys :: "('w \<Rightarrow> 'a \<times> 'w) \<Rightarrow> 'w \<Rightarrow> (stop + 'a) \<times> 'w" where
  "sys f w = (case f w of (x, w) \<Rightarrow> (Inr x, w))"

section \<open>Listening\<close>

text \<open>The two functions \<^verbatim>\<open>setup_listener\<close> differ in the status with which they end the program.\<close>

definition listen_on :: "int \<Rightarrow> 'w os \<Rightarrow> int \<Rightarrow> ('w, int) run" where
  "listen_on status os port =
     seq (sys (os_socket os)) (\<lambda>skt.
       if skt < 0 then throw (Exit status)
       else seq (sys (os_reuse os skt)) (\<lambda>er.
         if er \<noteq> 0 then throw (Exit status)
         else seq (sys (os_bind os skt (word_of_int port))) (\<lambda>b.
           if b \<noteq> 0 then throw (Exit status)
           else seq (sys (os_listen os skt)) (\<lambda>l.
             if l \<noteq> 0 then throw (Exit status) else ret skt))))"

definition setup_listener :: "'w os \<Rightarrow> int \<Rightarrow> ('w, int) run" where
  "setup_listener = listen_on (- 1)"

definition uart_setup_listener :: "'w os \<Rightarrow> int \<Rightarrow> ('w, int) run" where
  "uart_setup_listener = listen_on EXIT_FAILURE"

text \<open>The constructor of the serial port.\<close>

definition uart_create :: "'w os \<Rightarrow> dbluartsim \<Rightarrow> int \<Rightarrow> ('w, dbluartsim) run" where
  "uart_create os raw port =
     seq (uart_setup_listener os port) (\<lambda>skt.
       seq (uart_setup_listener os (port + 1)) (\<lambda>console. ret (uart_init raw skt console)))"

section \<open>The line of the bridge\<close>

definition FPGAPORT :: int where "FPGAPORT = 8374"

definition tty_speed :: "int \<Rightarrow> speed option" where
  "tty_speed baud =
     (if baud = 2400 then Some B2400
      else if baud = 9600 then Some B9600
      else if baud = 19200 then Some B19200
      else if baud = 38400 then Some B38400
      else if baud = 57600 then Some B57600
      else if baud = 115200 then Some B115200
      else if baud = 1000000 then Some B1000000
      else if baud = 2000000 then Some B2000000
      else if baud = 2500000 then Some B2500000
      else if baud = 3000000 then Some B3000000
      else if baud = 3000000 then Some B3500000
      else if baud = 4000000 then Some B4000000
      else None)"

text \<open>\<^verbatim>\<open>strstr\<close>\<close>

fun contains :: "string \<Rightarrow> string \<Rightarrow> bool" where
  "contains pat [] = (pat = [])"
| "contains pat (c # s) = (take (length pat) (c # s) = pat \<or> contains pat s)"

definition open_tty :: "'w os \<Rightarrow> string list \<Rightarrow> ('w, int) run" where
  "open_tty os argv =
     (let try = (\<lambda>dev. seq (sys (os_open os dev)) (\<lambda>tty. if tty < 0 then throw (Exit (- 1)) else ret tty))
      in case argv of
           [] \<Rightarrow> throw (Faulty Undefined)
         | [_] \<Rightarrow> try ''/dev/ttyUSB2''
         | _ # dev # _ \<Rightarrow> if contains ''/ttyUSB'' dev then try dev else throw (Exit (- 2)))"

definition setup_tty :: "'w os \<Rightarrow> int \<Rightarrow> int \<Rightarrow> ('w, unit) run" where
  "setup_tty os baud tty =
     seq (sys (os_isatty os tty)) (\<lambda>is_tty.
       if \<not> is_tty then ret ()
       else seq (sys (os_getattr os tty)) (\<lambda>tb.
         case tb of None \<Rightarrow> throw (Exit (- 2))
         | Some tb \<Rightarrow>
             (case tty_speed baud of None \<Rightarrow> throw (Exit EXIT_FAILURE)
              | Some b \<Rightarrow>
                  seq (sys (os_setattr os tty ((cfmakeraw tb)\<lparr>tm_rtscts := False, tm_two_stop := False, tm_bits := 8, tm_in := Some b, tm_out := Some b\<rparr>)))
                    (\<lambda>_. seq (sys (os_flow_on os tty)) (\<lambda>_. ret ())))))"

text \<open>What \<^verbatim>\<open>main\<close> does before its loop: the two listening sockets, the line, and the two clients.\<close>

definition netuart_start :: "'w os \<Rightarrow> int \<Rightarrow> string list \<Rightarrow> u8 list \<Rightarrow> u8 list \<Rightarrow> ('w, int \<times> int \<times> int \<times> linbufs \<times> linbufs) run" where
  "netuart_start os baud argv cmd con =
     seq (setup_listener os FPGAPORT) (\<lambda>skt.
       seq (setup_listener os (FPGAPORT + 1)) (\<lambda>console.
         seq (open_tty os argv) (\<lambda>tty.
           seq (setup_tty os baud tty) (\<lambda>_. ret (skt, console, tty, linbufs_init cmd, linbufs_init con)))))"

section \<open>The two links\<close>

text \<open>The link to a device, whose attributes are read without looking at the result.\<close>

definition ttycomms :: "'w os \<Rightarrow> string \<Rightarrow> ('w, int) run" where
  "ttycomms os dev =
     seq (sys (os_open os dev)) (\<lambda>fd.
       if fd < 0 then throw (Exit (- 1))
       else seq (sys (os_isatty os fd)) (\<lambda>is_tty.
         if \<not> is_tty then ret fd
         else seq (sys (os_getattr os fd)) (\<lambda>tb.
           case tb of None \<Rightarrow> throw (Faulty Undefined)
           | Some tb \<Rightarrow>
               seq (sys (os_setattr os fd ((cfmakeraw tb)\<lparr>tm_rtscts := False\<rparr>))) (\<lambda>_.
                 seq (sys (os_flow_on os fd)) (\<lambda>_. ret fd)))))"

definition netcomms :: "'w os \<Rightarrow> string \<Rightarrow> int \<Rightarrow> ('w, int) run" where
  "netcomms os host port =
     seq (sys (os_socket os)) (\<lambda>fd.
       if fd < 0 then throw (Exit (- 1))
       else seq (sys (os_host os host)) (\<lambda>addr.
         case addr of None \<Rightarrow> throw (Exit (- 1))
         | Some addr \<Rightarrow>
             seq (sys (os_connect os fd addr (word_of_int port))) (\<lambda>c.
               if c < 0 then throw (Exit (- 1)) else ret fd)))"

text \<open>\<^verbatim>\<open>LLCOMMSI::close\<close> on the two descriptors, for writing and for reading.\<close>

definition llcomms_close :: "'w os \<Rightarrow> int \<times> int \<Rightarrow> 'w \<Rightarrow> (int \<times> int) \<times> 'w" where
  "llcomms_close os = (\<lambda>(fdw, fdr) w.
     (let w = (if fdw \<ge> 0 then os_close os fdw w else w);
          w = (if fdr \<ge> 0 \<and> fdr \<noteq> fdw then os_close os fdr w else w)
      in ((- 1, - 1), w)))"

text \<open>The loops that read until the peer has closed, which it may never do.\<close>

partial_function (option) drain_fd :: "'w os \<Rightarrow> int \<Rightarrow> nat \<Rightarrow> 'w \<Rightarrow> 'w option" where
  "drain_fd os fd n w = (case os_read os fd n w of (nr, w) \<Rightarrow> if nr \<le> 0 then Some w else drain_fd os fd n w)"

definition netcomms_close :: "'w os \<Rightarrow> int \<times> int \<Rightarrow> 'w \<Rightarrow> ((int \<times> int) \<times> 'w) option" where
  "netcomms_close os = (\<lambda>(fdw, fdr) w.
     map_option (\<lambda>w. ((fdw, fdr), os_close os fdw w)) (drain_fd os fdr 256 (os_shutdown os fdw w)))"

text \<open>The destructor of the bus closes its link, and then destroys it, which closes it once more as an \<^verbatim>\<open>LLCOMMSI\<close>.\<close>

definition hexbus_destroy :: "('w \<Rightarrow> int \<times> int \<Rightarrow> ((int \<times> int) \<times> 'w) option) \<Rightarrow> 'w os \<Rightarrow> int \<times> int \<Rightarrow> 'w \<Rightarrow> ((int \<times> int) \<times> 'w) option" where
  "hexbus_destroy dev_close os fds w = map_option (\<lambda>(fds, w). llcomms_close os fds w) (dev_close w fds)"

section \<open>The end of the serial port\<close>

definition SIM_CLOSED :: "u8 list" where
  "SIM_CLOSED = map (\<lambda>c. word_of_nat (of_char c)) (CHR 0x0a # ''[SIM] Connection-Closed'' @ [CHR 0x0a])"

definition kill_con :: "'w os \<Rightarrow> dbluartsim \<Rightarrow> 'w \<Rightarrow> 'w option" where
  "kill_con os s w =
     (if m_con s \<ge> 0 then
        (let w = (if m_conpos s > 0 then snd (os_send os (m_con s) (map (m_conbuf s) [0..<m_conpos s]) w) else w)
         in case os_write os (m_con s) SIM_CLOSED w of
              (nw, w) \<Rightarrow> if nw > 0 then drain_fd os (m_con s) 512 (os_shutdown os (m_con s) w) else Some w)
      else Some w)"

definition kill_cmd :: "'w os \<Rightarrow> dbluartsim \<Rightarrow> 'w \<Rightarrow> 'w option" where
  "kill_cmd os s w =
     (if m_cmd s \<ge> 0 then
        (let w = (if m_cmdpos s > 0 then snd (os_send os (m_cmd s) (map (m_cmdbuf s) [0..<m_cmdpos s]) w) else w)
         in drain_fd os (m_cmd s) 512 (os_shutdown os (m_cmd s) w))
      else Some w)"

definition uart_kill :: "'w os \<Rightarrow> dbluartsim \<Rightarrow> 'w \<Rightarrow> (dbluartsim \<times> 'w) option" where
  "uart_kill os s w =
     (case kill_con os s w of None \<Rightarrow> None
      | Some w \<Rightarrow>
          (let w = (if m_skt s \<ge> 0 then os_close os (m_skt s) w else w);
               w = (if m_console s \<ge> 0 then os_close os (m_console s) w else w)
           in map_option (\<lambda>w. (s\<lparr>m_con := - 1, m_skt := - 1, m_console := - 1, m_cmd := - 1\<rparr>, w)) (kill_cmd os s w)))"

section \<open>What is opened\<close>

lemma sys_run: "sys f w = (Inr (fst (f w)), snd (f w))"
  by (simp add: sys_def split: prod.split)

lemmas open_simps = seq_def sys_run throw_def ret_def

text \<open>A listening socket is a descriptor; whatever fails, the program ends with the status.\<close>

lemma listen_on_result:
  "case listen_on status os port w of (Inl e, _) \<Rightarrow> e = Exit status | (Inr skt, _) \<Rightarrow> skt \<ge> 0 \<and> skt = fst (os_socket os w)"
  by (auto simp: listen_on_def open_simps Let_def split: prod.splits)

lemma open_tty_result: "open_tty os argv w = (Inr tty, w') \<Longrightarrow> tty \<ge> 0"
  by (auto simp: open_tty_def open_simps Let_def split: list.splits if_splits)

text \<open>The bridge begins its loop with the descriptors open, nobody connected, and buffers that fit.\<close>

lemma netuart_start_fits:
  assumes "netuart_start os baud argv cmd con w = (Inr (skt, console, tty, bcmd, bcon), w')" "length cmd = BUFSZ" "length con = BUFSZ"
  shows "skt \<ge> 0" "console \<ge> 0" "tty \<ge> 0" "\<not> lb_connected bcmd" "\<not> lb_connected bcon"
    "bridge_fits \<lparr>nu_cmd = bcmd, nu_con = bcon, nu_world = world, nu_text = []\<rparr>"
proof -
  obtain w1 w2 w3 w4 where s: "listen_on (- 1) os FPGAPORT w = (Inr skt, w1)" "listen_on (- 1) os (FPGAPORT + 1) w1 = (Inr console, w2)"
    "open_tty os argv w2 = (Inr tty, w3)" "setup_tty os baud tty w3 = (Inr (), w4)"
    and b: "bcmd = linbufs_init cmd" "bcon = linbufs_init con"
    using assms(1) unfolding netuart_start_def setup_listener_def by (auto elim!: seq_InrE simp: ret_def)
  show "skt \<ge> 0" "console \<ge> 0" "tty \<ge> 0"
    using listen_on_result [where status = "- 1" and os = os and port = FPGAPORT and w = w]
      listen_on_result [where status = "- 1" and os = os and port = "FPGAPORT + 1" and w = w1] open_tty_result [OF s(3)] s(1,2)
    by simp_all
  show "\<not> lb_connected bcmd" "\<not> lb_connected bcon"
    "bridge_fits \<lparr>nu_cmd = bcmd, nu_con = bcon, nu_world = world, nu_text = []\<rparr>"
    using assms(2,3) by (simp_all add: b linbufs_init_def bridge_fits_def client_fits_def lines_fit_def)
qed

text \<open>The last but one row of the table of speeds repeats the row before it.\<close>

lemma no_3500000_baud: "tty_speed 3500000 = None" and no_row_gives_B3500000: "tty_speed baud \<noteq> Some B3500000"
  by (simp_all add: tty_speed_def)

section \<open>What is closed\<close>

text \<open>The loop ends with a peer that closes after finitely many bytes, and never with one that goes on sending.\<close>

lemma drain_returns:
  assumes "\<And>w nr w'. os_read os fd n w = (nr, w') \<Longrightarrow> 0 < nr \<Longrightarrow> left w' < (left w :: nat)"
  shows "\<exists>w'. drain_fd os fd n w = Some w'"
proof (induction "left w" arbitrary: w rule: less_induct)
  case less
  obtain nr w' where r: "os_read os fd n w = (nr, w')" by force
  then show ?case
    using less [of w'] assms [OF r] by (subst drain_fd.simps) (auto simp: not_le)
qed

lemma drain_hangs:
  assumes "\<And>w. fst (os_read os fd n w) > 0"
  shows "drain_fd os fd n w = None"
proof -
  have "os' = os \<and> fd' = fd \<and> n' = n \<longrightarrow> False" if "drain_fd os' fd' n' w0 = Some y" for os' fd' n' w0 y
  proof (rule drain_fd.raw_induct [where P = "\<lambda>os' fd' n' w0 y. os' = os \<and> fd' = fd \<and> n' = n \<longrightarrow> False", OF _ that])
    fix drain os' fd' n' w0 y
    assume "\<And>os' fd' n' w0 y. drain os' fd' n' w0 = Some y \<Longrightarrow> os' = os \<and> fd' = fd \<and> n' = n \<longrightarrow> False"
      "(case os_read os' fd' n' w0 of (nr, w) \<Rightarrow> if nr \<le> 0 then Some w else drain os' fd' n' w) = Some y"
    then show "os' = os \<and> fd' = fd \<and> n' = n \<longrightarrow> False"
      using assms [of w0] by (auto split: prod.splits if_splits)
  qed
  from this [of os fd n w] show ?thesis by (cases "drain_fd os fd n w") simp_all
qed

text \<open>With peers that close, \<^verbatim>\<open>kill\<close> ends, and leaves no descriptor.\<close>

lemma uart_kill_returns:
  assumes "\<And>fd n w nr w'. os_read os fd n w = (nr, w') \<Longrightarrow> 0 < nr \<Longrightarrow> left w' < (left w :: nat)"
  shows "\<exists>w'. uart_kill os s w = Some (s\<lparr>m_con := - 1, m_skt := - 1, m_console := - 1, m_cmd := - 1\<rparr>, w')"
proof -
  have d: "\<exists>w'. drain_fd os fd n w = Some w'" for fd n w
    by (rule drain_returns [where left = left]) (rule assms)
  obtain w1 where 1: "kill_con os s w = Some w1"
    using d by (fastforce simp: kill_con_def Let_def split: prod.splits)
  have "\<exists>w'. kill_cmd os s w = Some w'" for w
    using d by (auto simp: kill_cmd_def Let_def)
  then show ?thesis by (auto simp: uart_kill_def Let_def 1)
qed

text \<open>
  A link to the network is closed twice when its bus is destroyed: its own \<^verbatim>\<open>close\<close> does not forget the descriptor.  The link to a
  device is closed once.
\<close>

lemma network_link_closed_twice:
  assumes "fd \<ge> 0" "hexbus_destroy (\<lambda>w fds. netcomms_close os fds w) os (fd, fd) w = Some (fds, w')"
  shows "\<exists>w0. w' = os_close os fd (os_close os fd w0)"
  using assms by (auto simp: hexbus_destroy_def netcomms_close_def llcomms_close_def Let_def)

lemma device_link_closed_once:
  assumes "fd \<ge> 0"
  shows "hexbus_destroy (\<lambda>w fds. Some (llcomms_close os fds w)) os (fd, fd) w = Some ((- 1, - 1), os_close os fd w)"
  using assms by (simp add: hexbus_destroy_def llcomms_close_def Let_def)

end
