(* ===== verification/Syscalls.thy ===== *)
theory Syscalls
  imports Prelude
begin

text \<open>
  The system calls that the C library of the ZipCPU is given in \<^verbatim>\<open>sw/zlib/syscalls.c\<close>.  The console of the
  board is a script: what the reads of its registers \<^verbatim>\<open>u_rx\<close>, \<^verbatim>\<open>u_fifo\<close> and \<^verbatim>\<open>u_tx\<close> return, one
  after the other, and a log of what has been written to \<^verbatim>\<open>u_tx\<close>.  Past the end of the script nothing has been
  received, the transmitter has room and is idle.  The clock that a design may have, which the macros of the generated
  \<^verbatim>\<open>design.h\<close> select, is an argument.
\<close>

section \<open>The console\<close>

datatype errno = EBADF | ENOSYS | EIO | EACCES | ECHILD

text \<open>\<open>k_cr\<close> is the static variable \<^verbatim>\<open>last_was_cr\<close>, \<open>k_reent\<close> the \<^verbatim>\<open>_errno\<close> of the caller's \<^verbatim>\<open>_reent\<close>.\<close>

record console =
  k_rx :: "u32 list"
  k_fifo :: "u32 list"
  k_busy :: "u32 list"
  k_tx :: "u32 list"
  k_cr :: bool
  k_heap :: u32
  k_reent :: "errno option"
  k_errno :: "errno option"

text \<open>\<^verbatim>\<open>while(TXWAIT);\<close> and \<^verbatim>\<open>while(TXBUSY);\<close>\<close>

fun wait_room :: "u32 list \<Rightarrow> u32 list" where
  "wait_room [] = []"
| "wait_room (v # vs) = (if v AND 0x10000 = 0 then wait_room vs else vs)"

fun wait_idle :: "u32 list \<Rightarrow> u32 list" where
  "wait_idle [] = []"
| "wait_idle (v # vs) = (if v AND 0x100 \<noteq> 0 then wait_idle vs else vs)"

definition send_tx :: "u32 \<Rightarrow> console \<Rightarrow> console" where
  "send_tx v s = s\<lparr>k_fifo := wait_room (k_fifo s), k_tx := k_tx s @ [v]\<rparr>"

definition outbyte :: "u8 \<Rightarrow> console \<Rightarrow> console" where
  "outbyte v s = (let s = (if v = 0x0a then send_tx 0x0d s else s) in send_tx (ucast v) s)"

definition read_rx :: "console \<Rightarrow> u32 \<times> console" where
  "read_rx s = (case k_rx s of [] \<Rightarrow> (0x100, s) | v # vs \<Rightarrow> (v, s\<lparr>k_rx := vs\<rparr>))"

definition inbyte :: "console \<Rightarrow> u32 \<times> console" where
  "inbyte s =
     (case read_rx s of (rv, s) \<Rightarrow>
        let (rv, s) =
              (if rv AND 0x100 \<noteq> 0 then (- 1, s)
               else if rv = 0x0d then (0x0a, s\<lparr>k_cr := True\<rparr>)
               else if rv = 0x0a then (if k_cr s then (- 1, s\<lparr>k_cr := False\<rparr>) else (rv, s))
               else (rv, s\<lparr>k_cr := False\<rparr>))
        in (rv, if rv \<noteq> - 1 then outbyte (ucast rv) s else s))"

section \<open>Reading and writing\<close>

definition STDIN_FILENO :: int where "STDIN_FILENO = 0"
definition STDOUT_FILENO :: int where "STDOUT_FILENO = 1"
definition STDERR_FILENO :: int where "STDERR_FILENO = 2"

lemma read_rx_rest: "read_rx s = (v, s') \<Longrightarrow> k_rx s' = drop 1 (k_rx s)"
  by (auto simp: read_rx_def split: list.splits)

lemma inbyte_rest: "inbyte s = (v, s') \<Longrightarrow> k_rx s' = drop 1 (k_rx s)"
  by (auto simp: inbyte_def Let_def outbyte_def send_tx_def dest!: read_rx_rest split: prod.splits if_splits)

text \<open>The loop that waits for the first byte has no end if nothing comes any more.\<close>

function first_byte :: "console \<Rightarrow> (u32 \<times> console) option" where
  "first_byte s =
     (if k_rx s = [] then None
      else case inbyte s of (rv, s) \<Rightarrow> if rv AND 0x100 \<noteq> 0 then first_byte s else Some (rv, s))"
  by pat_completeness auto
termination
  by (relation "measure (\<lambda>s. length (k_rx s))") (auto dest!: inbyte_rest [OF sym])

declare first_byte.simps [simp del]

primrec more_bytes :: "nat \<Rightarrow> console \<Rightarrow> u8 list \<times> console" where
  "more_bytes 0 s = ([], s)"
| "more_bytes (Suc n) s =
     (case inbyte s of (rv, s) \<Rightarrow>
        if rv AND 0x100 = 0 then (case more_bytes n s of (bs, s) \<Rightarrow> (ucast rv # bs, s)) else ([], s))"

text \<open>The result of the call, and the bytes that it has put into the buffer.\<close>

definition read_r :: "int \<Rightarrow> nat \<Rightarrow> console \<Rightarrow> (int \<times> u8 list \<times> console) option" where
  "read_r file len s =
     (if file = STDIN_FILENO then
        (case first_byte s of None \<Rightarrow> None
         | Some (rv, s) \<Rightarrow> case more_bytes (len - 1) s of (bs, s) \<Rightarrow> Some (int (Suc (length bs)), ucast rv # bs, s))
      else Some (- 1, [], s\<lparr>k_errno := Some ENOSYS\<rparr>))"

definition write_r :: "int \<Rightarrow> u8 list \<Rightarrow> console \<Rightarrow> int \<times> console" where
  "write_r fd buf s =
     (if fd = STDOUT_FILENO \<or> fd = STDERR_FILENO then (sint (word_of_nat (length buf) :: u32), fold outbyte buf s)
      else (- 1, s\<lparr>k_reent := Some EBADF\<rparr>))"

definition k_exit :: "console \<Rightarrow> console" where
  "k_exit s = (let s = outbyte 0x20 (outbyte 0x20 s) in s\<lparr>k_busy := wait_idle (k_busy s)\<rparr>)"

section \<open>The calls that do little\<close>

definition refuse :: "errno \<Rightarrow> console \<Rightarrow> int \<times> console" where
  "refuse e s = (- 1, s\<lparr>k_reent := Some e\<rparr>)"

definition close_r :: "int \<Rightarrow> console \<Rightarrow> int \<times> console" where "close_r file = refuse EBADF"
definition execve_r :: "string \<Rightarrow> console \<Rightarrow> int \<times> console" where "execve_r name = refuse ENOSYS"
definition fork_r :: "console \<Rightarrow> int \<times> console" where "fork_r = refuse ENOSYS"
definition kill_r :: "int \<Rightarrow> int \<Rightarrow> console \<Rightarrow> int \<times> console" where "kill_r pid sig = refuse ENOSYS"
definition link_r :: "string \<Rightarrow> string \<Rightarrow> console \<Rightarrow> int \<times> console" where "link_r old new = refuse ENOSYS"
definition lseek_r :: "int \<Rightarrow> int \<Rightarrow> int \<Rightarrow> console \<Rightarrow> int \<times> console" where "lseek_r file ptr dir = refuse ENOSYS"
definition open_r :: "string \<Rightarrow> int \<Rightarrow> int \<Rightarrow> console \<Rightarrow> int \<times> console" where "open_r file flags mode = refuse ENOSYS"
definition readlink_r :: "string \<Rightarrow> nat \<Rightarrow> console \<Rightarrow> int \<times> console" where "readlink_r path bufsize = refuse ENOSYS"
definition stat_r :: "string \<Rightarrow> console \<Rightarrow> int \<times> console" where "stat_r path = refuse EIO"
definition unlink_r :: "string \<Rightarrow> console \<Rightarrow> int \<times> console" where "unlink_r path = refuse EIO"
definition k_times :: "console \<Rightarrow> int \<times> console" where "k_times s = (- 1, s\<lparr>k_errno := Some EACCES\<rparr>)"
definition k_wait :: "console \<Rightarrow> int \<times> console" where "k_wait s = (- 1, s\<lparr>k_errno := Some ECHILD\<rparr>)"
definition getpid_r :: "console \<Rightarrow> int \<times> console" where "getpid_r s = (1, s)"

definition is_console :: "int \<Rightarrow> bool" where
  "is_console file \<longleftrightarrow> STDIN_FILENO = file \<or> STDOUT_FILENO = file \<or> STDERR_FILENO = file"

definition isatty_r :: "int \<Rightarrow> int" where "isatty_r file = (if is_console file then 1 else 0)"

text \<open>The mode that \<^verbatim>\<open>fstat\<close> stores is that of a character device.\<close>

definition S_IFCHR :: u32 where "S_IFCHR = 0x2000"

definition fstat_r :: "int \<Rightarrow> console \<Rightarrow> int \<times> u32 option \<times> console" where
  "fstat_r file s =
     (if is_console file then (0, Some S_IFCHR, s) else (- 1, None, s\<lparr>k_reent := Some EBADF\<rparr>))"

text \<open>\<^verbatim>\<open>heap\<close> is a pointer to \<^verbatim>\<open>int\<close>, so that the sum counts words.\<close>

definition sbrk_r :: "u32 \<Rightarrow> console \<Rightarrow> u32 \<times> console" where
  "sbrk_r sz s = (k_heap s, s\<lparr>k_heap := k_heap s + 4 * sz\<rparr>)"

section \<open>The time of day\<close>

text \<open>Two decimal digits of a register, and the days of the year before a month.\<close>

definition bcd2 :: "nat \<Rightarrow> u32 \<Rightarrow> u32" where
  "bcd2 i w = (drop_bit i w AND 0x0f) + (drop_bit (i + 4) w AND 0x0f) * 10"

definition leap_flag :: "u32 \<Rightarrow> bool" where
  "leap_flag y = (if y AND 3 = 0 then if y \<noteq> 0 then True else if y AND 3 = 0 then True else False else False)"

definition days_before :: "bool \<Rightarrow> u32 \<Rightarrow> u32" where
  "days_before ly m =
     (if m > 1 then 31 +
       (if m > 2 then 28 + (if ly then 1 else 0) +
         (if m > 3 then 31 + (if m > 4 then 30 + (if m > 5 then 31 + (if m > 6 then 30 + (if m > 7 then 31 +
           (if m > 8 then 31 + (if m > 9 then 30 + (if m > 10 then 31 + (if m > 11 then 30
            else 0) else 0) else 0) else 0) else 0) else 0) else 0) else 0) else 0) else 0) else 0)"

function add_years :: "nat \<Rightarrow> nat \<Rightarrow> u32 \<Rightarrow> u32" where
  "add_years yy lim days =
     (if yy < lim then add_years (yy + 1) lim (days + (if yy mod 4 = 0 then 366 else 365)) else days)"
  by pat_completeness auto
termination
  by (relation "measure (\<lambda>(yy, lim, _). lim - yy)") auto

declare add_years.simps [simp del]

definition days_since_epoch :: "u32 \<Rightarrow> u32" where
  "days_since_epoch date =
     (let d = bcd2 0 date; m = bcd2 8 date; y = bcd2 16 date; c = bcd2 24 date
      in add_years 1970 (unat (c * 100 + y)) (d + days_before (leap_flag y) m))"

definition time_of_day :: "u32 \<Rightarrow> u32" where
  "time_of_day now = (let s = bcd2 0 now; m = bcd2 8 now; h = bcd2 16 now in (h * 60 + m) * 60)"

text \<open>
  \<open>rtc\<close> is the clock, if there is one, with the date, if it has one; \<open>want\<close> says whether there is a place for the time.
  \<^verbatim>\<open>tv_sec\<close> is a \<^verbatim>\<open>long\<close>.
\<close>

definition gettimeofday_r :: "(u32 \<times> u32 option) option \<Rightarrow> bool \<Rightarrow> console \<Rightarrow> int \<times> (u64 \<times> u64) option \<times> console" where
  "gettimeofday_r rtc want s =
     (case rtc of
        None \<Rightarrow> (- 1, None, s\<lparr>k_reent := Some ENOSYS\<rparr>)
      | Some (now, date) \<Rightarrow>
          (0, if want then
                Some ((case date of None \<Rightarrow> 0 | Some date \<Rightarrow> ucast (days_since_epoch date) * 86400) + ucast (time_of_day now), 0)
              else None, s))"

end
