(* ===== verification/SyscallProps.thy ===== *)
theory SyscallProps
  imports Syscalls
begin

text \<open>
  What the system calls give a program: its standard input is what has been received, with every end of line
  a single newline, its output is sent with a carriage return before every newline, and the time of day is compared
  with the calendar.
\<close>

section \<open>Ends of lines\<close>

text \<open>What is sent for a text, and a text received with each of CR, LF and CR LF made a newline.\<close>

definition printed :: "u8 list \<Rightarrow> u8 list" where
  "printed bs = concat (map (\<lambda>c. if c = 0x0a then [0x0d, 0x0a] else [c]) bs)"

function newlines :: "u8 list \<Rightarrow> u8 list" where
  "newlines [] = []"
| "newlines (c # cs) =
     (if c = 0x0d then 0x0a # newlines (if cs \<noteq> [] \<and> hd cs = 0x0a then tl cs else cs) else c # newlines cs)"
  by pat_completeness auto
termination
  by (relation "measure length") auto

declare newlines.simps(2) [simp del]

lemma newlines_printed: "0x0d \<notin> set bs \<Longrightarrow> newlines (printed bs) = bs"
  by (induction bs) (auto simp: printed_def newlines.simps(2))

text \<open>The characters among the values of the receive register.\<close>

definition received_chars :: "u32 list \<Rightarrow> u8 list" where
  "received_chars vs = map ucast (filter (\<lambda>v. v AND 0x100 = 0) vs)"

text \<open>
  What a program is given for the words of the receive register that hold a character: CR, LF and CR LF become a
  newline, if the words are nothing but these characters.  A word may have bit 12 set, which says that the FIFO
  has overflowed (\<^verbatim>\<open>rtl/hexbus/console.v\<close>); such a word is never taken for the end of a line, and its low byte is
  delivered as it is.
\<close>

definition arrived :: "u32 list \<Rightarrow> u32 list" where
  "arrived vs = filter (\<lambda>v. v AND 0x100 = 0) vs"

function input_text :: "u32 list \<Rightarrow> u8 list" where
  "input_text [] = []"
| "input_text (v # vs) =
     (if v = 0x0d then 0x0a # input_text (if vs \<noteq> [] \<and> hd vs = 0x0a then tl vs else vs) else ucast v # input_text vs)"
  by pat_completeness auto
termination
  by (relation "measure length") auto

declare input_text.simps(2) [simp del]

definition text_after :: "bool \<Rightarrow> u32 list \<Rightarrow> u8 list" where
  "text_after cr vs = input_text (if cr \<and> vs \<noteq> [] \<and> hd vs = 0x0a then tl vs else vs)"

definition rx_word :: "u32 \<Rightarrow> bool" where
  "rx_word v \<longleftrightarrow> v < 0x200"

lemma rx_word_char:
  assumes "rx_word v" "v AND 0x100 = 0"
  shows "ucast (ucast v :: u8) = v"
proof -
  have "unat v < 512" using assms(1) by (simp add: rx_word_def word_less_nat_alt)
  then have "take_bit 9 v = v" by (simp add: word_unat_eq_iff unat_take_bit_u32)
  moreover have "\<not> bit v 8" using assms(2) bit_and_push_bit_1 [of v 8] by (simp add: push_bit_eq_mult)
  ultimately have "n < 8" if "bit v n" for n
  proof -
    have "bit (take_bit 9 v) n" using that \<open>take_bit 9 v = v\<close> by simp
    then have "n < 9" by (simp add: bit_simps)
    moreover have "n \<noteq> 8" using that \<open>\<not> bit v 8\<close> by blast
    ultimately show ?thesis by simp
  qed
  then show ?thesis by (intro bit_word_eqI) (auto simp: bit_simps)
qed

text \<open>Without an overflow the text is that of the characters.\<close>

lemma input_text_chars:
  assumes "\<forall>v\<in>set vs. rx_word v \<and> v AND 0x100 = 0"
  shows "input_text vs = newlines (map ucast vs)"
  using assms
proof (induction vs rule: input_text.induct)
  case (2 v vs)
  have c: "(ucast w :: u8) = 0x0d \<longleftrightarrow> w = 0x0d" "(ucast w :: u8) = 0x0a \<longleftrightarrow> w = 0x0a" if "w \<in> set (v # vs)" for w
    using rx_word_char [of w] that "2.prems" by (auto dest: arg_cong [of _ _ "ucast :: u8 \<Rightarrow> u32"])
  show ?case
  proof (cases "v = 0x0d")
    case True
    let ?ws = "if vs \<noteq> [] \<and> hd vs = 0x0a then tl vs else vs"
    have "\<forall>w\<in>set ?ws. rx_word w \<and> w AND 0x100 = 0" using "2.prems" by (auto dest: list.set_sel(2) [rotated])
    then have "input_text ?ws = newlines (map ucast ?ws)" using "2.IH"(1) True by blast
    moreover have e: "(map ucast ?ws :: u8 list) = (if (map ucast vs :: u8 list) \<noteq> [] \<and> hd (map ucast vs :: u8 list) = 0x0a then tl (map ucast vs) else map ucast vs)"
      using c(2) by (cases vs) auto
    moreover have "newlines (map ucast (v # vs)) = 0x0a # newlines (map ucast ?ws)"
    proof -
      have "(ucast v :: u8) = 0x0d" using True by simp
      then show ?thesis by (simp only: e list.map newlines.simps(2) simp_thms if_True)
    qed
    moreover have "input_text (v # vs) = 0x0a # input_text ?ws" unfolding input_text.simps(2) using True by simp
    ultimately show ?thesis by simp
  next
    case False
    then have "input_text vs = newlines (map ucast vs)" using "2.IH"(2) "2.prems" by simp
    moreover have "(ucast v :: u8) \<noteq> 0x0d" using c(1) [of v] False by simp
    ultimately show ?thesis using False by (simp only: input_text.simps(2) newlines.simps(2) list.map if_False)
  qed
qed simp

lemma input_text_received: "\<forall>v\<in>set vs. rx_word v \<Longrightarrow> input_text (arrived vs) = newlines (received_chars vs)"
  using input_text_chars [of "arrived vs"] by (simp add: arrived_def received_chars_def)

section \<open>Reading\<close>

text \<open>
  Some of the script has been read and \<open>bs\<close> delivered and echoed: whatever comes next, the text is \<open>bs\<close> followed by what
  is delivered next.
\<close>

definition took :: "u8 list \<Rightarrow> console \<Rightarrow> console \<Rightarrow> bool" where
  "took bs s s' \<longleftrightarrow>
     k_tx s' = k_tx s @ map ucast (printed bs) \<and>
     (\<exists>used. k_rx s = used @ k_rx s' \<and>
        (\<forall>rest. text_after (k_cr s) (arrived used @ rest) = bs @ text_after (k_cr s') rest))"

lemma printed_append: "printed (a @ b) = printed a @ printed b"
  by (simp add: printed_def)

lemma printed_Nil [simp]: "printed [] = []"
  by (simp add: printed_def)

lemma arrived_append: "arrived (a @ b) = arrived a @ arrived b"
  by (simp add: arrived_def)

lemma took_refl: "took [] s s"
  unfolding took_def by (auto simp: arrived_def intro!: exI [of _ "[]"])

lemma took_trans:
  assumes "took a s s1" "took b s1 s2"
  shows "took (a @ b) s s2"
proof -
  obtain u where u: "k_rx s = u @ k_rx s1"
      "\<And>rest. text_after (k_cr s) (arrived u @ rest) = a @ text_after (k_cr s1) rest"
    using assms(1) unfolding took_def by blast
  obtain v where v: "k_rx s1 = v @ k_rx s2"
      "\<And>rest. text_after (k_cr s1) (arrived v @ rest) = b @ text_after (k_cr s2) rest"
    using assms(2) unfolding took_def by blast
  have "k_rx s = (u @ v) @ k_rx s2" using u(1) v(1) by simp
  moreover have "text_after (k_cr s) (arrived (u @ v) @ rest) = (a @ b) @ text_after (k_cr s2) rest" for rest
    by (simp add: arrived_append u(2) v(2))
  moreover have "k_tx s2 = k_tx s @ map ucast (printed (a @ b))"
    using assms by (simp_all add: took_def printed_append)
  ultimately show ?thesis unfolding took_def by blast
qed

lemma outbyte_fields:
  "k_tx (outbyte v s) = k_tx s @ map ucast (printed [v])"
  "k_rx (outbyte v s) = k_rx s" "k_cr (outbyte v s) = k_cr s" "k_heap (outbyte v s) = k_heap s"
  "k_reent (outbyte v s) = k_reent s" "k_errno (outbyte v s) = k_errno s" "k_busy (outbyte v s) = k_busy s"
  by (simp_all add: outbyte_def send_tx_def printed_def)

lemma not_neg1_and: "(- 1 :: u32) AND 0x100 \<noteq> 0"
  by simp

lemma took_inbyte:
  assumes "inbyte s = (rv, s')"
  shows "took (if rv AND 0x100 = 0 then [ucast rv] else []) s s'"
proof (cases "k_rx s")
  case Nil
  then have "rv = - 1" "s' = s" using assms by (simp_all add: inbyte_def read_rx_def)
  then show ?thesis using took_refl by simp
next
  case (Cons v vs)
  let ?s = "s\<lparr>k_rx := vs\<rparr>"
  have used: "took bs s t"
    if "k_rx t = vs" "k_tx t = k_tx s @ map ucast (printed bs)"
      "\<And>rest. text_after (k_cr s) (arrived [v] @ rest) = bs @ text_after (k_cr t) rest" for bs t
    unfolding took_def using that Cons by (auto intro!: exI [of _ "[v]"])
  have rd: "read_rx s = (v, ?s)" by (simp add: read_rx_def Cons)
  show ?thesis
  proof (cases "v AND 0x100 = 0")
    case False
    then have "rv = - 1" "s' = ?s" using assms by (simp_all add: inbyte_def rd)
    moreover have "arrived [v] = []" using False by (simp add: arrived_def)
    ultimately show ?thesis using used [of s' "[]"] by simp
  next
    case True
    let ?c = "ucast v :: u8"
    have chars: "arrived [v] = [v]" using True by (simp add: arrived_def)
    have c: "v \<noteq> - 1" using True by auto
    consider (cr) "v = 0x0d" | (dropped) "v = 0x0a" "k_cr s" | (nl) "v = 0x0a" "\<not> k_cr s" | (other) "v \<noteq> 0x0d" "v \<noteq> 0x0a"
      by blast
    then show ?thesis
    proof cases
      case cr
      then have "rv = 0x0a" "s' = outbyte 0x0a (?s\<lparr>k_cr := True\<rparr>)" using assms True by (simp_all add: inbyte_def rd)
      then show ?thesis
        using used [of s' "[0x0a]"] cr chars by (simp add: outbyte_fields text_after_def input_text.simps(2))
    next
      case dropped
      then have "rv = - 1" "s' = ?s\<lparr>k_cr := False\<rparr>" using assms True by (simp_all add: inbyte_def rd)
      then show ?thesis using used [of s' "[]"] dropped chars by (simp add: text_after_def)
    next
      case nl
      then have "rv = 0x0a" "s' = outbyte 0x0a ?s" using assms True by (simp_all add: inbyte_def rd)
      then show ?thesis
        using used [of s' "[0x0a]"] nl chars by (simp add: outbyte_fields text_after_def input_text.simps(2))
    next
      case other
      then have "rv = v" "s' = outbyte ?c (?s\<lparr>k_cr := False\<rparr>)" using assms True c by (auto simp: inbyte_def rd)
      then show ?thesis
        using used [of s' "[?c]"] other chars True by (simp add: outbyte_fields text_after_def input_text.simps(2))
    qed
  qed
qed

lemma took_first:
  "first_byte s = Some (rv, s') \<Longrightarrow> took [ucast rv] s s'"
proof (induction s rule: first_byte.induct)
  case (1 s)
  obtain r s1 where in1: "inbyte s = (r, s1)" by fastforce
  have ne: "k_rx s \<noteq> []" using 1(2) by (simp add: first_byte.simps split: if_splits)
  show ?case
  proof (cases "r AND 0x100 = 0")
    case True
    then have "rv = r" "s' = s1" using 1(2) ne in1 by (simp_all add: first_byte.simps [of s])
    then show ?thesis using took_inbyte [OF in1] True by simp
  next
    case False
    then have "first_byte s1 = Some (rv, s')" using 1(2) ne in1 by (simp add: first_byte.simps [of s])
    then show ?thesis
      using took_trans [OF took_inbyte [OF in1] 1(1) [OF ne in1 [symmetric] False]] False by simp
  qed
qed

lemma took_more: "more_bytes n s = (bs, s') \<Longrightarrow> took bs s s' \<and> length bs \<le> n"
proof (induction n arbitrary: s bs)
  case 0
  then show ?case using took_refl by simp
next
  case (Suc n)
  obtain r s1 where in1: "inbyte s = (r, s1)" by fastforce
  note t = took_inbyte [OF in1]
  show ?case
  proof (cases "r AND 0x100 = 0")
    case True
    obtain bs1 where "more_bytes n s1 = (bs1, s')" "bs = ucast r # bs1"
      using Suc.prems in1 True by (auto split: prod.splits)
    then show ?thesis
      using Suc.IH [of s1 bs1] took_trans [OF t, of bs1 s'] t True by (simp add: took_def)
  next
    case False
    then show ?thesis using Suc.prems in1 t by simp
  qed
qed

lemma took_read:
  assumes "read_r STDIN_FILENO len s = Some (n, bs, s')"
  shows "took bs s s'" "n = int (length bs)" "bs \<noteq> []" "length bs \<le> max 1 len"
proof -
  obtain rv s1 bs1 where 1: "first_byte s = Some (rv, s1)" "more_bytes (len - 1) s1 = (bs1, s')" "bs = ucast rv # bs1"
      "n = int (Suc (length bs1))"
    using assms by (auto simp: read_r_def split: option.splits prod.splits)
  have t: "took [ucast rv] s s1" by (rule took_first [OF 1(1)])
  then have t2: "took bs1 s1 s'" "length bs1 \<le> len - 1" using took_more [OF 1(2)] by simp_all
  show "took bs s s'" using took_trans [OF t t2(1)] 1(3) by simp
  show "n = int (length bs)" "bs \<noteq> []" "length bs \<le> max 1 len" using 1 t2(2) by auto
qed

text \<open>Several reads of the standard input, one after the other.\<close>

fun read_all :: "nat list \<Rightarrow> console \<Rightarrow> (u8 list \<times> console) option" where
  "read_all [] s = Some ([], s)"
| "read_all (len # lens) s =
     (case read_r STDIN_FILENO len s of None \<Rightarrow> None
      | Some (n, bs, s) \<Rightarrow> map_option (\<lambda>(cs, s). (bs @ cs, s)) (read_all lens s))"

lemma took_reads: "read_all lens s = Some (bs, s') \<Longrightarrow> took bs s s'"
proof (induction lens arbitrary: s bs)
  case Nil
  then show ?case using took_refl by simp
next
  case (Cons len lens)
  obtain n bs1 s1 where 1: "read_r STDIN_FILENO len s = Some (n, bs1, s1)"
    using Cons.prems by (auto split: option.splits)
  obtain bs2 where 2: "read_all lens s1 = Some (bs2, s')" "bs = bs1 @ bs2" using Cons.prems 1 by auto
  have t: "took bs1 s s1" by (rule took_read [OF 1])
  then have "took bs2 s1 s'" using Cons.IH [OF 2(1)] by simp
  then show ?case using took_trans [OF t] 2(2) by simp
qed

text \<open>A read comes back exactly if something is to be delivered.\<close>

abbreviation pending :: "console \<Rightarrow> u8 list" where
  "pending s \<equiv> text_after (k_cr s) (arrived (k_rx s))"

lemma took_pending: "took bs s s' \<Longrightarrow> pending s = bs @ pending s'"
  by (auto simp: took_def arrived_append)

lemma first_byte_returns: "first_byte s = None \<longleftrightarrow> pending s = []"
proof (induction s rule: first_byte.induct)
  case (1 s)
  show ?case
  proof (cases "k_rx s = []")
    case True
    then show ?thesis by (simp add: first_byte.simps arrived_def text_after_def)
  next
    case False
    obtain r s1 where in1: "inbyte s = (r, s1)" by fastforce
    note t = took_inbyte [OF in1]
    show ?thesis
    proof (cases "r AND 0x100 = 0")
      case True
      then show ?thesis using took_pending [OF t] False in1 by (simp add: first_byte.simps [of s])
    next
      case e: False
      then show ?thesis
        using took_pending [OF t] 1 [OF False in1 [symmetric] e] False in1 by (simp add: first_byte.simps [of s])
    qed
  qed
qed

lemma read_returns: "read_r STDIN_FILENO len s = None \<longleftrightarrow> pending s = []"
  using first_byte_returns [of s] by (auto simp: read_r_def split: option.splits prod.splits)

lemma byte_reads: "\<exists>s'. read_all (replicate (length (pending s)) 1) s = Some (pending s, s')"
proof (induction "length (pending s)" arbitrary: s)
  case 0
  then show ?case by simp
next
  case (Suc n)
  then have "pending s \<noteq> []" by auto
  then obtain k bs s1 where rd: "read_r STDIN_FILENO 1 s = Some (k, bs, s1)" using read_returns [of 1 s] by auto
  note t = took_read [OF rd]
  have "length bs = 1" using t(3,4) by (cases bs) auto
  then have "n = length (pending s1)" using took_pending [OF t(1)] Suc.hyps(2) by auto
  then obtain s' where "read_all (replicate n 1) s1 = Some (pending s1, s')" using Suc.hyps(1) by blast
  then have "read_all (replicate (Suc n) 1) s = Some (pending s, s')" using rd took_pending [OF t(1)] by simp
  then show ?case using Suc.hyps(2) by auto
qed

text \<open>C35:
  What a program gets from the reads of its standard input, of any lengths, is the text that has been received with every
  CR, LF and CR LF a single newline, and it has been echoed: what is sent is the text with a CR before every newline.
  This is so of every character that is received without an overflow of the FIFO.  A word of the receive register that
  says that there has been one is delivered as its low byte, and is not taken for an end of line whatever that byte is.
\<close>

theorem reads_deliver_input:
  assumes "\<not> k_cr s" "read_all lens s = Some (bs, s')"
  shows "\<exists>used. k_rx s = used @ k_rx s' \<and> bs = input_text (arrived used) \<and> k_tx s' = k_tx s @ map ucast (printed bs)
    \<and> ((\<forall>v\<in>set used. v < 0x200) \<longrightarrow> bs = newlines (received_chars used))"
proof -
  obtain used where u: "k_rx s = used @ k_rx s'"
      "\<And>rest. text_after (k_cr s) (arrived used @ rest) = bs @ text_after (k_cr s') rest"
    using took_reads [OF assms(2)] unfolding took_def by blast
  have "input_text (arrived used) = bs" using u(2) [of "[]"] assms(1) by (simp add: text_after_def)
  moreover have "(\<forall>v\<in>set used. v < 0x200) \<longrightarrow> input_text (arrived used) = newlines (received_chars used)"
    using input_text_received [of used] by (simp add: rx_word_def)
  ultimately show ?thesis using u(1) took_reads [OF assms(2)] by (auto simp: took_def)
qed

definition demo_console :: "u32 list \<Rightarrow> console" where
  "demo_console rx = \<lparr>k_rx = rx, k_fifo = [0, 0x10000], k_busy = [], k_tx = [], k_cr = False, k_heap = 0, k_reent = None, k_errno = None\<rparr>"

lemma demo_reads: "map_option fst (read_all [4, 4] (demo_console [0x41, 0x0d, 0x0a, 0x100, 0x42, 0x100d])) = Some [0x41, 0x0a, 0x42, 0x0d]"
  by code_simp

text \<open>The last word of the example is a CR in a word that says that the FIFO has overflowed.\<close>

theorem reads_deliver_input_witness:
  "\<exists>used (s' :: console). [0x41, 0x0d, 0x0a, 0x100, 0x42, 0x100d] = used @ k_rx s' \<and> [0x41, 0x0a, 0x42, 0x0d] = input_text (arrived used)
    \<and> k_tx s' = map ucast (printed [0x41, 0x0a, 0x42, 0x0d])"
proof -
  obtain s' where s': "read_all [4, 4] (demo_console [0x41, 0x0d, 0x0a, 0x100, 0x42, 0x100d]) = Some ([0x41, 0x0a, 0x42, 0x0d], s')"
    using demo_reads by auto
  have "\<not> k_cr (demo_console [0x41, 0x0d, 0x0a, 0x100, 0x42, 0x100d])" by (simp add: demo_console_def)
  from reads_deliver_input [OF this s'] show ?thesis
    by (simp only: demo_console_def console.select_convs append_Nil) blast
qed

section \<open>Writing\<close>

lemma fold_outbyte:
  "k_tx (fold outbyte bs s) = k_tx s @ map ucast (printed bs)" "k_rx (fold outbyte bs s) = k_rx s"
  "k_cr (fold outbyte bs s) = k_cr s"
  by (induction bs arbitrary: s) (simp_all add: outbyte_fields printed_def)

lemma sent_chars: "received_chars (map ucast (bs :: u8 list)) = bs" "\<forall>v\<in>set (map ucast (bs :: u8 list)). rx_word v"
proof -
  have "(ucast b :: u32) AND 0x100 = 0" "rx_word (ucast b)" for b :: u8
  proof -
    have "unat b < 256" using unsigned_less [of b] by simp
    then show "rx_word (ucast b)" by (simp add: rx_word_def word_less_nat_alt)
    have "\<not> bit (ucast b :: u32) 8" using bit_imp_le_length [of b 8] by (auto simp: bit_simps)
    then show "(ucast b :: u32) AND 0x100 = 0" using bit_and_push_bit_1 [of "ucast b :: u32" 8] by (simp add: push_bit_eq_mult)
  qed
  then show "received_chars (map ucast bs) = bs" "\<forall>v\<in>set (map ucast bs). rx_word v"
    by (simp_all add: received_chars_def filter_map comp_def)
qed

text \<open>C36:
  A text without CR that one program writes to its standard output comes back from the standard input of another whose
  console receives what has been sent: reading it byte by byte gives the text, whatever the transmitter had to wait.
\<close>

theorem write_read_roundtrip:
  assumes "write_r STDOUT_FILENO buf w = (n, w')" "k_tx w = []" "0x0d \<notin> set buf"
    and "k_rx s = k_tx w'" "\<not> k_cr s"
  shows "\<exists>s'. read_all (replicate (length buf) 1) s = Some (buf, s')"
proof -
  have tx: "k_rx s = map ucast (printed buf)" using assms(1,2,4) by (auto simp: write_r_def fold_outbyte)
  have "input_text (arrived (map ucast (printed buf))) = buf"
    using input_text_received [OF sent_chars(2)] assms(3) by (simp add: sent_chars(1) newlines_printed)
  then have "pending s = buf" using assms(5) by (simp add: text_after_def tx)
  then show ?thesis using byte_reads [of s] by simp
qed

theorem write_read_roundtrip_witness:
  "\<exists>s'. read_all (replicate 3 1) (demo_console [0x48, 0x69, 0x0d, 0x0a]) = Some ([0x48, 0x69, 0x0a], s')"
  using write_read_roundtrip [of "[0x48, 0x69, 0x0a]" "demo_console []" _ _ "demo_console [0x48, 0x69, 0x0d, 0x0a]", OF prod.collapse [symmetric]]
  by (simp add: demo_console_def write_r_def STDOUT_FILENO_def outbyte_def send_tx_def numeral_3_eq_3)

text \<open>A read of no bytes stores one, and a request for memory takes four times as much.\<close>

lemma empty_read_stores: "read_r STDIN_FILENO 0 (demo_console [0x41]) = Some (1, [0x41], outbyte 0x41 (demo_console []))"
  by (simp add: demo_console_def read_r_def STDIN_FILENO_def first_byte.simps inbyte_def read_rx_def)

lemma sbrk_takes_words: "fst (sbrk_r sz2 (snd (sbrk_r sz s))) = fst (sbrk_r sz s) + 4 * sz"
  by (simp add: sbrk_r_def)

end
