(* ===== verification/Calendar.thy ===== *)
theory Calendar
  imports Syscalls
begin

text \<open>
  The time of day of \<^verbatim>\<open>_gettimeofday_r\<close> compared with the calendar: it is one day late and loses the seconds.
\<close>

section \<open>The calendar\<close>

definition leap :: "nat \<Rightarrow> bool" where
  "leap y \<longleftrightarrow> 4 dvd y \<and> \<not> 100 dvd y \<or> 400 dvd y"

definition month_len :: "bool \<Rightarrow> nat \<Rightarrow> nat" where
  "month_len ly m = (if m = 2 then if ly then 29 else 28 else if m \<in> {4, 6, 9, 11} then 30 else 31)"

definition year_len :: "nat \<Rightarrow> nat" where
  "year_len y = (if leap y then 366 else 365)"

text \<open>The days from 1970-01-01 to a date.\<close>

definition civil_days :: "nat \<Rightarrow> nat \<Rightarrow> nat \<Rightarrow> nat" where
  "civil_days y m d = sum_list (map year_len [1970..<y]) + sum_list (map (month_len (leap y)) [1..<m]) + (d - 1)"

definition date_ok :: "nat \<Rightarrow> nat \<Rightarrow> nat \<Rightarrow> bool" where
  "date_ok y m d \<longleftrightarrow> 1970 \<le> y \<and> y < 2100 \<and> 1 \<le> m \<and> m \<le> 12 \<and> 1 \<le> d \<and> d \<le> month_len (leap y) m"

text \<open>Four numbers below a hundred in the decimal digits of a register.\<close>

definition bcd :: "nat \<Rightarrow> nat" where
  "bcd n = n div 10 * 16 + n mod 10"

definition bcd_word :: "nat \<Rightarrow> nat \<Rightarrow> nat \<Rightarrow> nat \<Rightarrow> u32" where
  "bcd_word a b c d = word_of_nat (((bcd a * 256 + bcd b) * 256 + bcd c) * 256 + bcd d)"

lemma bcd_less: "n < 100 \<Longrightarrow> bcd n < 256"
  by (simp add: bcd_def)

lemma unat_bcd_word:
  assumes "a < 100" "b < 100" "c < 100" "d < 100"
  shows "unat (bcd_word a b c d) = ((bcd a * 256 + bcd b) * 256 + bcd c) * 256 + bcd d"
  using assms [THEN bcd_less] unfolding bcd_word_def by (intro unat_of_nat_u32) simp

lemma unat_nibble: "unat (drop_bit i (w :: u32) AND 0x0f) = unat w div 2 ^ i mod 16"
proof -
  have "drop_bit i w AND 0x0f = take_bit 4 (drop_bit i w)" using word_and_mask_eq_take_bit [of "drop_bit i w" 4] by (simp add: mask_eq_exp_minus_1)
  then show ?thesis by (simp only: unat_take_bit_u32 unat_drop_bit_eq) (simp add: drop_bit_eq_div)
qed

lemma unat_bcd2:
  assumes "unat w div 2 ^ i mod 256 = bcd n" "n < 100"
  shows "unat (bcd2 i w) = n"
proof -
  have lo: "unat w div 2 ^ i mod 16 = n mod 10"
    using arg_cong [OF assms(1), of "\<lambda>x. x mod 16"] assms(2) by (simp add: bcd_def mod_mod_cancel)
  have "x div 16 mod 16 = x mod 256 div 16" for x :: nat
    using mod_mult2_eq [of x 16 16] by simp
  then have hi: "unat w div 2 ^ (i + 4) mod 16 = n div 10"
    using assms by (simp add: bcd_def power_add div_mult2_eq)
  have "unat (bcd2 i w) = n mod 10 + n div 10 * 10"
    unfolding bcd2_def using assms(2)
    by (simp add: unat_word_ariths unat_nibble lo hi)
  then show ?thesis by simp
qed

lemma bcd_fields:
  assumes "a < 100" "b < 100" "c < 100" "d < 100"
  shows "unat (bcd2 0 (bcd_word a b c d)) = d" "unat (bcd2 8 (bcd_word a b c d)) = c"
    "unat (bcd2 16 (bcd_word a b c d)) = b" "unat (bcd2 24 (bcd_word a b c d)) = a"
proof -
  note less = assms [THEN bcd_less] and u = unat_bcd_word [OF assms]
  have d: "(x * 256 + y) div 256 = x" "(x * 256 + y) mod 256 = y" if "y < 256" for x y :: nat
    using that by simp_all
  have p: "x div 2 ^ 16 = x div 256 div 256" "x div 2 ^ 24 = x div 256 div 256 div 256" "x div 2 ^ 8 = x div 256" "x div 2 ^ 0 = x"
    for x :: nat by (simp_all add: div_mult2_eq [symmetric])
  show "unat (bcd2 0 (bcd_word a b c d)) = d" by (rule unat_bcd2 [OF _ assms(4)]) (simp only: u p d less)
  show "unat (bcd2 8 (bcd_word a b c d)) = c" by (rule unat_bcd2 [OF _ assms(3)]) (simp only: u p d less)
  show "unat (bcd2 16 (bcd_word a b c d)) = b" by (rule unat_bcd2 [OF _ assms(2)]) (simp only: u p d less)
  show "unat (bcd2 24 (bcd_word a b c d)) = a"
    by (rule unat_bcd2 [OF _ assms(1)]) (simp only: u p d less mod_less)
qed

section \<open>The days\<close>

lemma leap_in_range: "1970 \<le> y \<Longrightarrow> y < 2100 \<Longrightarrow> leap y \<longleftrightarrow> y mod 4 = 0"
proof -
  assume y: "1970 \<le> y" "y < 2100"
  have "400 dvd y" if "100 dvd y"
  proof -
    obtain j where "y = 100 * j" using \<open>100 dvd y\<close> by (elim dvdE)
    then have "j = 20" using y by simp
    then show ?thesis using \<open>y = 100 * j\<close> by simp
  qed
  moreover have "4 dvd y" if "400 dvd y"
    by (rule dvd_trans [OF _ that]) simp
  ultimately show ?thesis unfolding leap_def dvd_eq_mod_eq_0 [of 4, symmetric] by blast
qed

lemma unat_add_years:
  "1970 \<le> yy \<Longrightarrow> lim \<le> 2100 \<Longrightarrow> unat days + 366 * (lim - yy) < 2 ^ 32 \<Longrightarrow>
   unat (add_years yy lim days) = unat days + sum_list (map year_len [yy..<lim])"
proof (induction yy lim days rule: add_years.induct)
  case (1 yy lim days)
  show ?case
  proof (cases "yy < lim")
    case True
    let ?d = "days + (if yy mod 4 = 0 then 366 else 365)"
    have len: "year_len yy = (if yy mod 4 = 0 then 366 else 365)"
      using leap_in_range [of yy] 1(2,3) True by (simp add: year_len_def)
    have lim: "lim - yy = Suc (lim - (yy + 1))" using True by simp
    have d: "unat ?d = unat days + year_len yy"
      using 1(4) by (simp add: len unat_add_u32 lim)
    have "unat ?d + 366 * (lim - (yy + 1)) < 2 ^ 32"
      using 1(4) by (simp add: d len lim)
    then have "unat (add_years (yy + 1) lim ?d) = unat ?d + sum_list (map year_len [yy + 1..<lim])"
      using 1(1) [OF True] 1(2,3) by simp
    then show ?thesis using True by (subst add_years.simps) (simp add: d upt_conv_Cons)
  next
    case False
    then show ?thesis by (simp add: add_years.simps)
  qed
qed

lemma unat_days_before:
  assumes "unat m = k" "1 \<le> k" "k \<le> 12"
  shows "unat (days_before ly m) = sum_list (map (month_len ly) [1..<k])"
proof -
  have m: "m = word_of_nat k" using assms(1) by auto
  have "k \<in> {1, 2, 3, 4, 5, 6, 7, 8, 9, 10, 11, 12}" using assms(2,3) by (simp, arith)
  then show ?thesis unfolding m
    by (elim insertE emptyE) (simp_all add: days_before_def month_len_def upt_rec)
qed

lemma leap_flag_mod: "leap_flag y \<longleftrightarrow> unat y mod 4 = 0"
proof -
  have "y AND 3 = take_bit 2 y" by (rule and_mask_take_bit)
  then have "unat (y AND 3) = unat y mod 4" by (simp add: unat_take_bit_u32)
  then show ?thesis by (auto simp: leap_flag_def simp flip: unat_eq_zero)
qed

lemma unat_days_since_epoch:
  assumes "date_ok y m d"
  shows "unat (days_since_epoch (bcd_word (y div 100) (y mod 100) m d)) = civil_days y m d + 1"
proof -
  let ?w = "bcd_word (y div 100) (y mod 100) m d"
  have r: "1970 \<le> y" "y < 2100" "1 \<le> m" "m \<le> 12" "1 \<le> d" "d \<le> 31"
    using assms by (auto simp: date_ok_def month_len_def split: if_splits)
  have less: "y div 100 < 100" "y mod 100 < 100" "m < 100" "d < 100" using r by auto
  note f = bcd_fields [OF less]
  have y: "unat (bcd2 24 ?w * 100 + bcd2 16 ?w) = y"
    using r by (simp add: unat_word_ariths f)
  have "leap_flag (bcd2 16 ?w) \<longleftrightarrow> y mod 100 mod 4 = 0" by (simp add: leap_flag_mod f)
  then have ly: "leap_flag (bcd2 16 ?w) = leap y" using leap_in_range [OF r(1,2)] by (simp add: mod_mod_cancel)
  have before: "unat (days_before (leap y) (bcd2 8 ?w)) = sum_list (map (month_len (leap y)) [1..<m])"
    by (rule unat_days_before [OF f(2) r(3,4)])
  have "sum_list (map (month_len (leap y)) [1..<m]) \<le> 31 * 12"
  proof -
    have "sum_list (map (month_len (leap y)) [1..<m]) \<le> sum_list (map (\<lambda>_. 31) [1..<m])"
      by (rule sum_list_mono) (simp add: month_len_def)
    also have "\<dots> \<le> 31 * 12" using r(4) by (simp add: sum_list_triv)
    finally show ?thesis .
  qed
  then have small: "unat (bcd2 0 ?w + days_before (leap y) (bcd2 8 ?w)) = d + sum_list (map (month_len (leap y)) [1..<m])"
      "d + sum_list (map (month_len (leap y)) [1..<m]) < 1000"
    using r by (simp_all add: unat_add_u32 f before)
  have "unat (days_since_epoch ?w) = d + sum_list (map (month_len (leap y)) [1..<m]) + sum_list (map year_len [1970..<y])"
    unfolding days_since_epoch_def Let_def y ly
    using unat_add_years [of 1970 y "bcd2 0 ?w + days_before (leap y) (bcd2 8 ?w)"] r small by simp
  then show ?thesis using r(5) by (simp add: civil_days_def)
qed

lemma civil_days_bound:
  assumes "date_ok y m d"
  shows "civil_days y m d < 50000"
proof -
  have r: "1970 \<le> y" "y < 2100" "m \<le> 12" "d \<le> 31"
    using assms by (auto simp: date_ok_def month_len_def split: if_splits)
  have "sum_list (map year_len [1970..<y]) \<le> sum_list (map (\<lambda>_. 366) [1970..<y])"
    by (rule sum_list_mono) (simp add: year_len_def)
  moreover have "sum_list (map (month_len (leap y)) [1..<m]) \<le> sum_list (map (\<lambda>_. 31) [1..<m])"
    by (rule sum_list_mono) (simp add: month_len_def)
  ultimately show ?thesis using r by (simp add: civil_days_def sum_list_triv)
qed

lemma unat_ucast_long: "unat (ucast (w :: u32) :: u64) = unat w"
  using unat_bound_u32 [of w] by (simp add: unsigned_ucast_eq take_bit_nat_eq_self)

text \<open>C37:
  On every date from 1970 to 2099 and at every time, the time of day that a board with a clock reports is the time of the
  calendar in seconds, one day late and without its seconds.
\<close>

theorem clock_is_a_day_late:
  assumes "date_ok y m d" "h < 24" "mi < 60" "sec < 60"
  shows "\<exists>t. gettimeofday_r (Some (bcd_word 0 h mi sec, Some (bcd_word (y div 100) (y mod 100) m d))) True s = (0, Some (t, 0), s)
    \<and> unat t = 86400 * civil_days y m d + 3600 * h + 60 * mi + 86400"
proof -
  let ?days = "days_since_epoch (bcd_word (y div 100) (y mod 100) m d)"
  have days: "unat ?days = civil_days y m d + 1" "civil_days y m d < 50000"
    using unat_days_since_epoch [OF assms(1)] civil_days_bound [OF assms(1)] by simp_all
  have less: "0 < (100::nat)" "h < 100" "mi < 100" "sec < 100" using assms by simp_all
  have tod: "unat (time_of_day (bcd_word 0 h mi sec)) = 3600 * h + 60 * mi"
    unfolding time_of_day_def Let_def using assms(2,3) by (simp add: unat_word_ariths bcd_fields [OF less])
  have "unat (ucast ?days * 86400 + ucast (time_of_day (bcd_word 0 h mi sec)) :: u64) = unat ?days * 86400 + (3600 * h + 60 * mi)"
    using days assms(2,3) by (simp add: unat_word_ariths unat_ucast_long tod)
  then show ?thesis unfolding gettimeofday_r_def by (simp add: days(1))
qed

definition demo_clock_console :: console where
  "demo_clock_console = \<lparr>k_rx = [], k_fifo = [], k_busy = [], k_tx = [], k_cr = False, k_heap = 0, k_reent = None, k_errno = None\<rparr>"

theorem clock_is_a_day_late_witness:
  "\<exists>t. gettimeofday_r (Some (bcd_word 0 12 34 56, Some (bcd_word (2024 div 100) (2024 mod 100) 2 29))) True demo_clock_console
      = (0, Some (t, 0), demo_clock_console)
    \<and> unat t = 86400 * civil_days 2024 2 29 + 3600 * 12 + 60 * 34 + 86400"
  by (rule clock_is_a_day_late) (simp_all add: date_ok_def month_len_def leap_def)

end
