(* ===== verification/CpuTest.thy ===== *)
theory CpuTest
  imports Text
begin

text \<open>
  The test program of the CPU, \<^verbatim>\<open>sw/board/cputest.c\<close>: the multiplication in C that the instructions of the CPU are
  compared with, the text it prints, and the sequence of its tests.  The tests themselves are assembly: what
  each leaves behind is an argument, as are the two multiplication instructions.  An \<^verbatim>\<open>int\<close> product that overflows wraps
  around, as on the ZipCPU.
\<close>

section \<open>Multiplication\<close>

text \<open>The sixteen-bit pieces of \<open>a << i\<close>, for a shift of less than sixteen.\<close>

definition mpy_parts :: "u32 \<Rightarrow> u32 \<Rightarrow> nat \<Rightarrow> u32 \<times> u32 \<times> u32" where
  "mpy_parts alo ahi i =
     (let slo = push_bit i alo; shi = push_bit i ahi;
          shi = shi OR (drop_bit 16 slo AND 0xffff); slo = slo AND 0xffff;
          sp = drop_bit 16 shi AND 0xffff; shi = shi AND 0xffff
      in (slo, shi, sp))"

definition mpy_low :: "u32 \<Rightarrow> u32 \<Rightarrow> u32 \<Rightarrow> nat \<Rightarrow> u32 \<times> u32 \<times> u32 \<Rightarrow> u32 \<times> u32 \<times> u32" where
  "mpy_low alo ahi b i = (\<lambda>(rhi, rlhi, rllo).
     if b AND push_bit i 1 \<noteq> 0 then
       (let (slo, shi, sp) = mpy_parts alo ahi i;
            rhi = rhi + sp; rlhi = rlhi + shi; rllo = rllo + slo;
            rlhi = rlhi + (drop_bit 16 rllo AND 0xffff); rllo = rllo AND 0xffff;
            rhi = rhi + (drop_bit 16 rlhi AND 0xffff); rlhi = rlhi AND 0xffff
        in (rhi, rlhi, rllo))
     else (rhi, rlhi, rllo))"

definition mpy_high :: "u32 \<Rightarrow> u32 \<Rightarrow> u32 \<Rightarrow> nat \<Rightarrow> u32 \<times> u32 \<times> u32 \<Rightarrow> u32 \<times> u32 \<times> u32" where
  "mpy_high alo ahi b i = (\<lambda>(rhi, rlhi, rllo).
     if b AND push_bit i 1 \<noteq> 0 then
       (let (slo, shi, sp) = mpy_parts alo ahi (i - 16);
            rhi = rhi + push_bit 16 sp; rhi = rhi + shi; rlhi = rlhi + slo;
            rhi = rhi + (drop_bit 16 rlhi AND 0xffff); rlhi = rlhi AND 0xffff
        in (rhi, rlhi, rllo))
     else (rhi, rlhi, rllo))"

definition soft_mpyuhi :: "u32 \<Rightarrow> u32 \<Rightarrow> u32" where
  "soft_mpyuhi a b =
     (let alo = a AND 0xffff; ahi = drop_bit 16 a AND 0xffff
      in fst (fold (mpy_high alo ahi b) [16..<32] (fold (mpy_low alo ahi b) [0..<16] (0, 0, 0))))"

definition soft_mpyshi :: "u32 \<Rightarrow> u32 \<Rightarrow> u32" where
  "soft_mpyshi a b =
     (let sgn = signed_drop_bit 31 (a XOR b) AND 1;
          a = (if sint a < 0 then - a else a); b = (if sint b < 0 then - b else b);
          p = a * b;
          r = soft_mpyuhi a b;
          r = (if sgn \<noteq> 0 then r XOR - 1 else r)
      in if sgn \<noteq> 0 \<and> p = 0 then r + 1 else r)"

text \<open>
  The comparison with the instructions \<^verbatim>\<open>MPYUHI\<close> and \<^verbatim>\<open>MPYSHI\<close>, \<open>hu\<close> and \<open>hs\<close>: the result, and the multiplication that
  failed with the two products.
\<close>

function mpyhi_from :: "(u32 \<Rightarrow> u32 \<Rightarrow> u32) \<Rightarrow> (u32 \<Rightarrow> u32 \<Rightarrow> u32) \<Rightarrow> int \<Rightarrow> nat \<times> (string \<times> u32 \<times> u32 \<times> u32 \<times> u32) option" where
  "mpyhi_from hu hs i =
     (if i < 0x6fffffff then
        (let a = 0xf97e27ab; b = word_of_int i
         in if hu a b \<noteq> soft_mpyuhi a b then (1, Some (''MPYUHI: '', a, b, soft_mpyuhi a b, hu a b))
            else if hs a b \<noteq> soft_mpyshi a b then (2, Some (''MPYSHI: '', a, b, soft_mpyshi a b, hs a b))
            else if hs (- a) b \<noteq> soft_mpyshi (- a) b then (3, Some (''MPYSHI-NEG: '', - a, b, soft_mpyshi (- a) b, hs (- a) b))
            else mpyhi_from hu hs (i + 0x197e2 * 7))
      else (0, None))"
  by pat_completeness auto
termination
  by (relation "measure (\<lambda>(_, _, i). nat (0x6fffffff - i))") auto

declare mpyhi_from.simps [simp del]

definition mpyhi_test :: "(u32 \<Rightarrow> u32 \<Rightarrow> u32) \<Rightarrow> (u32 \<Rightarrow> u32 \<Rightarrow> u32) \<Rightarrow> nat \<times> (string \<times> u32 \<times> u32 \<times> u32 \<times> u32) option" where
  "mpyhi_test hu hs = mpyhi_from hu hs 0"

text \<open>The test of a call with many arguments.\<close>

definition multiarg_subroutine :: "int \<Rightarrow> int \<Rightarrow> int \<Rightarrow> int \<Rightarrow> int \<Rightarrow> int \<Rightarrow> int \<Rightarrow> int" where
  "multiarg_subroutine a b c d e f g =
     (if a \<noteq> 0 then 1 else if b \<noteq> 1 then 2 else if c \<noteq> 2 then 4 else if d \<noteq> 3 then 8 else if e \<noteq> 4 then 16
      else if f \<noteq> 5 then 32 else if g \<noteq> 6 then 64 else 0)"

definition multiarg_test :: int where
  "multiarg_test = multiarg_subroutine 0 1 2 3 4 5 6"

section \<open>The multiplication is right\<close>

lemma and_ffff: "(w :: u32) AND 0xffff = take_bit 16 w"
  using word_and_mask_eq_take_bit [of w 16] by (simp add: mask_eq_exp_minus_1)

lemma unat_and_ffff: "unat ((w :: u32) AND 0xffff) = unat w mod 65536"
  by (simp add: and_ffff unat_take_bit_u32)

lemma unat_drop_16: "unat (drop_bit 16 (w :: u32)) = unat w div 65536"
  by (simp only: unat_drop_bit_eq) (simp add: drop_bit_eq_div)

lemma unat_push_u32: "unat (w :: u32) * 2 ^ i < 2 ^ 32 \<Longrightarrow> unat (push_bit i w) = unat w * 2 ^ i"
  by (simp only: unsigned_push_bit_eq) (simp add: push_bit_eq_mult take_bit_nat_eq_self)

lemma pow_below_16: "i < 16 \<Longrightarrow> (2::nat) ^ i \<le> 2 ^ 15"
  by (rule power_increasing) simp_all

lemma unat_or_disjoint:
  fixes v w :: u32
  assumes "v AND w = 0" "unat v + unat w < 2 ^ 32"
  shows "unat (v OR w) = unat v + unat w"
  using assms by (simp add: unat_add_u32 flip: disjunctive_add_eq_or)

lemma recombine: "(h + x div 65536) div 65536 * 2 ^ 32 + (h + x div 65536) mod 65536 * 65536 + x mod 65536 = h * 65536 + (x::nat)"
proof -
  have "(s div 65536) * 2 ^ 32 + s mod 65536 * 65536 = s * 65536" for s :: nat
    using arg_cong [OF div_mult_mod_eq [of s 65536], of "\<lambda>x. x * 65536"] by (simp only: add_mult_distrib) simp
  from this [of "h + x div 65536"] show ?thesis by (simp add: algebra_simps)
qed

lemma mpy_parts_value:
  assumes "unat alo < 65536" "unat ahi < 65536" "i < 16" "mpy_parts alo ahi i = (slo, shi, sp)"
  shows "unat slo < 65536" "unat shi < 65536" "unat sp < 65536"
    "unat sp * 2 ^ 32 + unat shi * 65536 + unat slo = (unat ahi * 65536 + unat alo) * 2 ^ i"
proof -
  let ?A = "unat alo * 2 ^ i" and ?H = "unat ahi * 2 ^ i"
  have small: "?A < 2 ^ 31" "?H < 2 ^ 31"
    using mult_strict_mono' [of "unat alo" 65536 "2 ^ i" "2 ^ 15 + 1"] mult_strict_mono' [of "unat ahi" 65536 "2 ^ i" "2 ^ 15 + 1"]
      mult_le_mono [of "unat alo" 65535 "2 ^ i" "2 ^ 15"] mult_le_mono [of "unat ahi" 65535 "2 ^ i" "2 ^ 15"]
      pow_below_16 [OF assms(3)] assms(1,2) by simp_all
  then have A: "unat (push_bit i alo) = ?A" and H: "unat (push_bit i ahi) = ?H" by (simp_all add: unat_push_u32)
  define q where "q = drop_bit 16 (push_bit i alo) AND 0xffff"
  have q: "unat q = ?A div 65536" using small(1) by (simp add: q_def unat_and_ffff unat_drop_16 A)
  have "\<not> bit alo k" if "16 \<le> k" for k
  proof -
    have "take_bit 16 alo = alo" using assms(1) by (simp add: word_unat_eq_iff unat_take_bit_u32)
    then have "bit alo k \<longleftrightarrow> bit (take_bit 16 alo) k" by simp
    then show ?thesis using that by (simp add: bit_simps)
  qed
  then have "push_bit i ahi AND q = 0"
    using assms(3) by (intro bit_word_eqI) (auto simp: q_def and_ffff bit_simps)
  moreover define v where "v = push_bit i ahi OR q"
  ultimately have S: "unat v = ?H + ?A div 65536"
    using small by (simp add: unat_or_disjoint H q)
  have parts: "slo = push_bit i alo AND 0xffff" "shi = v AND 0xffff" "sp = drop_bit 16 v AND 0xffff"
    using assms(4) unfolding mpy_parts_def Let_def v_def q_def by (simp_all del: drop_bit_or)
  have u: "unat slo = ?A mod 65536" "unat shi = (?H + ?A div 65536) mod 65536" "unat sp = (?H + ?A div 65536) div 65536"
    using small by (simp_all add: parts unat_and_ffff unat_drop_16 A S)
  show "unat slo < 65536" "unat shi < 65536" by (simp_all add: u)
  show "unat sp < 65536" using small by (simp add: u)
  show "unat sp * 2 ^ 32 + unat shi * 65536 + unat slo = (unat ahi * 65536 + unat alo) * 2 ^ i"
    unfolding u recombine by (simp add: algebra_simps)
qed

text \<open>The three accumulators hold the product with the bits of \<open>b\<close> that have been done.\<close>

definition mpy_sum :: "u32 \<times> u32 \<times> u32 \<Rightarrow> nat" where
  "mpy_sum = (\<lambda>(rhi, rlhi, rllo). unat rhi * 2 ^ 32 + unat rlhi * 65536 + unat rllo)"

definition mpy_ok :: "u32 \<Rightarrow> u32 \<Rightarrow> nat \<Rightarrow> u32 \<times> u32 \<times> u32 \<Rightarrow> bool" where
  "mpy_ok a b i r \<longleftrightarrow> mpy_sum r = unat a * (unat b mod 2 ^ i) \<and> unat (fst (snd r)) < 65536 \<and> unat (snd (snd r)) < 65536"

lemma halves:
  fixes a :: u32
  shows "unat (a AND 0xffff) < 65536" "unat (drop_bit 16 a AND 0xffff) < 65536"
    "unat (drop_bit 16 a AND 0xffff) * 65536 + unat (a AND 0xffff) = unat a"
proof -
  have "unat a div 65536 < 65536" using unat_bound_u32 [of a] by simp
  then show "unat (a AND 0xffff) < 65536" "unat (drop_bit 16 a AND 0xffff) < 65536"
    "unat (drop_bit 16 a AND 0xffff) * 65536 + unat (a AND 0xffff) = unat a"
    by (simp_all add: unat_and_ffff unat_drop_16)
qed

lemma test_bit_mask: "b AND 2 ^ i = (0 :: u32) \<longleftrightarrow> \<not> bit b i"
  using bit_and_push_bit_1 [of b i] by auto

lemma mod_next_bit: "unat (b :: u32) mod 2 ^ Suc i = (if bit b i then 2 ^ i else 0) + unat b mod 2 ^ i"
proof -
  have "bit b i \<longleftrightarrow> bit (unat b) i" by (simp add: bit_unsigned_iff)
  also have "\<dots> \<longleftrightarrow> odd (unat b div 2 ^ i)" by (rule bit_iff_odd)
  finally show ?thesis
    unfolding power_Suc2 mod_mult2_eq [of "unat b" "2 ^ i" 2] by (simp add: odd_iff_mod_2_eq_one)
qed

lemma mod_product_bound: "i \<le> 32 \<Longrightarrow> unat (a :: u32) * (unat (b :: u32) mod 2 ^ i) < 2 ^ (32 + i)"
proof -
  have "unat a * (unat b mod 2 ^ i) < 2 ^ 32 * 2 ^ i"
    by (rule mult_strict_mono) (use unat_bound_u32 [of a] in simp_all)
  then show ?thesis by (simp add: power_add)
qed

lemma mpy_low_step:
  assumes "mpy_ok a b i r" "i < 16"
  shows "mpy_ok a b (Suc i) (mpy_low (a AND 0xffff) (drop_bit 16 a AND 0xffff) b i r)"
proof (cases "bit b i")
  case False
  then show ?thesis using assms(1) by (cases r) (simp add: mpy_ok_def mpy_low_def mod_next_bit test_bit_mask del: power_Suc)
next
  case True
  obtain rhi rlhi rllo where r: "r = (rhi, rlhi, rllo)" by (cases r)
  obtain slo shi sp where p: "mpy_parts (a AND 0xffff) (drop_bit 16 a AND 0xffff) i = (slo, shi, sp)"
    by (cases "mpy_parts (a AND 0xffff) (drop_bit 16 a AND 0xffff) i")
  note parts = mpy_parts_value [OF halves(1,2) assms(2) p, unfolded halves(3)]
  have pre: "unat rhi * 2 ^ 32 + unat rlhi * 65536 + unat rllo = unat a * (unat b mod 2 ^ i)" "unat rlhi < 65536" "unat rllo < 65536"
    using assms(1) by (simp_all add: mpy_ok_def mpy_sum_def r)
  have "unat a * (unat b mod 2 ^ i) < 2 ^ 48"
    using less_le_trans [OF mod_product_bound [of i a b] power_increasing [of "32 + i" 48 "2::nat"]] assms(2) by simp
  then have rhi: "unat rhi < 65536" using pre(1) by simp
  let ?l = "rllo + slo"
  let ?h = "rlhi + shi + (drop_bit 16 ?l AND 0xffff)"
  have l: "unat ?l = unat rllo + unat slo" using pre(3) parts(1) by (simp add: unat_add_u32)
  have h: "unat ?h = unat rlhi + unat shi + (unat rllo + unat slo) div 65536"
    using pre(2,3) parts(1,2) by (simp add: unat_add_u32 unat_and_ffff unat_drop_16 l)
  have top: "unat (rhi + sp + (drop_bit 16 ?h AND 0xffff)) = unat rhi + unat sp + unat ?h div 65536"
    using rhi parts(3) pre(2,3) parts(1,2) by (simp add: unat_add_u32 unat_and_ffff unat_drop_16 h)
  have low: "mpy_low (a AND 0xffff) (drop_bit 16 a AND 0xffff) b i r
      = (rhi + sp + (drop_bit 16 ?h AND 0xffff), ?h AND 0xffff, ?l AND 0xffff)"
    using True by (simp add: mpy_low_def r p Let_def test_bit_mask)
  have "unat ?h div 65536 * 2 ^ 32 + unat ?h mod 65536 * 65536 + unat ?l mod 65536 = (unat rlhi + unat shi) * 65536 + (unat rllo + unat slo)"
    unfolding h l by (rule recombine)
  then have "mpy_sum (mpy_low (a AND 0xffff) (drop_bit 16 a AND 0xffff) b i r)
      = unat a * (unat b mod 2 ^ i) + unat a * 2 ^ i"
    unfolding low mpy_sum_def prod.case top unat_and_ffff using pre(1) parts(4) by simp
  then show ?thesis using True by (simp add: mpy_ok_def low unat_and_ffff mod_next_bit algebra_simps del: power_Suc)
qed

lemma high_sum:
  assumes "r * 2 ^ 32 + l * 65536 + k = (p::nat)" "(t * 2 ^ 32 + h * 65536 + s) * 65536 = q"
  shows "(r + t * 65536 + h + (l + s) div 65536) * 2 ^ 32 + (l + s) mod 65536 * 65536 + k = p + q"
proof -
  have "(x + y) * 2 ^ 32 + z * 65536 = x * 2 ^ 32 + (y * 65536 + z) * 65536" for x y z :: nat by simp
  from this [of "r + t * 65536 + h" "(l + s) div 65536" "(l + s) mod 65536"] show ?thesis
    unfolding div_mult_mod_eq using assms by simp
qed

lemma mpy_high_step:
  assumes "mpy_ok a b i r" "16 \<le> i" "i < 32"
  shows "mpy_ok a b (Suc i) (mpy_high (a AND 0xffff) (drop_bit 16 a AND 0xffff) b i r)"
proof (cases "bit b i")
  case False
  then show ?thesis using assms(1) by (cases r) (simp add: mpy_ok_def mpy_high_def mod_next_bit test_bit_mask del: power_Suc)
next
  case True
  obtain rhi rlhi rllo where r: "r = (rhi, rlhi, rllo)" by (cases r)
  obtain slo shi sp where p: "mpy_parts (a AND 0xffff) (drop_bit 16 a AND 0xffff) (i - 16) = (slo, shi, sp)"
    by (cases "mpy_parts (a AND 0xffff) (drop_bit 16 a AND 0xffff) (i - 16)")
  have "i - 16 < 16" using assms(3) by simp
  note parts = mpy_parts_value [OF halves(1,2) this p, unfolded halves(3)]
  have pre: "unat rhi * 2 ^ 32 + unat rlhi * 65536 + unat rllo = unat a * (unat b mod 2 ^ i)" "unat rlhi < 65536" "unat rllo < 65536"
    using assms(1) by (simp_all add: mpy_ok_def mpy_sum_def r)
  have shift: "(unat sp * 2 ^ 32 + unat shi * 65536 + unat slo) * 65536 = unat a * 2 ^ i"
  proof -
    have "(2::nat) ^ (i - 16) * 65536 = 2 ^ (i - 16 + 16)" by (simp only: power_add) simp
    then have "(2::nat) ^ (i - 16) * 65536 = 2 ^ i" using assms(2) by simp
    then show ?thesis unfolding parts(4) by (simp only: mult.assoc)
  qed
  have total: "unat a * (unat b mod 2 ^ i) + unat a * 2 ^ i < 2 ^ 64"
  proof -
    have "unat a * (unat b mod 2 ^ Suc i) < 2 ^ 64"
      using less_le_trans [OF mod_product_bound [of "Suc i" a b] power_increasing [of "32 + Suc i" 64 "2::nat"]] assms(3) by simp
    then show ?thesis using True by (simp add: mod_next_bit algebra_simps del: power_Suc)
  qed
  have h: "unat (rlhi + slo) = unat rlhi + unat slo" using pre(2) parts(1) by (simp add: unat_add_u32)
  have spp: "unat (push_bit 16 sp) = unat sp * 65536" using unat_push_u32 [of sp 16] parts(3) by simp
  let ?top = "unat rhi + unat sp * 65536 + unat shi + (unat rlhi + unat slo) div 65536"
  have sum: "?top * 2 ^ 32 + (unat rlhi + unat slo) mod 65536 * 65536 + unat rllo = unat a * (unat b mod 2 ^ i) + unat a * 2 ^ i"
    by (rule high_sum [OF pre(1) shift])
  then have "?top < 2 ^ 32" using total by simp
  then have top: "unat (rhi + push_bit 16 sp + shi + (drop_bit 16 (rlhi + slo) AND 0xffff)) = ?top"
    using pre(2) parts(1) by (simp add: unat_add_u32 unat_and_ffff unat_drop_16 h spp)
  have high: "mpy_high (a AND 0xffff) (drop_bit 16 a AND 0xffff) b i r
      = (rhi + push_bit 16 sp + shi + (drop_bit 16 (rlhi + slo) AND 0xffff), (rlhi + slo) AND 0xffff, rllo)"
    using True by (simp add: mpy_high_def r p Let_def test_bit_mask)
  have "mpy_sum (mpy_high (a AND 0xffff) (drop_bit 16 a AND 0xffff) b i r) = unat a * (unat b mod 2 ^ i) + unat a * 2 ^ i"
    unfolding high mpy_sum_def prod.case top unat_and_ffff h by (rule sum)
  then show ?thesis using True pre(3) by (simp add: mpy_ok_def high unat_and_ffff mod_next_bit algebra_simps del: power_Suc)
qed

lemma fold_upt_inv:
  assumes "m \<le> n" "P m r" "\<And>i r. m \<le> i \<Longrightarrow> i < n \<Longrightarrow> P i r \<Longrightarrow> P (Suc i) (f i r)"
  shows "P n (fold f [m..<n] r)"
  using assms by (induction rule: dec_induct) auto

lemma mpy_loops:
  "mpy_ok a b 32 (fold (mpy_high (a AND 0xffff) (drop_bit 16 a AND 0xffff) b) [16..<32]
     (fold (mpy_low (a AND 0xffff) (drop_bit 16 a AND 0xffff) b) [0..<16] (0, 0, 0)))"
  by (intro fold_upt_inv [where P = "mpy_ok a b"] mpy_low_step mpy_high_step) (simp_all only:, simp_all add: mpy_ok_def mpy_sum_def)

lemma soft_mpyuhi_nat: "unat (soft_mpyuhi a b) = unat a * unat b div 2 ^ 32"
proof -
  obtain rhi rlhi rllo where r: "fold (mpy_high (a AND 0xffff) (drop_bit 16 a AND 0xffff) b) [16..<32]
     (fold (mpy_low (a AND 0xffff) (drop_bit 16 a AND 0xffff) b) [0..<16] (0, 0, 0)) = (rhi, rlhi, rllo)"
    by (rule prod_cases3)
  have "unat b mod 2 ^ 32 = unat b" using unat_bound_u32 [of b] by simp
  then have "unat rhi * 2 ^ 32 + unat rlhi * 65536 + unat rllo = unat a * unat b" "unat rlhi < 65536" "unat rllo < 65536"
    using mpy_loops [of a b, unfolded r mpy_ok_def mpy_sum_def] by simp_all
  moreover from this(2,3) have "(unat rhi * 2 ^ 32 + unat rlhi * 65536 + unat rllo) div 2 ^ 32 = unat rhi"
  proof -
    have "unat rlhi * 65536 + unat rllo < 2 ^ 32" using \<open>unat rlhi < 65536\<close> \<open>unat rllo < 65536\<close> by simp
    then show ?thesis by (simp add: add.assoc)
  qed
  ultimately show ?thesis unfolding soft_mpyuhi_def Let_def r by simp
qed

lemma sgn_bit: "signed_drop_bit 31 (w :: u32) AND 1 \<noteq> 0 \<longleftrightarrow> sint w < 0"
proof -
  have "signed_drop_bit 31 w AND 1 \<noteq> 0 \<longleftrightarrow> bit (signed_drop_bit 31 w) 0"
    using bit_and_push_bit_1 [of "signed_drop_bit 31 w" 0] by simp
  also have "\<dots> \<longleftrightarrow> bit w 31" by (simp add: bit_signed_drop_bit_iff)
  finally show ?thesis using bit_last_iff [of w] by simp
qed

lemma sgn_xor: "sint (a XOR b :: u32) < 0 \<longleftrightarrow> (sint a < 0) \<noteq> (sint b < 0)"
  using bit_last_iff [of a] bit_last_iff [of b] bit_last_iff [of "a XOR b"] by (simp add: bit_xor_iff)

lemma unat_magnitude: "unat (if sint a < 0 then - a else a :: u32) = nat \<bar>sint a\<bar>"
proof (cases "sint a < 0")
  case True
  have "- (2 ^ 31) \<le> sint a" using sint_greater_eq [of a] by simp
  then have "take_bit 32 (- sint a) = - sint a" using True by (intro take_bit_int_eq_self) simp_all
  then have "unat (word_of_int (- sint a) :: u32) = nat (- sint a)" by (simp only: unsigned_of_int) simp
  moreover have "word_of_int (- sint a) = - a" by simp
  ultimately have "unat (- a) = nat (- sint a)" by simp
  then show ?thesis using True by simp
next
  case False
  then show ?thesis using nat_sint_u32 [of a] by simp
qed

lemma soft_mpyuhi_high: "soft_mpyuhi a b = word_of_nat (unat a * unat b div 2 ^ 32)"
  unfolding soft_mpyuhi_nat [symmetric] by simp

lemma soft_mpyshi_high: "soft_mpyshi a b = word_of_int (sint a * sint b div 2 ^ 32)"
proof -
 let ?a = "if sint a < 0 then - a else a" and ?b = "if sint b < 0 then - b else b"
  let ?m = "nat \<bar>sint a\<bar> * nat \<bar>sint b\<bar>"
  have "x * y = word_of_nat (unat x * unat y)" for x y :: u32 by simp
  from this [of ?a ?b] have p: "?a * ?b = word_of_nat ?m" unfolding unat_magnitude .
  have "?a * ?b = 0 \<longleftrightarrow> 2 ^ 32 dvd ?m" unfolding p word_of_nat_eq_0_iff by simp
  also have "\<dots> \<longleftrightarrow> int (2 ^ 32) dvd int ?m" by (rule int_dvd_int_iff [symmetric])
  also have "\<dots> \<longleftrightarrow> int ?m mod 2 ^ 32 = 0" unfolding dvd_eq_mod_eq_0 of_nat_power of_nat_numeral ..
  finally have zero: "?a * ?b = 0 \<longleftrightarrow> int ?m mod 2 ^ 32 = 0" .
  have r: "soft_mpyuhi ?a ?b = word_of_int (int ?m div 2 ^ 32)"
  proof -
    have "int (?m div 2 ^ 32) = int ?m div 2 ^ 32" by (simp only: zdiv_int of_nat_power of_nat_numeral)
    then have "(word_of_nat (?m div 2 ^ 32) :: u32) = word_of_int (int ?m div 2 ^ 32)"
      using of_int_of_nat_eq [of "?m div 2 ^ 32", where 'a = u32] by simp
    then show ?thesis unfolding soft_mpyuhi_high unat_magnitude .
  qed
  have m: "int ?m = \<bar>sint a * sint b\<bar>" by (simp add: abs_mult)
  have sh: "soft_mpyshi a b = (if (sint a < 0) \<noteq> (sint b < 0) then if ?a * ?b = 0 then - soft_mpyuhi ?a ?b else - soft_mpyuhi ?a ?b - 1
      else soft_mpyuhi ?a ?b)"
    unfolding soft_mpyshi_def Let_def sgn_bit sgn_xor by (simp add: not_eq_complement)
  show "soft_mpyshi a b = word_of_int (sint a * sint b div 2 ^ 32)"
  proof (cases "(sint a < 0) = (sint b < 0)")
    case True
    then have "0 \<le> sint a * sint b" unfolding zero_le_mult_iff by linarith
    then have "sint a * sint b = int ?m" unfolding m by simp
    moreover have "soft_mpyshi a b = soft_mpyuhi ?a ?b" using True by (simp only: sh if_False simp_thms)
    ultimately show ?thesis by (simp only: r)
  next
    case False
    then have "sint a * sint b \<le> 0" unfolding mult_le_0_iff by linarith
    then have "sint a * sint b = - int ?m" unfolding m by simp
    moreover have "soft_mpyshi a b = (if ?a * ?b = 0 then - soft_mpyuhi ?a ?b else - soft_mpyuhi ?a ?b - 1)"
      using False by (simp only: sh if_True simp_thms)
    moreover have "- k div 2 ^ 32 = (if k mod 2 ^ 32 = 0 then - (k div 2 ^ 32) else - (k div 2 ^ 32) - 1)" for k :: int
      by (rule zdiv_zminus1_eq_if) simp
    ultimately show ?thesis unfolding r zero by (simp only: split: if_split) simp
  qed
qed

text \<open>C38:
  The multiplication in C gives the upper word of the 64-bit product: of the numbers without sign, and of those with sign,
  for every pair of words, the least \<^verbatim>\<open>int\<close> included.
\<close>

theorem soft_multiply_is_high_word:
  "soft_mpyuhi a b = word_of_nat (unat a * unat b div 2 ^ 32)
   \<and> soft_mpyshi a b = word_of_int (sint a * sint b div 2 ^ 32)"
  by (simp only: soft_mpyuhi_high soft_mpyshi_high)

section \<open>The comparison\<close>

definition high_words :: "(u32 \<Rightarrow> u32 \<Rightarrow> u32) \<Rightarrow> (u32 \<Rightarrow> u32 \<Rightarrow> u32) \<Rightarrow> int \<Rightarrow> bool" where
  "high_words hu hs i \<longleftrightarrow>
     (let a = 0xf97e27ab; b = word_of_int i
      in hu a b = soft_mpyuhi a b \<and> hs a b = soft_mpyshi a b \<and> hs (- a) b = soft_mpyshi (- a) b)"

lemma mpyhi_from_passes:
  "fst (mpyhi_from hu hs i) = 0 \<longleftrightarrow> (\<forall>k. i + 730926 * int k < 0x6fffffff \<longrightarrow> high_words hu hs (i + 730926 * int k))"
proof (induction hu hs i rule: mpyhi_from.induct)
  case (1 hu hs i)
  have shift: "(\<forall>k. P k) \<longleftrightarrow> P 0 \<and> (\<forall>k. P (Suc k))" for P by (metis not0_implies_Suc)
  have over: "\<not> i + 730926 * int k < 0x6fffffff" if "\<not> i < 0x6fffffff" for k using that by simp
  have next_i: "i + 730926 * int (Suc k) = i + 0x197e2 * 7 + 730926 * int k" for k by simp
  show ?case
  proof (cases "i < 0x6fffffff")
    case True
    show ?thesis
    proof (cases "high_words hu hs i")
      case hw: True
      then have "mpyhi_from hu hs i = mpyhi_from hu hs (i + 0x197e2 * 7)"
        using True by (subst mpyhi_from.simps) (simp add: high_words_def Let_def)
      then show ?thesis
        using 1 [OF True refl refl] hw True by (subst shift) (simp only: next_i, simp add: high_words_def Let_def)
    next
      case hw: False
      then have "fst (mpyhi_from hu hs i) \<noteq> 0"
        using True by (subst mpyhi_from.simps) (auto simp: high_words_def Let_def)
      then show ?thesis using hw True by (subst shift) simp
    qed
  next
    case False
    then show ?thesis using over by (simp add: mpyhi_from.simps)
  qed
qed

text \<open>
  The comparison of the multiplication instructions passes exactly if at every one of its 2571 steps the instructions give
  the upper words of the products: without sign, with sign, and with the first factor negated.
\<close>

theorem mpyhi_test_checks_products:
  "fst (mpyhi_test hu hs) = 0 \<longleftrightarrow>
   (\<forall>k<2571. let a = 0xf97e27ab; b = word_of_nat (730926 * k)
     in hu a b = word_of_nat (unat a * unat b div 2 ^ 32) \<and> hs a b = word_of_int (sint a * sint b div 2 ^ 32)
        \<and> hs (- a) b = word_of_int (sint (- a) * sint b div 2 ^ 32))"
proof -
  have lim: "730926 * int k < 0x6fffffff \<longleftrightarrow> k < 2571" for k by auto
  have step: "word_of_int (730926 * int k) = (word_of_nat (730926 * k) :: u32)" for k by simp
  show ?thesis
    unfolding mpyhi_test_def mpyhi_from_passes add_0 lim high_words_def Let_def soft_mpyuhi_high soft_mpyshi_high step ..
qed

theorem mpyhi_test_checks_products_witness:
  "fst (mpyhi_test (\<lambda>a b. word_of_nat (unat a * unat b div 2 ^ 32)) (\<lambda>a b. word_of_int (sint a * sint b div 2 ^ 32))) = 0"
  unfolding mpyhi_test_checks_products Let_def by blast

end
