(* ===== verification/CpuTestRun.thy ===== *)
theory CpuTestRun
  imports CpuTest
begin

text \<open>
  The program around the tests of \<^verbatim>\<open>sw/board/cputest.c\<close>: its text, the tests in their order with what each demands,
  and the report of a failure, after which the CPU stays halted.
\<close>

section \<open>The text\<close>

text \<open>
  The registers of the board: \<open>b_gie\<close> says whether the CPU is in user mode, \<open>b_busy\<close> is what the reads of \<^verbatim>\<open>u_tx\<close> return
  (nothing is being sent past its end), \<open>b_pic\<close> and \<open>b_out\<close> are what is written to the interrupt controller and to \<^verbatim>\<open>u_tx\<close>.
\<close>

record board_io =
  b_gie :: bool
  b_busy :: "u32 list"
  b_pic :: "u32 list"
  b_timer :: "u32 option"
  b_out :: string

definition BUSPIC_UARTTXF :: u32 where "BUSPIC_UARTTXF = push_bit 1 1"

definition wait_interrupt :: "u32 \<Rightarrow> board_io \<Rightarrow> board_io" where
  "wait_interrupt msk io = io\<lparr>b_pic := b_pic io @ [0xffff7fff, 0x80008000 OR push_bit 16 msk, 0x80000000]\<rparr>"

fun skip_busy :: "u32 list \<Rightarrow> u32 list" where
  "skip_busy [] = []"
| "skip_busy (v # vs) = (if v AND 0x100 \<noteq> 0 then skip_busy vs else vs)"

definition wait_for_uart_idle :: "board_io \<Rightarrow> board_io" where
  "wait_for_uart_idle io = io\<lparr>b_busy := skip_busy (b_busy io)\<rparr>"

definition txchr :: "char \<Rightarrow> board_io \<Rightarrow> board_io" where
  "txchr v io =
     (let io = (if b_gie io then wait_for_uart_idle io else wait_interrupt BUSPIC_UARTTXF io)
      in io\<lparr>b_out := b_out io @ [v]\<rparr>)"

definition txstr :: "string \<Rightarrow> board_io \<Rightarrow> board_io" where
  "txstr s io = fold txchr s io"

definition hex_upper :: "u32 \<Rightarrow> char" where
  "hex_upper d = char_of (unat (if d \<ge> 10 then 65 + d - 10 else d + 48))"

definition txhex :: "u32 \<Rightarrow> board_io \<Rightarrow> board_io" where
  "txhex num io = fold (\<lambda>ds. txchr (hex_upper (drop_bit ds num AND 0x0f))) [28, 24, 20, 16, 12, 8, 4, 0] io"

definition tx4hex :: "u32 \<Rightarrow> board_io \<Rightarrow> board_io" where
  "tx4hex num io =
     (if num AND 0xffff0000 \<noteq> 0 then txhex num io
      else fold (\<lambda>ds. txchr (hex_upper (drop_bit ds num AND 0x0f))) [12, 8, 4, 0] io)"

definition txreg :: "string \<Rightarrow> u32 \<Rightarrow> board_io \<Rightarrow> board_io" where
  "txreg name val io = txstr ''    '' (txhex val (txstr ''0x'' (txstr name io)))"

definition crlf :: string where "crlf = [CHR 0x0d, CHR 0x0a]"

definition testid :: "string \<Rightarrow> board_io \<Rightarrow> board_io" where
  "testid s io = txstr (replicate (32 - length s) CHR '' '') (txstr s io)"

definition debugmpy :: "string \<Rightarrow> u32 \<Rightarrow> u32 \<Rightarrow> u32 \<Rightarrow> u32 \<Rightarrow> board_io \<Rightarrow> board_io" where
  "debugmpy s a b sft r io =
     txstr (''(Hard)'' @ crlf) (txhex r (txstr ''(Soft) = '' (txhex sft (txstr '' = '' (txhex b (txstr '' x '' (txhex a (txstr s (txstr crlf io)))))))))"

section \<open>The tests\<close>

text \<open>What a test leaves behind, and the addresses that three of them are compared with.\<close>

record outcome =
  o_ret :: u32
  o_ucc :: u32
  o_context :: "nat \<Rightarrow> u32"
  o_start :: u32
  o_stop :: u32

record labels =
  lb_break_one :: u32
  lb_break_three :: u32
  lb_ill_test :: u32

definition CC_SLEEP :: u32 where "CC_SLEEP = 0x0010"
definition CC_STEP :: u32 where "CC_STEP = 0x0040"
definition CC_BREAK :: u32 where "CC_BREAK = 0x0080"
definition CC_ILL :: u32 where "CC_ILL = 0x0100"
definition CC_TRAP :: u32 where "CC_TRAP = 0x0200"
definition CC_BUSERR :: u32 where "CC_BUSERR = 0x0400"
definition CC_DIVERR :: u32 where "CC_DIVERR = 0x0800"
definition CC_FPUERR :: u32 where "CC_FPUERR = 0x1000"
definition CC_MMUERR :: u32 where "CC_MMUERR = 0x8000"
definition CC_FAULT :: u32 where "CC_FAULT = CC_ILL OR CC_BUSERR OR CC_DIVERR OR CC_FPUERR"
definition CC_EXCEPTION :: u32 where "CC_EXCEPTION = CC_BREAK OR CC_FAULT OR CC_MMUERR"

datatype verdict = Fails | Says string | Passes | Says_and_passes string

definition failing :: "u32 \<Rightarrow> outcome \<Rightarrow> bool" where
  "failing m r \<longleftrightarrow> o_ret r \<noteq> 0 \<or> o_ucc r AND m \<noteq> 0"

definition plain :: "u32 \<Rightarrow> outcome \<Rightarrow> verdict" where
  "plain m r = (if failing m r then Fails else Passes)"

definition opt_fail :: u32 where
  "opt_fail = CC_MMUERR OR CC_FPUERR OR CC_DIVERR OR CC_BUSERR OR CC_STEP OR CC_SLEEP"

text \<open>The tests up to the first multiplication.\<close>

definition cpu_tests :: "labels \<Rightarrow> (string \<times> (outcome \<Rightarrow> verdict)) list" where
  "cpu_tests l =
     [(''SIM Instructions'', \<lambda>r.
         if failing opt_fail r then Fails
         else if o_ucc r AND CC_ILL \<noteq> 0 then Passes else Says (''Is this a simulator?'' @ crlf)),
      (''CIS Instructions'', \<lambda>r.
         if failing opt_fail r then Fails
         else if o_ucc r AND CC_ILL \<noteq> 0 then Says (''Not supported'' @ crlf) else Says (''Supported'' @ crlf)),
      (''Break test #1'', \<lambda>r.
         if failing (CC_MMUERR OR CC_FPUERR OR CC_DIVERR OR CC_BUSERR OR CC_TRAP OR CC_ILL OR CC_STEP OR CC_SLEEP) r then Fails
         else if o_context r 15 \<noteq> lb_break_one l + 4 \<or> o_ucc r AND CC_BREAK = 0 then Fails else Passes),
      (''Break test #2'', plain (CC_MMUERR OR CC_FPUERR OR CC_DIVERR OR CC_BUSERR OR CC_ILL OR CC_BREAK OR CC_STEP OR CC_SLEEP)),
      (''Break test #3'', \<lambda>r.
         if o_context r 15 \<noteq> lb_break_three l \<or> o_ucc r AND CC_BREAK = 0
            \<or> o_ucc r AND (CC_FAULT OR CC_MMUERR OR CC_TRAP OR CC_STEP OR CC_SLEEP) \<noteq> 0 then Fails else Passes),
      (''Early Branch test'', plain CC_EXCEPTION),
      (''Trap test/AND'', \<lambda>r. if failing CC_EXCEPTION r then Fails else if o_ucc r AND 0x0200 = 0 then Fails else Passes),
      (''Trap test/CLR'', \<lambda>r. if failing CC_EXCEPTION r then Fails else if o_ucc r AND 0x0200 = 0 then Fails else Passes),
      (''Overflow test'', plain CC_EXCEPTION),
      (''Carry test'', plain CC_EXCEPTION),
      (''Loop test'', plain CC_EXCEPTION),
      (''Shift test'', plain CC_EXCEPTION),
      (''Pipeline test'', plain CC_EXCEPTION),
      (''Mem-Pipeline test'', plain CC_EXCEPTION),
      (''Conditional Execution test'', plain CC_EXCEPTION),
      (''No-waiting pipeline test'', plain CC_EXCEPTION),
      (''Conditional Branching test'', plain CC_EXCEPTION),
      (''Ill Instruction test, NULL PC'', \<lambda>r.
         if o_ret r \<noteq> 0 \<or> (o_ucc r XOR CC_ILL) AND CC_EXCEPTION \<noteq> 0 then Fails else Passes),
      (''Ill Instruction test, two'', \<lambda>r.
         if failing (CC_BUSERR OR CC_DIVERR OR CC_FPUERR OR CC_BREAK OR CC_MMUERR) r then Fails
         else if o_context r 15 \<noteq> lb_ill_test l then Fails else Passes),
      (''Comparison test, =='', plain CC_EXCEPTION),
      (''Comparison test, !='', plain CC_EXCEPTION),
      (''CC Register test'', plain CC_EXCEPTION),
      (''Multi-Arg test'', plain CC_EXCEPTION)]"

text \<open>The multiplication tests, and the division, which is tested if the CPU has a divide unit.\<close>

definition mpy_verdict :: "outcome \<Rightarrow> verdict" where
  "mpy_verdict r =
     (if failing opt_fail r then Fails
      else if o_ucc r AND CC_ILL \<noteq> 0 then Says (''No Multiply Implemented'' @ crlf) else Passes)"

definition div_verdict :: "outcome \<Rightarrow> verdict" where
  "div_verdict r =
     (if failing opt_fail r then Fails
      else if o_ucc r AND CC_ILL \<noteq> 0 then Says_and_passes (''No Divide Implemented (??)'' @ crlf) else Passes)"

text \<open>The state: the board, \<^verbatim>\<open>testlist\<close> and \<^verbatim>\<open>tnum\<close>.\<close>

record tester =
  t_io :: board_io
  t_list :: "u32 list"
  t_num :: nat

definition tell :: "string \<Rightarrow> tester \<Rightarrow> tester" where
  "tell s t = t\<lparr>t_io := txstr s (t_io t)\<rparr>"

definition passed :: "tester \<Rightarrow> tester" where
  "passed t = (let t = tell (''Pass'' @ crlf) t in t\<lparr>t_list := (t_list t)[t_num t := 0], t_num := t_num t + 1\<rparr>)"

definition dump_regs :: "(string \<times> u32) list \<Rightarrow> tester \<Rightarrow> tester" where
  "dump_regs rs t = t\<lparr>t_io := fold (\<lambda>(name, val). txreg name val) rs (t_io t)\<rparr>"

text \<open>The report of a failure; it does not return.\<close>

definition test_fails :: "outcome \<Rightarrow> tester \<Rightarrow> tester" where
  "test_fails r t =
     (let c = o_context r; n = t_num t;
          t = t\<lparr>t_list := (t_list t)[n := c 1, n + 1 := c 14, n + 2 := c 15]\<rparr>;
          t = tell (''FAIL!'' @ crlf @ crlf) t;
          t = t\<lparr>t_io := txhex (o_stop r) (txstr '' and 0x'' (txhex (o_start r) (txstr ''Between 0x'' (t_io t))))\<rparr>;
          t = tell (''Core-dump:'' @ crlf) (tell (crlf @ crlf) t);
          t = tell crlf (dump_regs [(''uR0 : '', c 0), (''uR1 : '', c 1), (''uR2 : '', c 2), (''uR3 : '', c 3)] t);
          t = tell crlf (dump_regs [(''uR4 : '', c 4), (''uR5 : '', c 5), (''uR6 : '', c 6), (''uR7 : '', c 7)] t);
          t = tell crlf (dump_regs [(''uR8 : '', c 8), (''uR9 : '', c 9), (''uR10: '', c 10), (''uR11: '', c 11)] t);
          t = tell (crlf @ crlf) (dump_regs [(''uR12: '', c 12), (''uSP : '', c 13), (''uCC : '', c 14), (''uPC : '', c 15)] t)
      in t\<lparr>t_io := wait_for_uart_idle (t_io t)\<rparr>)"

text \<open>One test: \<open>Inl\<close> is the board after a failure.\<close>

definition run_one :: "string \<times> (outcome \<Rightarrow> verdict) \<Rightarrow> outcome \<Rightarrow> tester \<Rightarrow> tester + tester" where
  "run_one test r t =
     (let t = t\<lparr>t_io := testid (fst test) (t_io t)\<rparr>
      in case snd test r of
           Fails \<Rightarrow> Inl (test_fails r t)
         | Says s \<Rightarrow> Inr (tell s t)
         | Passes \<Rightarrow> Inr (passed t)
         | Says_and_passes s \<Rightarrow> Inr (passed (tell s t)))"

fun run_tests :: "(string \<times> (outcome \<Rightarrow> verdict)) list \<Rightarrow> outcome list \<Rightarrow> tester \<Rightarrow> tester + tester" where
  "run_tests (test # tests) (r # rs) t = (case run_one test r t of Inl t \<Rightarrow> Inl t | Inr t \<Rightarrow> run_tests tests rs t)"
| "run_tests _ _ t = Inr t"

text \<open>
  \<open>rs\<close> are the outcomes of the tests, \<open>rm\<close> of the multiplication, \<open>rh\<close> of the comparison of the upper words, and
  \<open>rd\<close> of the division; \<open>has_div\<close> is the bit of the CC register.
\<close>

definition start_tests :: "board_io \<Rightarrow> tester" where
  "start_tests io =
     tell (''-----------------------------------'' @ crlf) (tell (''Running CPU self-test'' @ crlf) (tell crlf
       \<lparr>t_io = io\<lparr>b_timer := Some 0x7fffffff\<rparr>, t_list = replicate 32 (- 1), t_num = 0\<rparr>))"

definition end_tests :: "tester \<Rightarrow> tester" where
  "end_tests t =
     (let t = tell (''All tests passed.  Halting CPU.'' @ crlf) (tell (''-----------------------------------'' @ crlf) (tell crlf t));
          t = tell crlf (t\<lparr>t_io := wait_for_uart_idle (t_io t)\<rparr>)
      in t\<lparr>t_io := wait_for_uart_idle (t_io t)\<rparr>)"

definition cputest :: "labels \<Rightarrow> bool \<Rightarrow> outcome list \<Rightarrow> outcome \<Rightarrow> outcome \<Rightarrow> outcome \<Rightarrow> board_io \<Rightarrow> tester + tester" where
  "cputest l has_div rs rm rh rd io =
     (case run_tests (cpu_tests l) rs (start_tests io) of Inl t \<Rightarrow> Inl t
      | Inr t \<Rightarrow>
          (case run_one (''Multiply test'', mpy_verdict) rm t of Inl t \<Rightarrow> Inl t
           | Inr t \<Rightarrow>
               (case (if mpy_verdict rm = Passes then run_one (''Multiply HI-word test'', plain CC_EXCEPTION) rh t else Inr t) of
                  Inl t \<Rightarrow> Inl t
                | Inr t \<Rightarrow>
                    map_sum id end_tests
                      (if \<not> has_div then Inr (tell (''No divide unit installed'' @ crlf) (t\<lparr>t_io := testid ''Divide test'' (t_io t)\<rparr>))
                       else run_one (''Divide test'', div_verdict) rd t))))"

section \<open>What the report says\<close>

definition counts :: "verdict \<Rightarrow> nat" where
  "counts v = (case v of Passes \<Rightarrow> 1 | Says_and_passes s \<Rightarrow> 1 | _ \<Rightarrow> 0)"

definition list_ok :: "nat \<Rightarrow> tester \<Rightarrow> bool" where
  "list_ok n t \<longleftrightarrow> t_num t = n \<and> t_list t = replicate n 0 @ replicate (32 - n) (- 1)"

lemma tell_simps [simp]: "t_num (tell s t) = t_num t" "t_list (tell s t) = t_list t"
  by (simp_all add: tell_def)

lemma list_ok_io: "list_ok n (t\<lparr>t_io := io\<rparr>) = list_ok n t" "list_ok n (tell s t) = list_ok n t"
  by (simp_all add: list_ok_def)

lemma list_ok_passed:
  assumes "list_ok n t" "n < 32"
  shows "list_ok (n + 1) (passed t)"
proof -
  have "(replicate n 0 @ replicate (32 - n) (- 1))[n := 0 :: u32] = replicate (n + 1) 0 @ replicate (32 - (n + 1)) (- 1)"
    using assms(2) by (simp add: list_update_append1 list_update_append Suc_diff_Suc replicate_append_same [symmetric]
        flip: replicate_Suc [of "31 - n"]) (simp add: Suc_diff_Suc [symmetric] replicate_append_same)
  then show ?thesis using assms(1) by (simp add: list_ok_def passed_def Let_def)
qed

text \<open>An execution that began with \<open>n\<close> tests passed, and gave the verdicts \<open>vs\<close>.\<close>

definition reports :: "verdict list \<Rightarrow> nat \<Rightarrow> tester + tester \<Rightarrow> bool" where
  "reports vs n x \<longleftrightarrow>
     Fails \<in> set vs \<and> (\<exists>t. x = Inl t) \<or> Fails \<notin> set vs \<and> (\<exists>t. x = Inr t \<and> list_ok (n + sum_list (map counts vs)) t)"

lemma reports_none: "list_ok n t \<Longrightarrow> reports [] n (Inr t)"
  by (simp add: reports_def)

lemma reports_one:
  assumes "list_ok n t" "n < 32"
  shows "reports [snd test r] n (run_one test r t)"
proof -
  have "list_ok n (t\<lparr>t_io := io\<rparr>)" "list_ok n (tell s (t\<lparr>t_io := io\<rparr>))" for io s
    using assms(1) by (simp_all add: list_ok_io)
  note this [THEN list_ok_passed, OF assms(2)]
  then show ?thesis using assms(1)
    by (cases "snd test r") (simp_all add: reports_def run_one_def counts_def list_ok_io)
qed

lemma reports_bind:
  assumes "reports vs n x"
    and "\<And>t. list_ok (n + sum_list (map counts vs)) t \<Longrightarrow> reports ws (n + sum_list (map counts vs)) (f t)"
  shows "reports (vs @ ws) n (case x of Inl t \<Rightarrow> Inl t | Inr t \<Rightarrow> f t)"
proof (cases x)
  case (Inl t)
  then show ?thesis using assms(1) by (simp add: reports_def)
next
  case (Inr t)
  then have "Fails \<notin> set vs" "list_ok (n + sum_list (map counts vs)) t" using assms(1) by (simp_all add: reports_def)
  then show ?thesis using assms(2) [of t] Inr by (simp add: reports_def add.assoc)
qed

lemma counts_le: "counts v \<le> 1"
  by (simp add: counts_def split: verdict.split)

lemma sum_counts_le: "sum_list (map counts vs) \<le> length vs"
  using sum_list_mono [of vs counts "\<lambda>_. 1"] counts_le by (simp add: sum_list_triv)

lemma reports_tests:
  "length rs = length tests \<Longrightarrow> list_ok n t \<Longrightarrow> n + length tests \<le> 32 \<Longrightarrow>
   reports (map2 snd tests rs) n (run_tests tests rs t)"
proof (induction tests arbitrary: rs n t)
  case (Cons test tests)
  then obtain r rs' where rs: "rs = r # rs'" "length rs' = length tests" by (cases rs) auto
  have "reports (map2 snd tests rs') k (run_tests tests rs' t')"
    if "list_ok k t'" "k = n + sum_list (map counts [snd test r])" for k t'
    using Cons.IH [OF rs(2) that(1)] Cons.prems(3) counts_le [of "snd test r"] that(2) by simp
  then have "reports ([snd test r] @ map2 snd tests rs') n
      (case run_one test r t of Inl t \<Rightarrow> Inl t | Inr t \<Rightarrow> run_tests tests rs' t)"
    using Cons.prems(3) by (intro reports_bind reports_one Cons.prems(2)) simp_all
  then show ?case by (simp add: rs(1))
qed (simp add: reports_none)

definition verdicts :: "labels \<Rightarrow> bool \<Rightarrow> outcome list \<Rightarrow> outcome \<Rightarrow> outcome \<Rightarrow> outcome \<Rightarrow> verdict list" where
  "verdicts l has_div rs rm rh rd =
     map2 snd (cpu_tests l) rs @ mpy_verdict rm # (if mpy_verdict rm = Passes then [plain CC_EXCEPTION rh] else [])
     @ (if has_div then [div_verdict rd] else [])"

lemma txstr_out: "b_out (txstr s io) = b_out io @ s"
proof (induction s arbitrary: io)
  case (Cons c s)
  have "txstr (c # s) io = txstr s (txchr c io)" by (simp add: txstr_def)
  then show ?case using Cons by (simp add: txchr_def Let_def wait_for_uart_idle_def wait_interrupt_def)
qed (simp add: txstr_def)

definition success_text :: string where
  "success_text = ''All tests passed.  Halting CPU.'' @ crlf @ crlf"

lemma end_tests_text: "\<exists>x. b_out (t_io (end_tests t)) = x @ success_text"
  by (simp add: end_tests_def Let_def tell_def txstr_out wait_for_uart_idle_def success_text_def)

lemma reports_end: "reports vs n x \<Longrightarrow> reports vs n (map_sum id end_tests x)"
  by (auto simp: reports_def end_tests_def Let_def list_ok_io)

lemma passed_or_not:
  assumes "reports vs 0 x" "\<And>t. x = Inr t \<Longrightarrow> \<exists>y. b_out (t_io t) = y @ success_text"
  shows "(Fails \<in> set vs \<longleftrightarrow> (\<exists>t. x = Inl t))
    \<and> (case x of Inl t \<Rightarrow> True | Inr t \<Rightarrow> list_ok (sum_list (map counts vs)) t \<and> (\<exists>y. b_out (t_io t) = y @ success_text))"
  using assms by (cases x) (auto simp: reports_def)

lemma cputest_reports:
  assumes "length rs = 23"
  shows "(Fails \<in> set (verdicts l has_div rs rm rh rd) \<longleftrightarrow> (\<exists>t. cputest l has_div rs rm rh rd io = Inl t))
    \<and> (case cputest l has_div rs rm rh rd io of Inl t \<Rightarrow> True
       | Inr t \<Rightarrow> list_ok (sum_list (map counts (verdicts l has_div rs rm rh rd))) t \<and> (\<exists>x. b_out (t_io t) = x @ success_text))"
proof -
  let ?vs = "map2 snd (cpu_tests l) rs"
  have len: "length rs = length (cpu_tests l)" "0 + length (cpu_tests l) \<le> 32" using assms by (simp_all add: cpu_tests_def)
  have start: "list_ok 0 (start_tests io)" by (simp add: list_ok_def start_tests_def)
  let ?hs = "if mpy_verdict rm = Passes then [plain CC_EXCEPTION rh] else []" and ?ds = "if has_div then [div_verdict rd] else []"
  let ?n = "0 + sum_list (map counts ?vs)" and ?m = "sum_list (map counts [mpy_verdict rm])"
  have "?n < 24" "?m \<le> 1" "sum_list (map counts ?hs) \<le> 1"
    using sum_counts_le [of ?vs] counts_le [of "mpy_verdict rm"] sum_counts_le [of ?hs] assms by (simp_all split: if_splits)
  then have small: "?n < 32" "?n + ?m < 32" "?n + ?m + sum_list (map counts ?hs) < 32" by linarith+
  have mp: "reports [mpy_verdict rm] n (run_one (''Multiply test'', mpy_verdict) rm t)" if "list_ok n t" "n < 32" for n t
    using reports_one [OF that, of "(''Multiply test'', mpy_verdict)" rm] by simp
  have hi: "reports ?hs n (if mpy_verdict rm = Passes then run_one (''Multiply HI-word test'', plain CC_EXCEPTION) rh t else Inr t)"
    if "list_ok n t" "n < 32" for n t
    using reports_one [OF that, of "(''Multiply HI-word test'', plain CC_EXCEPTION)" rh] reports_none [OF that(1)] by simp
  have dv: "reports ?ds n (map_sum id end_tests
      (if \<not> has_div then Inr (tell (''No divide unit installed'' @ crlf) (t\<lparr>t_io := testid ''Divide test'' (t_io t)\<rparr>))
       else run_one (''Divide test'', div_verdict) rd t))" if "list_ok n t" "n < 32" for n t
    using reports_end [OF reports_one [OF that, of "(''Divide test'', div_verdict)" rd]] reports_end [OF reports_none] that
    by (simp add: list_ok_io)
  have vs: "verdicts l has_div rs rm rh rd = ?vs @ [mpy_verdict rm] @ ?hs @ ?ds" by (simp add: verdicts_def)
  have "reports (verdicts l has_div rs rm rh rd) 0 (cputest l has_div rs rm rh rd io)"
    unfolding vs cputest_def
    by (rule reports_bind [OF reports_tests [OF len(1) start len(2)]], rule reports_bind [OF mp], assumption, rule small(1),
        rule reports_bind [OF hi], assumption, rule small(2), rule dv, assumption, rule small(3))
  moreover have "\<exists>x. b_out (t_io t) = x @ success_text" if "cputest l has_div rs rm rh rd io = Inr t" for t
    using that end_tests_text by (auto simp: cputest_def split: sum.splits if_splits)
  ultimately show ?thesis using passed_or_not by blast
qed

section \<open>What success means\<close>

text \<open>
  What each test has to leave behind, by the bits of the condition codes: 4 the CPU sleeps, 6 it steps, 7 a break, 8 an
  illegal instruction, 9 a trap, 10 a bus error, 11 a division by zero, 12 an error of the FPU, 15 one of the MMU.
\<close>

definition clear :: "nat list \<Rightarrow> outcome \<Rightarrow> bool" where
  "clear bs r \<longleftrightarrow> (\<forall>b\<in>set bs. \<not> bit (o_ucc r) b)"

definition sound :: "outcome \<Rightarrow> bool" where
  "sound r \<longleftrightarrow> o_ret r = 0 \<and> clear [7, 8, 10, 11, 12, 15] r"

definition tolerant :: "outcome \<Rightarrow> bool" where
  "tolerant r \<longleftrightarrow> o_ret r = 0 \<and> clear [4, 6, 10, 11, 12, 15] r"

definition trapped :: "outcome \<Rightarrow> bool" where
  "trapped r \<longleftrightarrow> sound r \<and> bit (o_ucc r) 9"

definition broken_at :: "u32 \<Rightarrow> outcome \<Rightarrow> bool" where
  "broken_at pc r \<longleftrightarrow> clear [4, 6, 8, 9, 10, 11, 12, 15] r \<and> bit (o_ucc r) 7 \<and> o_context r 15 = pc"

text \<open>
  In the order of the tests.  The third break test is not asked for its result, and the second test of an illegal
  instruction only for the place where it stopped.
\<close>

definition test_demands :: "labels \<Rightarrow> (outcome \<Rightarrow> bool) list" where
  "test_demands l =
     [tolerant, tolerant,
      \<lambda>r. o_ret r = 0 \<and> broken_at (lb_break_one l + 4) r,
      \<lambda>r. o_ret r = 0 \<and> clear [4, 6, 7, 8, 10, 11, 12, 15] r,
      broken_at (lb_break_three l),
      sound, trapped, trapped, sound, sound, sound, sound, sound, sound, sound, sound, sound,
      \<lambda>r. o_ret r = 0 \<and> bit (o_ucc r) 8 \<and> clear [7, 10, 11, 12, 15] r,
      \<lambda>r. o_ret r = 0 \<and> clear [7, 10, 11, 12, 15] r \<and> o_context r 15 = lb_ill_test l,
      sound, sound, sound, sound]"

lemma and_or_0: "(x :: u32) AND (a OR b) = 0 \<longleftrightarrow> x AND a = 0 \<and> x AND b = 0"
  by (simp add: bit.conj_disj_distrib or_eq_0_iff)

lemma cc_bits:
  "x AND CC_SLEEP = 0 \<longleftrightarrow> \<not> bit x 4" "x AND CC_STEP = 0 \<longleftrightarrow> \<not> bit x 6" "x AND CC_BREAK = 0 \<longleftrightarrow> \<not> bit x 7"
  "x AND CC_ILL = 0 \<longleftrightarrow> \<not> bit x 8" "x AND CC_TRAP = 0 \<longleftrightarrow> \<not> bit x 9" "x AND CC_BUSERR = 0 \<longleftrightarrow> \<not> bit x 10"
  "x AND CC_DIVERR = 0 \<longleftrightarrow> \<not> bit x 11" "x AND CC_FPUERR = 0 \<longleftrightarrow> \<not> bit x 12" "x AND CC_MMUERR = 0 \<longleftrightarrow> \<not> bit x 15"
  "x AND 0x0200 = 0 \<longleftrightarrow> \<not> bit x 9"
proof -
  have b: "x AND push_bit n 1 = 0 \<longleftrightarrow> \<not> bit x n" for n
    using bit_and_push_bit_1 [of x n] by blast
  show "x AND CC_SLEEP = 0 \<longleftrightarrow> \<not> bit x 4" "x AND CC_STEP = 0 \<longleftrightarrow> \<not> bit x 6" "x AND CC_BREAK = 0 \<longleftrightarrow> \<not> bit x 7"
    "x AND CC_ILL = 0 \<longleftrightarrow> \<not> bit x 8" "x AND CC_TRAP = 0 \<longleftrightarrow> \<not> bit x 9" "x AND CC_BUSERR = 0 \<longleftrightarrow> \<not> bit x 10"
    "x AND CC_DIVERR = 0 \<longleftrightarrow> \<not> bit x 11" "x AND CC_FPUERR = 0 \<longleftrightarrow> \<not> bit x 12" "x AND CC_MMUERR = 0 \<longleftrightarrow> \<not> bit x 15"
    "x AND 0x0200 = 0 \<longleftrightarrow> \<not> bit x 9"
    using b [of 4] b [of 6] b [of 7] b [of 8] b [of 9] b [of 10] b [of 11] b [of 12] b [of 15]
    by (simp_all add: CC_SLEEP_def CC_STEP_def CC_BREAK_def CC_ILL_def CC_TRAP_def CC_BUSERR_def CC_DIVERR_def CC_FPUERR_def
        CC_MMUERR_def)
qed

lemma ill_bit: "bit (x XOR CC_ILL) n \<longleftrightarrow> bit x n \<noteq> (n = 8)"
  using bit_push_bit_iff [of 8 "1 :: u32" n] by (auto simp: bit_xor_iff CC_ILL_def bit_1_iff)

lemma plain_sound: "plain CC_EXCEPTION r \<noteq> Fails \<longleftrightarrow> sound r"
  by (auto simp: plain_def failing_def CC_EXCEPTION_def CC_FAULT_def and_or_0 cc_bits sound_def clear_def)

lemma opt_tolerant: "failing opt_fail r \<longleftrightarrow> \<not> tolerant r"
  by (auto simp: failing_def opt_fail_def and_or_0 cc_bits tolerant_def clear_def)

lemma exc_sound: "failing CC_EXCEPTION r \<longleftrightarrow> \<not> sound r"
  by (auto simp: failing_def CC_EXCEPTION_def CC_FAULT_def and_or_0 cc_bits sound_def clear_def)

lemma tests_demand: "list_all2 (\<lambda>test d. \<forall>r. (snd test r \<noteq> Fails) = d r) (cpu_tests l) (test_demands l)"
proof -
  have plain_of: "plain m = (\<lambda>r. if failing m r then Fails else Passes)" for m by (rule ext) (simp add: plain_def)
  show ?thesis
    unfolding cpu_tests_def test_demands_def list.rel_inject(2) list.rel_inject(1) snd_conv plain_of exc_sound opt_tolerant
    by (intro conjI allI)
      (auto simp: failing_def CC_EXCEPTION_def CC_FAULT_def and_or_0 cc_bits ill_bit trapped_def broken_at_def clear_def
        split: if_splits)
qed

lemma demands_met:
  assumes "length rs = length (cpu_tests l)"
  shows "Fails \<notin> set (map2 snd (cpu_tests l) rs) \<longleftrightarrow> list_all2 (\<lambda>d r. d r) (test_demands l) rs"
proof -
  have "Fails \<notin> set (map2 snd tests rs) \<longleftrightarrow> list_all2 (\<lambda>d r. d r) ds rs"
    if "list_all2 (\<lambda>test d. \<forall>r. (snd test r \<noteq> Fails) = d r) tests ds" "length rs = length tests" for tests ds
    using that
  proof (induction arbitrary: rs rule: list_all2_induct)
    case (Cons test tests d ds)
    then obtain a rs' where rs: "rs = a # rs'" "length rs' = length tests" by (cases rs) auto
    have "snd test a \<noteq> Fails \<longleftrightarrow> d a" using Cons.hyps(1) by blast
    then show ?case using Cons.IH [OF rs(2)] by (auto simp: rs(1))
  qed simp
  from this [OF tests_demand assms] show ?thesis .
qed

text \<open>How many tests are counted: all but the second, the first only if its instruction is illegal.\<close>

lemma counts_plain: "plain m r \<noteq> Fails \<Longrightarrow> counts (plain m r) = 1"
  by (simp add: plain_def counts_def split: if_splits)

lemma plain_count:
  "length us = length tests \<Longrightarrow> Fails \<notin> set (map2 snd tests us) \<Longrightarrow>
   list_all (\<lambda>test. \<forall>r. snd test r \<in> {Fails, Passes}) tests \<Longrightarrow>
   sum_list (map counts (map2 snd tests us)) = length tests"
proof (induction tests arbitrary: us)
  case (Cons test tests)
  then obtain a us' where us: "us = a # us'" by (cases us) auto
  then have "length us' = length tests" "Fails \<notin> set (map2 snd tests us')" "snd test a \<noteq> Fails"
      "list_all (\<lambda>test. \<forall>r. snd test r \<in> {Fails, Passes}) tests" "snd test a = Fails \<or> snd test a = Passes"
    using Cons.prems by auto
  then show ?case using Cons.IH [of us'] by (auto simp: us counts_def)
qed simp

lemma tests_count:
  assumes "length rs = length (cpu_tests l)" "Fails \<notin> set (map2 snd (cpu_tests l) rs)"
  shows "sum_list (map counts (map2 snd (cpu_tests l) rs)) = 21 + of_bool (bit (o_ucc (rs ! 0)) 8)"
proof -
  have two: "\<exists>a b us. rs = a # b # us \<and> length us = length (drop 2 (cpu_tests l))"
    using assms(1) by (cases rs; cases "tl rs") (auto simp: cpu_tests_def)
  then obtain a b us where rs: "rs = a # b # us" "length us = length (drop 2 (cpu_tests l))" by blast
  have plain: "list_all (\<lambda>test. \<forall>r. snd test r \<in> {Fails, Passes}) (drop 2 (cpu_tests l))"
    by (simp add: cpu_tests_def plain_def)
  have "map2 snd (cpu_tests l) rs = map2 snd (take 2 (cpu_tests l)) [a, b] @ map2 snd (drop 2 (cpu_tests l)) us"
    unfolding rs(1) by (simp add: cpu_tests_def)
  then have "Fails \<notin> set (map2 snd (drop 2 (cpu_tests l)) us)" using assms(2) by simp
  then have rest: "sum_list (map counts (map2 snd (drop 2 (cpu_tests l)) us)) = 21"
    using plain_count [OF rs(2) _ plain] by (simp add: cpu_tests_def)
  have "map2 snd (cpu_tests l) rs = snd (cpu_tests l ! 0) a # snd (cpu_tests l ! 1) b # map2 snd (drop 2 (cpu_tests l)) us"
    by (simp add: rs(1) cpu_tests_def)
  moreover have "counts (snd (cpu_tests l ! 0) a) = of_bool (bit (o_ucc a) 8)" "counts (snd (cpu_tests l ! 1) b) = 0"
    using assms(2) rs(1) by (auto simp: cpu_tests_def counts_def cc_bits split: if_splits)
  ultimately show ?thesis using rest by (simp add: rs(1))
qed

text \<open>C39:
  What it means that the program reports success.  It says that all tests have passed exactly if each test has left
  behind what it has to: no result but zero and none of the exceptions that it excludes, the two break tests stopped at their
  breaks, both traps taken, the empty program counter an illegal instruction and the other one stopped in its place, the
  upper words of the products right if there is a multiplication, and the division, if there is a divide unit, without an error.
  A multiplication or a division that is an illegal instruction is not a failure, and the division is then even
  counted as passed.  The list of the tests ends with a zero for each test that has been counted, and minus one behind them.
\<close>

theorem success_means_no_failure:
  assumes "length rs = 23"
  shows "((\<exists>t. cputest l has_div rs rm rh rd io = Inr t) \<longleftrightarrow>
        list_all2 (\<lambda>d r. d r) (test_demands l) rs \<and> tolerant rm \<and> (\<not> bit (o_ucc rm) 8 \<longrightarrow> sound rh) \<and> (has_div \<longrightarrow> tolerant rd))
    \<and> (\<forall>t. cputest l has_div rs rm rh rd io = Inr t \<longrightarrow>
        list_ok (21 + of_bool (bit (o_ucc (rs ! 0)) 8) + (if bit (o_ucc rm) 8 then 0 else 2) + of_bool has_div) t
        \<and> (\<exists>x. b_out (t_io t) = x @ success_text))"
proof -
  let ?vs = "map2 snd (cpu_tests l) rs" and ?all = "verdicts l has_div rs rm rh rd"
  let ?run = "cputest l has_div rs rm rh rd io"
  have len: "length rs = length (cpu_tests l)" using assms by (simp add: cpu_tests_def)
  have report: "(Fails \<in> set ?all \<longleftrightarrow> (\<exists>t. ?run = Inl t))
      \<and> (case ?run of Inl t \<Rightarrow> True | Inr t \<Rightarrow> list_ok (sum_list (map counts ?all)) t \<and> (\<exists>x. b_out (t_io t) = x @ success_text))"
    by (rule cputest_reports [OF assms])
  have mp: "mpy_verdict rm \<noteq> Fails \<longleftrightarrow> tolerant rm" "div_verdict rd \<noteq> Fails \<longleftrightarrow> tolerant rd"
    "mpy_verdict rm = Passes \<longleftrightarrow> tolerant rm \<and> \<not> bit (o_ucc rm) 8"
    by (auto simp: mpy_verdict_def div_verdict_def opt_tolerant cc_bits)
  have set_all: "Fails \<notin> set ?all \<longleftrightarrow> Fails \<notin> set ?vs \<and> tolerant rm \<and> (\<not> bit (o_ucc rm) 8 \<longrightarrow> sound rh) \<and> (has_div \<longrightarrow> tolerant rd)"
    using mp plain_sound [of rh] by (auto simp: verdicts_def)
  have inr: "(\<exists>t. ?run = Inr t) \<longleftrightarrow> Fails \<notin> set ?all" using report by (cases ?run) auto
  have "sum_list (map counts ?all)
      = 21 + of_bool (bit (o_ucc (rs ! 0)) 8) + (if bit (o_ucc rm) 8 then 0 else 2) + of_bool has_div" if "Fails \<notin> set ?all"
  proof -
    have ok: "Fails \<notin> set ?vs" "tolerant rm" "\<not> bit (o_ucc rm) 8 \<Longrightarrow> sound rh" "has_div \<Longrightarrow> tolerant rd"
      using that set_all by auto
    have "counts (mpy_verdict rm) = (if bit (o_ucc rm) 8 then 0 else 1)" "has_div \<Longrightarrow> counts (div_verdict rd) = 1"
      using ok(2,4) by (auto simp: mpy_verdict_def div_verdict_def opt_tolerant cc_bits counts_def)
    moreover have "\<not> bit (o_ucc rm) 8 \<Longrightarrow> counts (plain CC_EXCEPTION rh) = 1" using ok(3) plain_sound counts_plain by blast
    ultimately show ?thesis
      using tests_count [OF len ok(1)] ok(2) by (auto simp: verdicts_def mp(3))
  qed
  then show ?thesis using report inr demands_met [OF len] set_all by (cases ?run) auto
qed

text \<open>A division that is not implemented is reported as such, and then as passed.\<close>

lemma unimplemented_division_passes:
  "o_ret rd = 0 \<Longrightarrow> o_ucc rd = CC_ILL \<Longrightarrow>
   \<exists>t'. run_one (''Divide test'', div_verdict) rd t = Inr t' \<and> t_num t' = t_num t + 1"
  by (simp add: run_one_def div_verdict_def failing_def opt_fail_def CC_ILL_def CC_MMUERR_def CC_FPUERR_def CC_DIVERR_def
      CC_BUSERR_def CC_STEP_def CC_SLEEP_def passed_def Let_def)

definition demo_board :: board_io where
  "demo_board = \<lparr>b_gie = False, b_busy = [], b_pic = [], b_timer = None, b_out = []\<rparr>"

text \<open>A CPU that passes every test, with a multiplication and a divide unit.\<close>

definition left_behind :: "u32 \<Rightarrow> u32 \<Rightarrow> outcome" where
  "left_behind ucc pc = \<lparr>o_ret = 0, o_ucc = ucc, o_context = (\<lambda>i. if i = 15 then pc else 0), o_start = 0, o_stop = 0\<rparr>"

definition good_outcomes :: "outcome list" where
  "good_outcomes =
     [left_behind CC_ILL 0, left_behind 0 0, left_behind CC_BREAK 8, left_behind 0 0, left_behind CC_BREAK 8, left_behind 0 0,
      left_behind CC_TRAP 0, left_behind CC_TRAP 0] @ replicate 9 (left_behind 0 0)
     @ [left_behind CC_ILL 0, left_behind CC_ILL 12] @ replicate 4 (left_behind 0 0)"

theorem success_means_no_failure_witness:
  "\<exists>t. cputest \<lparr>lb_break_one = 4, lb_break_three = 8, lb_ill_test = 12\<rparr> True good_outcomes
     (left_behind 0 0) (left_behind 0 0) (left_behind 0 0) demo_board = Inr t \<and> list_ok 25 t"
proof -
  let ?l = "\<lparr>lb_break_one = 4, lb_break_three = 8, lb_ill_test = 12\<rparr> :: labels" and ?r = "left_behind 0 0"
  have "list_all2 (\<lambda>d r. d r) (test_demands ?l) good_outcomes" "tolerant ?r" "sound ?r" "\<not> bit (o_ucc ?r) 8"
      "bit (o_ucc (good_outcomes ! 0)) 8" "length good_outcomes = 23"
    by code_simp+
  then show ?thesis
    using success_means_no_failure [of good_outcomes ?l True ?r ?r ?r demo_board] by auto
qed

end
