(* ===== verification/MemTest.thy ===== *)
theory MemTest
  imports ByteOps
begin

text \<open>
  The memory test \<^verbatim>\<open>sw/board/memtest.c\<close>, a program for the board that fills the SDRAM with the values of a shift register
  and compares, for ever.  The memory is a record of its four operations; the two instructions of the assembly
  are a function.  What the trap does at a failure is the end of the test.
\<close>

section \<open>The shift register\<close>

definition TAPS :: u32 where "TAPS = 0x0485b5"

text \<open>\<^verbatim>\<open>LSR 1,F\<close> and \<^verbatim>\<open>XOR.C T,F\<close>: the exclusive or if the bit that was shifted out is set.\<close>

definition STEP :: "u32 \<Rightarrow> u32" where
  "STEP f = (if bit f 0 then drop_bit 1 f XOR TAPS else drop_bit 1 f)"

section \<open>The tests\<close>

record 'm ram =
  ld :: "'m \<Rightarrow> nat \<Rightarrow> u32"
  st :: "'m \<Rightarrow> nat \<Rightarrow> u32 \<Rightarrow> 'm"
  ldb :: "'m \<Rightarrow> nat \<Rightarrow> u8"
  stb :: "'m \<Rightarrow> nat \<Rightarrow> u8 \<Rightarrow> 'm"

text \<open>The loops go from \<open>i\<close> to the end \<open>n\<close> of the memory, in words for the first two tests and in bytes for the third.\<close>

function fill_words :: "'m ram \<Rightarrow> nat \<Rightarrow> nat \<Rightarrow> u32 \<Rightarrow> 'm \<Rightarrow> 'm" where
  "fill_words r n i fill m = (if i < n then let fill = STEP fill in fill_words r n (i + 1) fill (st r m i fill) else m)"
  by pat_completeness auto
termination by (relation "measure (\<lambda>(_, n, i, _). n - i)") auto

function check_words :: "'m ram \<Rightarrow> nat \<Rightarrow> nat \<Rightarrow> u32 \<Rightarrow> 'm \<Rightarrow> bool" where
  "check_words r n i fill m =
     (if i < n then let fill = STEP fill in if ld r m i \<noteq> fill then False else check_words r n (i + 1) fill m else True)"
  by pat_completeness auto
termination by (relation "measure (\<lambda>(_, n, i, _). n - i)") auto

function fill_triples :: "'m ram \<Rightarrow> nat \<Rightarrow> nat \<Rightarrow> u32 \<Rightarrow> 'm \<Rightarrow> 'm" where
  "fill_triples r n i fill m =
     (if i + 3 < n then
        let a = STEP fill; b = STEP a; c = STEP b
        in fill_triples r n (i + 3) c (st r (st r (st r m i a) (i + 1) b) (i + 2) c)
      else m)"
  by pat_completeness auto
termination by (relation "measure (\<lambda>(_, n, i, _). n - i)") auto

function check_triples :: "'m ram \<Rightarrow> nat \<Rightarrow> nat \<Rightarrow> u32 \<Rightarrow> 'm \<Rightarrow> bool" where
  "check_triples r n i fill m =
     (if i + 3 < n then
        let a = ld r m i; b = ld r m (i + 1); c = ld r m (i + 2); f1 = STEP fill; f2 = STEP f1; f3 = STEP f2
        in if a \<noteq> f1 then False else if b \<noteq> f2 then False else if c \<noteq> f3 then False else check_triples r n (i + 3) f3 m
      else True)"
  by pat_completeness auto
termination by (relation "measure (\<lambda>(_, n, i, _). n - i)") auto

function fill_bytes :: "'m ram \<Rightarrow> nat \<Rightarrow> nat \<Rightarrow> u32 \<Rightarrow> 'm \<Rightarrow> 'm" where
  "fill_bytes r n i fill m =
     (if i + 3 < n then
        let a = STEP fill; b = STEP a; c = STEP b
        in fill_bytes r n (i + 3) c (stb r (stb r (stb r m i (ucast a)) (i + 1) (ucast b)) (i + 2) (ucast c))
      else m)"
  by pat_completeness auto
termination by (relation "measure (\<lambda>(_, n, i, _). n - i)") auto

function check_bytes :: "'m ram \<Rightarrow> nat \<Rightarrow> nat \<Rightarrow> u32 \<Rightarrow> 'm \<Rightarrow> bool" where
  "check_bytes r n i fill m =
     (if i + 3 < n then
        let a = ldb r m i; b = ldb r m (i + 1); c = ldb r m (i + 2); f1 = STEP fill; f2 = STEP f1; f3 = STEP f2
        in if (ucast a XOR f1) AND 0x0ff \<noteq> 0 then False
           else if (ucast b XOR f2) AND 0x0ff \<noteq> 0 then False
           else if (ucast c XOR f3) AND 0x0ff \<noteq> 0 then False
           else check_bytes r n (i + 3) f3 m
      else True)"
  by pat_completeness auto
termination by (relation "measure (\<lambda>(_, n, i, _). n - i)") auto

text \<open>The fourth test goes on until the register comes back to the value it began with, which may be never.\<close>

partial_function (option) fill_random :: "'m ram \<Rightarrow> u32 \<Rightarrow> u32 \<Rightarrow> u32 \<Rightarrow> u32 \<Rightarrow> 'm \<Rightarrow> 'm option" where
  "fill_random r amsk counts afill dfill m =
     (let a = STEP afill; d = STEP dfill; m = (if a AND NOT amsk = 0 then st r m (unat (a AND amsk)) d else m)
      in if a \<noteq> counts then fill_random r amsk counts a d m else Some m)"

partial_function (option) check_random :: "'m ram \<Rightarrow> u32 \<Rightarrow> u32 \<Rightarrow> u32 \<Rightarrow> u32 \<Rightarrow> 'm \<Rightarrow> bool option" where
  "check_random r amsk counts afill dfill m =
     (let a = STEP afill; d = STEP dfill
      in if a AND NOT amsk = 0 \<and> ld r m (unat (a AND amsk)) \<noteq> d then Some False
         else if a \<noteq> counts then check_random r amsk counts a d m else Some True)"

text \<open>
  One turn of the outer loop with the counter, and the memory of the board, 2 MB.  The lights are written as the turn goes
  on; \<open>spio\<close> is what the register of the lights reads at its end.
\<close>

definition SDRAM_BYTES :: nat where "SDRAM_BYTES = 0x200000"
definition SDRAM_WORDS :: nat where "SDRAM_WORDS = SDRAM_BYTES div 4"

definition memtest_turn :: "'m ram \<Rightarrow> u32 \<Rightarrow> u32 \<Rightarrow> 'm \<Rightarrow> (bool \<times> u32 list \<times> 'm) option" where
  "memtest_turn r spio counts m =
     (let m = fill_words r SDRAM_WORDS 0 counts m
      in if \<not> check_words r SDRAM_WORDS 0 counts m then Some (False, [0x0e00, 0x0e08], m)
         else
           (let m = fill_triples r SDRAM_WORDS 0 (counts + 4) m
            in if \<not> check_triples r SDRAM_WORDS 0 (counts + 4) m then Some (False, [0x0e00, 0x0e08, 0x0e02], m)
               else
                 (let m = fill_bytes r SDRAM_BYTES 0 (counts + 19) m
                  in if \<not> check_bytes r SDRAM_BYTES 0 (counts + 19) m then Some (False, [0x0e00, 0x0e08, 0x0e02, 0x0e04], m)
                     else
                       (let amsk = word_of_nat (SDRAM_WORDS - 1) :: u32
                        in case fill_random r amsk counts counts (counts + 23) m of None \<Rightarrow> None
                           | Some m \<Rightarrow>
                               (case check_random r amsk counts counts (counts + 23) m of None \<Rightarrow> None
                                | Some False \<Rightarrow> Some (False, [0x0e00, 0x0e08, 0x0e02, 0x0e04, 0x0e06], m)
                                | Some True \<Rightarrow>
                                    Some (True, [0x0e00, 0x0e08, 0x0e02, 0x0e04, 0x0e06, 0x0e0e,
                                      if spio AND 0x01 \<noteq> 0 then 0x100 else 0x101], m))))))"

text \<open>
  So many turns: the counter, whether no test has failed, and the memory.  \<open>None\<close> is a turn without end.
\<close>

fun next_count :: "u32 \<Rightarrow> u32" where
  "next_count c = (if c + 1 = 0 then 1 else c + 1)"

primrec memtest :: "'m ram \<Rightarrow> (nat \<Rightarrow> u32) \<Rightarrow> nat \<Rightarrow> 'm \<Rightarrow> (u32 \<times> bool \<times> 'm) option" where
  "memtest r spio 0 m = Some (0, True, m)"
| "memtest r spio (Suc n) m =
     (case memtest r spio n m of None \<Rightarrow> None
      | Some (c, ok, m) \<Rightarrow>
          if \<not> ok then Some (c, ok, m)
          else map_option (\<lambda>(ok, _, m). (next_count c, ok, m)) (memtest_turn r (spio n) (next_count c) m))"

declare fill_words.simps [simp del] check_words.simps [simp del] fill_triples.simps [simp del] check_triples.simps [simp del]
  fill_bytes.simps [simp del] check_bytes.simps [simp del]

section \<open>The memory of the board\<close>

text \<open>Bytes in the order of the ZipCPU, the most significant first.\<close>

definition board_ram :: "(nat \<Rightarrow> u8) ram" where
  "board_ram =
     \<lparr>ld = (\<lambda>m i. buildword (m (4 * i)) (m (4 * i + 1)) (m (4 * i + 2)) (m (4 * i + 3))),
      st = (\<lambda>m i v. m(4 * i := byte_at 3 v, 4 * i + 1 := byte_at 2 v, 4 * i + 2 := byte_at 1 v, 4 * i + 3 := byte_at 0 v)),
      ldb = (\<lambda>m a. m a), stb = (\<lambda>m a v. m(a := v))\<rparr>"

end
