(* ===== verification/MemTestProps.thy ===== *)
theory MemTestProps
  imports MemTest
begin

text \<open>
  The memory test on a memory that works: the shift register runs through its values and comes back exactly if it begins
  below 2^19, so that the test passes so many turns and the next one has no end.
\<close>

section \<open>The shift register\<close>

definition REGS :: nat where "REGS = 2 ^ 19"

lemma bit_TAPS: "bit TAPS k \<longleftrightarrow> k \<in> {0, 2, 4, 5, 7, 8, 10, 15, 18}"
proof (cases "k < 32")
  case True
  then have "k \<in> set [0..<32]" by simp
  then show ?thesis by (simp add: upt_rec TAPS_def) (elim disjE; simp add: bit_numeral_rec)
next
  case False
  then show ?thesis by (auto simp: TAPS_def dest: bit_imp_le_length)
qed

lemma bit_STEP: "bit (STEP f) k \<longleftrightarrow> bit f (Suc k) \<noteq> (bit f 0 \<and> bit TAPS k)"
  by (auto simp: STEP_def bit_simps)

text \<open>Values below a power of two are those without the higher bits.\<close>

lemma below_iff_bits: "unat (f :: u32) < 2 ^ n \<longleftrightarrow> (\<forall>k\<ge>n. \<not> bit f k)"
proof
  assume "unat f < 2 ^ n"
  then have "take_bit n f = f" by (simp add: word_unat_eq_iff unat_take_bit_u32)
  then have "bit f k \<Longrightarrow> k < n" for k by (metis bit_take_bit_iff)
  then show "\<forall>k\<ge>n. \<not> bit f k" by (meson not_le)
next
  assume "\<forall>k\<ge>n. \<not> bit f k"
  then have "take_bit n f = f" by (intro bit_word_eqI) (auto simp: bit_simps not_le)
  then have "unat f = unat f mod 2 ^ n" by (metis unat_take_bit_u32)
  then show "unat f < 2 ^ n" by (metis mod_less_divisor zero_less_numeral zero_less_power)
qed

lemma STEP_below: "unat f < REGS \<Longrightarrow> unat (STEP f) < REGS"
  unfolding REGS_def below_iff_bits by (auto simp: bit_STEP bit_TAPS)

lemma STEP_inj:
  assumes "unat f < REGS" "unat g < REGS" "STEP f = STEP g"
  shows "f = g"
proof -
  have b: "\<not> bit f 19" "\<not> bit g 19" using assms(1,2) unfolding REGS_def below_iff_bits by auto
  have eq: "(bit f (Suc k) \<noteq> (bit f 0 \<and> bit TAPS k)) = (bit g (Suc k) \<noteq> (bit g 0 \<and> bit TAPS k))" for k
    unfolding bit_STEP [symmetric] using assms(3) by simp
  have low: "bit f 0 = bit g 0" using eq [of 18] b by (simp add: bit_TAPS)
  have "bit f k = bit g k" for k
    using eq [of "k - 1"] low by (cases k) auto
  then show ?thesis by (intro bit_word_eqI) simp
qed

lemma STEP_less: "REGS \<le> unat f \<Longrightarrow> unat (STEP f) < unat f"
proof -
  assume "REGS \<le> unat f"
  then obtain k where k: "19 \<le> k" "bit f k" using below_iff_bits [of f 19] unfolding REGS_def by (meson not_le)
  then have "finite {k. bit f k}" "{k. bit f k} \<noteq> {}"
    using finite_subset [of "{k. bit f k}" "{..<32}"] by (auto dest: bit_imp_le_length)
  define t where "t = Max {k. bit f k}"
  have t: "bit f t" "\<And>j. bit f j \<Longrightarrow> j \<le> t" "19 \<le> t"
    using Max_in [OF \<open>finite {k. bit f k}\<close> \<open>{k. bit f k} \<noteq> {}\<close>] Max_ge [OF \<open>finite {k. bit f k}\<close>] k
    unfolding t_def by (auto intro: order_trans)
  have "unat (STEP f) < 2 ^ t"
    unfolding below_iff_bits bit_STEP bit_TAPS using t(2) [of "Suc _"] t(3) by fastforce
  moreover have "2 ^ t \<le> unat f"
    using t(1) below_iff_bits [of f t] by (meson not_le order_refl)
  ultimately show ?thesis by simp
qed

text \<open>Above 2^19 the register never comes back.\<close>

lemma STEP_pow_below: "unat f < REGS \<Longrightarrow> unat ((STEP ^^ n) f) < REGS"
  by (induction n) (simp_all add: STEP_below)

lemma never_back: "REGS \<le> unat c \<Longrightarrow> unat ((STEP ^^ Suc n) c) < unat c"
proof (induction n)
  case 0
  then show ?case by (simp add: STEP_less)
next
  case (Suc n)
  let ?f = "(STEP ^^ Suc n) c"
  have "unat (STEP ?f) < unat c"
  proof (cases "unat ?f < REGS")
    case True
    then show ?thesis using STEP_below [OF True] Suc.prems by simp
  next
    case False
    then show ?thesis using STEP_less [of ?f] Suc.IH [OF Suc.prems] by simp
  qed
  then show ?case by simp
qed

text \<open>Below it does, for the first time after some number of steps, and no value comes twice before.\<close>

definition period :: "u32 \<Rightarrow> nat" where
  "period c = (LEAST p. 0 < p \<and> (STEP ^^ p) c = c)"

lemma pow_cancel:
  "unat f < REGS \<Longrightarrow> unat g < REGS \<Longrightarrow> (STEP ^^ n) f = (STEP ^^ n) g \<Longrightarrow> f = g"
  by (induction n) (auto dest!: STEP_inj [rotated 2] simp: STEP_pow_below)

lemma pow_split: "i \<le> j \<Longrightarrow> (STEP ^^ j) c = (STEP ^^ i) ((STEP ^^ (j - i)) c)"
  using fun_cong [OF funpow_add [of i "j - i" STEP], of c] by simp

lemma period_exists:
  assumes "unat c < REGS"
  shows "\<exists>p>0. (STEP ^^ p) c = c"
proof -
  let ?f = "\<lambda>n. (STEP ^^ n) c"
  have "range ?f \<subseteq> UNIV" "finite (UNIV :: u32 set)" by simp_all
  then have "\<not> inj ?f" using finite_imageD [of ?f UNIV] finite_subset infinite_UNIV_nat by blast
  then obtain i j where "i < j" "?f i = ?f j" by (metis (mono_tags) injI linorder_neqE_nat)
  then have "(STEP ^^ i) c = (STEP ^^ i) ((STEP ^^ (j - i)) c)"
    using pow_split [of i j c] by simp
  then have "c = (STEP ^^ (j - i)) c" by (rule pow_cancel [OF assms STEP_pow_below [OF assms]])
  then show ?thesis using \<open>i < j\<close> by (intro exI [of _ "j - i"]) simp
qed

lemma period:
  assumes "unat c < REGS"
  shows "0 < period c" "(STEP ^^ period c) c = c" "0 < n \<Longrightarrow> n < period c \<Longrightarrow> (STEP ^^ n) c \<noteq> c"
proof -
  have "0 < period c \<and> (STEP ^^ period c) c = c"
    unfolding period_def by (rule LeastI_ex) (use period_exists [OF assms] in blast)
  then show "0 < period c" "(STEP ^^ period c) c = c" by auto
  show "0 < n \<Longrightarrow> n < period c \<Longrightarrow> (STEP ^^ n) c \<noteq> c"
    using not_less_Least [of n "\<lambda>p. 0 < p \<and> (STEP ^^ p) c = c"] unfolding period_def by auto
qed

lemma distinct_values:
  assumes "unat c < REGS" "0 < i" "i < j" "j \<le> period c"
  shows "(STEP ^^ i) c \<noteq> (STEP ^^ j) c"
proof
  assume eq: "(STEP ^^ i) c = (STEP ^^ j) c"
  then have "(STEP ^^ i) c = (STEP ^^ i) ((STEP ^^ (j - i)) c)" using assms(3) pow_split [of i j c] by simp
  then have "c = (STEP ^^ (j - i)) c" by (rule pow_cancel [OF assms(1) STEP_pow_below [OF assms(1)]])
  moreover have "(STEP ^^ (j - i)) c \<noteq> c" using period(3) [OF assms(1), of "j - i"] assms(2-4) by simp
  ultimately show False by simp
qed

section \<open>A memory that works\<close>

text \<open>What the test demands of the memory, words and bytes apart: a read returns what was last written.\<close>

locale good_ram =
  fixes r :: "'m ram"
  assumes ld_st: "ld r (st r m i v) j = (if j = i then v else ld r m j)"
    and ldb_stb: "ldb r (stb r m a b) j = (if j = a then b else ldb r m j)"
begin

lemma fill_words_below: "j < i \<Longrightarrow> ld r (fill_words r n i f m) j = ld r m j"
proof (induction "n - i" arbitrary: i f m)
  case 0
  then show ?case by (subst fill_words.simps) simp
next
  case (Suc k)
  then show ?case by (subst fill_words.simps) (simp add: Let_def ld_st)
qed

lemma words_pass: "check_words r n i f (fill_words r n i f m)"
proof (induction "n - i" arbitrary: i f m)
  case 0
  then show ?case by (subst check_words.simps) simp
next
  case (Suc k)
  have "check_words r n (i + 1) (STEP f) (fill_words r n (i + 1) (STEP f) (st r m i (STEP f)))" using Suc by simp
  then show ?case
    using Suc.hyps(2) by (subst check_words.simps, subst (1 2) fill_words.simps) (simp add: Let_def fill_words_below ld_st)
qed

lemma fill_triples_below: "j < i \<Longrightarrow> ld r (fill_triples r n i f m) j = ld r m j"
proof (induction "n - i" arbitrary: i f m rule: less_induct)
  case less
  show ?case
  proof (cases "i + 3 < n")
    case True
    then have "n - (i + 3) < n - i" by simp
    from less.hyps [OF this] less.prems show ?thesis
      by (subst fill_triples.simps) (simp add: Let_def ld_st)
  next
    case False
    then show ?thesis by (subst fill_triples.simps) simp
  qed
qed

lemma triples_pass: "check_triples r n i f (fill_triples r n i f m)"
proof (induction "n - i" arbitrary: i f m rule: less_induct)
  case less
  show ?case
  proof (cases "i + 3 < n")
    case True
    then have "n - (i + 3) < n - i" by simp
    from less.hyps [OF this] True show ?thesis
      by (subst check_triples.simps, subst (1 2 3 4) fill_triples.simps) (simp add: Let_def fill_triples_below ld_st)
  next
    case False
    then show ?thesis by (subst check_triples.simps) simp
  qed
qed

lemma fill_bytes_below: "j < i \<Longrightarrow> ldb r (fill_bytes r n i f m) j = ldb r m j"
proof (induction "n - i" arbitrary: i f m rule: less_induct)
  case less
  show ?case
  proof (cases "i + 3 < n")
    case True
    then have "n - (i + 3) < n - i" by simp
    from less.hyps [OF this] less.prems show ?thesis
      by (subst fill_bytes.simps) (simp add: Let_def ldb_stb)
  next
    case False
    then show ?thesis by (subst fill_bytes.simps) simp
  qed
qed

lemma low_byte_agrees: "(ucast (ucast f :: u8) XOR f) AND 0x0ff = (0 :: u32)"
proof -
  have "bit (0x0ff :: u32) k \<longleftrightarrow> k < 8" for k
    using bit_numeral_mask_iff [of 8 k, where 'a = 32] by (simp add: mask_eq_exp_minus_1)
  then show ?thesis by (intro bit_word_eqI) (auto simp: bit_simps)
qed

lemma bytes_pass: "check_bytes r n i f (fill_bytes r n i f m)"
proof (induction "n - i" arbitrary: i f m rule: less_induct)
  case less
  show ?case
  proof (cases "i + 3 < n")
    case True
    then have "n - (i + 3) < n - i" by simp
    from less.hyps [OF this] True show ?thesis
      by (subst check_bytes.simps, subst (1 2 3 4) fill_bytes.simps) (simp add: Let_def fill_bytes_below ldb_stb low_byte_agrees)
  next
    case False
    then show ?thesis by (subst check_bytes.simps) simp
  qed
qed

text \<open>The values that the fourth test has written after so many steps.\<close>

definition written :: "u32 \<Rightarrow> u32 \<Rightarrow> nat list \<Rightarrow> 'm \<Rightarrow> 'm" where
  "written c d js m = fold (\<lambda>j m. st r m (unat ((STEP ^^ j) c)) ((STEP ^^ j) d)) js m"

lemma ld_written:
  "distinct (map (\<lambda>j. (STEP ^^ j) c) js) \<Longrightarrow> j \<in> set js \<Longrightarrow> ld r (written c d js m) (unat ((STEP ^^ j) c)) = (STEP ^^ j) d"
proof (induction js rule: rev_induct)
  case (snoc k js)
  show ?case
  proof (cases "j = k")
    case False
    then have j: "j \<in> set js" "distinct (map (\<lambda>j. (STEP ^^ j) c) js)" using snoc.prems by auto
    have "(STEP ^^ j) c \<noteq> (STEP ^^ k) c" using snoc.prems(1) imageI [OF j(1), of "\<lambda>j. (STEP ^^ j) c"] by auto
    then show ?thesis using snoc.IH [OF j(2,1)] by (simp add: written_def ld_st flip: word_unat_eq_iff)
  qed (simp add: written_def ld_st)
qed simp

end

text \<open>The mask of the fourth test leaves the values below 2^19 as they are.\<close>

lemma in_range:
  fixes a :: u32
  assumes "unat a < REGS" "amsk = word_of_nat (SDRAM_WORDS - 1)"
  shows "a AND NOT amsk = 0" "a AND amsk = a"
proof -
  have "amsk = mask 19" by (simp add: assms(2) SDRAM_WORDS_def SDRAM_BYTES_def mask_eq_exp_minus_1)
  then have "bit amsk k \<longleftrightarrow> k < 19" for k using bit_numeral_mask_iff [of 19 k, where 'a = 32] by simp
  moreover have "bit a k \<Longrightarrow> k < 19" for k using assms(1) unfolding REGS_def below_iff_bits by (meson not_le)
  ultimately show "a AND NOT amsk = 0" "a AND amsk = a"
    by (intro bit_word_eqI; auto simp: bit_simps)+
qed

lemma STEP_Suc: "STEP ((STEP ^^ k) c) = (STEP ^^ Suc k) c"
  by simp

context good_ram
begin

lemma fill_random_result:
  assumes "unat c < REGS" "amsk = word_of_nat (SDRAM_WORDS - 1)" "k < period c"
  shows "fill_random r amsk c ((STEP ^^ k) c) ((STEP ^^ k) d) m = Some (written c d [Suc k..<Suc (period c)] m)"
  using assms(3)
proof (induction "period c - k" arbitrary: k m)
  case (Suc q)
  let ?a = "(STEP ^^ Suc k) c" and ?d = "(STEP ^^ Suc k) d"
  have a: "unat ?a < REGS" by (rule STEP_pow_below [OF assms(1)])
  have upt: "[Suc k..<Suc (period c)] = Suc k # [Suc (Suc k)..<Suc (period c)]" using Suc.prems by (simp add: upt_conv_Cons del: upt_Suc)
  have one: "fill_random r amsk c ((STEP ^^ k) c) ((STEP ^^ k) d) m
      = (if ?a \<noteq> c then fill_random r amsk c ?a ?d (st r m (unat ?a) ?d) else Some (st r m (unat ?a) ?d))"
    by (subst fill_random.simps) (simp only: Let_def STEP_Suc in_range [OF a assms(2)] simp_thms if_True)
  show ?case
  proof (cases "Suc k = period c")
    case True
    moreover have "[period c..<Suc (period c)] = [period c]" by simp
    ultimately show ?thesis using period(2) [OF assms(1)] by (simp add: one written_def del: upt_Suc funpow.simps)
  next
    case False
    then have "Suc k < period c" using Suc.prems by simp
    moreover from this have "?a \<noteq> c" using period(3) [OF assms(1), of "Suc k"] by simp
    ultimately show ?thesis
      using Suc.hyps(1) [of "Suc k" "st r m (unat ?a) ?d"] Suc.hyps(2) unfolding one
      by (simp add: upt written_def del: upt_Suc funpow.simps)
  qed
qed simp

lemma check_random_result:
  assumes "unat c < REGS" "amsk = word_of_nat (SDRAM_WORDS - 1)" "k < period c"
    and "\<And>j. k < j \<Longrightarrow> j \<le> period c \<Longrightarrow> ld r m (unat ((STEP ^^ j) c)) = (STEP ^^ j) d"
  shows "check_random r amsk c ((STEP ^^ k) c) ((STEP ^^ k) d) m = Some True"
  using assms(3,4)
proof (induction "period c - k" arbitrary: k)
  case (Suc q)
  let ?a = "(STEP ^^ Suc k) c" and ?d = "(STEP ^^ Suc k) d"
  have a: "unat ?a < REGS" by (rule STEP_pow_below [OF assms(1)])
  have "ld r m (unat ?a) = ?d" using Suc.prems(2) [of "Suc k"] Suc.prems(1) by simp
  then have one: "check_random r amsk c ((STEP ^^ k) c) ((STEP ^^ k) d) m
      = (if ?a \<noteq> c then check_random r amsk c ?a ?d m else Some True)"
    by (subst check_random.simps) (simp only: Let_def STEP_Suc in_range [OF a assms(2)] simp_thms if_False)
  show ?case
  proof (cases "Suc k = period c")
    case True
    then show ?thesis using period(2) [OF assms(1)] by (simp add: one del: funpow.simps)
  next
    case False
    then have "Suc k < period c" using Suc.prems by simp
    then show ?thesis
      using Suc.hyps(1) [of "Suc k"] Suc.hyps(2) Suc.prems(2) by (simp add: one del: funpow.simps)
  qed
qed simp

lemma random_passes:
  assumes "unat c < REGS" "amsk = word_of_nat (SDRAM_WORDS - 1)"
  shows "\<exists>m'. fill_random r amsk c c d m = Some m' \<and> check_random r amsk c c d m' = Some True"
proof -
  let ?m = "written c d [Suc 0..<Suc (period c)] m"
  have "distinct (map (\<lambda>j. (STEP ^^ j) c) [Suc 0..<Suc (period c)])"
    unfolding distinct_map by (auto intro!: inj_onI simp del: upt_Suc) (metis distinct_values [OF assms(1)] less_Suc_eq_le linorder_neqE_nat Suc_le_eq)
  then have "ld r ?m (unat ((STEP ^^ j) c)) = (STEP ^^ j) d" if "0 < j" "j \<le> period c" for j
    by (rule ld_written) (use that in auto)
  then have "check_random r amsk c ((STEP ^^ 0) c) ((STEP ^^ 0) d) ?m = Some True"
    by (rule check_random_result [OF assms period(1) [OF assms(1)]])
  moreover have "fill_random r amsk c ((STEP ^^ 0) c) ((STEP ^^ 0) d) m = Some ?m"
    by (rule fill_random_result [OF assms period(1) [OF assms(1)]])
  ultimately show ?thesis by simp
qed

end

section \<open>The memory of the board\<close>

interpretation sdram: good_ram board_ram
proof
  fix m :: "nat \<Rightarrow> u8" and i j v
  show "ld board_ram (st board_ram m i v) j = (if j = i then v else ld board_ram m j)"
  proof (cases "j = i")
    case False
    then have "4 * j + k \<noteq> 4 * i + l" if "k < 4" "l < 4" for k l using that by presburger
    from this [of 0] this [of 1] this [of 2] this [of 3] show ?thesis
      using False by (simp add: board_ram_def)
  qed (simp add: board_ram_def buildword_byte_at [unfolded One_nat_def])
next
  fix m :: "nat \<Rightarrow> u8" and a b j
  show "ldb board_ram (stb board_ram m a b) j = (if j = a then b else ldb board_ram m j)"
    by (simp add: board_ram_def)
qed

section \<open>The turns\<close>

lemma fill_random_back:
  assumes "fill_random r amsk c a d m = Some m'"
  shows "\<exists>k. (STEP ^^ Suc k) a = c"
proof (rule fill_random.raw_induct [of "\<lambda>r amsk c a d m m'. \<exists>k. (STEP ^^ Suc k) a = c", OF _ assms])
  fix f :: "'a ram \<Rightarrow> u32 \<Rightarrow> u32 \<Rightarrow> u32 \<Rightarrow> u32 \<Rightarrow> 'a \<Rightarrow> 'a option" and r amsk c a d m m'
  assume rec: "\<And>r amsk c a d m m'. f r amsk c a d m = Some m' \<Longrightarrow> \<exists>k. (STEP ^^ Suc k) a = c"
    and body: "(let a = STEP a; d = STEP d; m = (if a AND NOT amsk = 0 then st r m (unat (a AND amsk)) d else m)
      in if a \<noteq> c then f r amsk c a d m else Some m) = Some m'"
  show "\<exists>k. (STEP ^^ Suc k) a = c"
  proof (cases "STEP a = c")
    case True
    then show ?thesis by (intro exI [of _ 0]) simp
  next
    case False
    then have "f r amsk c (STEP a) (STEP d) (if STEP a AND NOT amsk = 0 then st r m (unat (STEP a AND amsk)) (STEP d) else m) = Some m'"
      using body by (simp add: Let_def)
    then obtain k where "(STEP ^^ Suc k) (STEP a) = c" using rec by blast
    then show ?thesis by (intro exI [of _ "Suc k"]) (simp add: funpow_swap1)
  qed
qed

lemma random_hangs:
  assumes "REGS \<le> unat c"
  shows "fill_random r amsk c c d m = None"
proof (rule ccontr)
  assume "fill_random r amsk c c d m \<noteq> None"
  then obtain m' where "fill_random r amsk c c d m = Some m'" by auto
  from fill_random_back [OF this] obtain k where "(STEP ^^ Suc k) c = c" ..
  then show False using never_back [OF assms, of k] by simp
qed

lemma turn_result:
  "(unat c < REGS \<longrightarrow> (\<exists>leds m'. memtest_turn board_ram spio c m = Some (True, leds, m')))
   \<and> (REGS \<le> unat c \<longrightarrow> memtest_turn board_ram spio c m = None)"
proof -
  let ?m = "fill_bytes board_ram SDRAM_BYTES 0 (c + 19)
     (fill_triples board_ram SDRAM_WORDS 0 (c + 4) (fill_words board_ram SDRAM_WORDS 0 c m))"
  have turn: "memtest_turn board_ram spio c m =
      (let amsk = word_of_nat (SDRAM_WORDS - 1) :: u32
       in case fill_random board_ram amsk c c (c + 23) ?m of None \<Rightarrow> None
          | Some m \<Rightarrow>
              (case check_random board_ram amsk c c (c + 23) m of None \<Rightarrow> None
               | Some False \<Rightarrow> Some (False, [0x0e00, 0x0e08, 0x0e02, 0x0e04, 0x0e06], m)
               | Some True \<Rightarrow>
                   Some (True, [0x0e00, 0x0e08, 0x0e02, 0x0e04, 0x0e06, 0x0e0e,
                     if spio AND 0x01 \<noteq> 0 then 0x100 else 0x101], m)))"
    by (simp only: memtest_turn_def Let_def sdram.words_pass sdram.triples_pass sdram.bytes_pass simp_thms if_False)
  show ?thesis
    using sdram.random_passes [OF _ refl, of c "c + 23" ?m] random_hangs [of c board_ram _ "c + 23" ?m]
    unfolding turn Let_def by fastforce
qed

lemma next_turn:
  "memtest r spio n m = Some (c, True, m') \<Longrightarrow>
   memtest r spio (Suc n) m = map_option (\<lambda>(ok, _, m). (next_count c, ok, m)) (memtest_turn r (spio n) (next_count c) m')"
  by simp

lemma next_count_nat:
  assumes "Suc n \<le> REGS"
  shows "next_count (word_of_nat n) = word_of_nat (Suc n)" "unat (word_of_nat (Suc n) :: u32) = Suc n"
proof -
  show u: "unat (word_of_nat (Suc n) :: u32) = Suc n" using assms by (intro unat_of_nat_u32) (simp add: REGS_def)
  have "word_of_nat n + 1 = (word_of_nat (Suc n) :: u32)" by (simp add: add.commute)
  moreover have "(word_of_nat (Suc n) :: u32) \<noteq> 0" using u by (metis nat.distinct(1) unsigned_0)
  ultimately show "next_count (word_of_nat n) = word_of_nat (Suc n)" by (simp only: next_count.simps if_False)
qed

lemma turns_before:
  "n < REGS \<Longrightarrow> \<exists>m'. memtest board_ram spio n m = Some (word_of_nat n, True, m')"
proof (induction n)
  case (Suc n)
  then obtain m' where m': "memtest board_ram spio n m = Some (word_of_nat n, True, m')" by auto
  have n: "Suc n \<le> REGS" using Suc.prems by simp
  then have "unat (word_of_nat (Suc n) :: u32) < REGS" using next_count_nat(2) [OF n] Suc.prems by simp
  then obtain leds m2 where "memtest_turn board_ram (spio n) (word_of_nat (Suc n)) m' = Some (True, leds, m2)"
    using turn_result by blast
  then show ?case unfolding next_turn [OF m'] next_count_nat(1) [OF n] by simp
qed simp

text \<open>C40:
  On a memory that works the test passes every one of its first 2^19 - 1 turns, whatever the memory held; the turn after
  them never ends, because the shift register has only 19 bits and no longer comes back to the counter.
\<close>

theorem memtest_passes_then_hangs:
  "(n < 2 ^ 19 \<longrightarrow> (\<exists>m'. memtest board_ram spio n m = Some (word_of_nat n, True, m')))
   \<and> (2 ^ 19 \<le> n \<longrightarrow> memtest board_ram spio n m = None)"
proof -
  have "memtest board_ram spio (REGS + k) m = None" for k
  proof (induction k)
    case 0
    obtain q where q: "REGS = Suc q" by (auto simp: REGS_def)
    then obtain m' where m': "memtest board_ram spio q m = Some (word_of_nat q, True, m')" using turns_before [of q spio m] by auto
    have n: "Suc q \<le> REGS" using q by simp
    have "memtest_turn board_ram (spio q) (word_of_nat (Suc q)) m' = None"
      using turn_result [of "word_of_nat (Suc q)"] next_count_nat(2) [OF n] q by simp
    then show ?case unfolding q add_0_right next_turn [OF m'] next_count_nat(1) [OF n] by simp
  qed simp
  from this [of "n - REGS"] have "memtest board_ram spio n m = None" if "REGS \<le> n" using that by simp
  then show ?thesis using turns_before [of n spio m] by (simp add: REGS_def)
qed

theorem memtest_passes_then_hangs_witness:
  "(\<exists>m'. memtest board_ram (\<lambda>_. 0) 3 (\<lambda>_. 0) = Some (3, True, m')) \<and> memtest board_ram (\<lambda>_. 0) 524288 (\<lambda>_. 0) = None"
  using memtest_passes_then_hangs [of 3 "\<lambda>_. 0" "\<lambda>_. 0"] memtest_passes_then_hangs [of 524288 "\<lambda>_. 0" "\<lambda>_. 0"] by simp

end
