(* ===== verification/Spec2Isabelle.thy ===== *)
theory Spec2Isabelle
  imports ByteOps HexBusSpec HexBusProps HexBusDev FlashDrvr RegDefs TbClock MemSim FlashSpec SdramSim SdSpiProps UartProps Zopcodes Udiv ZipLoad ZipDbgProps Boot ScopeProps MainTbProps HostTools NetUartProps Sockets SyscallProps Calendar CpuTestRun MemTestProps
begin

text \<open>
  ZipStorm-MX: a development of the software that stands around the ZipCPU design for the BlackIce-MX board.
  The repository holds three bodies of C and C++.  \<^verbatim>\<open>sw/host\<close> is what runs on a workstation and reaches the
  board over a serial link; \<^verbatim>\<open>sim\<close> is the C++ models of the chips on the board, which stand beside the
  Verilated design in a simulation; \<^verbatim>\<open>sw/zlib\<close> and \<^verbatim>\<open>sw/board\<close> run on the ZipCPU itself.  File names below are
  those under \<^verbatim>\<open>src/\<close>.

  How the parts meet.  On the host a tool such as \<^verbatim>\<open>zipload\<close> reads a program (\<open>ZipElf\<close>) and calls the flash
  programmer (\<open>FlashDrvr\<close>) and the abstract bus (\<open>DevBus\<close>).  The bus is provided by the hexadecimal
  debugging bus (\<open>HexBus\<close>, made into the abstract bus by \<open>HexBusDev\<close>), which is text over a descriptor
  (\<open>Comms\<close>).  In the simulation the bench (\<open>MainTb\<close>) evaluates the design and calls the model of each chip once per
  clock: the SPI flash (\<open>FlashSim\<close>), the SDRAM (\<open>SdramSim\<close>), the SD card (\<open>SdSpiSim\<close>) and the serial port
  (\<open>UartSim\<close>), and it loads the program that \<open>ZipElf\<close> reads into them.  \<open>MemSim\<close> is the memory and \<open>TbClock\<close> the clock
  generator for benches with several clocks.

  The theories, in the order of their imports.
  \<^item> \<open>Prelude\<close>: the machine integers, the C characters and strings the code uses, byte lanes of a word,
    and the two collections the proofs share, \<^verbatim>\<open>model_defs\<close> and \<^verbatim>\<open>inv_intros\<close>.
  \<^item> \<open>ByteOps\<close>: \<^verbatim>\<open>sw/host/byteswap.cpp\<close> and \<^verbatim>\<open>twoc.cpp\<close>.  Swapping is an involution and a round trip of
    buffers; the two's complement fields read back what was put in.
  \<^item> \<open>Comms\<close>: \<^verbatim>\<open>sw/host/llcomms.cpp\<close>.  The descriptor is the list of events it still delivers and the
    text written to it; it is the blocking socket of \<^verbatim>\<open>NETCOMMS\<close>, and a write on it is complete while it is open.  The code of a bus client is a function from a state to a result and a state, the
    result an exception or a value, composed with \<open>ret\<close>, \<open>throw\<close>, \<open>seq\<close> and \<open>iter\<close>.
  \<^item> \<open>HexBus\<close>: \<^verbatim>\<open>sw/host/hexbus.cpp\<close>, one definition per member function, the state of the class as a
    record.  \<open>HexBusSpec\<close>: the packets of the device as a datatype and the wait for a data word as a
    function on them, which \<^verbatim>\<open>readword\<close> refines.  \<open>HexBusProps\<close>: whole block operations, their errors, what
    they leave in the shadow of the device's address, and the bound of the command buffer.  \<open>HexWire\<close>: the
    text of the device as the board sends it, with the echo of the address before the first word and any white
    space, or none, behind a packet, from which \<^verbatim>\<open>readv\<close> takes its words.
  \<^item> \<open>DevBus\<close>: the abstract class of \<^verbatim>\<open>sw/host/devbus.h\<close> as a record of operations, and the locale
    \<open>devbus_client\<close>: its \<open>fixes\<close> are a bus and a measure of the traffic that is still to come, its \<open>assumes\<close>
    that no operation adds to the measure, that a read that returns takes from it, and which errors occur.  The clients
    prove in it that they come to an end.  \<open>HexBusDev\<close> interprets it on the hex bus, so that what the
    clients prove holds of the code as it is linked.
  \<^item> \<open>RegDefs\<close>: \<^verbatim>\<open>sw/host/regdefs.h\<close> and \<^verbatim>\<open>regdefs.cpp\<close>, the table of registers and its two look-ups.
  \<^item> \<open>FlashDrvr\<close>: \<^verbatim>\<open>sw/host/flashdrvr.cpp\<close>: erase, page program, and the write of a whole range sector by
    sector and page by page, as a client of the abstract bus.  The code reads two variables before they have
    a value, the end of the buffer of a sector and a \<^verbatim>\<open>len\<close> that hides the argument of that name; what they hold is
    an argument (\<open>indeterminate\<close>).  The write ends whatever it is, and the assertion of a page is kept if the
    inner \<^verbatim>\<open>len\<close> holds the outer one, and not in general.
  \<^item> \<open>ZipElf\<close>, \<open>ZipLoad\<close>: both copies of \<^verbatim>\<open>zipelf.cpp\<close> (they differ in one place) and
    \<^verbatim>\<open>sw/host/zipload.cpp\<close> from its command line to the start of the CPU.
  \<^item> \<open>Zopcodes\<close>: \<^verbatim>\<open>sw/host/zopcodes.cpp\<close>, both opcode tables and the printing of an instruction.
  \<^item> \<open>TbClock\<close>, \<open>MemSim\<close>, \<open>FlashSim\<close> with \<open>FlashSpec\<close>, \<open>SdramSim\<close>, \<open>SdSpiSim\<close> with \<open>SdSpiProps\<close>, \<open>UartSim\<close>
    with \<open>UartProps\<close>: the chips of \<^verbatim>\<open>sim/tbclock.h\<close>, \<^verbatim>\<open>memsim.cpp\<close>, \<^verbatim>\<open>flashsim.cpp\<close>, \<^verbatim>\<open>sdramsim.cpp\<close>,
    \<^verbatim>\<open>sdspisim.cpp\<close> and \<^verbatim>\<open>dbluartsim.cpp\<close>.  Each is a record of the members of its class and a function that
    is one call of \<^verbatim>\<open>operator()\<close> or \<^verbatim>\<open>tick\<close>; what a chip promises is stated over whole transactions, lists
    of such calls.  The SD card is read at its pins, bit by bit with both edges of the clock, and has an abstract reset
    machine, an inductive step relation that every clock refines.  The bounds of the serial port include the array in
    which it collects the line it prints.
  \<^item> \<open>Udiv\<close>: \<^verbatim>\<open>sw/zlib/udiv.c\<close> and \<^verbatim>\<open>umod.c\<close>, the 64-bit division of the run-time library, equal to the
    division of words.
  \<^item> \<open>Text\<close>, \<open>Run\<close>: the numbers the programs print, and the whole programs, a function from the state of the link to
    an exception, an exit or a fault, or a value, with the loop over the command line that several of them share.
  \<^item> \<open>ZipDbg\<close>: \<^verbatim>\<open>sw/host/zipdbg.cpp\<close>, the debugger of the CPU on the board, from its command line to the end of its
    loop: what it reads, the screen it draws, the keys and the line it edits; and \<^verbatim>\<open>zipstate.cpp\<close>.  In \<open>ZipDbgProps\<close> the locale
    \<open>board_view\<close> says what a board shows of its memory and of its CPU; the hex bus, through the packets of a board that
    answers, is an interpretation of it.  The screen shows the registers of the board and the words of its memory, each
    with its validity, drawing it only halts the CPU, and a CPU that never stops is given up.  A value typed at the cursor
    is written to the register that the cell shows by its name and value, but for the timers of the user.
  \<^item> \<open>ScopeCls\<close>, \<open>Scopes\<close>, \<open>ScopeProps\<close>: \<^verbatim>\<open>sw/host/scopecls.cpp\<close>, the reader of the logic scopes, with the three scopes
    \<^verbatim>\<open>sdramscope.cpp\<close>, \<^verbatim>\<open>dbgscope.cpp\<close> and \<^verbatim>\<open>spixscope.cpp\<close>.  The file gives the samples back, the printed rows too; a
    compressed scope never marks its trigger.
  \<^item> \<open>Boot\<close>: the boot loader of \<^verbatim>\<open>sw/zlib/crt0.c\<close>.  With a layout as the linker scripts promise it, it puts every part of
    the program in its place and changes nothing else.
  \<^item> \<open>MainTb\<close>: \<^verbatim>\<open>sim/main_tb.cpp\<close>, \<^verbatim>\<open>testb.h\<close> and \<^verbatim>\<open>automaster_tb.cpp\<close>, the bench that puts the chips together: a clock
    with all of them, loading, the instructions for the simulator, the program.  The Verilated design is a parameter, a
    record of the members the bench touches and a function that evaluates it.  In \<open>MainTbProps\<close>: the board holds the
    program that has been loaded, the flash the same as \<open>ZipLoad\<close> writes, and a break of the CPU ends the simulation.
  \<^item> \<open>HostTools\<close>: \<^verbatim>\<open>sw/host/wbregs.cpp\<close>, \<^verbatim>\<open>dumpflash.cpp\<close> and \<^verbatim>\<open>flashid.cpp\<close>.  A register is read by its name, and a dump
    of the flash gives the flash back.
  \<^item> \<open>NetUart\<close>, \<open>NetUartProps\<close>: \<^verbatim>\<open>sw/host/netuart.cpp\<close>, the bridge between the serial line and two clients on the
    network, over a script of what the operating system answers.  Its buffers are never overrun, and two bridges carry what
    the clients of one send to the clients of the other.
  \<^item> \<open>Sockets\<close>: the opening and closing of descriptors in \<^verbatim>\<open>llcomms.cpp\<close>, \<^verbatim>\<open>netuart.cpp\<close> and
    \<^verbatim>\<open>sim/dbluartsim.cpp\<close>, with the calls of the operating system as a record of functions.  The bridge begins its loop with its
    buffers in bounds, the serial port is closed if its peers close, and a link to the network is closed twice.
  \<^item> \<open>Syscalls\<close>, \<open>SyscallProps\<close>, \<open>Calendar\<close>: \<^verbatim>\<open>sw/zlib/syscalls.c\<close>.  Reads deliver what was received with its ends
    of lines made newlines, those excepted that come with the overflow bit of the receive register, what is written can be
    read back, and the time of day is compared with the calendar.
  \<^item> \<open>CpuTest\<close>, \<open>CpuTestRun\<close>: \<^verbatim>\<open>sw/board/cputest.c\<close>: the multiplication in C, which is the upper word of the product,
    and the program around the tests.  What each test has to leave behind is stated apart from the table of the program
    (\<open>test_demands\<close>); it reports success exactly if all of these demands are met, with the number of the tests passed.
  \<^item> \<open>MemTest\<close>, \<open>MemTestProps\<close>: \<^verbatim>\<open>sw/board/memtest.c\<close>.  The locale \<open>good_ram\<close> says what a memory that works does, and is
    interpreted on the bytes of the board; on it the test passes, up to the turn from which its shift register never comes back.
  \<^item> this theory: what holds of the parts together, the clients on the hex bus.

  Conventions.  \<^verbatim>\<open>unsigned\<close> and \<^verbatim>\<open>int\<close> are 32-bit words and \<^verbatim>\<open>long\<close> 64-bit words where they can wrap, bytes
  are 8-bit words; an index or a counter whose bound the code checks is a natural number or an integer.
  An assertion that fails, an access outside an array and a call of \<^verbatim>\<open>exit\<close> inside a function that
  otherwise returns a value are values (\<open>fault\<close>, or the constructors of the error type of the component),
  never left unspecified.  A member that the constructor leaves uninitialised is an argument of the model's
  constructor (\<open>raw\<close>), so that a property holds for every value of it.  Where a theorem is about a loop that waits for a
  device, the number of polls is an argument, and running out of it is the value \<open>Out_of_Fuel\<close>: the
  properties say that with more polls than the link has packets to deliver this value does not occur.
  The block loops of the flash programmer have constant fuel: 16777217 pages and 65537 sectors cover every
  32-bit length, and it is proved that they are not used up.

  Parameters.  The descriptor's events, the files, the ELF library (a record of what \<^verbatim>\<open>libelf\<close> returns for a
  file), the TCP connections of the serial port, and the macros of the generated \<^verbatim>\<open>design.h\<close> are arguments.

  Not modelled.
  \<^item> The Verilated design, generated code that is not under \<^verbatim>\<open>src/\<close>: a parameter of \<open>MainTb\<close>.  So is its call of the
    SDRAM, which has one argument fewer than the operator of that class; the trace file is left out.
  \<^item> The operating system: what its calls return is an argument, in \<open>Comms\<close> and \<open>NetUart\<close> as a script, in \<open>UartSim\<close> and \<open>Sockets\<close>
    as a record of functions.  The handlers of signals are left out.
  \<^item> The failure of a write on an open descriptor, or one that is cut short, in \<open>Comms\<close>; and reading from a \<^verbatim>\<open>TTYCOMMS\<close>, which no
    program creates: it is not blocking, and the code throws there when nothing is waiting.
  \<^item> The tests of \<^verbatim>\<open>cputest.c\<close> and the start of \<^verbatim>\<open>memtest.c\<close>, which are assembly: what a test leaves behind is an argument.
    \<^verbatim>\<open>hello.c\<close> is one call of the C library.  In \<^verbatim>\<open>crt0.c\<close> the entry in assembly, and the branch of the boot loader for a
    DMA controller, which this board does not have.
  \<^item> In the scope reader the date and the text of a time in nanoseconds, which is computed in floating point: they are
    pieces of the file with the number of the clock they stand for.
  \<^item> Throughout: messages, the debugging output under \<^verbatim>\<open>#define\<close>s that are off, and floating-point arithmetic.
\<close>

text \<open>
  C1: \<^verbatim>\<open>FLASHDRVR::write\<close> on the hex bus always returns.  Whatever the link still delivers, given as many polls as
  the link has packets it never runs out of them, uses up no traffic it does not read, and, whatever the
  variables and bytes it reads uninitialised hold, ends with success, failure, a bus error or a failed
  assertion.  When the inner \<^verbatim>\<open>len\<close> of its loop over the pages happens to hold the outer one, as the code
  means it to, its page assertion never fails either.
\<close>
theorem flash_write_on_hexbus:
  assumes "hex_traffic h < polls" "flash_write hexbus_dev polls junk addr len data verify h = (r, h')"
  shows "r \<noteq> Inl Out_of_Fuel \<and> hex_traffic h' \<le> hex_traffic h
     \<and> ((\<forall>l p. inner_len junk l p = l) \<longrightarrow> r \<noteq> Inl Client_Assert)"
  using comes_backD [OF devbus_client.flash_write_comes_back [OF hexdev.devbus_client_axioms assms(1)] assms(2)] by auto

lemma flash_write_on_hexbus_witness:
  "fst (flash_write hexbus_dev 1 demo_junk 0x00200000 4 (\<lambda>_. 0) True (demo_link [])) \<noteq> Inl Out_of_Fuel
   \<and> fst (flash_write hexbus_dev 1 demo_junk 0x00200000 4 (\<lambda>_. 0) True (demo_link [])) \<noteq> Inl Client_Assert"
proof -
  have "hex_traffic (demo_link []) < 1"
    by (simp add: hex_traffic_def demo_link_def hexbus_init_def bufalloc_def rx_size_def)
  moreover have "\<forall>l p. inner_len demo_junk l p = l" by (simp add: demo_junk_def)
  ultimately show ?thesis using flash_write_on_hexbus [OF _ surjective_pairing] by blast
qed

text \<open>
  C10: loading a program always comes to an end.  With any command line, any files and any traffic on the
  link, \<^verbatim>\<open>zipload\<close> on the hex bus never polls for ever: it returns, exits, or stops with an exception of the
  bus or a failed assertion, whatever the variables it reads uninitialised hold; and it never fails the page
  assertion of the flash programmer when the inner \<^verbatim>\<open>len\<close> of \<^verbatim>\<open>FLASHDRVR::write\<close> happens to hold the outer one.
\<close>
theorem zipload_on_hexbus:
  assumes "hex_traffic h < polls" "zipload_main d fs m0 hexbus_dev polls junk argv h = (r, h')"
  shows "r \<noteq> Inl (Thrown Out_of_Fuel) \<and> hex_traffic h' \<le> hex_traffic h
     \<and> ((\<forall>l p. inner_len junk l p = l) \<longrightarrow> r \<noteq> Inl (Thrown Client_Assert))"
  using run_keepsD [OF devbus_client.zipload_keeps [OF hexdev.devbus_client_axioms assms(1)] assms(2)] by auto

lemma zipload_on_hexbus_witness:
  "fst (zipload_main \<lparr>BKRAM_ACCESS = True, FLASH_ACCESS = True\<rparr> (\<lparr>fs_bytes = (\<lambda>_. Some [0x7f, 0x45, 0x4c, 0x46]), fs_readable = (\<lambda>_. True), fs_elf = (\<lambda>_. demo_elf)\<rparr>)
     demo_mem hexbus_dev 1 demo_junk [''zipload'', ''prog''] (demo_link [])) \<noteq> Inl (Thrown Out_of_Fuel)"
proof -
  have "hex_traffic (demo_link []) < 1"
    by (simp add: hex_traffic_def demo_link_def hexbus_init_def bufalloc_def rx_size_def)
  from zipload_on_hexbus [OF this surjective_pairing] show ?thesis by blast
qed

end
